(* ===== verification/Prelude.thy ===== *)
theory Prelude
  imports Complex_Main
begin

text \<open>
  Shared vocabulary of the FluxRadar development: results that can fail, the JavaScript
  string and number operations the sources use, and the list operations several components
  share (keeping the first element per key, grouping by a key in insertion order).

  A JavaScript string is a \<open>char list\<close>: one \<open>char\<close> per UTF-16 code unit, so the model covers
  the strings whose code units are below 256 (Latin-1). \<open>js_lower\<close> and \<open>js_is_space\<close> follow
  ECMAScript on that range.
\<close>

named_theorems model_defs
named_theorems enum_splits

section \<open>Results that can fail\<close>

text \<open>\<open>Inl e\<close> is a thrown error, \<open>Inr v\<close> a returned value.\<close>

fun res_bind :: "'e + 'a \<Rightarrow> ('a \<Rightarrow> 'e + 'b) \<Rightarrow> 'e + 'b" where
  "res_bind (Inl e) f = Inl e"
| "res_bind (Inr v) f = f v"

lemma res_bind_eq_Inr [simp]:
  "res_bind m f = Inr v \<longleftrightarrow> (\<exists>u. m = Inr u \<and> f u = Inr v)"
  by (cases m) auto

lemma res_bind_eq_Inl:
  "res_bind m f = Inl e \<longleftrightarrow> m = Inl e \<or> (\<exists>u. m = Inr u \<and> f u = Inl e)"
  by (cases m) auto

text \<open>\<open>items.forEach(check)\<close>: the first failing check is thrown.\<close>

fun check_each :: "('a \<Rightarrow> 'e + unit) \<Rightarrow> 'a list \<Rightarrow> 'e + unit" where
  "check_each f [] = Inr ()"
| "check_each f (x # xs) = res_bind (f x) (\<lambda>_. check_each f xs)"

lemma check_each_ok [simp]: "check_each f xs = Inr () \<longleftrightarrow> (\<forall>x \<in> set xs. f x = Inr ())"
  by (induction xs) auto

lemma check_each_Inl: "check_each f xs = Inl e \<Longrightarrow> \<exists>x \<in> set xs. f x = Inl e"
  by (induction xs) (auto simp: res_bind_eq_Inl)

text \<open>\<open>items.map(f)\<close> with an \<open>f\<close> that may throw.\<close>

fun map_each :: "('a \<Rightarrow> 'e + 'b) \<Rightarrow> 'a list \<Rightarrow> 'e + 'b list" where
  "map_each f [] = Inr []"
| "map_each f (x # xs) = res_bind (f x) (\<lambda>y. res_bind (map_each f xs) (\<lambda>ys. Inr (y # ys)))"

lemma map_each_Inr: "map_each f xs = Inr ys \<longleftrightarrow> list_all2 (\<lambda>x y. f x = Inr y) xs ys"
proof (induction xs arbitrary: ys)
  case Nil
  then show ?case by auto
next
  case (Cons x xs)
  then show ?case by (cases ys) auto
qed

lemma map_each_mem: "map_each f xs = Inr ys \<Longrightarrow> y \<in> set ys \<Longrightarrow> \<exists>x \<in> set xs. f x = Inr y"
  by (induction xs arbitrary: ys) auto

lemma map_each_length: "map_each f xs = Inr ys \<Longrightarrow> length ys = length xs"
  by (induction xs arbitrary: ys) auto

lemma map_each_total: "(\<forall>x \<in> set xs. \<exists>y. f x = Inr y) \<Longrightarrow> \<exists>ys. map_each f xs = Inr ys"
  by (induction xs) auto

section \<open>Numbers\<close>

text \<open>\<open>Math.round\<close>: the nearest integer, a tie towards plus infinity.\<close>

definition js_round :: "rat \<Rightarrow> int" where
  "js_round x = \<lfloor>x + 1 / 2\<rfloor>"

lemma floor_rat_numeral [simp]:
  "\<lfloor>(numeral a / numeral b :: rat)\<rfloor> = numeral a div numeral b"
  using floor_divide_of_int_eq [of "numeral a" "numeral b", where ?'a = rat] by simp

lemma js_round_of_int [simp]: "js_round (of_int n) = n"
  unfolding js_round_def by linarith

lemma js_round_hundredths [simp]: "js_round (of_int n / 100 * 100) = n"
  by simp

lemma js_round_mono: "x \<le> y \<Longrightarrow> js_round x \<le> js_round y"
  by (simp add: js_round_def floor_mono)

lemma js_round_error: "\<bar>of_int (js_round x) - x\<bar> \<le> 1 / 2"
  unfolding js_round_def by linarith

lemma js_round_nonneg: "0 \<le> x \<Longrightarrow> 0 \<le> js_round x"
  unfolding js_round_def by linarith

lemma js_round_le_int: "x \<le> of_int n \<Longrightarrow> js_round x \<le> n"
  unfolding js_round_def by linarith

lemma of_int_sum_list_map: "(of_int (\<Sum>x \<leftarrow> xs. f x) :: rat) = (\<Sum>x \<leftarrow> xs. of_int (f x))"
  by (induction xs) simp_all

text \<open>Half-up integer division, \<open>floor((2n + d) / 2d)\<close>, is rounding of the exact quotient.\<close>

lemma half_up_div:
  fixes n d :: int
  assumes "0 < d"
  shows "(2 * n + d) div (2 * d) = js_round (of_int n / of_int d)"
proof -
  have "(2 * n + d) div (2 * d) = \<lfloor>(of_int (2 * n + d) :: rat) / of_int (2 * d)\<rfloor>"
    by (rule floor_divide_of_int_eq [symmetric])
  also have "(of_int (2 * n + d) :: rat) / of_int (2 * d) = of_int n / of_int d + 1 / 2"
    using assms by (simp add: field_simps)
  finally show ?thesis by (simp add: js_round_def)
qed

text \<open>Positional notation over natural numbers.\<close>

lemma mixed_radix:
  fixes a b k x y :: nat
  assumes "b < k" "y < k"
  shows "a * k + b = x * k + y \<longleftrightarrow> a = x \<and> b = y"
  using assms
  by (metis add.commute div_less div_mult_self3 add_left_cancel add_0_right less_nat_zero_code)

lemma div_eq_range:
  fixes n k m :: nat
  assumes "0 < k"
  shows "n div k = m \<longleftrightarrow> m * k \<le> n \<and> n < (m + 1) * k"
proof -
  have "n div k = m \<longleftrightarrow> m \<le> n div k \<and> n div k < m + 1" by linarith
  with assms show ?thesis by (simp only: less_eq_div_iff_mult_less_eq div_less_iff_less_mult)
qed

text \<open>A JavaScript number as the sources test it: finite, or NaN / an infinity.\<close>

datatype js_number = Num rat | NonFinite

section \<open>Object property lookup\<close>

text \<open>
  \<open>TABLE[key]\<close> on an object literal finds an own property, or one inherited from
  \<open>Object.prototype\<close>, or \<open>undefined\<close>. The inherited names are the standard ones.
\<close>

datatype 'a js_lookup = Own 'a | Inherited | Undefined

definition object_prototype_names :: "string list" where
  "object_prototype_names =
     [''constructor'', ''__defineGetter__'', ''__defineSetter__'', ''hasOwnProperty'',
      ''__lookupGetter__'', ''__lookupSetter__'', ''isPrototypeOf'', ''propertyIsEnumerable'',
      ''toString'', ''valueOf'', ''__proto__'', ''toLocaleString'']"

definition js_lookup_in :: "(string \<times> 'a) list \<Rightarrow> string \<Rightarrow> 'a js_lookup" where
  "js_lookup_in table key =
     (case map_of table key of
        Some v \<Rightarrow> Own v
      | None \<Rightarrow> if key \<in> set object_prototype_names then Inherited else Undefined)"

lemma js_lookup_in_Own [simp]: "js_lookup_in table key = Own v \<longleftrightarrow> map_of table key = Some v"
  by (simp add: js_lookup_in_def split: option.split)

section \<open>Strings\<close>

abbreviation code_unit :: "char \<Rightarrow> nat" where
  "code_unit \<equiv> of_char"

text \<open>ECMAScript WhiteSpace and LineTerminator below 256: TAB, LF, VT, FF, CR, SP, NBSP.\<close>

definition js_is_space :: "char \<Rightarrow> bool" where
  "js_is_space c \<longleftrightarrow> code_unit c \<in> {9, 10, 11, 12, 13, 32, 160}"

definition js_trim :: "string \<Rightarrow> string" where
  "js_trim s = rev (dropWhile js_is_space (rev (dropWhile js_is_space s)))"

text \<open>\<open>toLowerCase\<close> on a Latin-1 code unit.\<close>

definition js_lower_char :: "char \<Rightarrow> char" where
  "js_lower_char c =
     (let n = code_unit c in
      if (65 \<le> n \<and> n \<le> 90) \<or> (192 \<le> n \<and> n \<le> 222 \<and> n \<noteq> 215) then char_of (n + 32) else c)"

definition js_lower :: "string \<Rightarrow> string" where
  "js_lower = map js_lower_char"

text \<open>\<open>indexOf\<close> of one character, \<open>None\<close> for -1; the split at that index.\<close>

fun index_of :: "'a \<Rightarrow> 'a list \<Rightarrow> nat option" where
  "index_of x [] = None"
| "index_of x (y # ys) = (if x = y then Some 0 else map_option Suc (index_of x ys))"

lemma index_of_None [simp]: "index_of x ys = None \<longleftrightarrow> x \<notin> set ys"
  by (induction ys) auto

lemma index_of_Some:
  "index_of x ys = Some i \<Longrightarrow> i < length ys \<and> ys ! i = x \<and> x \<notin> set (take i ys)"
  by (induction ys arbitrary: i) (auto split: if_splits)

fun starts_with :: "'a list \<Rightarrow> 'a list \<Rightarrow> bool" where
  "starts_with xs [] = True"
| "starts_with [] (p # ps) = False"
| "starts_with (x # xs) (p # ps) = (x = p \<and> starts_with xs ps)"

lemma starts_with_iff: "starts_with xs ps \<longleftrightarrow> (\<exists>rest. xs = ps @ rest)"
  by (induction xs ps rule: starts_with.induct) auto

lemma starts_with_append [simp]: "starts_with (ps @ rest) ps"
  by (auto simp: starts_with_iff)

definition ends_with :: "'a list \<Rightarrow> 'a list \<Rightarrow> bool" where
  "ends_with xs ps = starts_with (rev xs) (rev ps)"

lemma ends_with_iff: "ends_with xs ps \<longleftrightarrow> (\<exists>rest. xs = rest @ ps)"
  by (simp add: ends_with_def starts_with_iff) (metis rev_append rev_rev_ident)

text \<open>\<open>haystack.js_includes(needle)\<close> on strings.\<close>

fun js_includes :: "'a list \<Rightarrow> 'a list \<Rightarrow> bool" where
  "js_includes [] needle = (needle = [])"
| "js_includes (x # xs) needle = (starts_with (x # xs) needle \<or> js_includes xs needle)"

lemma includes_iff: "js_includes xs ps \<longleftrightarrow> (\<exists>a b. xs = a @ ps @ b)"
proof (induction xs)
  case Nil
  then show ?case by auto
next
  case (Cons x xs)
  have "(\<exists>a b. x # xs = a @ ps @ b) \<longleftrightarrow>
      (\<exists>b. x # xs = ps @ b) \<or> (\<exists>a b. xs = a @ ps @ b)"
    by (metis append_Cons append_Nil list.sel(3) neq_Nil_conv)
  with Cons.IH show ?case by (simp add: starts_with_iff)
qed

text \<open>\<open>text.split(separator)\<close> on a single character: never empty, \<open>join\<close> undoes it.\<close>

fun split_on :: "'a \<Rightarrow> 'a list \<Rightarrow> 'a list list" where
  "split_on s [] = [[]]"
| "split_on s (x # xs) =
     (if x = s then [] # split_on s xs
      else (case split_on s xs of [] \<Rightarrow> [[x]] | p # ps \<Rightarrow> (x # p) # ps))"

fun join_with :: "'a list \<Rightarrow> 'a list list \<Rightarrow> 'a list" where
  "join_with s [] = []"
| "join_with s [p] = p"
| "join_with s (p # q # ps) = p @ s @ join_with s (q # ps)"

lemma split_on_nonempty [simp]: "split_on s xs \<noteq> []"
  by (induction xs) (auto split: list.splits)

lemma join_split: "join_with [s] (split_on s xs) = xs"
proof (induction xs)
  case Nil
  then show ?case by simp
next
  case (Cons x xs)
  obtain p ps where eq: "split_on s xs = p # ps" by (cases "split_on s xs") auto
  with Cons.IH show ?case by (cases ps) auto
qed

lemma split_on_parts: "p \<in> set (split_on s xs) \<Longrightarrow> s \<notin> set p"
  by (induction xs arbitrary: p) (auto split: list.splits if_splits)

lemma split_on_no_sep: "s \<notin> set xs \<Longrightarrow> split_on s xs = [xs]"
  by (induction xs) auto

lemma split_on_append_sep: "s \<notin> set xs \<Longrightarrow> split_on s (xs @ s # ys) = xs # split_on s ys"
  by (induction xs) auto

text \<open>\<open>text.split(separator)\<close> on a separator of several characters, scanning from the left.\<close>

function split_str :: "'a \<Rightarrow> 'a list \<Rightarrow> 'a list \<Rightarrow> 'a list list" where
  "split_str s ss [] = [[]]"
| "split_str s ss (x # xs) =
     (if x = s \<and> starts_with xs ss then [] # split_str s ss (drop (length ss) xs)
      else (case split_str s ss xs of [] \<Rightarrow> [[x]] | p # ps \<Rightarrow> (x # p) # ps))"
  by pat_completeness auto
termination by (relation "measure (\<lambda>(s, ss, xs). length xs)") auto

lemma split_str_nonempty [simp]: "split_str s ss xs \<noteq> []"
  by (cases xs) (auto split: list.splits)

lemma split_str_join: "join_with (s # ss) (split_str s ss xs) = xs"
proof (induction s ss xs rule: split_str.induct)
  case (1 s ss)
  then show ?case by simp
next
  case (2 s ss x xs)
  show ?case
  proof (cases "x = s \<and> starts_with xs ss")
    case True
    then obtain rest where rest: "xs = ss @ rest" by (auto simp: starts_with_iff)
    obtain p ps where eq: "split_str s ss rest = p # ps" by (cases "split_str s ss rest") auto
    then show ?thesis using 2(1) [OF True] True rest by simp
  next
    case False
    obtain p ps where eq: "split_str s ss xs = p # ps" by (cases "split_str s ss xs") auto
    then show ?thesis using 2(2) [OF False] False by (cases ps) auto
  qed
qed

lemma split_str_no_sep: "\<not> js_includes xs (s # ss) \<Longrightarrow> split_str s ss xs = [xs]"
  by (induction xs) auto

lemma split_join: "ps \<noteq> [] \<Longrightarrow> \<forall>p \<in> set ps. s \<notin> set p \<Longrightarrow> split_on s (join_with [s] ps) = ps"
  by (induction ps rule: induct_list012) (auto simp: split_on_no_sep split_on_append_sep)

lemma join_nonempty: "ps \<noteq> [] \<Longrightarrow> \<forall>p \<in> set ps. p \<noteq> [] \<Longrightarrow> join_with [s] ps \<noteq> []"
  by (induction ps rule: induct_list012) auto

section \<open>Decimal digits\<close>

definition digit_value :: "char \<Rightarrow> int" where
  "digit_value c = int (code_unit c) - 48"

fun digits_value_from :: "int \<Rightarrow> string \<Rightarrow> int" where
  "digits_value_from acc [] = acc"
| "digits_value_from acc (c # cs) = digits_value_from (10 * acc + digit_value c) cs"

definition digits_value :: "string \<Rightarrow> int" where
  "digits_value = digits_value_from 0"

text \<open>\<open>Number(text)\<close> on the texts that reach it: decimal digits, possibly signed, possibly empty.\<close>

fun js_Number :: "string \<Rightarrow> int" where
  "js_Number [] = 0"
| "js_Number (c # cs) =
     (if c = CHR ''-'' then - digits_value cs
      else if c = CHR ''+'' then digits_value cs
      else digits_value (c # cs))"

definition is_digits :: "string \<Rightarrow> bool" where
  "is_digits s \<longleftrightarrow> list_all (\<lambda>c. 48 \<le> code_unit c \<and> code_unit c \<le> 57) s"

lemma is_digits_simps [simp]:
  "is_digits []" "is_digits (c # s) \<longleftrightarrow> (48 \<le> code_unit c \<and> code_unit c \<le> 57) \<and> is_digits s"
  "is_digits (s @ t) \<longleftrightarrow> is_digits s \<and> is_digits t"
  by (auto simp: is_digits_def list_all_iff)

lemma is_digits_take_drop [simp]: "is_digits s \<Longrightarrow> is_digits (take n s)" "is_digits s \<Longrightarrow> is_digits (drop n s)"
  by (auto simp: is_digits_def list_all_iff dest: in_set_takeD in_set_dropD)

lemma digits_value_from: "digits_value_from acc s = acc * 10 ^ length s + digits_value s"
proof (induction s arbitrary: acc)
  case Nil
  then show ?case by (simp add: digits_value_def)
next
  case (Cons c s)
  have "digits_value (c # s) = digits_value_from (digit_value c) s"
    by (simp add: digits_value_def)
  with Cons.IH [of "10 * acc + digit_value c"] Cons.IH [of "digit_value c"]
  show ?case by (simp add: algebra_simps)
qed

lemma digits_value_append: "digits_value (s @ t) = digits_value s * 10 ^ length t + digits_value t"
proof -
  have "digits_value_from acc (s @ t) = digits_value_from (digits_value_from acc s) t" for acc
    by (induction s arbitrary: acc) auto
  then show ?thesis by (simp add: digits_value_def digits_value_from [of "digits_value_from 0 s"])
qed

lemma digits_value_Nil [simp]: "digits_value [] = 0"
  by (simp add: digits_value_def)

lemma digits_value_Cons: "digits_value (c # s) = digit_value c * 10 ^ length s + digits_value s"
  using digits_value_append [of "[c]" s] by (simp add: digits_value_def)

lemma digits_value_bounds: "is_digits s \<Longrightarrow> 0 \<le> digits_value s \<and> digits_value s < 10 ^ length s"
proof (induction s)
  case (Cons c s)
  then have c: "0 \<le> digit_value c" "digit_value c \<le> 9" and
    s: "0 \<le> digits_value s" "digits_value s < 10 ^ length s"
    by (auto simp: digit_value_def)
  have "digit_value c * 10 ^ length s \<le> 9 * 10 ^ length s"
    by (rule mult_right_mono [OF c(2)]) simp
  moreover have "0 \<le> digit_value c * 10 ^ length s" using c(1) by simp
  ultimately show ?case using s unfolding digits_value_Cons length_Cons power_Suc by linarith
qed simp

lemma js_Number_digits: "is_digits s \<Longrightarrow> js_Number s = digits_value s"
  by (cases s) auto

text \<open>\<open>String(n)\<close> of a natural number: its decimal digits.\<close>

definition digit_char :: "nat \<Rightarrow> char" where
  "digit_char d = char_of (48 + d)"

fun nat_to_string :: "nat \<Rightarrow> string" where
  "nat_to_string n =
     (if n < 10 then [digit_char n] else nat_to_string (n div 10) @ [digit_char (n mod 10)])"

declare nat_to_string.simps [simp del]

lemma code_unit_digit_char [simp]: "d < 10 \<Longrightarrow> code_unit (digit_char d) = 48 + d"
  by (simp add: digit_char_def)

lemma nat_to_string_digits [simp]: "is_digits (nat_to_string n)"
proof (induction n rule: nat_to_string.induct)
  case (1 n)
  have "n mod 10 \<le> 9" by presburger
  with 1 show ?case by (subst nat_to_string.simps) simp
qed

lemma nat_to_string_nonempty [simp]: "nat_to_string n \<noteq> []"
  by (subst nat_to_string.simps) simp

lemma digits_value_single [simp]: "digits_value [c] = digit_value c"
  by (simp add: digits_value_def)

lemma digits_value_nat_to_string [simp]: "digits_value (nat_to_string n) = int n"
proof (induction n rule: nat_to_string.induct)
  case (1 n)
  show ?case
  proof (cases "n < 10")
    case True
    then show ?thesis by (subst nat_to_string.simps) (simp add: digit_value_def)
  next
    case False
    then have "digits_value (nat_to_string (n div 10)) = int (n div 10)" by (rule 1)
    moreover have "digit_value (digit_char (n mod 10)) = int (n mod 10)"
      by (simp add: digit_value_def)
    moreover have "int (n div 10) * 10 + int (n mod 10) = int n" by presburger
    ultimately show ?thesis using False
      by (subst nat_to_string.simps) (simp add: digits_value_append)
  qed
qed

lemma js_Number_nat_to_string [simp]: "js_Number (nat_to_string n) = int n"
  by (simp add: js_Number_digits)

lemma nat_to_string_inj [simp]: "nat_to_string m = nat_to_string n \<longleftrightarrow> m = n"
  by (metis digits_value_nat_to_string of_nat_eq_iff)

lemma is_digits_not_mem: "is_digits s \<Longrightarrow> \<not> (48 \<le> code_unit c \<and> code_unit c \<le> 57) \<Longrightarrow> c \<notin> set s"
  by (auto simp: is_digits_def list_all_iff)

lemma digits_value_snoc: "digits_value (s @ [c]) = 10 * digits_value s + digit_value c"
  by (simp add: digits_value_append)

lemma digits_value_pos: "is_digits s \<Longrightarrow> s \<noteq> [] \<Longrightarrow> hd s \<noteq> CHR ''0'' \<Longrightarrow> 0 < digits_value s"
proof (cases s)
  case (Cons c t)
  assume a: "is_digits s" "hd s \<noteq> CHR ''0''"
  have "0 < digit_value c"
  proof -
    have "code_unit c \<noteq> (48 :: nat)"
    proof
      assume "code_unit c = (48 :: nat)"
      then have "code_unit c = (code_unit (CHR ''0'') :: nat)" by simp
      then have "c = CHR ''0''" by (simp only: of_char_eq_iff)
      then show False using a(2) Cons by simp
    qed
    then show ?thesis using a(1) Cons by (auto simp: digit_value_def)
  qed
  then have "0 < digit_value c * 10 ^ length t" by simp
  moreover have "0 \<le> digits_value t" using digits_value_bounds [of t] a(1) Cons by simp
  ultimately show ?thesis using Cons by (simp add: digits_value_Cons)
qed simp

lemma digit_char_value: "48 \<le> code_unit c \<Longrightarrow> digit_char (nat (digit_value c)) = c"
  by (simp add: digit_char_def digit_value_def nat_diff_distrib)

lemma nat_to_string_canonical:
  "is_digits s \<Longrightarrow> s \<noteq> [] \<Longrightarrow> (1 < length s \<longrightarrow> hd s \<noteq> CHR ''0'') \<Longrightarrow>
    nat_to_string (nat (digits_value s)) = s"
proof (induction s rule: rev_induct)
  case (snoc c t)
  have c: "0 \<le> digit_value c" "digit_value c \<le> 9" "48 \<le> code_unit c" using snoc.prems(1) by (auto simp: digit_value_def)
  show ?case
  proof (cases "t = []")
    case True
    then show ?thesis using c by (subst nat_to_string.simps) (auto simp: digit_char_value)
  next
    case False
    with snoc.prems have t: "is_digits t" "hd t \<noteq> CHR ''0''" by auto
    define m where "m = nat (digits_value t)"
    have "0 < digits_value t" by (rule digits_value_pos) (use t False in auto)
    then have m: "digits_value t = int m" "0 < m" by (simp_all add: m_def)
    have IH: "nat_to_string m = t" unfolding m_def using snoc.IH t False by blast
    define d where "d = nat (digit_value c)"
    have d: "digit_value c = int d" "d < 10" using c by (auto simp: d_def)
    have "nat (digits_value (t @ [c])) = 10 * m + d" by (simp add: digits_value_snoc m d nat_add_distrib nat_mult_distrib)
    then show ?thesis
      using m(2) d(2) IH digit_char_value [OF c(3)] unfolding d_def [symmetric]
      by (subst nat_to_string.simps) simp
  qed
qed simp

lemma nat_to_string_hd: "0 < n \<Longrightarrow> hd (nat_to_string n) \<noteq> CHR ''0''"
proof (induction n rule: nat_to_string.induct)
  case (1 n)
  show ?case
  proof (cases "n < 10")
    case True
    have "code_unit (digit_char n) \<noteq> code_unit (CHR ''0'')" unfolding code_unit_digit_char [OF True] using 1 by simp
    then have "digit_char n \<noteq> CHR ''0''" by metis
    then show ?thesis using True by (subst nat_to_string.simps) simp
  next
    case False
    then have "hd (nat_to_string (n div 10)) \<noteq> CHR ''0''" using 1(1) by simp
    then show ?thesis using False by (subst nat_to_string.simps) simp
  qed
qed

lemma nat_to_string_length: "0 < k \<Longrightarrow> n < 10 ^ k \<Longrightarrow> length (nat_to_string n) \<le> k"
proof (induction n arbitrary: k rule: nat_to_string.induct)
  case (1 n)
  show ?case
  proof (cases "n < 10")
    case True
    with 1 show ?thesis by (subst nat_to_string.simps) simp
  next
    case False
    obtain j where j: "k = Suc j" using 1(2) by (cases k) auto
    have "j \<noteq> 0" using False 1(3) j by (intro notI) simp
    then have k: "k = Suc j" "0 < j" using j by simp_all
    with 1(3) have "n div 10 < 10 ^ j" by (simp add: div_less_iff_less_mult mult.commute)
    with 1(1) [OF False _ this] k False show ?thesis by (subst nat_to_string.simps) simp
  qed
qed

section \<open>First element per key\<close>

text \<open>
  The sources' recurring loop \<open>if (seen.has(key)) skip; seen.add(key)\<close>, with the set of keys
  seen so far as its state.
\<close>

fun first_by :: "('a \<Rightarrow> 'k) \<Rightarrow> 'k set \<Rightarrow> 'a list \<Rightarrow> 'a list" where
  "first_by key seen [] = []"
| "first_by key seen (x # xs) =
     (if key x \<in> seen then first_by key seen xs
      else x # first_by key (insert (key x) seen) xs)"

lemma first_by_subset: "set (first_by key seen xs) \<subseteq> set xs"
  by (induction xs arbitrary: seen) auto

lemma first_by_keys: "key ` set (first_by key seen xs) = key ` set xs - seen"
  by (induction xs arbitrary: seen) auto

lemma first_by_distinct: "distinct (map key (first_by key seen xs))"
proof (induction xs arbitrary: seen)
  case Nil
  then show ?case by simp
next
  case (Cons x xs)
  have "key x \<notin> key ` set (first_by key (insert (key x) seen) xs)"
    by (simp add: first_by_keys)
  with Cons.IH show ?case by auto
qed

lemma first_by_id: "distinct (map key xs) \<Longrightarrow> key ` set xs \<inter> seen = {} \<Longrightarrow> first_by key seen xs = xs"
  by (induction xs arbitrary: seen) auto

lemma first_by_idem: "first_by key {} (first_by key {} xs) = first_by key {} xs"
  by (rule first_by_id) (auto simp: first_by_distinct)

section \<open>Grouping by a key, in insertion order\<close>

text \<open>\<open>groups.set(k, [...(groups.get(k) ?? []), x])\<close> on an insertion-ordered \<open>Map\<close>.\<close>

fun group_add :: "'k \<Rightarrow> 'a \<Rightarrow> ('k \<times> 'a list) list \<Rightarrow> ('k \<times> 'a list) list" where
  "group_add k x [] = [(k, [x])]"
| "group_add k x ((k', xs) # gs) =
     (if k = k' then (k', xs @ [x]) # gs else (k', xs) # group_add k x gs)"

definition group_by :: "('a \<Rightarrow> 'k) \<Rightarrow> 'a list \<Rightarrow> ('k \<times> 'a list) list" where
  "group_by key xs = fold (\<lambda>x gs. group_add (key x) x gs) xs []"

lemma group_add_keys: "set (map fst (group_add k x gs)) = insert k (set (map fst gs))"
  by (induction k x gs rule: group_add.induct) auto

lemma group_add_distinct: "distinct (map fst gs) \<Longrightarrow> distinct (map fst (group_add k x gs))"
proof (induction k x gs rule: group_add.induct)
  case (2 k x k' xs gs)
  then show ?case using group_add_keys [of k x gs] by auto
qed simp

lemma group_add_map_of:
  "map_of (group_add k x gs) =
     (map_of gs)(k \<mapsto> (case map_of gs k of None \<Rightarrow> [] | Some xs \<Rightarrow> xs) @ [x])"
  by (induction k x gs rule: group_add.induct) (auto simp: fun_eq_iff)

lemma group_fold_distinct:
  "distinct (map fst gs) \<Longrightarrow> distinct (map fst (fold (\<lambda>x gs. group_add (key x) x gs) xs gs))"
  by (induction xs arbitrary: gs) (auto simp: group_add_distinct)

lemma group_fold_map_of:
  "map_of (fold (\<lambda>x gs. group_add (key x) x gs) xs gs) k =
     (if filter (\<lambda>x. key x = k) xs = [] then map_of gs k
      else Some ((case map_of gs k of None \<Rightarrow> [] | Some ys \<Rightarrow> ys) @ filter (\<lambda>x. key x = k) xs))"
  by (induction xs arbitrary: gs) (auto simp: group_add_map_of split: option.splits)

lemma group_by_distinct: "distinct (map fst (group_by key xs))"
  by (simp add: group_by_def group_fold_distinct)

lemma group_by_map_of:
  "map_of (group_by key xs) k =
     (let ys = filter (\<lambda>x. key x = k) xs in if ys = [] then None else Some ys)"
  by (simp add: group_by_def group_fold_map_of Let_def)

lemma group_by_mem: "(k, ys) \<in> set (group_by key xs) \<longleftrightarrow> ys = filter (\<lambda>x. key x = k) xs \<and> ys \<noteq> []"
proof -
  have "(k, ys) \<in> set (group_by key xs) \<longleftrightarrow> map_of (group_by key xs) k = Some ys"
    by (metis group_by_distinct map_of_SomeD map_of_is_SomeI)
  then show ?thesis by (auto simp: group_by_map_of Let_def split: if_splits)
qed

lemma group_by_keys: "fst ` set (group_by key xs) = key ` set xs"
proof -
  have "k \<in> fst ` set (group_by key xs) \<longleftrightarrow> k \<in> key ` set xs" for k
  proof -
    have "k \<in> fst ` set (group_by key xs) \<longleftrightarrow> (\<exists>ys. (k, ys) \<in> set (group_by key xs))" by force
    also have "\<dots> \<longleftrightarrow> filter (\<lambda>x. key x = k) xs \<noteq> []" by (simp add: group_by_mem)
    also have "\<dots> \<longleftrightarrow> k \<in> key ` set xs" by (auto simp: filter_empty_conv)
    finally show ?thesis .
  qed
  then show ?thesis by blast
qed

section \<open>Slices of a fixed size\<close>

text \<open>\<open>Math.ceil(items.length / size)\<close> slices.\<close>

definition chunked :: "'a list \<Rightarrow> nat \<Rightarrow> 'a list list" where
  "chunked items chunk =
     map (\<lambda>index. take chunk (drop (index * chunk) items)) [0 ..< (length items + chunk - 1) div chunk]"

lemma chunked_concat: "0 < chunk \<Longrightarrow> concat (chunked items chunk) = items"
proof -
  assume pos: "0 < chunk"
  have part: "concat (map (\<lambda>i. take chunk (drop (i * chunk) items)) [0 ..< n]) = take (n * chunk) items" for n
  proof (induction n)
    case (Suc n)
    have "take (Suc n * chunk) items = take (n * chunk) items @ take chunk (drop (n * chunk) items)"
      using take_add [of "n * chunk" chunk items] by (simp add: add.commute)
    with Suc show ?case by simp
  qed simp
  have "length items \<le> ((length items + chunk - 1) div chunk) * chunk"
  proof -
    let ?m = "length items + chunk - 1"
    have "?m div chunk * chunk = ?m - ?m mod chunk" by (rule minus_mod_eq_div_mult [symmetric])
    moreover have "?m mod chunk < chunk" using pos by (rule mod_less_divisor)
    ultimately show ?thesis by linarith
  qed
  then show ?thesis by (simp add: chunked_def part)
qed

end
