(* ===== verification/Contracts.thy ===== *)
theory Contracts
  imports Prelude
begin

text \<open>
  The contracts package (packages/contracts/src): the closed sets of statuses, plans, modules
  and severities (enums.ts), the scan transition table (statuses.ts), severity weights
  (severity.ts), the tariff matrix (tariffs.ts), the reading of a stored plan (stored-plan.ts),
  the Free display score (free-score.ts), resource limits (limits.ts) and the coverage figures
  of a crawl summary (crawl-summary.ts). A score weight is the exact rational the source
  writes in decimal.
\<close>

section \<open>Closed sets (enums.ts)\<close>

datatype scan_runtime_status =
  SPending | SQueued | SRunning | SPartial | SCompleted | SFailed | SCancelled

definition SCAN_RUNTIME_STATUSES :: "scan_runtime_status list" where
  "SCAN_RUNTIME_STATUSES =
     [SPending, SQueued, SRunning, SPartial, SCompleted, SFailed, SCancelled]"

definition SCAN_EXPORT_STATUSES :: "scan_runtime_status list" where
  "SCAN_EXPORT_STATUSES = [SPartial, SCompleted, SFailed, SCancelled]"

datatype module_runtime_status =
  MPending | MRunning | MCompleted | MPartial | MUnavailable | MNotApplicable

definition MODULE_EXPORT_STATUSES :: "module_runtime_status list" where
  "MODULE_EXPORT_STATUSES = [MCompleted, MPartial, MUnavailable, MNotApplicable]"

datatype issue_status =
  New | Acknowledged | Resolved | Reopened | Ignored | FalsePositive

datatype severity = Critical | High | Medium | Low

definition SEVERITIES :: "severity list" where
  "SEVERITIES = [Critical, High, Medium, Low]"

fun severity_string :: "severity \<Rightarrow> string" where
  "severity_string Critical = ''Critical''"
| "severity_string High = ''High''"
| "severity_string Medium = ''Medium''"
| "severity_string Low = ''Low''"

datatype plan = Free | Basic | Complete

fun plan_string :: "plan \<Rightarrow> string" where
  "plan_string Free = ''Free''"
| "plan_string Basic = ''Basic''"
| "plan_string Complete = ''Complete''"

definition PLANS :: "plan list" where
  "PLANS = [Free, Basic, Complete]"

definition isPlan :: "string \<Rightarrow> bool" where
  "isPlan value \<longleftrightarrow> value \<in> set (map plan_string PLANS)"

datatype plan_error = UnknownPlan string

fun plan_of_string :: "string \<Rightarrow> plan option" where
  "plan_of_string s = find (\<lambda>p. plan_string p = s) PLANS"

definition parsePlan :: "string \<Rightarrow> plan_error + plan" where
  "parsePlan value =
     (case plan_of_string value of None \<Rightarrow> Inl (UnknownPlan value) | Some p \<Rightarrow> Inr p)"

datatype target_kind = PageTarget | SiteTarget | ApiTarget | EnvironmentTarget

datatype refund_reason_code =
  PRE_QUEUE_CANCEL | PLATFORM_FAILURE_AFTER_RETRY | EXTERNAL_NO_USABLE_OUTPUT | LEGAL_SUPPORT

datatype audit_module =
  SEO | AiSeoGeo | Security | Performance | Accessibility | Reliability
| ContentQuality | Privacy | UxConversion | Analytics

definition MODULE_NAMES :: "audit_module list" where
  "MODULE_NAMES =
     [SEO, AiSeoGeo, Security, Performance, Accessibility, Reliability,
      ContentQuality, Privacy, UxConversion, Analytics]"

lemma MODULE_NAMES_all [simp]: "m \<in> set MODULE_NAMES"
  by (cases m) (simp_all add: MODULE_NAMES_def)

lemma MODULE_NAMES_distinct [simp]: "distinct MODULE_NAMES"
  by (simp add: MODULE_NAMES_def)

lemma plan_string_inject [simp]: "plan_string p = plan_string q \<longleftrightarrow> p = q"
  by (cases p; cases q) simp_all

lemma plan_of_string_Some: "plan_of_string s = Some p \<longleftrightarrow> s = plan_string p"
  by (cases p) (auto simp: PLANS_def)

lemma isPlan_iff: "isPlan s \<longleftrightarrow> (\<exists>p. s = plan_string p)"
proof
  assume "isPlan s"
  then show "\<exists>p. s = plan_string p" by (auto simp: isPlan_def)
next
  assume "\<exists>p. s = plan_string p"
  then obtain p where "s = plan_string p" ..
  then show "isPlan s" by (cases p) (simp_all add: isPlan_def PLANS_def)
qed

section \<open>Scan state machine (statuses.ts)\<close>

fun SCAN_TRANSITIONS :: "scan_runtime_status \<Rightarrow> scan_runtime_status list" where
  "SCAN_TRANSITIONS SPending = [SQueued, SCancelled]"
| "SCAN_TRANSITIONS SQueued = [SRunning, SCancelled]"
| "SCAN_TRANSITIONS SRunning = [SCompleted, SPartial, SFailed, SCancelled]"
| "SCAN_TRANSITIONS SPartial = [SRunning]"
| "SCAN_TRANSITIONS SFailed = [SQueued]"
| "SCAN_TRANSITIONS SCompleted = []"
| "SCAN_TRANSITIONS SCancelled = []"

definition canTransition :: "scan_runtime_status \<Rightarrow> scan_runtime_status \<Rightarrow> bool" where
  "canTransition from_status to_status \<longleftrightarrow> to_status \<in> set (SCAN_TRANSITIONS from_status)"

definition isTerminalScanStatus :: "scan_runtime_status \<Rightarrow> bool" where
  "isTerminalScanStatus status \<longleftrightarrow> length (SCAN_TRANSITIONS status) = 0"

lemma isTerminalScanStatus_iff: "isTerminalScanStatus s \<longleftrightarrow> s = SCompleted \<or> s = SCancelled"
  by (cases s) (simp_all add: isTerminalScanStatus_def)

lemma canTransition_irrefl [simp]: "\<not> canTransition s s"
  by (cases s) (simp_all add: canTransition_def)

section \<open>Severity (severity.ts)\<close>

fun SEVERITY_WEIGHTS :: "severity \<Rightarrow> int" where
  "SEVERITY_WEIGHTS Critical = 25"
| "SEVERITY_WEIGHTS High = 10"
| "SEVERITY_WEIGHTS Medium = 3"
| "SEVERITY_WEIGHTS Low = 1"

definition severityRank :: "string option \<Rightarrow> nat" where
  "severityRank severity =
     (case severity of
        None \<Rightarrow> length SEVERITIES
      | Some s \<Rightarrow> (case index_of s (map severity_string SEVERITIES) of
                   None \<Rightarrow> length SEVERITIES | Some index \<Rightarrow> index))"

lemma SEVERITY_WEIGHTS_pos [simp]: "0 < SEVERITY_WEIGHTS s"
  by (cases s) simp_all

lemma SEVERITY_WEIGHTS_le [simp]: "SEVERITY_WEIGHTS s \<le> 25"
  by (cases s) simp_all

lemma SEVERITY_WEIGHTS_inject [simp]: "SEVERITY_WEIGHTS s = SEVERITY_WEIGHTS t \<longleftrightarrow> s = t"
  by (cases s; cases t) simp_all

lemma severityRank_string [simp]:
  "severityRank (Some (severity_string s)) =
     (case s of Critical \<Rightarrow> 0 | High \<Rightarrow> 1 | Medium \<Rightarrow> 2 | Low \<Rightarrow> 3)"
  by (cases s) (simp_all add: severityRank_def SEVERITIES_def)

lemma severityRank_weight_order:
  "severityRank (Some (severity_string s)) < severityRank (Some (severity_string t)) \<longleftrightarrow>
     SEVERITY_WEIGHTS t < SEVERITY_WEIGHTS s"
  unfolding severityRank_string by (cases s; cases t) simp_all

section \<open>Tariff matrix (tariffs.ts)\<close>

definition ENTITLEMENT_DAYS :: int where
  "ENTITLEMENT_DAYS = 30"

record tariff_capabilities =
  scanHistory :: bool
  issueHistory :: bool
  export :: bool
  actionPlan :: bool
  whiteLabel :: bool

datatype tariff_capability = ScanHistory | IssueHistory | Export | ActionPlan | WhiteLabel

fun capability_of :: "tariff_capabilities \<Rightarrow> tariff_capability \<Rightarrow> bool" where
  "capability_of c ScanHistory = scanHistory c"
| "capability_of c IssueHistory = issueHistory c"
| "capability_of c Export = export c"
| "capability_of c ActionPlan = actionPlan c"
| "capability_of c WhiteLabel = whiteLabel c"

definition NO_CAPABILITIES :: tariff_capabilities where
  "NO_CAPABILITIES =
     \<lparr>scanHistory = False, issueHistory = False, export = False, actionPlan = False,
      whiteLabel = False\<rparr>"

definition BASIC_CAPABILITIES :: tariff_capabilities where
  "BASIC_CAPABILITIES =
     \<lparr>scanHistory = False, issueHistory = False, export = False, actionPlan = True,
      whiteLabel = False\<rparr>"

definition FULL_REPORT_CAPABILITIES :: tariff_capabilities where
  "FULL_REPORT_CAPABILITIES =
     \<lparr>scanHistory = True, issueHistory = True, export = True, actionPlan = True,
      whiteLabel = True\<rparr>"

type_synonym score_weights = "(audit_module \<times> rat) list"

record tariff_definition =
  tariff_plan :: plan
  label :: string
  priceUsd :: int
  modules :: "audit_module list"
  scoreWeights :: score_weights
  previewModules :: "audit_module list"
  urlLimit :: nat
  aiRequestLimit :: nat
  retentionDays :: nat
  capabilities :: tariff_capabilities

definition SIDE_SCORE_MODULES :: "audit_module list" where
  "SIDE_SCORE_MODULES = [UxConversion, Analytics]"

definition COMPLETE_SCORE_WEIGHTS :: score_weights where
  "COMPLETE_SCORE_WEIGHTS =
     [(SEO, 20 / 100), (AiSeoGeo, 15 / 100), (Security, 20 / 100), (Performance, 15 / 100),
      (Accessibility, 10 / 100), (Reliability, 10 / 100), (ContentQuality, 5 / 100),
      (Privacy, 5 / 100)]"

definition normalizeScoreWeights :: "score_weights \<Rightarrow> audit_module list \<Rightarrow> score_weights" where
  "normalizeScoreWeights weights stored =
     (let kept = filter (\<lambda>(m, _). m \<in> set stored) weights;
          total = sum_list (map snd kept)
      in if total \<le> 0 then [] else map (\<lambda>(m, w). (m, w / total)) kept)"

fun TARIFFS :: "plan \<Rightarrow> tariff_definition" where
  "TARIFFS Free =
     \<lparr>tariff_plan = Free, label = ''Free'', priceUsd = 0, modules = [SEO],
      scoreWeights = [(SEO, 1)], previewModules = [AiSeoGeo], urlLimit = 1,
      aiRequestLimit = 2, retentionDays = 30, capabilities = NO_CAPABILITIES\<rparr>"
| "TARIFFS Basic =
     \<lparr>tariff_plan = Basic, label = ''Basic Scan'', priceUsd = 39, modules = [SEO, AiSeoGeo],
      scoreWeights = [(SEO, 6 / 10), (AiSeoGeo, 4 / 10)], previewModules = [], urlLimit = 5000,
      aiRequestLimit = 50, retentionDays = 30, capabilities = BASIC_CAPABILITIES\<rparr>"
| "TARIFFS Complete =
     \<lparr>tariff_plan = Complete, label = ''Complete Scan'', priceUsd = 87,
      modules = [SEO, AiSeoGeo, Security, Performance, Accessibility, Reliability,
                 ContentQuality, Privacy, UxConversion, Analytics],
      scoreWeights = COMPLETE_SCORE_WEIGHTS, previewModules = [], urlLimit = 50000,
      aiRequestLimit = 500, retentionDays = 365, capabilities = FULL_REPORT_CAPABILITIES\<rparr>"

text \<open>
  \<open>TARIFFS[plan as Plan]\<close> with an arbitrary string as key. A name inherited from
  \<open>Object.prototype\<close> yields a value that is not a tariff: reading \<open>capabilities[c]\<close> or
  \<open>modules.includes\<close> from it is a \<open>TypeError\<close>.
\<close>

definition tariff_lookup :: "string \<Rightarrow> tariff_definition js_lookup" where
  "tariff_lookup plan = js_lookup_in (map (\<lambda>p. (plan_string p, TARIFFS p)) PLANS) plan"

datatype js_exception = TypeError

definition planSupports :: "string \<Rightarrow> tariff_capability \<Rightarrow> js_exception + bool" where
  "planSupports plan capability =
     (case tariff_lookup plan of
        Own tariff \<Rightarrow> Inr (capability_of (capabilities tariff) capability)
      | Inherited \<Rightarrow> Inl TypeError
      | Undefined \<Rightarrow> Inr False)"

definition planRunsModule :: "string \<Rightarrow> audit_module \<Rightarrow> js_exception + bool" where
  "planRunsModule plan m =
     (case tariff_lookup plan of
        Own tariff \<Rightarrow> Inr (m \<in> set (modules tariff))
      | Inherited \<Rightarrow> Inl TypeError
      | Undefined \<Rightarrow> Inr False)"

definition planPreviewModules :: "string \<Rightarrow> audit_module list" where
  "planPreviewModules plan =
     (case tariff_lookup plan of Own tariff \<Rightarrow> previewModules tariff | _ \<Rightarrow> [])"

lemma tariff_lookup_plan [simp]: "tariff_lookup (plan_string p) = Own (TARIFFS p)"
  by (cases p) (simp_all add: tariff_lookup_def PLANS_def)

lemma tariff_lookup_Own: "tariff_lookup s = Own t \<longleftrightarrow> (\<exists>p. s = plan_string p \<and> t = TARIFFS p)"
proof
  assume "tariff_lookup s = Own t"
  then have "(s, t) \<in> set (map (\<lambda>p. (plan_string p, TARIFFS p)) PLANS)"
    by (auto simp: tariff_lookup_def dest: map_of_SomeD)
  then show "\<exists>p. s = plan_string p \<and> t = TARIFFS p" by auto
qed auto

lemma planPreviewModules_plan [simp]:
  "planPreviewModules (plan_string p) = previewModules (TARIFFS p)"
  by (simp add: planPreviewModules_def)

lemma normalizeScoreWeights_sum:
  "(\<And>m w. (m, w) \<in> set weights \<Longrightarrow> 0 \<le> w) \<Longrightarrow> normalizeScoreWeights weights stored \<noteq> [] \<Longrightarrow>
     sum_list (map snd (normalizeScoreWeights weights stored)) = 1"
proof -
  assume ne: "normalizeScoreWeights weights stored \<noteq> []"
  define kept where "kept = filter (\<lambda>(m, _). m \<in> set stored) weights"
  define total where "total = sum_list (map snd kept)"
  from ne have pos: "0 < total"
    by (auto simp: normalizeScoreWeights_def kept_def total_def Let_def split: if_splits)
  have "sum_list (map (\<lambda>(m, w). w / total) kept) = sum_list (map snd kept) / total"
    by (induction kept) (auto simp: add_divide_distrib)
  moreover have "map snd (normalizeScoreWeights weights stored) = map (\<lambda>(m, w). w / total) kept"
    using pos by (auto simp: normalizeScoreWeights_def Let_def kept_def total_def comp_def split_def)
  ultimately show ?thesis using pos by (simp add: total_def)
qed

lemma normalizeScoreWeights_keys:
  "fst ` set (normalizeScoreWeights weights stored) \<subseteq> fst ` set weights \<inter> set stored"
  by (force simp: normalizeScoreWeights_def Let_def image_iff split: if_splits)

section \<open>Stored plans (stored-plan.ts)\<close>

datatype stored_plan = Current plan | WebsiteAudit | Legacy

definition isLegacyPlan :: "stored_plan \<Rightarrow> bool" where
  "isLegacyPlan p \<longleftrightarrow> p = WebsiteAudit \<or> p = Legacy"

fun stored_plan_string :: "stored_plan \<Rightarrow> string" where
  "stored_plan_string (Current p) = plan_string p"
| "stored_plan_string WebsiteAudit = ''WebsiteAudit''"
| "stored_plan_string Legacy = ''Legacy''"

definition readStoredPlan :: "string \<Rightarrow> stored_plan" where
  "readStoredPlan value =
     (case plan_of_string value of
        Some p \<Rightarrow> Current p
      | None \<Rightarrow> if value = ''WebsiteAudit'' then WebsiteAudit else Legacy)"

fun storedPlanLabel :: "stored_plan \<Rightarrow> string" where
  "storedPlanLabel (Current p) = label (TARIFFS p)"
| "storedPlanLabel WebsiteAudit = ''Website Audit (archived)''"
| "storedPlanLabel Legacy = ''Archived plan''"

definition storedPlanScoreWeights :: "stored_plan \<Rightarrow> audit_module list \<Rightarrow> score_weights" where
  "storedPlanScoreWeights plan storedModules =
     (case plan of
        Current p \<Rightarrow> scoreWeights (TARIFFS p)
      | _ \<Rightarrow> normalizeScoreWeights COMPLETE_SCORE_WEIGHTS storedModules)"

definition storedPlanRetentionDays :: "stored_plan \<Rightarrow> nat" where
  "storedPlanRetentionDays plan =
     (case plan of
        Current p \<Rightarrow> retentionDays (TARIFFS p)
      | _ \<Rightarrow> Max (set (map (\<lambda>p. retentionDays (TARIFFS p)) PLANS)))"

lemma storedPlanRetentionDays_ge: "retentionDays (TARIFFS p) \<le> storedPlanRetentionDays Legacy"
  by (cases p) (simp_all add: storedPlanRetentionDays_def PLANS_def)

section \<open>Display score (free-score.ts)\<close>

definition FULL_SCORE_MAX :: int where "FULL_SCORE_MAX = 100"

definition FREE_SCORE_MAX :: int where "FREE_SCORE_MAX = 40"

definition scoreMaxFor :: "stored_plan \<Rightarrow> int" where
  "scoreMaxFor plan = (if plan = Current Free then FREE_SCORE_MAX else FULL_SCORE_MAX)"

definition freeDisplayScore :: "js_number option \<Rightarrow> int option" where
  "freeDisplayScore score100 =
     (case score100 of
        Some (Num s) \<Rightarrow>
          (let clamped = min (of_int FULL_SCORE_MAX) (max 0 s)
           in Some (js_round (clamped * of_int FREE_SCORE_MAX / of_int FULL_SCORE_MAX)))
      | _ \<Rightarrow> None)"

section \<open>Limits (limits.ts)\<close>

record crawl_limits =
  maxHtmlBytes :: nat
  maxUrlBytes :: nat
  maxRedirects :: nat
  pageTimeoutMs :: nat
  perHostRps :: nat
  perHostConcurrency :: nat
  maxMediaChecks :: nat

definition CRAWL_LIMITS :: crawl_limits where
  "CRAWL_LIMITS =
     \<lparr>maxHtmlBytes = 5 * 1024 * 1024, maxUrlBytes = 2048, maxRedirects = 5,
      pageTimeoutMs = 10000, perHostRps = 5, perHostConcurrency = 4, maxMediaChecks = 200\<rparr>"

record probe_limits =
  maxProbes :: nat
  maxRecorded :: nat

definition MEDIA_PROBE_LIMITS :: probe_limits where
  "MEDIA_PROBE_LIMITS = \<lparr>maxProbes = 200, maxRecorded = 1000\<rparr>"

definition RENDER_RESOURCE_PROBE_LIMITS :: probe_limits where
  "RENDER_RESOURCE_PROBE_LIMITS = MEDIA_PROBE_LIMITS\<lparr>maxProbes := 100\<rparr>"

section \<open>Crawl summary (crawl-summary.ts)\<close>

datatype site_reach_kind = Reachable | AccessDenied | BlockedByRobots | Unreachable | BadResponse

datatype crawl_limited_by = ByOwner | ByPlan

datatype search_engine = Google | Bing

record crawl_summary =
  reach :: site_reach_kind
  searchEnginesBlocked :: "bool option"
  blockedEngines :: "search_engine list option"
  startStatus :: "int option"
  accessControlSignals :: "string list"
  pagesRead :: nat
  pagesFetched :: nat
  urlsDiscovered :: nat
  urlsOverLimit :: nat
  urlsBlockedByRobots :: nat
  limitedBy :: "crawl_limited_by option"
  maxPages :: nat

definition crawlCoverageRatio :: "crawl_summary \<Rightarrow> rat option" where
  "crawlCoverageRatio summary =
     (if urlsDiscovered summary = 0 then None
      else Some (of_nat (pagesRead summary) / of_nat (urlsDiscovered summary)))"

definition isFullCrawlCoverage :: "crawl_summary \<Rightarrow> bool" where
  "isFullCrawlCoverage summary \<longleftrightarrow>
     urlsDiscovered summary > 0 \<and> pagesRead summary = urlsDiscovered summary"

definition isSiteRead :: "crawl_summary \<Rightarrow> bool" where
  "isSiteRead summary \<longleftrightarrow> reach summary = Reachable"

fun SITE_REACH_STATUS_REASONS :: "site_reach_kind \<Rightarrow> string" where
  "SITE_REACH_STATUS_REASONS Reachable = []"
| "SITE_REACH_STATUS_REASONS AccessDenied = ''SiteDeniedAccess''"
| "SITE_REACH_STATUS_REASONS BlockedByRobots = ''SiteBlockedByRobots''"
| "SITE_REACH_STATUS_REASONS Unreachable = ''SiteUnreachable''"
| "SITE_REACH_STATUS_REASONS BadResponse = ''SiteReturnedNoReadablePage''"

definition siteReachStatusReason :: "crawl_summary \<Rightarrow> string option" where
  "siteReachStatusReason summary =
     (if reach summary = Reachable then None
      else Some (SITE_REACH_STATUS_REASONS (reach summary)))"

lemma isFullCrawlCoverage_ratio:
  "isFullCrawlCoverage s \<longleftrightarrow> crawlCoverageRatio s = Some 1"
  by (auto simp: isFullCrawlCoverage_def crawlCoverageRatio_def)

end
