(* ===== verification/ModuleScore.thy ===== *)
theory ModuleScore
  imports Contracts "HOL-Library.List_Lexorder" "HOL-Library.Char_ord"
begin

text \<open>
  packages/scoring/src/module-score.ts: the score of one module from its findings. A finding is
  validated, findings are deduplicated by fingerprint (the first wins), grouped by rule, each
  rule gets one penalty from its highest severity and its share of affected targets, and the
  score is 100 minus the penalties, never below 0. The code computes in whole hundredths; a
  number with two decimals is the rational \<open>hundredths / 100\<close>. Rule ids are compared by code
  unit, the lexicographic order of \<open>List_Lexorder\<close>.
\<close>

section \<open>Data\<close>

datatype rule_scoring = Scored | Informational

record scored_finding =
  ruleId :: string
  fingerprint :: string
  f_severity :: "severity option"
  scoreDelta :: rule_scoring
  targetKind :: target_kind
  affectedTargets :: js_number
  applicableTargets :: js_number

record rule_penalty =
  rp_ruleId :: string
  rp_severity :: severity
  rp_affected :: int
  rp_applicable :: int
  penalty :: rat

record module_score_result =
  score :: rat
  rulePenalties :: "rule_penalty list"

datatype score_error =
  MissingIds string
| ScoredWithoutSeverity string
| BadTargetCount string
| ScoredNotApplicable string
| SiteLevelCounts string
| RuleWithoutFindings string
| MixedTargetKinds string

definition SITE_LEVEL_TARGET_KINDS :: "target_kind list" where
  "SITE_LEVEL_TARGET_KINDS = [SiteTarget, EnvironmentTarget]"

definition MAX_MODULE_SCORE_HUNDREDTHS :: int where
  "MAX_MODULE_SCORE_HUNDREDTHS = 100 * 100"

section \<open>Validation\<close>

text \<open>\<open>Number.isInteger(value) && value >= 0\<close>, and the integer it then is.\<close>

fun is_count :: "js_number \<Rightarrow> bool" where
  "is_count NonFinite = False"
| "is_count (Num r) = (r = of_int \<lfloor>r\<rfloor> \<and> 0 \<le> r)"

fun count_of :: "js_number \<Rightarrow> int" where
  "count_of NonFinite = 0"
| "count_of (Num r) = \<lfloor>r\<rfloor>"

definition validateTargetCounts :: "scored_finding \<Rightarrow> score_error + unit" where
  "validateTargetCounts f =
     (if \<not> is_count (affectedTargets f) \<or> \<not> is_count (applicableTargets f)
      then Inl (BadTargetCount (ruleId f))
      else if scoreDelta f = Scored \<and> count_of (applicableTargets f) < 1
      then Inl (ScoredNotApplicable (ruleId f))
      else Inr ())"

definition validateFinding :: "scored_finding \<Rightarrow> score_error + unit" where
  "validateFinding f =
     (if ruleId f = [] \<or> fingerprint f = [] then Inl (MissingIds (ruleId f))
      else if scoreDelta f = Scored \<and> f_severity f = None
      then Inl (ScoredWithoutSeverity (ruleId f))
      else res_bind (validateTargetCounts f) (\<lambda>_.
        if targetKind f \<in> set SITE_LEVEL_TARGET_KINDS \<and>
           (count_of (affectedTargets f) \<noteq> 1 \<or> count_of (applicableTargets f) \<noteq> 1)
        then Inl (SiteLevelCounts (ruleId f))
        else Inr ()))"

section \<open>One penalty per rule\<close>

definition dedupByFingerprint :: "scored_finding list \<Rightarrow> scored_finding list" where
  "dedupByFingerprint = first_by fingerprint {}"

definition groupByRuleId :: "scored_finding list \<Rightarrow> (string \<times> scored_finding list) list" where
  "groupByRuleId = group_by ruleId"

fun max_severity_from :: "severity \<Rightarrow> severity list \<Rightarrow> severity" where
  "max_severity_from m [] = m"
| "max_severity_from m (s # ss) =
     max_severity_from (if SEVERITY_WEIGHTS s > SEVERITY_WEIGHTS m then s else m) ss"

definition maxSeverity :: "string \<Rightarrow> scored_finding list \<Rightarrow> score_error + severity" where
  "maxSeverity rule fs =
     (let severities = List.map_filter f_severity fs
      in case severities of
           [] \<Rightarrow> Inl (ScoredWithoutSeverity rule)
         | first # rest \<Rightarrow>
             if length severities \<noteq> length fs then Inl (ScoredWithoutSeverity rule)
             else Inr (max_severity_from first rest))"

definition pageLevelPenaltyHundredths :: "int \<Rightarrow> int \<Rightarrow> int \<Rightarrow> int" where
  "pageLevelPenaltyHundredths weightHundredths affected applicable =
     (if affected \<ge> applicable then weightHundredths
      else let numerator = weightHundredths * affected
           in (2 * numerator + applicable) div (2 * applicable))"

definition aggregateRulePenalty :: "string \<Rightarrow> scored_finding list \<Rightarrow> score_error + rule_penalty" where
  "aggregateRulePenalty rule fs =
     (case fs of
        [] \<Rightarrow> Inl (RuleWithoutFindings rule)
      | first # rest \<Rightarrow>
          if \<exists>f \<in> set rest. targetKind f \<noteq> targetKind first then Inl (MixedTargetKinds rule)
          else res_bind (maxSeverity rule fs) (\<lambda>severity.
            let affected = Max (set (map (\<lambda>f. count_of (affectedTargets f)) fs));
                applicable = Max (set (map (\<lambda>f. count_of (applicableTargets f)) fs));
                weightHundredths = SEVERITY_WEIGHTS severity * 100;
                penaltyHundredths =
                  (if targetKind first \<in> set SITE_LEVEL_TARGET_KINDS then weightHundredths
                   else pageLevelPenaltyHundredths weightHundredths affected applicable)
            in Inr \<lparr>rp_ruleId = rule, rp_severity = severity, rp_affected = affected,
                    rp_applicable = applicable, penalty = of_int penaltyHundredths / 100\<rparr>))"

section \<open>The module score\<close>

definition computeModuleScore :: "scored_finding list \<Rightarrow> score_error + module_score_result" where
  "computeModuleScore findings =
     res_bind (check_each validateFinding findings) (\<lambda>_.
       let uniqueScored = dedupByFingerprint (filter (\<lambda>f. scoreDelta f = Scored) findings)
       in res_bind (map_each (\<lambda>(rule, fs). aggregateRulePenalty rule fs)
                     (groupByRuleId uniqueScored)) (\<lambda>penalties.
            let sorted_penalties = sort_key rp_ruleId penalties;
                totalHundredths =
                  foldl (\<lambda>total rule. total + js_round (penalty rule * 100)) 0 sorted_penalties;
                scoreHundredths = max 0 (MAX_MODULE_SCORE_HUNDREDTHS - totalHundredths)
            in Inr \<lparr>score = of_int scoreHundredths / 100, rulePenalties = sorted_penalties\<rparr>))"

section \<open>Lemmas\<close>

lemma is_count_count_of: "is_count n \<Longrightarrow> n = Num (of_int (count_of n)) \<and> 0 \<le> count_of n"
  by (cases n) auto

lemma max_severity_from_ge_start:
  "SEVERITY_WEIGHTS m \<le> SEVERITY_WEIGHTS (max_severity_from m ss)"
  by (induction m ss rule: max_severity_from.induct) (force split: if_splits)+

lemma max_severity_from_ge:
  "s \<in> insert m (set ss) \<Longrightarrow> SEVERITY_WEIGHTS s \<le> SEVERITY_WEIGHTS (max_severity_from m ss)"
proof (induction m ss rule: max_severity_from.induct)
  case (2 m t ss)
  have "SEVERITY_WEIGHTS (if SEVERITY_WEIGHTS t > SEVERITY_WEIGHTS m then t else m)
      \<le> SEVERITY_WEIGHTS (max_severity_from m (t # ss))"
    by (simp add: max_severity_from_ge_start)
  then have "SEVERITY_WEIGHTS m \<le> SEVERITY_WEIGHTS (max_severity_from m (t # ss))"
    and "SEVERITY_WEIGHTS t \<le> SEVERITY_WEIGHTS (max_severity_from m (t # ss))"
    by (auto split: if_splits)
  with 2 show ?case by auto
qed simp

lemma max_severity_from_mem: "max_severity_from m ss \<in> insert m (set ss)"
  by (induction m ss rule: max_severity_from.induct) (auto split: if_splits)

lemma map_filter_all_Some:
  "length (List.map_filter g xs) = length xs \<Longrightarrow> map Some (List.map_filter g xs) = map g xs"
proof (induction xs)
  case (Cons x xs)
  have "length (List.map_filter g xs) \<le> length xs" for xs
    by (induction xs) (auto simp: List.map_filter_simps split: option.splits)
  from this [of xs] Cons show ?case
    by (auto simp: List.map_filter_simps split: option.splits)
qed (simp add: List.map_filter_simps)

lemma maxSeverity_spec:
  assumes "maxSeverity rule fs = Inr s"
  shows "Some s \<in> f_severity ` set fs"
    and "\<forall>f \<in> set fs. \<exists>t. f_severity f = Some t \<and> SEVERITY_WEIGHTS t \<le> SEVERITY_WEIGHTS s"
proof -
  define sevs where "sevs = List.map_filter f_severity fs"
  from assms obtain x xs where cons: "sevs = x # xs" and len: "length sevs = length fs"
    and s: "s = max_severity_from x xs"
    by (auto simp: maxSeverity_def sevs_def Let_def split: list.splits if_splits)
  have all: "map Some sevs = map f_severity fs"
    using map_filter_all_Some [of f_severity fs] len by (simp add: sevs_def)
  then have sets: "Some ` set sevs = f_severity ` set fs"
    by (metis set_map)
  have "s \<in> set sevs" using max_severity_from_mem [of x xs] by (simp add: cons s)
  then show "Some s \<in> f_severity ` set fs" using sets by blast
  have "SEVERITY_WEIGHTS t \<le> SEVERITY_WEIGHTS s" if "t \<in> set sevs" for t
    using that max_severity_from_ge [of t x xs] by (simp add: cons s)
  then show "\<forall>f \<in> set fs. \<exists>t. f_severity f = Some t \<and> SEVERITY_WEIGHTS t \<le> SEVERITY_WEIGHTS s"
    using sets by (metis imageE imageI)
qed

text \<open>The integer half-up division is the rounded exact share of the weight.\<close>

lemma pageLevelPenalty_rounds:
  assumes "0 \<le> affected" "1 \<le> applicable"
  shows "pageLevelPenaltyHundredths w affected applicable =
    js_round (of_int w * min 1 (of_int affected / of_int applicable))"
proof (cases "affected \<ge> applicable")
  case True
  then have "(1::rat) \<le> of_int affected / of_int applicable"
    using assms by (simp add: le_divide_eq)
  then show ?thesis using True by (simp add: pageLevelPenaltyHundredths_def min_def)
next
  case False
  then have "of_int affected / of_int applicable \<le> (1::rat)"
    using assms by (simp add: divide_le_eq)
  then have "of_int w * min 1 (of_int affected / of_int applicable :: rat) =
      of_int (w * affected) / of_int applicable"
    by (simp add: min_def)
  moreover have "pageLevelPenaltyHundredths w affected applicable =
      (2 * (w * affected) + applicable) div (2 * applicable)"
    using False by (simp add: pageLevelPenaltyHundredths_def Let_def)
  ultimately show ?thesis using half_up_div [of applicable "w * affected"] assms by simp
qed

lemma pageLevelPenalty_bounds:
  assumes "0 \<le> w" "0 \<le> affected" "1 \<le> applicable"
  shows "0 \<le> pageLevelPenaltyHundredths w affected applicable"
    and "pageLevelPenaltyHundredths w affected applicable \<le> w"
proof -
  let ?share = "min 1 (of_int affected / of_int applicable) :: rat"
  have share: "0 \<le> ?share" "?share \<le> 1" using assms by auto
  have "js_round (of_int 0) \<le> js_round (of_int w * ?share)"
    by (rule js_round_mono) (use share assms in simp)
  then show "0 \<le> pageLevelPenaltyHundredths w affected applicable"
    unfolding pageLevelPenalty_rounds [OF assms(2,3)] js_round_of_int .
  have "js_round (of_int w * ?share) \<le> js_round (of_int w)"
    by (rule js_round_mono) (use share assms in \<open>simp add: mult_left_le\<close>)
  then show "pageLevelPenaltyHundredths w affected applicable \<le> w"
    unfolding pageLevelPenalty_rounds [OF assms(2,3)] js_round_of_int .
qed

lemma foldl_hundredths:
  "foldl (\<lambda>total rule. total + js_round (f rule * 100)) t rs =
     t + sum_list (map (\<lambda>rule. js_round (f rule * 100)) rs)"
  by (induction rs arbitrary: t) (auto simp: algebra_simps)

text \<open>A scored finding that passed validation, and what it carries.\<close>

lemma validateFinding_ok:
  assumes "validateFinding f = Inr ()" "scoreDelta f = Scored"
  shows "\<exists>s. f_severity f = Some s" "0 \<le> count_of (affectedTargets f)"
    "1 \<le> count_of (applicableTargets f)"
  using assms is_count_count_of
  by (auto simp: validateFinding_def validateTargetCounts_def split: if_splits)

text \<open>The exact penalty of a rule, as the rounded share of its weight.\<close>

definition exact_penalty :: "severity \<Rightarrow> bool \<Rightarrow> int \<Rightarrow> int \<Rightarrow> rat" where
  "exact_penalty sev site_level affected applicable =
     of_int (SEVERITY_WEIGHTS sev * 100) *
       (if site_level then 1 else min 1 (of_int affected / of_int applicable))"

lemma aggregateRulePenalty_spec:
  assumes "aggregateRulePenalty rule fs = Inr p"
    and valid: "\<forall>f \<in> set fs. validateFinding f = Inr () \<and> scoreDelta f = Scored"
  shows "rp_ruleId p = rule"
    and "Some (rp_severity p) \<in> f_severity ` set fs"
    and "\<forall>f \<in> set fs. \<exists>t. f_severity f = Some t \<and> SEVERITY_WEIGHTS t \<le> SEVERITY_WEIGHTS (rp_severity p)"
    and "0 \<le> rp_affected p" "1 \<le> rp_applicable p"
    and "penalty p * 100 = of_int (js_round (exact_penalty (rp_severity p)
           (\<exists>f \<in> set fs. targetKind f \<in> set SITE_LEVEL_TARGET_KINDS) (rp_affected p) (rp_applicable p)))"
proof -
  from assms(1) obtain f0 rest sev where fs: "fs = f0 # rest"
    and kinds: "\<forall>f \<in> set rest. targetKind f = targetKind f0"
    and sev: "maxSeverity rule fs = Inr sev"
    and p: "p = \<lparr>rp_ruleId = rule, rp_severity = sev,
      rp_affected = Max (set (map (\<lambda>f. count_of (affectedTargets f)) fs)),
      rp_applicable = Max (set (map (\<lambda>f. count_of (applicableTargets f)) fs)),
      penalty = of_int (if targetKind f0 \<in> set SITE_LEVEL_TARGET_KINDS
        then SEVERITY_WEIGHTS sev * 100
        else pageLevelPenaltyHundredths (SEVERITY_WEIGHTS sev * 100)
          (Max (set (map (\<lambda>f. count_of (affectedTargets f)) fs)))
          (Max (set (map (\<lambda>f. count_of (applicableTargets f)) fs)))) / 100\<rparr>"
    unfolding aggregateRulePenalty_def Let_def
    by (auto split: list.splits if_splits simp del: set_map list.set)
  show "rp_ruleId p = rule" by (simp add: p)
  show "Some (rp_severity p) \<in> f_severity ` set fs"
    and "\<forall>f \<in> set fs. \<exists>t. f_severity f = Some t \<and> SEVERITY_WEIGHTS t \<le> SEVERITY_WEIGHTS (rp_severity p)"
    using maxSeverity_spec [OF sev] by (simp_all add: p)
  have "f0 \<in> set fs" by (simp add: fs)
  with valid have f0: "0 \<le> count_of (affectedTargets f0)" "1 \<le> count_of (applicableTargets f0)"
    using validateFinding_ok by blast+
  have "count_of (affectedTargets f0) \<le> rp_affected p"
    and "count_of (applicableTargets f0) \<le> rp_applicable p"
    by (simp_all add: p fs)
  with f0 show aff: "0 \<le> rp_affected p" and app: "1 \<le> rp_applicable p" by linarith+
  have site: "(\<exists>f \<in> set fs. targetKind f \<in> set SITE_LEVEL_TARGET_KINDS) \<longleftrightarrow>
      targetKind f0 \<in> set SITE_LEVEL_TARGET_KINDS"
    using kinds by (auto simp: fs)
  show "penalty p * 100 = of_int (js_round (exact_penalty (rp_severity p)
           (\<exists>f \<in> set fs. targetKind f \<in> set SITE_LEVEL_TARGET_KINDS) (rp_affected p) (rp_applicable p)))"
  proof (cases "targetKind f0 \<in> set SITE_LEVEL_TARGET_KINDS")
    case True
    then show ?thesis
      unfolding site using js_round_of_int [of "SEVERITY_WEIGHTS sev * 100"]
      by (simp add: p exact_penalty_def)
  next
    case False
    then show ?thesis
      unfolding site using pageLevelPenalty_rounds [OF aff app, of "SEVERITY_WEIGHTS sev * 100"]
      by (simp add: p exact_penalty_def)
  qed
qed

lemma js_round_penalty: "penalty p * 100 = of_int n \<Longrightarrow> of_int (js_round (penalty p * 100)) = penalty p * 100"
  by simp

text \<open>What a returned score consists of: the validated findings and the penalties of the groups.\<close>

definition scored_unique :: "scored_finding list \<Rightarrow> scored_finding list" where
  "scored_unique findings = dedupByFingerprint (filter (\<lambda>f. scoreDelta f = Scored) findings)"

lemma scored_unique_valid:
  assumes "check_each validateFinding findings = Inr ()"
  shows "\<forall>f \<in> set (scored_unique findings). validateFinding f = Inr () \<and> scoreDelta f = Scored"
proof -
  have "set (scored_unique findings) \<subseteq> set (filter (\<lambda>f. scoreDelta f = Scored) findings)"
    unfolding scored_unique_def dedupByFingerprint_def by (rule first_by_subset)
  with assms show ?thesis by auto
qed

lemma computeModuleScore_Inr:
  assumes "computeModuleScore findings = Inr r"
  obtains ps where "check_each validateFinding findings = Inr ()"
    and "map_each (\<lambda>(rule, fs). aggregateRulePenalty rule fs) (groupByRuleId (scored_unique findings)) = Inr ps"
    and "rulePenalties r = sort_key rp_ruleId ps"
    and "score r = of_int (max 0 (10000 - (\<Sum>p \<leftarrow> rulePenalties r. js_round (penalty p * 100)))) / 100"
  using assms unfolding computeModuleScore_def
  by (auto simp: Let_def scored_unique_def foldl_hundredths MAX_MODULE_SCORE_HUNDREDTHS_def)

text \<open>Every penalty of a returned score comes from the group of its rule.\<close>

lemma computeModuleScore_penalty:
  assumes "computeModuleScore findings = Inr r" "p \<in> set (rulePenalties r)"
  shows "\<exists>fs. fs = filter (\<lambda>f. ruleId f = rp_ruleId p) (scored_unique findings) \<and> fs \<noteq> [] \<and>
    aggregateRulePenalty (rp_ruleId p) fs = Inr p \<and>
    (\<forall>f \<in> set fs. validateFinding f = Inr () \<and> scoreDelta f = Scored)"
proof -
  from assms(1) obtain ps where check: "check_each validateFinding findings = Inr ()"
    and ps: "map_each (\<lambda>(rule, fs). aggregateRulePenalty rule fs) (groupByRuleId (scored_unique findings)) = Inr ps"
    and sorted: "rulePenalties r = sort_key rp_ruleId ps"
    by (rule computeModuleScore_Inr)
  from assms(2) sorted have "p \<in> set ps" by simp
  with ps obtain rule fs where mem: "(rule, fs) \<in> set (group_by ruleId (scored_unique findings))"
    and agg: "aggregateRulePenalty rule fs = Inr p"
    by (fastforce simp: groupByRuleId_def dest: map_each_mem)
  from mem have fs: "fs = filter (\<lambda>f. ruleId f = rule) (scored_unique findings)" "fs \<noteq> []"
    by (auto simp: group_by_mem)
  with scored_unique_valid [OF check]
  have valid: "\<forall>f \<in> set fs. validateFinding f = Inr () \<and> scoreDelta f = Scored" by auto
  have "rp_ruleId p = rule" using aggregateRulePenalty_spec(1) [OF agg valid] .
  with fs agg valid show ?thesis by blast
qed


lemma computeModuleScore_penalty_int:
  assumes "computeModuleScore findings = Inr r" "p \<in> set (rulePenalties r)"
  shows "of_int (js_round (penalty p * 100)) = penalty p * 100"
proof -
  from computeModuleScore_penalty [OF assms] obtain fs
    where agg: "aggregateRulePenalty (rp_ruleId p) fs = Inr p"
      and valid: "\<forall>f \<in> set fs. validateFinding f = Inr () \<and> scoreDelta f = Scored" by blast
  from aggregateRulePenalty_spec(6) [OF agg valid] show ?thesis by (rule js_round_penalty)
qed

lemma exact_penalty_bounds:
  assumes "0 \<le> affected" "1 \<le> applicable"
  shows "0 \<le> exact_penalty sev site affected applicable"
    and "exact_penalty sev site affected applicable \<le> of_int (SEVERITY_WEIGHTS sev * 100)"
proof -
  let ?share = "(if site then 1 else min 1 (of_int affected / of_int applicable)) :: rat"
  have share: "0 \<le> ?share" "?share \<le> 1" using assms by auto
  have w: "(0 :: rat) \<le> of_int (SEVERITY_WEIGHTS sev * 100)" by (simp add: less_imp_le)
  show "0 \<le> exact_penalty sev site affected applicable"
    unfolding exact_penalty_def using w share(1) by (rule mult_nonneg_nonneg)
  show "exact_penalty sev site affected applicable \<le> of_int (SEVERITY_WEIGHTS sev * 100)"
    unfolding exact_penalty_def by (rule mult_left_le [OF share(2) w])
qed

lemma computeModuleScore_penalty_bounds:
  assumes "computeModuleScore findings = Inr r" "p \<in> set (rulePenalties r)"
  shows "0 \<le> penalty p \<and> penalty p \<le> of_int (SEVERITY_WEIGHTS (rp_severity p))"
proof -
  from computeModuleScore_penalty [OF assms] obtain fs
    where agg: "aggregateRulePenalty (rp_ruleId p) fs = Inr p"
      and valid: "\<forall>f \<in> set fs. validateFinding f = Inr () \<and> scoreDelta f = Scored" by blast
  note spec = aggregateRulePenalty_spec [OF agg valid]
  note bounds = exact_penalty_bounds [OF spec(4,5)]
  have "0 \<le> penalty p * 100"
    unfolding spec(6) using js_round_nonneg [OF bounds(1)] by simp
  moreover have "penalty p * 100 \<le> of_int (SEVERITY_WEIGHTS (rp_severity p) * 100)"
    unfolding spec(6) of_int_le_iff by (rule js_round_le_int [OF bounds(2)])
  ultimately show ?thesis by simp
qed

lemma rule_ids_of_penalties:
  assumes "computeModuleScore findings = Inr r"
  shows "rp_ruleId ` set (rulePenalties r) = ruleId ` set (scored_unique findings)"
    and "sorted (map rp_ruleId (rulePenalties r))" "distinct (map rp_ruleId (rulePenalties r))"
proof -
  from assms obtain ps where check: "check_each validateFinding findings = Inr ()"
    and ps: "map_each (\<lambda>(rule, fs). aggregateRulePenalty rule fs) (groupByRuleId (scored_unique findings)) = Inr ps"
    and sorted: "rulePenalties r = sort_key rp_ruleId ps"
    by (rule computeModuleScore_Inr)
  let ?groups = "group_by ruleId (scored_unique findings)"
  have valid: "\<forall>f \<in> set fs. validateFinding f = Inr () \<and> scoreDelta f = Scored"
    if "(rule, fs) \<in> set ?groups" for rule fs
    using that scored_unique_valid [OF check] by (auto simp: group_by_mem)
  have "list_all2 (\<lambda>g p. fst g = rp_ruleId p) ?groups ps"
    using ps valid unfolding map_each_Inr groupByRuleId_def
    by (auto elim!: list_all2_mono simp: list_all2_conv_all_nth split_def
        dest!: aggregateRulePenalty_spec(1) [rotated] intro: nth_mem)
      (metis aggregateRulePenalty_spec(1) nth_mem prod.collapse)
  then have map_eq: "map rp_ruleId ps = map fst ?groups"
    by (simp add: list_all2_conv_all_nth list_eq_iff_nth_eq)
  have "rp_ruleId ` set ps = fst ` set ?groups" using map_eq by (metis set_map)
  then show "rp_ruleId ` set (rulePenalties r) = ruleId ` set (scored_unique findings)"
    by (simp add: sorted group_by_keys)
  show "sorted (map rp_ruleId (rulePenalties r))" by (simp add: sorted)
  have "distinct (map rp_ruleId ps)" by (simp add: map_eq group_by_distinct)
  then show "distinct (map rp_ruleId (rulePenalties r))" by (simp add: sorted distinct_map)
qed

lemma aggregateRulePenalty_kinds:
  "aggregateRulePenalty rule fs = Inr p \<Longrightarrow> f \<in> set fs \<Longrightarrow> g \<in> set fs \<Longrightarrow>
     targetKind f = targetKind g"
  unfolding aggregateRulePenalty_def
  by (cases fs) (auto simp del: res_bind_eq_Inr split: if_splits)

lemma aggregateRulePenalty_total:
  assumes "fs \<noteq> []" and "\<forall>f \<in> set fs. \<forall>g \<in> set fs. targetKind f = targetKind g"
    and valid: "\<forall>f \<in> set fs. validateFinding f = Inr () \<and> scoreDelta f = Scored"
  shows "\<exists>p. aggregateRulePenalty rule fs = Inr p"
proof -
  obtain f0 rest where fs: "fs = f0 # rest" using assms(1) by (cases fs) auto
  have "\<forall>f \<in> set fs. \<exists>s. f_severity f = Some s" using valid validateFinding_ok(1) by blast
  then have len: "length (List.map_filter f_severity fs) = length fs"
    by (induction fs) (auto simp: List.map_filter_simps)
  then obtain s ss where "List.map_filter f_severity fs = s # ss"
    using assms(1) by (cases "List.map_filter f_severity fs") auto
  with len obtain sev where "maxSeverity rule fs = Inr sev"
    by (simp add: maxSeverity_def)
  moreover have "\<not> (\<exists>f \<in> set rest. targetKind f \<noteq> targetKind f0)"
    using assms(2) unfolding fs by (meson list.set_intros)
  ultimately show ?thesis by (simp add: aggregateRulePenalty_def fs Let_def)
qed

text \<open>A concrete module: one High page-level finding on one of three targets.\<close>

definition example_findings :: "scored_finding list" where
  "example_findings =
     [\<lparr>ruleId = ''SEO-1'', fingerprint = ''a'', f_severity = Some High, scoreDelta = Scored,
       targetKind = PageTarget, affectedTargets = Num 1, applicableTargets = Num 3\<rparr>]"

lemma example_score:
  "computeModuleScore example_findings = Inr \<lparr>score = 9667 / 100, rulePenalties =
      [\<lparr>rp_ruleId = ''SEO-1'', rp_severity = High, rp_affected = 1, rp_applicable = 3,
        penalty = 333 / 100\<rparr>]\<rparr>"
  by (simp add: example_findings_def computeModuleScore_def validateFinding_def
      validateTargetCounts_def SITE_LEVEL_TARGET_KINDS_def dedupByFingerprint_def
      groupByRuleId_def group_by_def aggregateRulePenalty_def maxSeverity_def
      List.map_filter_simps pageLevelPenaltyHundredths_def MAX_MODULE_SCORE_HUNDREDTHS_def
      js_round_def)

lemma score_from_penalties:
  assumes "computeModuleScore findings = Inr r"
  shows "score r = max 0 (100 - (\<Sum>p \<leftarrow> rulePenalties r. penalty p)) \<and> 0 \<le> score r \<and> score r \<le> 100"
proof -
  let ?sum = "\<Sum>p \<leftarrow> rulePenalties r. js_round (penalty p * 100)"
  have eq: "score r = of_int (max 0 (10000 - ?sum)) / 100"
    using assms by (rule computeModuleScore_Inr)
  have each: "p \<in> set (rulePenalties r) \<Longrightarrow> of_int (js_round (penalty p * 100)) = penalty p * 100" for p
    using computeModuleScore_penalty_int [OF assms] .
  have "(of_int ?sum :: rat) = (\<Sum>p \<leftarrow> rulePenalties r. of_int (js_round (penalty p * 100)))"
    by (rule of_int_sum_list_map)
  also have "\<dots> = (\<Sum>p \<leftarrow> rulePenalties r. penalty p * 100)"
    using each by (metis (no_types, lifting) map_eq_conv)
  also have "\<dots> = (\<Sum>p \<leftarrow> rulePenalties r. penalty p) * 100"
    by (simp add: sum_list_mult_const)
  finally have sum: "(of_int ?sum :: rat) = (\<Sum>p \<leftarrow> rulePenalties r. penalty p) * 100" .
  have "penalty p \<ge> 0" if "p \<in> set (rulePenalties r)" for p
    using computeModuleScore_penalty_bounds [OF assms that] by simp
  then have nonneg: "0 \<le> (\<Sum>p \<leftarrow> rulePenalties r. penalty p)"
    using sum_list_nonneg [of "map penalty (rulePenalties r)"] by auto
  have "score r = max 0 (100 - (\<Sum>p \<leftarrow> rulePenalties r. penalty p))"
    unfolding eq of_int_max by (simp add: sum max_def field_simps)
  with nonneg show ?thesis by simp
qed

section \<open>Properties\<close>

text \<open>
  C15: The score of a module is exactly \<open>max(0, 100 - sum of the rule penalties)\<close>, with no
  rounding between the penalties and the score, and lies between 0 and 100.
\<close>

theorem module_score_exact:
  assumes "computeModuleScore findings = Inr r"
  shows "score r = max 0 (100 - (\<Sum>p \<leftarrow> rulePenalties r. penalty p)) \<and> 0 \<le> score r \<and> score r \<le> 100"
  by (rule score_from_penalties [OF assms])

theorem module_score_exact_witness:
  "\<exists>r. computeModuleScore example_findings = Inr r
     \<and> score r = max 0 (100 - (\<Sum>p \<leftarrow> rulePenalties r. penalty p)) \<and> score r = 9667 / 100"
  using module_score_exact [OF example_score] example_score by auto

text \<open>
  The breakdown lists exactly one penalty per rule of the unique scored findings, in
  ascending rule id order. Each penalty carries the highest severity among the rule's unique
  scored findings and is that severity's weight times \<open>min(1, affected / applicable)\<close> (the
  whole weight for a site-level rule), rounded half-up to two decimals.
\<close>

theorem module_score_penalties:
  assumes "computeModuleScore findings = Inr r"
  shows "rp_ruleId ` set (rulePenalties r) = ruleId ` set (scored_unique findings)
    \<and> sorted (map rp_ruleId (rulePenalties r)) \<and> distinct (map rp_ruleId (rulePenalties r))
    \<and> (\<forall>p \<in> set (rulePenalties r).
         let fs = filter (\<lambda>f. ruleId f = rp_ruleId p) (scored_unique findings) in
         Some (rp_severity p) \<in> f_severity ` set fs \<and>
         (\<forall>f \<in> set fs. severityRank (Some (severity_string (rp_severity p)))
                        \<le> severityRank (map_option severity_string (f_severity f))) \<and>
         penalty p * 100 = of_int (js_round (exact_penalty (rp_severity p)
           (\<exists>f \<in> set fs. targetKind f \<in> set SITE_LEVEL_TARGET_KINDS)
           (rp_affected p) (rp_applicable p))))"
proof (intro conjI ballI)
  fix p assume p: "p \<in> set (rulePenalties r)"
  define fs where "fs = filter (\<lambda>f. ruleId f = rp_ruleId p) (scored_unique findings)"
  from computeModuleScore_penalty [OF assms p]
  have agg: "aggregateRulePenalty (rp_ruleId p) fs = Inr p"
    and valid: "\<forall>f \<in> set fs. validateFinding f = Inr () \<and> scoreDelta f = Scored"
    by (auto simp: fs_def)
  note spec = aggregateRulePenalty_spec [OF agg valid]
  have rank: "severityRank (Some (severity_string (rp_severity p)))
      \<le> severityRank (map_option severity_string (f_severity f))" if "f \<in> set fs" for f
  proof -
    from spec(3) that obtain t where t: "f_severity f = Some t"
      and "SEVERITY_WEIGHTS t \<le> SEVERITY_WEIGHTS (rp_severity p)" by blast
    then have "\<not> severityRank (Some (severity_string t)) < severityRank (Some (severity_string (rp_severity p)))"
      unfolding severityRank_weight_order by linarith
    with t show ?thesis by simp
  qed
  show "let fs = filter (\<lambda>f. ruleId f = rp_ruleId p) (scored_unique findings) in
         Some (rp_severity p) \<in> f_severity ` set fs \<and>
         (\<forall>f \<in> set fs. severityRank (Some (severity_string (rp_severity p)))
                        \<le> severityRank (map_option severity_string (f_severity f))) \<and>
         penalty p * 100 = of_int (js_round (exact_penalty (rp_severity p)
           (\<exists>f \<in> set fs. targetKind f \<in> set SITE_LEVEL_TARGET_KINDS)
           (rp_affected p) (rp_applicable p)))"
    unfolding fs_def [symmetric] Let_def using spec(2,6) rank by blast
qed (use rule_ids_of_penalties [OF assms] in auto)

theorem module_score_penalties_witness:
  "\<exists>r. computeModuleScore example_findings = Inr r \<and>
     rp_ruleId ` set (rulePenalties r) = ruleId ` set (scored_unique example_findings)"
  using module_score_penalties [OF example_score] example_score by blast

text \<open>
  A finding whose fingerprint already occurs among the scored findings, and an informational
  finding, change nothing: appending it (when it is itself valid) leaves the result as it was.
\<close>

theorem module_score_ignores_repeats:
  assumes "validateFinding g = Inr ()"
    and "scoreDelta g = Informational \<or>
      (\<exists>f \<in> set findings. scoreDelta f = Scored \<and> fingerprint f = fingerprint g)"
  shows "computeModuleScore (findings @ [g]) = computeModuleScore findings"
proof -
  have repeat: "first_by fingerprint seen (xs @ [g]) = first_by fingerprint seen xs"
    if "fingerprint g \<in> seen \<union> fingerprint ` set xs" for xs seen
    using that by (induction xs arbitrary: seen) auto
  have unique: "dedupByFingerprint (filter (\<lambda>f. scoreDelta f = Scored) (findings @ [g])) =
      dedupByFingerprint (filter (\<lambda>f. scoreDelta f = Scored) findings)"
  proof (cases "scoreDelta g = Scored")
    case True
    with assms(2) obtain f where "f \<in> set findings" "scoreDelta f = Scored"
      and eq: "fingerprint g = fingerprint f" by auto
    then have "f \<in> set (filter (\<lambda>f. scoreDelta f = Scored) findings)" by simp
    then have "fingerprint g \<in> fingerprint ` set (filter (\<lambda>f. scoreDelta f = Scored) findings)"
      unfolding eq by (rule imageI)
    with True repeat [where seen = "{}" and xs = "filter (\<lambda>f. scoreDelta f = Scored) findings"]
    show ?thesis by (simp add: dedupByFingerprint_def)
  qed simp
  have checks: "check_each validateFinding (xs @ [g]) = check_each validateFinding xs" for xs
    using assms(1) by (induction xs) auto
  show ?thesis unfolding computeModuleScore_def checks unique ..
qed

theorem module_score_ignores_repeats_witness:
  "\<exists>g. computeModuleScore ([] @ [g]) = computeModuleScore [] \<and> scoreDelta g = Informational"
proof -
  let ?g = "\<lparr>ruleId = ''SEO-1'', fingerprint = ''a'', f_severity = None, scoreDelta = Informational,
       targetKind = PageTarget, affectedTargets = Num 1, applicableTargets = Num 1\<rparr>"
  have "validateFinding ?g = Inr ()"
    by (simp add: validateFinding_def validateTargetCounts_def SITE_LEVEL_TARGET_KINDS_def)
  from module_score_ignores_repeats [OF this, of "[]"] show ?thesis
    by (intro exI [of _ ?g]) simp
qed

lemma score_defined_iff:
  "(\<exists>r. computeModuleScore findings = Inr r) \<longleftrightarrow>
     list_all (\<lambda>f. validateFinding f = Inr ()) findings \<and>
     list_all (\<lambda>f. list_all (\<lambda>g. ruleId f \<noteq> ruleId g \<or> targetKind f = targetKind g)
       (scored_unique findings)) (scored_unique findings)"
    (is "?lhs \<longleftrightarrow> ?valid \<and> ?kinds")
proof
  assume ?lhs
  then obtain r where r: "computeModuleScore findings = Inr r" ..
  then have check: "check_each validateFinding findings = Inr ()" by (rule computeModuleScore_Inr)
  have "targetKind f = targetKind g"
    if f: "f \<in> set (scored_unique findings)" and g: "g \<in> set (scored_unique findings)"
      and eq: "ruleId f = ruleId g" for f g
  proof -
    from f rule_ids_of_penalties(1) [OF r] obtain p where p: "p \<in> set (rulePenalties r)"
      and id: "rp_ruleId p = ruleId f" by (metis imageE imageI)
    from computeModuleScore_penalty [OF r p] id
    have "aggregateRulePenalty (ruleId f) (filter (\<lambda>h. ruleId h = ruleId f) (scored_unique findings)) = Inr p"
      by auto
    moreover have "f \<in> set (filter (\<lambda>h. ruleId h = ruleId f) (scored_unique findings))"
      "g \<in> set (filter (\<lambda>h. ruleId h = ruleId f) (scored_unique findings))" using f g eq by auto
    ultimately show ?thesis by (rule aggregateRulePenalty_kinds)
  qed
  with check show "?valid \<and> ?kinds" unfolding list_all_iff check_each_ok by blast
next
  assume vk: "?valid \<and> ?kinds"
  then have check: "check_each validateFinding findings = Inr ()" by (simp add: list_all_iff)
  have "\<exists>p. aggregateRulePenalty rule fs = Inr p"
    if "(rule, fs) \<in> set (group_by ruleId (scored_unique findings))" for rule fs
    using that aggregateRulePenalty_total vk scored_unique_valid [OF check]
    by (auto simp: group_by_mem list_all_iff)
  then obtain ps where "map_each (\<lambda>(rule, fs). aggregateRulePenalty rule fs)
      (groupByRuleId (scored_unique findings)) = Inr ps"
    using map_each_total [of "groupByRuleId (scored_unique findings)"
      "\<lambda>(rule, fs). aggregateRulePenalty rule fs"] by (fastforce simp: groupByRuleId_def)
  with check show ?lhs
    unfolding computeModuleScore_def scored_unique_def [symmetric] Let_def by simp
qed

text \<open>
  C36: A score is returned for exactly the inputs whose findings are all valid and whose unique
  scored findings of one rule agree on the target kind; every other input is an error.
\<close>

theorem module_score_defined_iff:
  "(\<exists>r. computeModuleScore findings = Inr r) \<longleftrightarrow>
     list_all (\<lambda>f. validateFinding f = Inr ()) findings \<and>
     list_all (\<lambda>f. list_all (\<lambda>g. ruleId f \<noteq> ruleId g \<or> targetKind f = targetKind g)
       (scored_unique findings)) (scored_unique findings)"
  by (rule score_defined_iff)

theorem module_score_defined_iff_witness:
  "(\<exists>r. computeModuleScore example_findings = Inr r) \<and>
   \<not> (\<exists>r. computeModuleScore (map (\<lambda>f. f\<lparr>fingerprint := []\<rparr>) example_findings) = Inr r)"
  unfolding module_score_defined_iff
  by (simp add: example_findings_def validateFinding_def validateTargetCounts_def
      SITE_LEVEL_TARGET_KINDS_def scored_unique_def dedupByFingerprint_def)

end
