(* ===== verification/Round2.thy ===== *)
theory Round2
  imports Prelude
begin

text \<open>
  packages/scoring/src/round2.ts: rounding to two decimals, half-up on the decimal
  representation of the number. The code reads \<open>String(value)\<close>; that printer belongs to the
  runtime, so it is a parameter \<open>num_to_string\<close> here, and what is proved about the rounding
  assumes only that the printed text denotes the number.
\<close>

section \<open>The code\<close>

definition MAX_ABS_VALUE :: rat where
  "MAX_ABS_VALUE = 10 ^ 12"

definition zeros :: "int \<Rightarrow> string" where
  "zeros n = replicate (nat n) (CHR ''0'')"

definition split_decimal :: "string \<Rightarrow> string \<times> string" where
  "split_decimal text =
     (case split_on (CHR ''.'') text of
        [] \<Rightarrow> (''0'', []) | [i] \<Rightarrow> (i, []) | i # f # _ \<Rightarrow> (i, f))"

definition is_exponent_mark :: "char \<Rightarrow> bool" where
  "is_exponent_mark c \<longleftrightarrow> c = CHR ''e'' \<or> c = CHR ''E''"

definition toPlainDecimalString :: "string \<Rightarrow> string" where
  "toPlainDecimalString text =
     (if \<not> list_ex is_exponent_mark text then text
      else let mantissa = takeWhile (\<lambda>c. \<not> is_exponent_mark c) text;
               exponent = js_Number (tl (dropWhile (\<lambda>c. \<not> is_exponent_mark c) text));
               (integerDigits, fractionDigits) = split_decimal mantissa;
               digits = integerDigits @ fractionDigits;
               pointIndex = int (length integerDigits) + exponent
           in if pointIndex \<le> 0 then ''0.'' @ zeros (- pointIndex) @ digits
              else if pointIndex \<ge> int (length digits)
              then digits @ zeros (pointIndex - int (length digits))
              else take (nat pointIndex) digits @ ''.'' @ drop (nat pointIndex) digits)"

definition pad_end2 :: "string \<Rightarrow> string" where
  "pad_end2 s = s @ replicate (2 - length s) (CHR ''0'')"

definition round_hundredths :: "string \<Rightarrow> int" where
  "round_hundredths plain =
     (let (integerPart, fractionPart) = split_decimal plain;
          keptHundredths = js_Number integerPart * 100 + js_Number (pad_end2 (take 2 fractionPart));
          roundUp = (case drop 2 fractionPart of
                       [] \<Rightarrow> False
                     | c # _ \<Rightarrow> code_unit (CHR ''5'') \<le> code_unit c \<and> code_unit c \<le> code_unit (CHR ''9''))
      in keptHundredths + (if roundUp then 1 else 0))"

datatype round2_error = NotFinite | OutOfRange

definition round2 :: "(rat \<Rightarrow> string) \<Rightarrow> js_number \<Rightarrow> round2_error + rat" where
  "round2 num_to_string value =
     (case value of
        NonFinite \<Rightarrow> Inl NotFinite
      | Num v \<Rightarrow>
          if \<bar>v\<bar> > MAX_ABS_VALUE then Inl OutOfRange
          else let sign = (if v < 0 then -1 else 1)
               in Inr (of_int (sign * round_hundredths (toPlainDecimalString (num_to_string \<bar>v\<bar>))) / 100))"

section \<open>Decimal texts and the numbers they denote\<close>

text \<open>\<open>String(x)\<close> for a finite \<open>x \<ge> 0\<close>: digits, an optional fraction, an optional exponent.\<close>

definition decimal_text :: "string \<Rightarrow> string \<Rightarrow> string \<Rightarrow> string" where
  "decimal_text ip fp es =
     ip @ (if fp = [] then [] else CHR ''.'' # fp) @ (if es = [] then [] else CHR ''e'' # es)"

definition decimal_value :: "string \<Rightarrow> string \<Rightarrow> int \<Rightarrow> rat" where
  "decimal_value ip fp e = of_int (digits_value (ip @ fp)) * 10 powi (e - int (length fp))"

definition is_exponent :: "string \<Rightarrow> bool" where
  "is_exponent es \<longleftrightarrow>
     (case es of [] \<Rightarrow> True
      | c # ds \<Rightarrow> (c = CHR ''-'' \<or> c = CHR ''+'' \<or> is_digits [c]) \<and> is_digits ds)"

definition denotes :: "string \<Rightarrow> rat \<Rightarrow> bool" where
  "denotes text x \<longleftrightarrow>
     (\<exists>ip fp es. is_digits ip \<and> ip \<noteq> [] \<and> is_digits fp \<and> is_exponent es \<and>
        text = decimal_text ip fp es \<and> x = decimal_value ip fp (js_Number es))"

lemma is_digits_zeros [simp]: "is_digits (zeros n)"
  by (simp add: is_digits_def zeros_def list_all_iff)

lemma length_zeros [simp]: "length (zeros n) = nat n"
  by (simp add: zeros_def)

lemma digits_no_mark:
  assumes "is_digits s"
  shows "CHR ''.'' \<notin> set s" "\<forall>c \<in> set s. \<not> is_exponent_mark c"
  using assms by (auto simp: is_digits_def list_all_iff is_exponent_mark_def)

lemma digits_value_zeros [simp]: "digits_value (zeros n) = 0"
proof -
  have "digits_value (replicate k (CHR ''0'')) = 0" for k
    by (induction k) (auto simp: digits_value_Cons digit_value_def)
  then show ?thesis by (simp add: zeros_def)
qed

lemma split_decimal_plain:
  assumes "is_digits ip" "is_digits fp"
  shows "split_decimal ip = (ip, [])" "split_decimal (ip @ CHR ''.'' # fp) = (ip, fp)"
  using digits_no_mark(1) [OF assms(1)] digits_no_mark(1) [OF assms(2)]
  by (simp_all add: split_decimal_def split_on_no_sep split_on_append_sep)

text \<open>Appending zeros to the fraction changes neither side.\<close>

lemma round_digits:
  assumes ip: "is_digits ip" and fp: "is_digits fp"
  shows "js_Number ip * 100 + js_Number (pad_end2 (take 2 fp)) +
      (case drop 2 fp of [] \<Rightarrow> 0 | c # _ \<Rightarrow> if code_unit (CHR ''5'') \<le> code_unit c \<and> code_unit c \<le> code_unit (CHR ''9'') then 1 else 0)
    = js_round (100 * (of_int (digits_value (ip @ fp)) / 10 ^ length fp))"
proof -
  consider "fp = []" | a where "fp = [a]" | a b r where "fp = a # b # r"
    by (metis list.exhaust)
  then show ?thesis
  proof cases
    case 1
    have "js_Number (pad_end2 []) = 0"
      by (simp add: pad_end2_def digits_value_def digit_value_def numeral_2_eq_2)
    then show ?thesis using 1 ip js_round_of_int [of "100 * digits_value ip"]
      by (simp add: js_Number_digits)
  next
    case 2
    have "js_Number (pad_end2 [a]) = digit_value a * 10"
      using fp 2 by (auto simp: pad_end2_def digits_value_def digit_value_def)
    moreover have "(100 * (of_int (digits_value (ip @ fp)) / 10 ^ length fp) :: rat) =
        of_int (100 * digits_value ip + 10 * digit_value a)"
      using 2 by (simp add: digits_value_append digits_value_Cons field_simps)
    ultimately show ?thesis using 2 ip
      by (simp only: js_round_of_int) (simp add: js_Number_digits)
  next
    case 3
    define k where "k = digits_value ip * 100 + digit_value a * 10 + digit_value b"
    have kept: "js_Number ip * 100 + js_Number (pad_end2 (take 2 fp)) = k"
      using fp 3 ip by (auto simp: k_def js_Number_digits pad_end2_def digits_value_Cons)
    have val_eq: "(100 * (of_int (digits_value (ip @ fp)) / 10 ^ length fp) :: rat) =
        of_int k + of_int (digits_value r) / 10 ^ length r"
      using 3 by (simp add: k_def digits_value_append digits_value_Cons field_simps)
    show ?thesis
    proof (cases r)
      case Nil
      then show ?thesis unfolding val_eq kept using 3 by simp
    next
      case (Cons c rest)
      have c: "0 \<le> digit_value c" "digit_value c \<le> 9" and rest: "is_digits rest"
        using fp 3 Cons by (auto simp: digit_value_def)
      note bounds = digits_value_bounds [OF rest]
      have frac: "(of_int (digits_value r) / 10 ^ length r :: rat) =
          of_int (digit_value c) / 10 + of_int (digits_value rest) / 10 ^ Suc (length rest)"
        using Cons by (simp add: digits_value_Cons field_simps)
      have lo: "(0 :: rat) \<le> of_int (digits_value rest) / 10 ^ Suc (length rest)"
        using bounds by simp
      have "(of_int (digits_value rest) :: rat) < of_int (10 ^ length rest)"
        unfolding of_int_less_iff using bounds by simp
      then have hi: "(of_int (digits_value rest) / 10 ^ Suc (length rest) :: rat) < 1 / 10"
        by (simp add: field_simps)
      have up: "(code_unit (CHR ''5'') \<le> code_unit c \<and> code_unit c \<le> code_unit (CHR ''9'')) = (5 \<le> digit_value c)"
        using c by (auto simp: digit_value_def)
      have round: "js_round (of_int k + (of_int (digit_value c) / 10 + x)) = k + (if 5 \<le> digit_value c then 1 else 0)"
        if "0 \<le> x" "x < 1 / 10" for x :: rat
      proof (cases "5 \<le> digit_value c")
        case True
        then have "(5 :: rat) \<le> of_int (digit_value c)" by linarith
        moreover have "(of_int (digit_value c) :: rat) \<le> 9" using c by linarith
        ultimately have "\<lfloor>of_int (k + 1) + (of_int (digit_value c) / 10 + x - 1 / 2)\<rfloor> = k + 1"
          using that by linarith
        then show ?thesis using True by (simp add: js_round_def algebra_simps)
      next
        case False
        then have "(of_int (digit_value c) :: rat) \<le> 4" by linarith
        moreover have "(0 :: rat) \<le> of_int (digit_value c)" using c by linarith
        ultimately have "\<lfloor>of_int k + (of_int (digit_value c) / 10 + x + 1 / 2)\<rfloor> = k"
          using that by linarith
        then show ?thesis using False by (simp add: js_round_def algebra_simps)
      qed
      show ?thesis unfolding val_eq kept frac round [OF lo hi] using 3 Cons
        by (simp only: up drop_Suc_Cons drop_0 list.case numeral_2_eq_2)
    qed
  qed
qed

section \<open>The plain decimal text denotes the same number\<close>

lemma split_mantissa:
  assumes "is_digits ip" "is_digits fp"
  shows "split_decimal (ip @ (if fp = [] then [] else CHR ''.'' # fp)) = (ip, fp)"
  using split_decimal_plain [OF assms] by simp

lemma mantissa_no_mark:
  assumes "is_digits ip" "is_digits fp"
  shows "\<forall>c \<in> set (ip @ (if fp = [] then [] else CHR ''.'' # fp)). \<not> is_exponent_mark c"
  using digits_no_mark(2) [OF assms(1)] digits_no_mark(2) [OF assms(2)]
  by (auto simp: is_exponent_mark_def)

lemma power_shift: "(10 :: rat) \<noteq> 0 \<Longrightarrow> 10 powi (int a - int b) = 10 ^ a / (10 ^ b :: rat)"
  by (simp add: power_int_diff)

lemma toPlain_exponent:
  assumes ip: "is_digits ip" and fp: "is_digits fp"
  shows "\<exists>ip' fp'. is_digits ip' \<and> is_digits fp' \<and>
    split_decimal (toPlainDecimalString (decimal_text ip fp es)) = (ip', fp') \<and>
    of_int (digits_value (ip' @ fp')) / 10 ^ length fp' = decimal_value ip fp (js_Number es)"
proof (cases "es = []")
  case True
  let ?m = "ip @ (if fp = [] then [] else CHR ''.'' # fp)"
  have "toPlainDecimalString ?m = ?m"
    using mantissa_no_mark [OF ip fp] by (auto simp: toPlainDecimalString_def list_ex_iff)
  moreover have "10 powi (- int (length fp)) = 1 / (10 ^ length fp :: rat)"
    by (simp add: power_int_minus field_simps)
  ultimately show ?thesis
    using True ip fp split_mantissa [OF ip fp]
    by - (rule exI [of _ ip], rule exI [of _ fp], simp add: decimal_text_def decimal_value_def)
next
  case False
  define m where "m = ip @ (if fp = [] then [] else CHR ''.'' # fp)"
  define e where "e = js_Number es"
  define ds where "ds = ip @ fp"
  define pt where "pt = int (length ip) + e"
  have ds: "is_digits ds" using ip fp by (simp add: ds_def)
  have nm: "\<forall>c \<in> set m. \<not> is_exponent_mark c" unfolding m_def by (rule mantissa_no_mark [OF ip fp])
  have mark: "is_exponent_mark (CHR ''e'')" by (simp add: is_exponent_mark_def)
  have txt_eq: "decimal_text ip fp es = m @ CHR ''e'' # es"
    using False by (simp add: decimal_text_def m_def)
  have mant: "takeWhile (\<lambda>c. \<not> is_exponent_mark c) (m @ CHR ''e'' # es) = m"
    and rest: "dropWhile (\<lambda>c. \<not> is_exponent_mark c) (m @ CHR ''e'' # es) = CHR ''e'' # es"
    using nm mark by (simp_all add: takeWhile_append dropWhile_append)
  have plain: "toPlainDecimalString (decimal_text ip fp es) =
      (if pt \<le> 0 then ''0.'' @ zeros (- pt) @ ds
       else if pt \<ge> int (length ds) then ds @ zeros (pt - int (length ds))
       else take (nat pt) ds @ ''.'' @ drop (nat pt) ds)"
    using mark unfolding txt_eq toPlainDecimalString_def mant rest
    by (simp add: m_def split_mantissa [OF ip fp] e_def [symmetric] ds_def [symmetric] pt_def [symmetric] Let_def)
  have val: "decimal_value ip fp e = of_int (digits_value ds) * 10 powi (pt - int (length ds))"
    by (simp add: decimal_value_def ds_def pt_def)
  consider "pt \<le> 0" | "pt > 0" "pt \<ge> int (length ds)" | "pt > 0" "pt < int (length ds)" by linarith
  then show ?thesis
  proof cases
    case 1
    have "split_decimal (''0'' @ CHR ''.'' # (zeros (- pt) @ ds)) = (''0'', zeros (- pt) @ ds)"
      by (rule split_decimal_plain(2)) (simp_all add: ds)
    moreover have "10 powi (pt - int (length ds)) = 1 / (10 ^ (nat (- pt) + length ds) :: rat)"
      using 1 power_shift [of 0 "nat (- pt) + length ds"] by (simp add: algebra_simps)
    moreover have "digits_value (''0'' @ zeros (- pt) @ ds) = digits_value ds"
      by (simp add: digits_value_append digits_value_Cons digit_value_def)
    ultimately show ?thesis using 1 ds unfolding e_def [symmetric] val plain
      by - (rule exI [of _ "''0''"], rule exI [of _ "zeros (- pt) @ ds"],
        simp add: add.commute)
  next
    case 2
    let ?n = "nat (pt - int (length ds))"
    have "split_decimal (ds @ zeros (pt - int (length ds))) = (ds @ zeros (pt - int (length ds)), [])"
      by (rule split_decimal_plain(1) [where fp = "[]"]) (simp_all add: ds)
    moreover have "10 powi (pt - int (length ds)) = (10 ^ ?n :: rat)"
      using 2 power_shift [of ?n 0] by simp
    ultimately show ?thesis using 2 ds unfolding e_def [symmetric] val plain
      by - (rule exI [where x = "ds @ zeros (pt - int (length ds))"],
        rule exI [where x = "[]"],
        simp add: digits_value_append)
  next
    case 3
    let ?t = "take (nat pt) ds" and ?d = "drop (nat pt) ds"
    have "split_decimal (?t @ CHR ''.'' # ?d) = (?t, ?d)"
      by (rule split_decimal_plain(2)) (simp_all add: ds)
    moreover have "10 powi (pt - int (length ds)) = 1 / (10 ^ length ?d :: rat)"
      using 3 power_shift [of 0 "length ds - nat pt"] by (simp add: of_nat_diff)
    ultimately show ?thesis using 3 ds unfolding e_def [symmetric] val plain
      by - (rule exI [of _ ?t], rule exI [of _ ?d], simp)
  qed
qed

text \<open>\<open>round2\<close> rounds the number its text denotes.\<close>

lemma round2_text:
  assumes "denotes (num_to_string \<bar>v\<bar>) x" and "\<bar>v\<bar> \<le> MAX_ABS_VALUE"
  shows "round2 num_to_string (Num v) =
    Inr ((if v < 0 then -1 else 1) * of_int (js_round (100 * x)) / 100)"
proof -
  from assms(1) obtain ip fp es where ip: "is_digits ip" and fp: "is_digits fp"
    and txt_eq: "num_to_string \<bar>v\<bar> = decimal_text ip fp es"
    and x: "x = decimal_value ip fp (js_Number es)"
    by (auto simp: denotes_def)
  from toPlain_exponent [OF ip fp, of es] obtain ip' fp' where ip': "is_digits ip'"
    and fp': "is_digits fp'"
    and split: "split_decimal (toPlainDecimalString (decimal_text ip fp es)) = (ip', fp')"
    and value': "of_int (digits_value (ip' @ fp')) / 10 ^ length fp' = x"
    unfolding x by blast
  have "round_hundredths (toPlainDecimalString (num_to_string \<bar>v\<bar>)) = js_round (100 * x)"
  proof -
    have "split_decimal (toPlainDecimalString (num_to_string \<bar>v\<bar>)) = (ip', fp')"
      using split txt_eq by simp
    then have "round_hundredths (toPlainDecimalString (num_to_string \<bar>v\<bar>)) =
        js_Number ip' * 100 + js_Number (pad_end2 (take 2 fp')) +
        (case drop 2 fp' of [] \<Rightarrow> 0
         | c # _ \<Rightarrow> if code_unit (CHR ''5'') \<le> code_unit c \<and> code_unit c \<le> code_unit (CHR ''9'') then 1 else 0)"
      by (simp add: round_hundredths_def split: list.split)
    also note round_digits [OF ip' fp']
    finally show ?thesis by (simp only: value')
  qed
  then show ?thesis using assms(2) by (simp add: round2_def Let_def)
qed

section \<open>Properties\<close>

text \<open>
  When the printed text of \<open>|v|\<close> denotes \<open>|v|\<close> (plain or in exponent notation), \<open>round2\<close>
  returns \<open>|v|\<close> rounded half-up to hundredths, with the sign of \<open>v\<close>: negative values are
  rounded away from zero symmetrically.
\<close>

theorem round2_half_up:
  assumes "denotes (num_to_string \<bar>v\<bar>) \<bar>v\<bar>" and "\<bar>v\<bar> \<le> MAX_ABS_VALUE"
  shows "round2 num_to_string (Num v) =
    Inr ((if v < 0 then -1 else 1) * of_int (js_round (100 * \<bar>v\<bar>)) / 100)"
  using assms by (rule round2_text)

theorem round2_half_up_witness:
  "round2 (\<lambda>_. ''2.675'') (Num (2675 / 1000)) = Inr (268 / 100) \<and>
   round2 (\<lambda>_. ''5e-3'') (Num (- 5 / 1000)) = Inr (- 1 / 100)"
proof -
  have "decimal_value ''2'' ''675'' 0 = 2675 / 1000"
    by (simp add: decimal_value_def digits_value_def digit_value_def)
  then have "denotes ''2.675'' (2675 / 1000)" unfolding denotes_def
    by - (rule exI [of _ "''2''"], rule exI [of _ "''675''"], rule exI [of _ "[]"],
        simp add: decimal_text_def is_exponent_def)
  moreover have "decimal_value ''5'' [] (-3) = 5 / 1000"
    by (simp add: decimal_value_def digits_value_def digit_value_def)
  then have "denotes ''5e-3'' (5 / 1000)" unfolding denotes_def
    by - (rule exI [of _ "''5''"], rule exI [of _ "[]"], rule exI [of _ "''-3''"],
        simp add: decimal_text_def is_exponent_def digits_value_def digit_value_def)
  ultimately show ?thesis
    using round2_half_up [of "\<lambda>_. ''2.675''" "2675 / 1000"]
      round2_half_up [of "\<lambda>_. ''5e-3''" "- 5 / 1000"]
    by (simp add: MAX_ABS_VALUE_def js_round_def)
qed

end
