(* ===== verification/OverallScore.thy ===== *)
theory OverallScore
  imports Contracts Round2
begin

text \<open>
  packages/scoring/src: the overall score of a scan (overall-score.ts), the coverage and status
  of a module (coverage.ts) and its usable output (usable-output.ts). The arithmetic is exact
  on rationals where the code computes on doubles; the thresholds keep the code's epsilon.
  \<open>num_to_string\<close> is the runtime's number printer that \<open>round2\<close> reads.
\<close>

section \<open>Overall score (overall-score.ts)\<close>

record module_score_summary =
  os_module :: audit_module
  moduleStatus :: module_runtime_status
  coverage :: js_number
  os_score :: "js_number option"
  usableOutput :: bool

datatype overall_verdict = Normal | Provisional | InsufficientData

record module_weight_breakdown =
  mw_module :: audit_module
  tariffWeight :: rat
  effectiveWeight :: rat

record overall_score_result =
  verdict :: overall_verdict
  overall_score :: "rat option"
  weightedCoverage :: rat
  moduleWeights :: "module_weight_breakdown list"

datatype overall_error =
  CoverageOutOfRange audit_module
| ScoreOutOfRange audit_module
| NotInTariff audit_module string
| DuplicateModule audit_module
| RoundingError round2_error

definition WEIGHTED_COVERAGE_NORMAL_MIN :: rat where
  "WEIGHTED_COVERAGE_NORMAL_MIN = 8 / 10"

definition WEIGHTED_COVERAGE_PROVISIONAL_MIN :: rat where
  "WEIGHTED_COVERAGE_PROVISIONAL_MIN = 5 / 10"

definition THRESHOLD_EPSILON :: rat where
  "THRESHOLD_EPSILON = 1 / 10 ^ 9"

definition verdictFor :: "rat \<Rightarrow> overall_verdict" where
  "verdictFor c =
     (if c \<ge> WEIGHTED_COVERAGE_NORMAL_MIN - THRESHOLD_EPSILON then Normal
      else if c \<ge> WEIGHTED_COVERAGE_PROVISIONAL_MIN - THRESHOLD_EPSILON then Provisional
      else InsufficientData)"

fun in_range :: "rat \<Rightarrow> js_number \<Rightarrow> bool" where
  "in_range hi NonFinite = False"
| "in_range hi (Num r) = (0 \<le> r \<and> r \<le> hi)"

fun num_of :: "js_number \<Rightarrow> rat" where
  "num_of NonFinite = 0"
| "num_of (Num r) = r"

definition validateSummary :: "module_score_summary \<Rightarrow> overall_error + unit" where
  "validateSummary s =
     (if \<not> in_range 1 (coverage s) then Inl (CoverageOutOfRange (os_module s))
      else case os_score s of
             None \<Rightarrow> Inr ()
           | Some n \<Rightarrow> if in_range 100 n then Inr () else Inl (ScoreOutOfRange (os_module s)))"

fun indexByModule_from ::
    "string \<Rightarrow> score_weights \<Rightarrow> (audit_module \<times> module_score_summary) list \<Rightarrow>
     module_score_summary list \<Rightarrow> overall_error + (audit_module \<times> module_score_summary) list" where
  "indexByModule_from plan weights byModule [] = Inr byModule"
| "indexByModule_from plan weights byModule (s # summaries) =
     res_bind (validateSummary s) (\<lambda>_.
       if map_of weights (os_module s) = None then
         (if os_module s \<in> set SIDE_SCORE_MODULES
          then indexByModule_from plan weights byModule summaries
          else if os_module s \<in> set (planPreviewModules plan)
          then indexByModule_from plan weights byModule summaries
          else Inl (NotInTariff (os_module s) plan))
       else if map_of byModule (os_module s) \<noteq> None then Inl (DuplicateModule (os_module s))
       else indexByModule_from plan weights (byModule @ [(os_module s, s)]) summaries)"

definition indexByModule ::
    "string \<Rightarrow> module_score_summary list \<Rightarrow> score_weights \<Rightarrow>
     overall_error + (audit_module \<times> module_score_summary) list" where
  "indexByModule plan summaries weights = indexByModule_from plan weights [] summaries"

definition isScoreEligible :: "module_score_summary \<Rightarrow> bool" where
  "isScoreEligible s \<longleftrightarrow>
     usableOutput s \<and> (moduleStatus s = MCompleted \<or> moduleStatus s = MPartial)"

definition buildModuleWeights ::
    "score_weights \<Rightarrow> (audit_module \<times> module_score_summary) list \<Rightarrow> module_weight_breakdown list" where
  "buildModuleWeights weights byModule =
     List.map_filter (\<lambda>m. case map_of weights m of
         None \<Rightarrow> None
       | Some w \<Rightarrow> Some \<lparr>mw_module = m, tariffWeight = w,
           effectiveWeight = (case map_of byModule m of
               Some s \<Rightarrow> if isScoreEligible s then w * num_of (coverage s) else 0
             | None \<Rightarrow> 0)\<rparr>) MODULE_NAMES"

definition scored_entries ::
    "module_weight_breakdown list \<Rightarrow> (audit_module \<times> module_score_summary) list \<Rightarrow> (rat \<times> rat) list" where
  "scored_entries mws byModule =
     List.map_filter (\<lambda>e.
       if effectiveWeight e \<le> 0 then None
       else case map_of byModule (mw_module e) of
              None \<Rightarrow> None
            | Some s \<Rightarrow> (case os_score s of
                           Some n \<Rightarrow> Some (num_of n, effectiveWeight e) | None \<Rightarrow> None)) mws"

definition weightedScore ::
    "(rat \<Rightarrow> string) \<Rightarrow> module_weight_breakdown list \<Rightarrow>
     (audit_module \<times> module_score_summary) list \<Rightarrow> overall_error + rat option" where
  "weightedScore num_to_string mws byModule =
     (let scored = scored_entries mws byModule;
          weightTotal = sum_list (map snd scored)
      in if weightTotal \<le> 0 then Inr None
         else case round2 num_to_string
                     (Num (sum_list (map (\<lambda>(sc, w). sc * w) scored) / weightTotal)) of
                Inl e \<Rightarrow> Inl (RoundingError e)
              | Inr v \<Rightarrow> Inr (Some v))"

definition scoreWithWeights ::
    "(rat \<Rightarrow> string) \<Rightarrow> string \<Rightarrow> score_weights \<Rightarrow> module_score_summary list \<Rightarrow>
     overall_error + overall_score_result" where
  "scoreWithWeights num_to_string plan weights summaries =
     res_bind (indexByModule plan summaries weights) (\<lambda>byModule.
       let mws = buildModuleWeights weights byModule;
           tariffWeightTotal = sum_list (map tariffWeight mws);
           effectiveWeightTotal = sum_list (map effectiveWeight mws)
       in if tariffWeightTotal \<le> 0 then
            Inr \<lparr>verdict = InsufficientData, overall_score = None, weightedCoverage = 0,
                 moduleWeights = mws\<rparr>
          else let covered = effectiveWeightTotal / tariffWeightTotal; v = verdictFor covered in
            res_bind (if v = InsufficientData then Inr None
                      else weightedScore num_to_string mws byModule) (\<lambda>sc.
              case sc of
                None \<Rightarrow> Inr \<lparr>verdict = InsufficientData, overall_score = None,
                            weightedCoverage = covered, moduleWeights = mws\<rparr>
              | Some x \<Rightarrow> Inr \<lparr>verdict = v, overall_score = Some x,
                            weightedCoverage = covered, moduleWeights = mws\<rparr>))"

definition computeOverallScore ::
    "(rat \<Rightarrow> string) \<Rightarrow> plan \<Rightarrow> module_score_summary list \<Rightarrow> overall_error + overall_score_result" where
  "computeOverallScore num_to_string plan summaries =
     scoreWithWeights num_to_string (plan_string plan) (scoreWeights (TARIFFS plan)) summaries"

definition computeStoredScanOverallScore ::
    "(rat \<Rightarrow> string) \<Rightarrow> stored_plan \<Rightarrow> module_score_summary list \<Rightarrow>
     overall_error + overall_score_result" where
  "computeStoredScanOverallScore num_to_string plan summaries =
     (let weights = storedPlanScoreWeights plan (map os_module summaries)
      in scoreWithWeights num_to_string (stored_plan_string plan) weights summaries)"

section \<open>Module coverage (coverage.ts)\<close>

record coverage_input =
  ci_applicable :: js_number
  ci_completed :: js_number
  ci_reason :: "string option"

record module_coverage =
  mc_status :: module_runtime_status
  mc_coverage :: rat
  mc_applicable :: int
  mc_completed :: int
  mc_reason :: "string option"

datatype coverage_error = BadCheckCount | CompletedExceedsApplicable | ReasonRequired

fun is_check_count :: "js_number \<Rightarrow> bool" where
  "is_check_count NonFinite = False"
| "is_check_count (Num r) = (r = of_int \<lfloor>r\<rfloor> \<and> 0 \<le> r)"

definition validateCheckCounts :: "js_number \<Rightarrow> js_number \<Rightarrow> coverage_error + unit" where
  "validateCheckCounts applicable completed =
     (if \<not> is_check_count applicable \<or> \<not> is_check_count completed then Inl BadCheckCount
      else if num_of completed > num_of applicable then Inl CompletedExceedsApplicable
      else Inr ())"

definition withRequiredReason ::
    "coverage_input \<Rightarrow> module_runtime_status \<Rightarrow> rat \<Rightarrow> coverage_error + module_coverage" where
  "withRequiredReason i status c =
     (case ci_reason i of
        None \<Rightarrow> Inl ReasonRequired
      | Some r \<Rightarrow> if js_trim r = [] then Inl ReasonRequired
          else Inr \<lparr>mc_status = status, mc_coverage = c,
                    mc_applicable = \<lfloor>num_of (ci_applicable i)\<rfloor>,
                    mc_completed = \<lfloor>num_of (ci_completed i)\<rfloor>, mc_reason = Some r\<rparr>)"

definition computeCoverage :: "coverage_input \<Rightarrow> coverage_error + module_coverage" where
  "computeCoverage i =
     res_bind (validateCheckCounts (ci_applicable i) (ci_completed i)) (\<lambda>_.
       let applicable = num_of (ci_applicable i); completed = num_of (ci_completed i)
       in if applicable = 0 then withRequiredReason i MNotApplicable 0
          else if completed = 0 then withRequiredReason i MUnavailable 0
          else if completed = applicable then
            Inr \<lparr>mc_status = MCompleted, mc_coverage = 1, mc_applicable = \<lfloor>applicable\<rfloor>,
                 mc_completed = \<lfloor>completed\<rfloor>, mc_reason = ci_reason i\<rparr>
          else withRequiredReason i MPartial (completed / applicable))"

section \<open>Usable output (usable-output.ts)\<close>

datatype output_signal_kind = MetricSignal | ScoreSignal | FindingSignal

record module_output_signal =
  sig_kind :: output_signal_kind
  hasEvidence :: bool
  targetUnreachable :: "bool option"

definition hasUsableOutput :: "js_number \<Rightarrow> module_output_signal list \<Rightarrow> coverage_error + bool" where
  "hasUsableOutput completedApplicableChecks signals =
     (if \<not> is_check_count completedApplicableChecks then Inl BadCheckCount
      else if num_of completedApplicableChecks = 0 then Inr False
      else Inr (list_ex (\<lambda>s. hasEvidence s \<and> targetUnreachable s \<noteq> Some True) signals))"

section \<open>Lemmas\<close>

text \<open>The coverage a module contributes: its own when eligible, otherwise 0.\<close>

definition eligible_coverage :: "module_score_summary list \<Rightarrow> audit_module \<Rightarrow> rat" where
  "eligible_coverage summaries m =
     (case find (\<lambda>s. os_module s = m) summaries of
        None \<Rightarrow> 0
      | Some s \<Rightarrow> if isScoreEligible s then num_of (coverage s) else 0)"

lemma indexByModule_from_spec:
  "indexByModule_from plan weights acc summaries = Inr b \<Longrightarrow>
     list_all (\<lambda>s. validateSummary s = Inr ()) summaries \<and>
     (map_of weights m \<noteq> None \<longrightarrow>
       map_of b m = (case map_of acc m of
          Some s \<Rightarrow> Some s | None \<Rightarrow> find (\<lambda>s. os_module s = m) summaries)) \<and>
     set b \<subseteq> set acc \<union> (\<lambda>s. (os_module s, s)) ` set summaries"
proof (induction plan weights acc summaries rule: indexByModule_from.induct)
  case (1 plan weights acc)
  then show ?case by (auto split: option.split)
next
  case (2 plan weights acc s summaries)
  then show ?case
    by (cases "map_of weights (os_module s)")
      (auto simp: map_add_def split: if_splits option.splits)
qed

lemma indexByModule_spec:
  assumes "indexByModule plan summaries weights = Inr b"
  shows "list_all (\<lambda>s. validateSummary s = Inr ()) summaries"
    and "map_of weights m \<noteq> None \<Longrightarrow> map_of b m = find (\<lambda>s. os_module s = m) summaries"
    and "map_of b m = Some s \<Longrightarrow> s \<in> set summaries"
  using indexByModule_from_spec [of plan weights "[]" summaries b m] assms
  by (auto simp: indexByModule_def dest!: map_of_SomeD)

lemma buildModuleWeights_entry:
  assumes "indexByModule plan summaries weights = Inr b"
  shows "buildModuleWeights weights b = List.map_filter (\<lambda>m. case map_of weights m of
      None \<Rightarrow> None | Some w \<Rightarrow> Some \<lparr>mw_module = m, tariffWeight = w,
        effectiveWeight = w * eligible_coverage summaries m\<rparr>) MODULE_NAMES"
  unfolding buildModuleWeights_def
  by (rule arg_cong2 [where f = List.map_filter])
    (auto simp: fun_eq_iff eligible_coverage_def indexByModule_spec(2) [OF assms] split: option.splits)

lemma validateSummary_ok:
  "validateSummary s = Inr () \<Longrightarrow> 0 \<le> num_of (coverage s) \<and> num_of (coverage s) \<le> 1"
  "validateSummary s = Inr () \<Longrightarrow> os_score s = Some n \<Longrightarrow> 0 \<le> num_of n \<and> num_of n \<le> 100"
  by (cases "coverage s"; auto simp: validateSummary_def split: if_splits option.splits;
      cases n; auto)+

lemma eligible_coverage_bounds:
  assumes "list_all (\<lambda>s. validateSummary s = Inr ()) summaries"
  shows "0 \<le> eligible_coverage summaries m \<and> eligible_coverage summaries m \<le> 1"
  using assms validateSummary_ok(1)
  by (auto simp: eligible_coverage_def list_all_iff find_Some_iff split: option.splits)

text \<open>Sums over the tariff matrix, one plan at a time.\<close>

lemma tariff_weights_sum:
  fixes g :: "audit_module \<Rightarrow> rat"
  shows "sum_list (map tariffWeight (List.map_filter (\<lambda>m. case map_of (scoreWeights (TARIFFS p)) m of
      None \<Rightarrow> None | Some w \<Rightarrow> Some \<lparr>mw_module = m, tariffWeight = w, effectiveWeight = w * g m\<rparr>)
      MODULE_NAMES)) = 1"
    and "sum_list (map effectiveWeight (List.map_filter (\<lambda>m. case map_of (scoreWeights (TARIFFS p)) m of
      None \<Rightarrow> None | Some w \<Rightarrow> Some \<lparr>mw_module = m, tariffWeight = w, effectiveWeight = w * g m\<rparr>)
      MODULE_NAMES)) = (\<Sum>(m, w) \<leftarrow> scoreWeights (TARIFFS p). w * g m)"
  by (cases p; simp add: MODULE_NAMES_def COMPLETE_SCORE_WEIGHTS_def List.map_filter_simps)+

lemma tariff_weighted_bounds:
  assumes "\<And>m. 0 \<le> g m \<and> g m \<le> (1 :: rat)"
  shows "0 \<le> (\<Sum>(m, w) \<leftarrow> scoreWeights (TARIFFS p). w * g m)"
    and "(\<Sum>(m, w) \<leftarrow> scoreWeights (TARIFFS p). w * g m) \<le> 1"
proof -
  note g = assms [of SEO] assms [of AiSeoGeo] assms [of Security] assms [of Performance]
    assms [of Accessibility] assms [of Reliability] assms [of ContentQuality] assms [of Privacy]
  show "0 \<le> (\<Sum>(m, w) \<leftarrow> scoreWeights (TARIFFS p). w * g m)"
    using g by (cases p) (simp_all add: COMPLETE_SCORE_WEIGHTS_def)
  show "(\<Sum>(m, w) \<leftarrow> scoreWeights (TARIFFS p). w * g m) \<le> 1"
    using g by (cases p; simp add: COMPLETE_SCORE_WEIGHTS_def; linarith)
qed

text \<open>A weighted mean of scores lies between the bounds of the scores.\<close>

lemma weighted_mean_bounds:
  assumes "\<forall>(sc, w) \<in> set xs. lo \<le> sc \<and> sc \<le> hi \<and> (0 :: rat) < w" "0 < sum_list (map snd xs)"
  shows "lo \<le> sum_list (map (\<lambda>(sc, w). sc * w) xs) / sum_list (map snd xs)"
    and "sum_list (map (\<lambda>(sc, w). sc * w) xs) / sum_list (map snd xs) \<le> hi"
proof -
  have "lo * sum_list (map snd xs) \<le> sum_list (map (\<lambda>(sc, w). sc * w) xs) \<and>
      sum_list (map (\<lambda>(sc, w). sc * w) xs) \<le> hi * sum_list (map snd xs)"
    using assms(1)
  proof (induction xs)
    case (Cons x xs)
    obtain sc w where x: "x = (sc, w)" by (cases x)
    from Cons.prems x have "lo * w \<le> sc * w" "sc * w \<le> hi * w"
      by (auto intro: mult_right_mono)
    moreover have "lo * sum_list (map snd xs) \<le> sum_list (map (\<lambda>(sc, w). sc * w) xs)"
      "sum_list (map (\<lambda>(sc, w). sc * w) xs) \<le> hi * sum_list (map snd xs)"
      using Cons by auto
    ultimately have "lo * w + lo * sum_list (map snd xs) \<le> sc * w + sum_list (map (\<lambda>(sc, w). sc * w) xs)"
      "sc * w + sum_list (map (\<lambda>(sc, w). sc * w) xs) \<le> hi * w + hi * sum_list (map snd xs)"
      by (auto intro: add_mono)
    then show ?case by (simp add: x distrib_left)
  qed simp
  with assms(2) show "lo \<le> sum_list (map (\<lambda>(sc, w). sc * w) xs) / sum_list (map snd xs)"
    and "sum_list (map (\<lambda>(sc, w). sc * w) xs) / sum_list (map snd xs) \<le> hi"
    by (simp_all add: pos_le_divide_eq pos_divide_le_eq)
qed

lemma map_filter_mem: "y \<in> set (List.map_filter f xs) \<longleftrightarrow> (\<exists>x \<in> set xs. f x = Some y)"
  by (induction xs) (auto simp: List.map_filter_simps split: option.splits)

lemma scored_entries_bounds:
  assumes "indexByModule plan summaries weights = Inr b"
  shows "\<forall>(sc, w) \<in> set (scored_entries mws b). 0 \<le> sc \<and> sc \<le> 100 \<and> 0 < w"
proof (intro ballI case_prodI2)
  fix e sc w assume e: "e \<in> set (scored_entries mws b)" "e = (sc, w)"
  then have "(sc, w) \<in> set (scored_entries mws b)" by simp
  then obtain mw :: module_weight_breakdown where "(if effectiveWeight mw \<le> 0 then None
       else case map_of b (mw_module mw) of
              None \<Rightarrow> None
            | Some s \<Rightarrow> (case os_score s of
                           Some n \<Rightarrow> Some (num_of n, effectiveWeight mw) | None \<Rightarrow> None)) = Some (sc, w)"
    unfolding scored_entries_def map_filter_mem by blast
  then obtain s n where "map_of b (mw_module mw) = Some s" "os_score s = Some n"
    and sc: "sc = num_of n" and w: "w = effectiveWeight mw" "\<not> effectiveWeight mw \<le> 0"
    by (auto split: if_splits option.splits)
  with indexByModule_spec(1,3) [OF assms] validateSummary_ok(2) [of s n]
  show "0 \<le> sc \<and> sc \<le> 100 \<and> 0 < w" by (auto simp: list_all_iff)
qed

text \<open>What a returned overall score consists of.\<close>

lemma computeOverallScore_Inr:
  assumes "computeOverallScore str p summaries = Inr r"
  obtains b where
    "indexByModule (plan_string p) summaries (scoreWeights (TARIFFS p)) = Inr b"
    "moduleWeights r = buildModuleWeights (scoreWeights (TARIFFS p)) b"
    "weightedCoverage r = (\<Sum>(m, w) \<leftarrow> scoreWeights (TARIFFS p). w * eligible_coverage summaries m)"
    "overall_score r = None \<longrightarrow> verdict r = InsufficientData"
    "\<And>x. overall_score r = Some x \<Longrightarrow> verdict r = verdictFor (weightedCoverage r) \<and>
       verdict r \<noteq> InsufficientData \<and> weightedScore str (moduleWeights r) b = Inr (Some x)"
    "verdictFor (weightedCoverage r) \<noteq> InsufficientData \<Longrightarrow>
       weightedScore str (moduleWeights r) b = Inr (overall_score r)"
proof -
  let ?w = "scoreWeights (TARIFFS p)"
  from assms obtain b where b: "indexByModule (plan_string p) summaries ?w = Inr b"
    by (auto simp: computeOverallScore_def scoreWithWeights_def)
  note entry = buildModuleWeights_entry [OF b]
  have total: "sum_list (map tariffWeight (buildModuleWeights ?w b)) = 1"
    and eff: "sum_list (map effectiveWeight (buildModuleWeights ?w b)) =
      (\<Sum>(m, w) \<leftarrow> ?w. w * eligible_coverage summaries m)"
    unfolding entry by (rule tariff_weights_sum)+
  let ?mws = "buildModuleWeights ?w b"
  let ?cov = "\<Sum>(m, w) \<leftarrow> ?w. w * eligible_coverage summaries m"
  have "res_bind (if verdictFor ?cov = InsufficientData then Inr None else weightedScore str ?mws b)
      (\<lambda>sc. case sc of
         None \<Rightarrow> Inr \<lparr>verdict = InsufficientData, overall_score = None,
                   weightedCoverage = ?cov, moduleWeights = ?mws\<rparr>
       | Some x \<Rightarrow> Inr \<lparr>verdict = verdictFor ?cov, overall_score = Some x,
                   weightedCoverage = ?cov, moduleWeights = ?mws\<rparr>) = Inr r"
    using assms unfolding computeOverallScore_def scoreWithWeights_def b res_bind.simps Let_def total eff
    by simp
  then obtain sc where
    sc: "(if verdictFor ?cov = InsufficientData then Inr None else weightedScore str ?mws b) = Inr sc"
    and r: "r = (case sc of
         None \<Rightarrow> \<lparr>verdict = InsufficientData, overall_score = None,
                   weightedCoverage = ?cov, moduleWeights = ?mws\<rparr>
       | Some x \<Rightarrow> \<lparr>verdict = verdictFor ?cov, overall_score = Some x,
                   weightedCoverage = ?cov, moduleWeights = ?mws\<rparr>)"
    unfolding res_bind_eq_Inr by (auto split: option.splits)
  show thesis
  proof (rule that [OF b])
    show "moduleWeights r = ?mws" "weightedCoverage r = ?cov"
      "overall_score r = None \<longrightarrow> verdict r = InsufficientData"
      by (simp_all add: r split: option.split)
    show "verdict r = verdictFor (weightedCoverage r) \<and> verdict r \<noteq> InsufficientData \<and>
        weightedScore str (moduleWeights r) b = Inr (Some x)" if "overall_score r = Some x" for x
      using that sc by (cases sc) (simp_all add: r split: if_splits)
    show "weightedScore str (moduleWeights r) b = Inr (overall_score r)"
      if "verdictFor (weightedCoverage r) \<noteq> InsufficientData"
      using that sc by (cases sc) (simp_all add: r)
  qed
qed

text \<open>A concrete Basic scan: SEO complete with score 80, GEO not reported.\<close>

definition example_summaries :: "module_score_summary list" where
  "example_summaries =
     [\<lparr>os_module = SEO, moduleStatus = MCompleted, coverage = Num 1, os_score = Some (Num 80),
       usableOutput = True\<rparr>]"

lemma example_overall:
  "computeOverallScore (\<lambda>_. ''80'') Basic example_summaries = Inr \<lparr>verdict = Provisional,
     overall_score = Some 80, weightedCoverage = 6 / 10,
     moduleWeights = [\<lparr>mw_module = SEO, tariffWeight = 6 / 10, effectiveWeight = 6 / 10\<rparr>,
                      \<lparr>mw_module = AiSeoGeo, tariffWeight = 4 / 10, effectiveWeight = 0\<rparr>]\<rparr>"
  by (simp add: computeOverallScore_def scoreWithWeights_def indexByModule_def
      example_summaries_def validateSummary_def buildModuleWeights_def MODULE_NAMES_def
      List.map_filter_simps isScoreEligible_def verdictFor_def WEIGHTED_COVERAGE_NORMAL_MIN_def
      WEIGHTED_COVERAGE_PROVISIONAL_MIN_def THRESHOLD_EPSILON_def weightedScore_def
      scored_entries_def round2_def MAX_ABS_VALUE_def toPlainDecimalString_def
      is_exponent_mark_def round_hundredths_def split_decimal_def pad_end2_def
      digits_value_def digit_value_def Let_def numeral_2_eq_2)

lemma denotes_80: "denotes ''80'' 80"
proof -
  have "decimal_value ''80'' [] 0 = 80"
    by (simp add: decimal_value_def digits_value_def digit_value_def)
  then show ?thesis unfolding denotes_def
    by - (rule exI [of _ "''80''"], rule exI [of _ "[]"], rule exI [of _ "[]"],
        simp add: decimal_text_def is_exponent_def)
qed

section \<open>Properties\<close>



text \<open>
  When the runtime prints every number of 0 to 100 as the text of some number of 0 to 100,
  an overall score is between 0 and 100.
\<close>

theorem overall_score_bounds:
  assumes "computeOverallScore str p summaries = Inr r" and "overall_score r = Some x"
    and "\<And>y. 0 \<le> y \<Longrightarrow> y \<le> 100 \<Longrightarrow> \<exists>z. denotes (str y) z \<and> 0 \<le> z \<and> z \<le> 100"
  shows "0 \<le> x \<and> x \<le> 100"
proof -
  from assms(1,2) obtain b where
    b: "indexByModule (plan_string p) summaries (scoreWeights (TARIFFS p)) = Inr b"
    and ws: "weightedScore str (moduleWeights r) b = Inr (Some x)"
    using computeOverallScore_Inr by metis
  define xs where "xs = scored_entries (moduleWeights r) b"
  define v where "v = sum_list (map (\<lambda>(sc, w). sc * w) xs) / sum_list (map snd xs)"
  from ws have pos: "0 < sum_list (map snd xs)" and r2: "round2 str (Num v) = Inr x"
    by (auto simp: weightedScore_def xs_def v_def Let_def split: if_splits sum.splits)
  have "\<forall>(sc, w) \<in> set xs. 0 \<le> sc \<and> sc \<le> 100 \<and> 0 < w"
    unfolding xs_def by (rule scored_entries_bounds [OF b])
  from weighted_mean_bounds [OF this pos] have v: "0 \<le> v" "v \<le> 100" by (simp_all add: v_def)
  from assms(3) [OF v] obtain z where z: "denotes (str \<bar>v\<bar>) z" "0 \<le> z" "z \<le> 100"
    using v by auto
  have "\<bar>v\<bar> \<le> MAX_ABS_VALUE" using v by (simp add: MAX_ABS_VALUE_def)
  from round2_text [of str v, OF z(1) this] r2 v have x: "x = of_int (js_round (100 * z)) / 100" by simp
  have "0 \<le> js_round (100 * z)" using z by (intro js_round_nonneg) simp
  moreover have "js_round (100 * z) \<le> 10000" using z by (intro js_round_le_int) simp
  then have "(of_int (js_round (100 * z)) :: rat) \<le> of_int 10000" unfolding of_int_le_iff .
  ultimately show ?thesis by (simp add: x)
qed

theorem overall_score_bounds_witness:
  "(0 :: rat) \<le> 80 \<and> (80 :: rat) \<le> 100 \<and>
   (\<exists>r. computeOverallScore (\<lambda>_. ''80'') Basic example_summaries = Inr r \<and> overall_score r = Some 80)"
proof -
  have "(0 :: rat) \<le> 80 \<and> (80 :: rat) \<le> 100"
    by (rule overall_score_bounds [OF example_overall])
      (use denotes_80 in \<open>auto intro!: exI [of _ 80]\<close>)
  then show ?thesis using example_overall by auto
qed

text \<open>
  A returned module coverage is \<open>completed / applicable\<close> (0 when nothing was applicable) and
  lies in 0..1; its status is Completed exactly when everything applicable was completed,
  Partial exactly when the coverage is strictly between 0 and 1, Unavailable when checks were
  applicable and none completed, Not applicable when none was applicable; every status other
  than Completed carries a non-blank reason.
\<close>

theorem coverage_status:
  assumes "computeCoverage i = Inr c"
  shows "mc_coverage c = (if mc_applicable c = 0 then 0
        else of_int (mc_completed c) / of_int (mc_applicable c))
    \<and> 0 \<le> mc_coverage c \<and> mc_coverage c \<le> 1
    \<and> (mc_status c = MCompleted \<longleftrightarrow> mc_applicable c \<noteq> 0 \<and> mc_completed c = mc_applicable c)
    \<and> (mc_status c = MPartial \<longleftrightarrow> 0 < mc_coverage c \<and> mc_coverage c < 1)
    \<and> (mc_status c = MUnavailable \<longleftrightarrow> mc_applicable c \<noteq> 0 \<and> mc_completed c = 0)
    \<and> (mc_status c = MNotApplicable \<longleftrightarrow> mc_applicable c = 0)
    \<and> (mc_status c = MCompleted \<or> (\<exists>r. mc_reason c = Some r \<and> js_trim r \<noteq> []))"
proof -
  obtain a d where i: "ci_applicable i = Num (of_int a)" "ci_completed i = Num (of_int d)"
    and le: "0 \<le> a" "0 \<le> d" "d \<le> a"
    using assms
    by (cases "ci_applicable i"; cases "ci_completed i")
      (auto simp: computeCoverage_def validateCheckCounts_def split: if_splits)
  then show ?thesis
    using assms
    by (auto simp: computeCoverage_def withRequiredReason_def Let_def
        split: if_splits option.splits)
qed

theorem coverage_status_witness:
  "\<exists>c. computeCoverage \<lparr>ci_applicable = Num 4, ci_completed = Num 3, ci_reason = Some ''slow''\<rparr> = Inr c
     \<and> mc_status c = MPartial \<and> mc_coverage c = 3 / 4 \<and> mc_coverage c \<le> 1"
proof -
  let ?c = "\<lparr>mc_status = MPartial, mc_coverage = 3 / 4, mc_applicable = 4, mc_completed = 3,
      mc_reason = Some ''slow''\<rparr>"
  have eval: "computeCoverage \<lparr>ci_applicable = Num 4, ci_completed = Num 3, ci_reason = Some ''slow''\<rparr> = Inr ?c"
    by (simp add: computeCoverage_def validateCheckCounts_def withRequiredReason_def
        js_trim_def js_is_space_def)
  from coverage_status [OF eval] eval show ?thesis by auto
qed

end
