(* ===== verification/IpGuard.thy ===== *)
theory IpGuard
  imports Prelude "HOL-Library.Word"
begin

text \<open>
  The SSRF address guard, \<open>packages/safe-fetch/src/ip-guard.ts\<close>: which IP addresses the crawler
  may open a socket to. An IPv4 address is a 32-bit unsigned word (JavaScript's \<open>>>> 0\<close>), an IPv6
  address a list of 16-bit groups, held in the same 32-bit words the bitwise operators work on.

  \<open>isIPv4\<close> of \<open>node:net\<close> is the strict dotted quad; \<open>isIPv6\<close> is a parameter (\<open>v6\<close>): nothing below
  depends on which texts it accepts, because \<open>parseIpv6Words\<close> validates the text again.
  \<open>ipv4_category\<close> and \<open>ipv6_category\<close> are the specification, written over octets and groups
  with the registry's ranges; the theorems show that the bit arithmetic of the code decides them.
\<close>

unbundle bit_operations_syntax

section \<open>Dotted quads\<close>

definition is_octet :: "string \<Rightarrow> bool" where
  "is_octet s \<longleftrightarrow> s \<noteq> [] \<and> length s \<le> 3 \<and> is_digits s \<and> (1 < length s \<longrightarrow> hd s \<noteq> CHR ''0'')
     \<and> digits_value s \<le> 255"

definition isIPv4 :: "string \<Rightarrow> bool" where
  "isIPv4 s \<longleftrightarrow> (let ps = split_on (CHR ''.'') s in length ps = 4 \<and> list_all is_octet ps)"

definition octets :: "string \<Rightarrow> int list" where
  "octets ip = map js_Number (split_on (CHR ''.'') ip)"

text \<open>\<open>((a << 24) | (b << 16) | (c << 8) | d) >>> 0\<close>; a missing octet is 0, extra ones are ignored.\<close>

fun js_destructure4 :: "int list \<Rightarrow> int \<times> int \<times> int \<times> int" where
  "js_destructure4 (a # b # c # d # _) = (a, b, c, d)"
| "js_destructure4 [a, b, c] = (a, b, c, 0)"
| "js_destructure4 [a, b] = (a, b, 0, 0)"
| "js_destructure4 [a] = (a, 0, 0, 0)"
| "js_destructure4 [] = (0, 0, 0, 0)"

definition ipv4 :: "string \<Rightarrow> 32 word" where
  "ipv4 ip =
     (case js_destructure4 (octets ip) of (a, b, c, d) \<Rightarrow>
        push_bit 24 (word_of_int a) OR push_bit 16 (word_of_int b) OR push_bit 8 (word_of_int c)
          OR word_of_int d)"

definition maskOf :: "nat \<Rightarrow> 32 word" where
  "maskOf maskBits = (if maskBits = 0 then 0 else push_bit (32 - maskBits) (NOT 0))"

section \<open>Classification\<close>

datatype BlockedIpCategory =
    Invalid | Unspecified | Loopback | Private | LinkLocal | Cgnat | Broadcast | MulticastRange
  | Reserved | UniqueLocal | Ipv4Compatible | Documentation | Nat64 | SixToFour

datatype IpClassification = PublicIp | BlockedIp BlockedIpCategory string

fun isPublic :: "IpClassification \<Rightarrow> bool" where
  "isPublic PublicIp = True"
| "isPublic (BlockedIp _ _) = False"

definition blocked :: "BlockedIpCategory \<Rightarrow> string \<Rightarrow> IpClassification" where
  "blocked category reason = BlockedIp category reason"

record Ipv4BlockedRange =
  range_base :: "32 word"
  range_maskBits :: nat
  range_category :: BlockedIpCategory
  range_reason :: string

definition IPV4_BLOCKED_RANGES :: "Ipv4BlockedRange list" where
  "IPV4_BLOCKED_RANGES =
     [\<lparr> range_base = ipv4 ''255.255.255.255'', range_maskBits = 32, range_category = Broadcast,
        range_reason = ''broadcast 255.255.255.255'' \<rparr>,
      \<lparr> range_base = ipv4 ''0.0.0.0'', range_maskBits = 8, range_category = Unspecified,
        range_reason = ''this-network 0.0.0.0/8'' \<rparr>,
      \<lparr> range_base = ipv4 ''127.0.0.1'' AND maskOf 8, range_maskBits = 8, range_category = Loopback,
        range_reason = ''loopback 127.0.0.0/8'' \<rparr>,
      \<lparr> range_base = ipv4 ''10.0.0.0'', range_maskBits = 8, range_category = Private,
        range_reason = ''private RFC1918 10.0.0.0/8'' \<rparr>,
      \<lparr> range_base = ipv4 ''172.16.0.0'', range_maskBits = 12, range_category = Private,
        range_reason = ''private RFC1918 172.16.0.0/12'' \<rparr>,
      \<lparr> range_base = ipv4 ''192.168.0.0'', range_maskBits = 16, range_category = Private,
        range_reason = ''private RFC1918 192.168.0.0/16'' \<rparr>,
      \<lparr> range_base = ipv4 ''169.254.0.0'', range_maskBits = 16, range_category = LinkLocal,
        range_reason = ''link-local 169.254.0.0/16 (incl. cloud metadata 169.254.169.254)'' \<rparr>,
      \<lparr> range_base = ipv4 ''100.64.0.0'', range_maskBits = 10, range_category = Cgnat,
        range_reason = ''carrier-grade NAT 100.64.0.0/10'' \<rparr>,
      \<lparr> range_base = ipv4 ''224.0.0.0'', range_maskBits = 4, range_category = MulticastRange,
        range_reason = ''multicast 224.0.0.0/4'' \<rparr>,
      \<lparr> range_base = ipv4 ''240.0.0.0'', range_maskBits = 4, range_category = Reserved,
        range_reason = ''reserved 240.0.0.0/4'' \<rparr>]"

definition in_range :: "32 word \<Rightarrow> Ipv4BlockedRange \<Rightarrow> bool" where
  "in_range v r \<longleftrightarrow> v AND maskOf (range_maskBits r) = range_base r AND maskOf (range_maskBits r)"

fun first_range :: "32 word \<Rightarrow> Ipv4BlockedRange list \<Rightarrow> IpClassification" where
  "first_range v [] = PublicIp"
| "first_range v (r # rs) =
     (if in_range v r then blocked (range_category r) (range_reason r) else first_range v rs)"

definition classifyIpv4 :: "string \<Rightarrow> IpClassification" where
  "classifyIpv4 ip = first_range (ipv4 ip) IPV4_BLOCKED_RANGES"

text \<open>The embedded address is printed as a dotted quad and classified as text.\<close>

definition classifyEmbeddedIpv4 :: "32 word \<Rightarrow> 32 word \<Rightarrow> string \<Rightarrow> IpClassification" where
  "classifyEmbeddedIpv4 w6 w7 container =
     (let embedded = nat_to_string (unat (drop_bit 8 w6)) @ ''.''
            @ nat_to_string (unat (w6 AND 0xff)) @ ''.''
            @ nat_to_string (unat (drop_bit 8 w7)) @ ''.'' @ nat_to_string (unat (w7 AND 0xff))
      in case classifyIpv4 embedded of
           PublicIp \<Rightarrow> PublicIp
         | BlockedIp cat why \<Rightarrow>
             blocked cat (container @ '' embedding '' @ embedded @ '': '' @ why))"

section \<open>IPv6 text\<close>

definition hex_digit_value :: "char \<Rightarrow> nat option" where
  "hex_digit_value c =
     (let n = code_unit c in
      if 48 \<le> n \<and> n \<le> 57 then Some (n - 48)
      else if 65 \<le> n \<and> n \<le> 70 then Some (n - 55)
      else if 97 \<le> n \<and> n \<le> 102 then Some (n - 87) else None)"

text \<open>The test \<open>/^[0-9a-fA-F]{1,4}$/\<close> and \<open>Number.parseInt(part, 16)\<close> on what passes it.\<close>

definition is_hex_group :: "string \<Rightarrow> bool" where
  "is_hex_group s \<longleftrightarrow> 1 \<le> length s \<and> length s \<le> 4 \<and> list_all (\<lambda>c. hex_digit_value c \<noteq> None) s"

definition hex_value :: "string \<Rightarrow> nat" where
  "hex_value = foldl (\<lambda>acc c. 16 * acc + (case hex_digit_value c of Some d \<Rightarrow> d | None \<Rightarrow> 0)) 0"

fun parse_parts :: "string list \<Rightarrow> 32 word list option" where
  "parse_parts [] = Some []"
| "parse_parts (part # parts) =
     (if CHR ''.'' \<in> set part then
        (if \<not> isIPv4 part then None
         else case js_destructure4 (octets part) of (a, b, c, d) \<Rightarrow>
           map_option (\<lambda>ws. (push_bit 8 (word_of_int a) OR word_of_int b)
               # (push_bit 8 (word_of_int c) OR word_of_int d) # ws) (parse_parts parts))
      else if \<not> is_hex_group part then None
      else map_option (\<lambda>ws. of_nat (hex_value part) # ws) (parse_parts parts))"

definition parseIpv6Side :: "string \<Rightarrow> 32 word list option" where
  "parseIpv6Side side = (if side = [] then Some [] else parse_parts (split_on (CHR '':'') side))"

definition parseIpv6Words :: "string \<Rightarrow> 32 word list option" where
  "parseIpv6Words ip =
     (let halves = split_str (CHR '':'') '':'' ip in
      if 2 < length halves then None
      else
        case (parseIpv6Side (hd halves),
              if length halves = 2 then parseIpv6Side (halves ! 1) else Some []) of
          (Some left, Some right) \<Rightarrow>
            if length halves = 1 then (if length left = 8 then Some left else None)
            else if 8 - int (length left) - int (length right) < 1 then None
            else Some (left @ replicate (8 - length left - length right) 0 @ right)
        | _ \<Rightarrow> None)"

definition group :: "32 word list \<Rightarrow> nat \<Rightarrow> 32 word" where
  "group ws i = (if i < length ws then ws ! i else 0)"

definition classifyIpv6 :: "string \<Rightarrow> IpClassification" where
  "classifyIpv6 ip =
     (case parseIpv6Words ip of
        None \<Rightarrow> blocked Invalid (''unparseable IPv6 address: \"'' @ ip @ ''\"'')
      | Some words \<Rightarrow>
          let w0 = group words 0; w1 = group words 1; w2 = group words 2; w3 = group words 3;
              w4 = group words 4; w5 = group words 5; w6 = group words 6; w7 = group words 7;
              leadingZero = (w0 = 0 \<and> w1 = 0 \<and> w2 = 0 \<and> w3 = 0 \<and> w4 = 0)
          in
          if leadingZero \<and> w5 = 0 \<and> w6 = 0 \<and> w7 = 0 then
            blocked Unspecified ''IPv6 unspecified ::''
          else if leadingZero \<and> w5 = 0 \<and> w6 = 0 \<and> w7 = 1 then
            blocked Loopback ''IPv6 loopback ::1''
          else if leadingZero \<and> w5 = 0xffff then
            classifyEmbeddedIpv4 w6 w7 ''IPv4-mapped ::ffff:0:0/96''
          else if leadingZero \<and> w5 = 0 then
            blocked Ipv4Compatible ''deprecated IPv4-compatible ::/96''
          else if w0 AND 0xfe00 = 0xfc00 then
            blocked UniqueLocal ''IPv6 unique local fc00::/7''
          else if w0 AND 0xffc0 = 0xfe80 then
            blocked LinkLocal ''IPv6 link-local fe80::/10''
          else if w0 AND 0xff00 = 0xff00 then
            blocked MulticastRange ''IPv6 multicast ff00::/8''
          else if w0 = 0x2001 \<and> w1 = 0x0db8 then
            blocked Documentation ''IPv6 documentation 2001:db8::/32''
          else if w0 = 0x0064 \<and> w1 = 0xff9b \<and> w2 = 0 \<and> w3 = 0 \<and> w4 = 0 \<and> w5 = 0 then
            classifyEmbeddedIpv4 w6 w7 ''NAT64 64:ff9b::/96''
          else if w0 = 0x0064 \<and> w1 = 0xff9b \<and> w2 = 1 \<and> w3 = 0 \<and> w4 = 0 \<and> w5 = 0 then
            classifyEmbeddedIpv4 w6 w7 ''NAT64 local-use 64:ff9b:1::/96 (RFC 8215)''
          else if w0 = 0x2002 then
            classifyEmbeddedIpv4 w1 w2 ''6to4 2002::/16 (RFC 3056)''
          else PublicIp)"

text \<open>The literal without URL brackets.\<close>

definition bare_ip :: "string \<Rightarrow> string" where
  "bare_ip ip = (if starts_with ip ''['' \<and> ends_with ip '']'' then butlast (drop 1 ip) else ip)"

definition classifyIp :: "(string \<Rightarrow> bool) \<Rightarrow> string \<Rightarrow> IpClassification" where
  "classifyIp v6 ip =
     (let bare = bare_ip ip in
      if isIPv4 bare then classifyIpv4 bare
      else if v6 bare then classifyIpv6 bare
      else blocked Invalid (''not a valid IP address: \"'' @ bare @ ''\"''))"

definition isPublicIp :: "(string \<Rightarrow> bool) \<Rightarrow> string \<Rightarrow> bool" where
  "isPublicIp v6 ip = isPublic (classifyIp v6 ip)"

section \<open>The mask arithmetic\<close>

lemma or_plus:
  fixes x y :: "32 word"
  assumes "take_bit k y = y"
  shows "push_bit k x OR y = push_bit k x + y"
proof -
  have "push_bit k x AND y = push_bit k x AND take_bit k y" by (simp add: assms)
  also have "\<dots> = 0" by (auto simp: bit_eq_iff bit_simps)
  finally show ?thesis by (simp add: disjunctive_add_eq_or)
qed

lemma mask_test:
  fixes v b :: "32 word"
  assumes "0 < n" "n \<le> 32"
  shows "v AND maskOf n = b AND maskOf n \<longleftrightarrow> drop_bit (32 - n) v = drop_bit (32 - n) b"
proof -
  have mask: "x AND maskOf n = push_bit (32 - n) (drop_bit (32 - n) x)" for x :: "32 word"
    using assms unfolding maskOf_def
    by (auto simp: bit_eq_iff [where ?'a = "32 word"] bit_simps dest: bit_imp_le_length)
  have "drop_bit (32 - n) (push_bit (32 - n) (drop_bit (32 - n) x)) = drop_bit (32 - n) x" for x :: "32 word"
    using assms by (auto simp: bit_eq_iff [where ?'a = "32 word"] bit_simps dest: bit_imp_le_length)
  then show ?thesis unfolding mask by metis
qed

lemma drop_bit_unat: "unat (drop_bit k (w :: 32 word)) = unat w div 2 ^ k"
  unfolding unat_drop_bit_eq by (rule drop_bit_eq_div)

lemma mask_test_unat:
  fixes v b :: "32 word"
  assumes "0 < n" "n \<le> 32"
  shows "v AND maskOf n = b AND maskOf n \<longleftrightarrow> unat v div 2 ^ (32 - n) = unat b div 2 ^ (32 - n)"
  unfolding mask_test [OF assms] by (simp add: unsigned_word_eqI [symmetric] drop_bit_unat [symmetric] word_unat_eq_iff)

lemma push_or_nat:
  assumes "y < 2 ^ k"
  shows "push_bit k (of_nat x) OR of_nat y = (of_nat (x * 2 ^ k + y) :: 32 word)"
proof -
  have "take_bit k (of_nat y :: 32 word) = of_nat y"
    using assms by (simp add: take_bit_of_nat take_bit_nat_eq_self)
  then have "push_bit k (of_nat x) OR of_nat y = (push_bit k (of_nat x) + of_nat y :: 32 word)"
    by (rule or_plus)
  also have "\<dots> = of_nat (x * 2 ^ k + y)" by (simp add: push_bit_eq_mult)
  finally show ?thesis .
qed

lemma push_or_8:
  "y < 256 \<Longrightarrow> push_bit 8 (of_nat x) OR of_nat y = (of_nat (x * 256 + y) :: 32 word)"
  using push_or_nat [of y 8 x] by simp

lemma or_nested:
  fixes a :: "32 word"
  shows "push_bit 24 a OR push_bit 16 b OR push_bit 8 c OR d = push_bit 8 (push_bit 8 (push_bit 8 a OR b) OR c) OR d"
  by (simp add: ac_simps)

lemma quad_word:
  assumes "b < 256" "c < 256" "d < 256"
  shows "push_bit 24 (of_nat a) OR push_bit 16 (of_nat b) OR push_bit 8 (of_nat c) OR of_nat d
      = (of_nat (((a * 256 + b) * 256 + c) * 256 + d) :: 32 word)"
  unfolding or_nested using assms by (simp only: push_or_8)

lemma unat_of_nat_small: "n < 2 ^ 32 \<Longrightarrow> unat (of_nat n :: 32 word) = n"
  by (simp add: unat_of_nat)

lemma quad_bound:
  fixes a :: nat
  shows "a < 256 \<Longrightarrow> b < 256 \<Longrightarrow> c < 256 \<Longrightarrow> d < 256 \<Longrightarrow> ((a * 256 + b) * 256 + c) * 256 + d < 2 ^ 32"
  by simp

lemma range_test:
  assumes "0 < n" "n \<le> 32" "v < 2 ^ 32" "b < 2 ^ 32"
  shows "(of_nat v :: 32 word) AND maskOf n = of_nat b AND maskOf n \<longleftrightarrow> v div 2 ^ (32 - n) = b div 2 ^ (32 - n)"
  using assms by (simp only: mask_test_unat unat_of_nat_small)

lemma quad_div:
  fixes a :: nat
  assumes "b < 256" "c < 256" "d < 256" "v = ((a * 256 + b) * 256 + c) * 256 + d"
  shows "v div 2 ^ (32 - 8) = a" "v div 2 ^ (32 - 16) = a * 256 + b"
    "v div 2 ^ (32 - 12) = a * 16 + b div 16" "v div 2 ^ (32 - 10) = a * 4 + b div 64"
    "v div 2 ^ (32 - 4) = a div 16" "v div 2 ^ (32 - 32) = v"
proof -
  have v: "v = a * 16777216 + b * 65536 + c * 256 + d" using assms(4) by simp
  show "v div 2 ^ (32 - 8) = a" "v div 2 ^ (32 - 16) = a * 256 + b"
    "v div 2 ^ (32 - 12) = a * 16 + b div 16" "v div 2 ^ (32 - 10) = a * 4 + b div 64"
    "v div 2 ^ (32 - 4) = a div 16" "v div 2 ^ (32 - 32) = v"
    using v assms(1-3) by simp_all
qed


lemma ipv4_of_octets:
  assumes "octets ip = [int a, int b, int c, int d]" "b < 256" "c < 256" "d < 256"
  shows "ipv4 ip = of_nat (((a * 256 + b) * 256 + c) * 256 + d)"
  unfolding ipv4_def using assms quad_word [of b c d a] by simp


section \<open>IPv4: the ranges in octets\<close>

definition ipv4_category :: "nat \<Rightarrow> nat \<Rightarrow> nat \<Rightarrow> nat \<Rightarrow> BlockedIpCategory option" where
  "ipv4_category a b c d =
     (if a = 255 \<and> b = 255 \<and> c = 255 \<and> d = 255 then Some Broadcast
      else if a = 0 then Some Unspecified
      else if a = 127 then Some Loopback
      else if a = 10 then Some Private
      else if a = 172 \<and> 16 \<le> b \<and> b \<le> 31 then Some Private
      else if a = 192 \<and> b = 168 then Some Private
      else if a = 169 \<and> b = 254 then Some LinkLocal
      else if a = 100 \<and> 64 \<le> b \<and> b \<le> 127 then Some Cgnat
      else if 224 \<le> a \<and> a \<le> 239 then Some MulticastRange
      else if 240 \<le> a then Some Reserved
      else None)"

fun verdict_category :: "IpClassification \<Rightarrow> BlockedIpCategory option" where
  "verdict_category PublicIp = None"
| "verdict_category (BlockedIp cat why) = Some cat"

lemma range_bases:
  "ipv4 ''255.255.255.255'' = of_nat 4294967295" "ipv4 ''0.0.0.0'' = of_nat 0"
  "ipv4 ''127.0.0.1'' AND maskOf 8 = of_nat 2130706432" "ipv4 ''10.0.0.0'' = of_nat 167772160"
  "ipv4 ''172.16.0.0'' = of_nat 2886729728" "ipv4 ''192.168.0.0'' = of_nat 3232235520"
  "ipv4 ''169.254.0.0'' = of_nat 2851995648" "ipv4 ''100.64.0.0'' = of_nat 1681915904"
  "ipv4 ''224.0.0.0'' = of_nat 3758096384" "ipv4 ''240.0.0.0'' = of_nat 4026531840"
  by (simp_all add: ipv4_def octets_def digits_value_Cons digit_value_def maskOf_def mask_eq_decr_exp)

lemma less_255: "(255 :: nat) < 256" and eval_255: "((255 * 256 + 255) * 256 + 255) * 256 + 255 = (4294967295 :: nat)"
  by simp_all

lemma classifyIpv4_category:
  assumes "octets ip = [int a, int b, int c, int d]" "a < 256" "b < 256" "c < 256" "d < 256"
  shows "verdict_category (classifyIpv4 ip) = ipv4_category a b c d"
proof -
  define v where "v = ((a * 256 + b) * 256 + c) * 256 + d"
  have ip: "ipv4 ip = of_nat v" unfolding v_def by (rule ipv4_of_octets) (use assms in simp_all)
  have v: "v < 2 ^ 32" unfolding v_def by (rule quad_bound) (use assms in simp_all)
  note dv = quad_div [OF assms(3-5) v_def]
  have tests: "a * 256 + b = 49320 \<longleftrightarrow> a = 192 \<and> b = 168"
    "a * 256 + b = 43518 \<longleftrightarrow> a = 169 \<and> b = 254"
    using mixed_radix [of b 256 168 a 192] mixed_radix [of b 256 254 a 169] assms(3) by simp_all
  have b16: "b div 16 < 16" "b div 64 < 4" using assms(3) by linarith+
  have "a * 16 + b div 16 = 2753 \<longleftrightarrow> a = 172 \<and> b div 16 = 1" using mixed_radix [OF b16(1), of 1 a 172] by simp
  moreover have "b div 16 = 1 \<longleftrightarrow> 16 \<le> b \<and> b \<le> 31" by (auto simp: div_eq_range)
  ultimately have tests2: "a * 16 + b div 16 = 2753 \<longleftrightarrow> a = 172 \<and> 16 \<le> b \<and> b \<le> 31" by simp
  have "a * 4 + b div 64 = 401 \<longleftrightarrow> a = 100 \<and> b div 64 = 1" using mixed_radix [OF b16(2), of 1 a 100] by simp
  moreover have "b div 64 = 1 \<longleftrightarrow> 64 \<le> b \<and> b \<le> 127" by (auto simp: div_eq_range)
  ultimately have tests3: "a * 4 + b div 64 = 401 \<longleftrightarrow> a = 100 \<and> 64 \<le> b \<and> b \<le> 127" by simp
  have tests4: "a div 16 = 14 \<longleftrightarrow> 224 \<le> a \<and> a \<le> 239" by (auto simp: div_eq_range)
  have tests5: "a div 16 = 15 \<longleftrightarrow> 240 \<le> a" using assms(2) by (auto simp: div_eq_range)
  have "((a * 256 + b) * 256 + c) * 256 + d = ((255 * 256 + 255) * 256 + 255) * 256 + 255
      \<longleftrightarrow> ((a = 255 \<and> b = 255) \<and> c = 255) \<and> d = 255"
    unfolding mixed_radix [OF assms(5) less_255] mixed_radix [OF assms(4) less_255]
      mixed_radix [OF assms(3) less_255] by (rule refl)
  then have tests6: "v = 4294967295 \<longleftrightarrow> a = 255 \<and> b = 255 \<and> c = 255 \<and> d = 255"
    unfolding v_def by (simp only: eval_255 conj_assoc)
  have r: "(of_nat v :: 32 word) AND maskOf n = of_nat p AND maskOf n \<longleftrightarrow> x = q"
    if "v div 2 ^ (32 - n) = x" "0 < n \<and> n \<le> 32 \<and> p < 2 ^ 32 \<and> p div 2 ^ (32 - n) = q" for n p q x
    using range_test [of n v p] v that by metis
  have rs: "(of_nat v :: 32 word) AND maskOf 32 = of_nat 4294967295 AND maskOf 32 \<longleftrightarrow> v = 4294967295"
    "(of_nat v :: 32 word) AND maskOf 8 = of_nat 0 AND maskOf 8 \<longleftrightarrow> a = 0"
    "(of_nat v :: 32 word) AND maskOf 8 = of_nat 2130706432 AND maskOf 8 \<longleftrightarrow> a = 127"
    "(of_nat v :: 32 word) AND maskOf 8 = of_nat 167772160 AND maskOf 8 \<longleftrightarrow> a = 10"
    "(of_nat v :: 32 word) AND maskOf 12 = of_nat 2886729728 AND maskOf 12 \<longleftrightarrow> a * 16 + b div 16 = 2753"
    "(of_nat v :: 32 word) AND maskOf 16 = of_nat 3232235520 AND maskOf 16 \<longleftrightarrow> a * 256 + b = 49320"
    "(of_nat v :: 32 word) AND maskOf 16 = of_nat 2851995648 AND maskOf 16 \<longleftrightarrow> a * 256 + b = 43518"
    "(of_nat v :: 32 word) AND maskOf 10 = of_nat 1681915904 AND maskOf 10 \<longleftrightarrow> a * 4 + b div 64 = 401"
    "(of_nat v :: 32 word) AND maskOf 4 = of_nat 3758096384 AND maskOf 4 \<longleftrightarrow> a div 16 = 14"
    "(of_nat v :: 32 word) AND maskOf 4 = of_nat 4026531840 AND maskOf 4 \<longleftrightarrow> a div 16 = 15"
    by (rule r, rule dv, simp)+
  show ?thesis unfolding classifyIpv4_def IPV4_BLOCKED_RANGES_def ipv4_category_def
    by (simp only: first_range.simps in_range_def range_bases ip Ipv4BlockedRange.simps rs tests tests2 tests3 tests4 tests5 tests6 blocked_def)
     (simp only: verdict_category.simps if_distrib [of verdict_category])
qed

section \<open>IPv6: the ranges in groups\<close>

definition embedded_category :: "nat \<Rightarrow> nat \<Rightarrow> BlockedIpCategory option" where
  "embedded_category hi lo = ipv4_category (hi div 256) (hi mod 256) (lo div 256) (lo mod 256)"

fun ipv6_category :: "nat list \<Rightarrow> BlockedIpCategory option" where
  "ipv6_category [g0, g1, g2, g3, g4, g5, g6, g7] =
     (if [g0, g1, g2, g3, g4, g5, g6, g7] = [0, 0, 0, 0, 0, 0, 0, 0] then Some Unspecified
      else if [g0, g1, g2, g3, g4, g5, g6, g7] = [0, 0, 0, 0, 0, 0, 0, 1] then Some Loopback
      else if [g0, g1, g2, g3, g4, g5] = [0, 0, 0, 0, 0, 65535] then embedded_category g6 g7
      else if [g0, g1, g2, g3, g4, g5] = [0, 0, 0, 0, 0, 0] then Some Ipv4Compatible
      else if 64512 \<le> g0 \<and> g0 \<le> 65023 then Some UniqueLocal
      else if 65152 \<le> g0 \<and> g0 \<le> 65215 then Some LinkLocal
      else if 65280 \<le> g0 then Some MulticastRange
      else if g0 = 8193 \<and> g1 = 3512 then Some Documentation
      else if [g0, g1, g2, g3, g4, g5] = [100, 65435, 0, 0, 0, 0] then embedded_category g6 g7
      else if [g0, g1, g2, g3, g4, g5] = [100, 65435, 1, 0, 0, 0] then embedded_category g6 g7
      else if g0 = 8194 then embedded_category g1 g2
      else None)"
| "ipv6_category gs = Some Invalid"

lemma octets_quad:
  "octets (nat_to_string a @ ''.'' @ nat_to_string b @ ''.'' @ nat_to_string c @ ''.''
     @ nat_to_string d) = [int a, int b, int c, int d]"
proof -
  have dot: "CHR ''.'' \<notin> set (nat_to_string n)" for n by (rule is_digits_not_mem) simp_all
  show ?thesis by (simp add: octets_def split_on_append_sep dot split_on_no_sep)
qed

lemma low_byte: "unat (w AND 0xff :: 32 word) = unat w mod 256"
proof -
  have "w AND 0xff = take_bit 8 w" by (simp add: take_bit_eq_mask mask_eq_decr_exp)
  then have "unat (w AND 0xff) = take_bit 8 (unat w)" by (simp only: unsigned_take_bit_eq)
  then show ?thesis by (simp add: take_bit_eq_mod)
qed

lemma classifyEmbeddedIpv4_category:
  assumes "unat w6 < 65536" "unat w7 < 65536"
  shows "verdict_category (classifyEmbeddedIpv4 w6 w7 container) = embedded_category (unat w6) (unat w7)"
proof -
  let ?ip = "nat_to_string (unat (drop_bit 8 w6)) @ ''.'' @ nat_to_string (unat (w6 AND 0xff)) @ ''.''
            @ nat_to_string (unat (drop_bit 8 w7)) @ ''.'' @ nat_to_string (unat (w7 AND 0xff))"
  have byte: "unat (drop_bit 8 w) = unat w div 256" for w :: "32 word"
    using drop_bit_unat [of 8 w] by simp
  have "verdict_category (classifyIpv4 ?ip) = embedded_category (unat w6) (unat w7)"
    unfolding embedded_category_def
    by (rule classifyIpv4_category, subst octets_quad) (use assms in \<open>simp_all add: byte low_byte\<close>)
  then show ?thesis
    by (cases "classifyIpv4 ?ip") (simp_all add: classifyEmbeddedIpv4_def blocked_def)
qed

lemma prefix_test:
  fixes w :: "32 word"
  assumes "unat w < 65536" "p < 2 ^ 16" "0 < n" "n \<le> 16"
  shows "w AND (maskOf (16 + n) AND mask 16) = of_nat p AND maskOf (16 + n) \<longleftrightarrow> unat w div 2 ^ (16 - n) = p div 2 ^ (16 - n)"
proof -
  have "take_bit 16 w = w" using assms(1) by (simp add: word_unat_eq_iff unsigned_take_bit_eq take_bit_nat_eq_self)
  then have "w AND (maskOf (16 + n) AND mask 16) = w AND maskOf (16 + n)" 
    by (metis and.assoc and.commute take_bit_eq_mask)
  then show ?thesis using assms by (simp add: mask_test_unat unat_of_nat_small)
qed

lemma ipv6_prefix_tests:
  fixes w :: "32 word"
  assumes "unat w < 65536"
  shows "w AND 0xfe00 = 0xfc00 \<longleftrightarrow> 64512 \<le> unat w \<and> unat w \<le> 65023"
    "w AND 0xffc0 = 0xfe80 \<longleftrightarrow> 65152 \<le> unat w \<and> unat w \<le> 65215"
    "w AND 0xff00 = 0xff00 \<longleftrightarrow> 65280 \<le> unat w"
  using prefix_test [OF assms, of 64512 7] prefix_test [OF assms, of 65152 10]
    prefix_test [OF assms, of 65280 8] assms
  by (auto simp: maskOf_def mask_eq_decr_exp div_eq_range)

lemma classifyIpv6_category:
  assumes "parseIpv6Words ip = Some ws" "length ws = 8" "\<forall>w \<in> set ws. unat w < 65536"
  shows "verdict_category (classifyIpv6 ip) = ipv6_category (map unat ws)"
proof -
  obtain w0 w1 w2 w3 w4 w5 w6 w7 where ws: "ws = [w0, w1, w2, w3, w4, w5, w6, w7]"
    using assms(2) by (auto simp: numeral_eq_Suc length_Suc_conv)
  have small: "unat w0 < 65536" "unat w1 < 65536" "unat w2 < 65536" "unat w6 < 65536" "unat w7 < 65536"
    using assms(3) ws by auto
  have num: "w = 0 \<longleftrightarrow> unat w = 0" "w = 1 \<longleftrightarrow> unat w = 1" "w = 0xffff \<longleftrightarrow> unat w = 65535"
    "w = 0x2001 \<longleftrightarrow> unat w = 8193" "w = 0x0db8 \<longleftrightarrow> unat w = 3512" "w = 0x0064 \<longleftrightarrow> unat w = 100"
    "w = 0xff9b \<longleftrightarrow> unat w = 65435" "w = 0x2002 \<longleftrightarrow> unat w = 8194" for w :: "32 word"
    by (simp_all add: word_unat_eq_iff)
  have grp: "group ws 0 = w0" "group ws 1 = w1" "group ws 2 = w2" "group ws 3 = w3" "group ws 4 = w4"
    "group ws 5 = w5" "group ws 6 = w6" "group ws 7 = w7"
    by (simp_all add: ws group_def)
  show ?thesis
    unfolding classifyIpv6_def assms(1) option.case grp Let_def num ipv6_prefix_tests [OF small(1)]
    unfolding ws list.map ipv6_category.simps
    by (simp add: classifyEmbeddedIpv4_category small blocked_def if_distrib [of verdict_category])
qed

section \<open>What the IPv6 parser returns\<close>

lemma hex_digit_bound: "hex_digit_value c = Some d \<Longrightarrow> d < 16"
  by (auto simp: hex_digit_value_def Let_def split: if_splits)

lemma hex_value_snoc: "hex_value (s @ [c]) = 16 * hex_value s + (case hex_digit_value c of Some d \<Rightarrow> d | None \<Rightarrow> 0)"
  by (simp add: hex_value_def)

lemma hex_value_bound: "hex_value s < 16 ^ length s"
proof (induction s rule: rev_induct)
  case (snoc c s)
  have "(case hex_digit_value c of Some d \<Rightarrow> d | None \<Rightarrow> 0) < 16"
    using hex_digit_bound by (auto split: option.split)
  with snoc show ?case by (simp add: hex_value_snoc)
qed (simp add: hex_value_def)

lemma is_octet_value: "is_octet s \<Longrightarrow> \<exists>n. js_Number s = int n \<and> n < 256"
  using digits_value_bounds [of s] by (auto simp: is_octet_def js_Number_digits intro!: exI [of _ "nat (digits_value s)"])

lemma isIPv4_octets: 
  assumes "isIPv4 ip"
  shows "\<exists>a b c d. octets ip = [int a, int b, int c, int d] \<and> a < 256 \<and> b < 256 \<and> c < 256 \<and> d < 256"
proof -
  obtain p q r s where ps: "split_on (CHR ''.'') ip = [p, q, r, s]" and ok: "is_octet p" "is_octet q" "is_octet r" "is_octet s"
    using assms by (auto simp: isIPv4_def Let_def numeral_eq_Suc length_Suc_conv)
  from ok [THEN is_octet_value] show ?thesis unfolding octets_def ps by auto
qed

lemma parse_parts_words: "parse_parts parts = Some ws \<Longrightarrow> \<forall>w \<in> set ws. unat w < 65536"
proof (induction parts arbitrary: ws)
  case (Cons part parts)
  show ?case
  proof (cases "CHR ''.'' \<in> set part")
    case True
    with Cons.prems have v4: "isIPv4 part" by (auto split: if_splits)
    then obtain a b c d where o: "octets part = [int a, int b, int c, int d]" "a < 256" "b < 256" "c < 256" "d < 256"
      using isIPv4_octets by blast
    have "unat (push_bit 8 (of_nat x) OR of_nat y :: 32 word) < 65536" if "x < 256" "y < 256" for x y
      unfolding push_or_8 [OF that(2)] using that by (subst unat_of_nat_small) auto
    with Cons o v4 True show ?thesis by auto
  next
    case False
    with Cons.prems obtain ws' where g: "is_hex_group part" and ws: "parse_parts parts = Some ws'" "ws = of_nat (hex_value part) # ws'"
      by (auto split: if_splits)
    have "hex_value part < 16 ^ 4"
      using hex_value_bound [of part] g power_increasing [of "length part" 4 "16 :: nat"] by (auto simp: is_hex_group_def)
    with Cons.IH ws show ?thesis by (auto simp: unat_of_nat_small)
  qed
qed simp

lemma parseIpv6Words_shape:
  assumes "parseIpv6Words ip = Some ws"
  shows "length ws = 8" "\<forall>w \<in> set ws. unat w < 65536"
proof -
  have side: "\<forall>w \<in> set xs. unat w < 65536" if "parseIpv6Side s = Some xs" for s xs
    using that parse_parts_words by (auto simp: parseIpv6Side_def split: if_splits)
  show "length ws = 8" using assms
    by (auto simp: parseIpv6Words_def Let_def split: option.splits if_splits)
  show "\<forall>w \<in> set ws. unat w < 65536" using assms side
    by (fastforce simp: parseIpv6Words_def Let_def split: option.splits if_splits)
qed
section \<open>Printing and reading IPv6 text\<close>

definition hex_char :: "nat \<Rightarrow> char" where
  "hex_char d = (if d < 10 then char_of (48 + d) else char_of (87 + d))"

fun to_hex :: "nat \<Rightarrow> string" where
  "to_hex n = (if n < 16 then [hex_char n] else to_hex (n div 16) @ [hex_char (n mod 16)])"

declare to_hex.simps [simp del]

definition hex_groups :: "nat list \<Rightarrow> string" where
  "hex_groups gs = join_with '':'' (map to_hex gs)"

lemma hex_char_value [simp]: "d < 16 \<Longrightarrow> hex_digit_value (hex_char d) = Some d"
  by (auto simp: hex_char_def hex_digit_value_def Let_def)

lemma hex_value_to_hex: "hex_value (to_hex n) = n \<and> (\<forall>c \<in> set (to_hex n). hex_digit_value c \<noteq> None) \<and> to_hex n \<noteq> []"
proof (induction n rule: to_hex.induct)
  case (1 n)
  show ?case
  proof (cases "n < 16")
    case True
    then show ?thesis by (subst (1 2 3) to_hex.simps) (simp add: hex_value_def)
  next
    case False
    with 1 [OF False] show ?thesis by (subst (1 2 3) to_hex.simps) (auto simp: hex_value_snoc)
  qed
qed

lemma to_hex_length: "0 < k \<Longrightarrow> n < 16 ^ k \<Longrightarrow> length (to_hex n) \<le> k"
proof (induction n arbitrary: k rule: to_hex.induct)
  case (1 n)
  show ?case
  proof (cases "n < 16")
    case True
    with 1 show ?thesis by (subst to_hex.simps) simp
  next
    case False
    obtain j where j: "k = Suc j" using 1(2) by (cases k) auto
    have "j \<noteq> 0" using False 1(3) j by (intro notI) simp
    then have k: "k = Suc j" "0 < j" using j by simp_all
    with 1(3) have "n div 16 < 16 ^ j" by (simp add: div_less_iff_less_mult mult.commute)
    with 1(1) [OF False k(2)] k False show ?thesis by (subst to_hex.simps) simp
  qed
qed

lemma to_hex_group: "n < 65536 \<Longrightarrow> is_hex_group (to_hex n)"
  using hex_value_to_hex [of n] to_hex_length [of 4 n] by (auto simp: is_hex_group_def list_all_iff Suc_le_eq)

lemma to_hex_chars: "CHR '':'' \<notin> set (to_hex n)" "CHR ''.'' \<notin> set (to_hex n)"
  using hex_value_to_hex [of n] by (auto simp: hex_digit_value_def Let_def dest!: bspec split: if_splits)

lemma parse_parts_hex: "\<forall>g \<in> set gs. g < 65536 \<Longrightarrow> parse_parts (map to_hex gs) = Some (map of_nat gs)"
  by (induction gs) (auto simp: to_hex_group to_hex_chars hex_value_to_hex)

lemma parseIpv6Side_hex: "\<forall>g \<in> set gs. g < 65536 \<Longrightarrow> parseIpv6Side (hex_groups gs) = Some (map of_nat gs)"
proof (cases "gs = []")
  case True
  then show ?thesis by (simp add: parseIpv6Side_def hex_groups_def)
next
  case False
  assume small: "\<forall>g \<in> set gs. g < 65536"
  have "join_with [CHR '':''] (map to_hex gs) \<noteq> []" by (rule join_nonempty) (auto simp: hex_value_to_hex False)
  moreover have "split_on (CHR '':'') (join_with [CHR '':''] (map to_hex gs)) = map to_hex gs"
    by (rule split_join) (auto simp: to_hex_chars False)
  ultimately show ?thesis using small
    by (simp add: parseIpv6Side_def hex_groups_def parse_parts_hex)
qed

text \<open>No group text is empty, so a printed side contains no \<open>::\<close> and does not end in \<open>:\<close>.\<close>
lemma split_dcolon_parts:
  assumes "\<forall>p \<in> set ps. p \<noteq> [] \<and> s \<notin> set p" 
  shows "split_str s [s] (join_with [s] ps) = [join_with [s] ps] \<and>
    split_str s [s] (join_with [s] ps @ s # s # rest) = join_with [s] ps # split_str s [s] rest"
proof -
  have pref: "split_str s [s] (p @ ys) = (case split_str s [s] ys of q # qs \<Rightarrow> (p @ q) # qs | [] \<Rightarrow> [])"
    if "s \<notin> set p" for p ys
    using that by (induction p) (auto split: list.splits)
  have one: "split_str s [s] (s # p @ ys) = (case split_str s [s] ys of q # qs \<Rightarrow> (s # p @ q) # qs | [] \<Rightarrow> [])"
    if "s \<notin> set p" "p \<noteq> []" for p ys
    using that pref [OF that(1), of ys] by (cases p) (auto split: list.splits)
  show ?thesis using assms
  proof (induction ps rule: induct_list012)
    case 1
    then show ?case by simp
  next
    case (2 p)
    then show ?case using pref [of p "[]"] pref [of p "s # s # rest"] by simp
  next
    case (3 p q ps)
    have q: "s \<notin> set q" "q \<noteq> []" and p: "s \<notin> set p" using 3 by auto
    obtain j where j: "join_with [s] (q # ps) = q @ j" by (cases ps) auto
    have "split_str s [s] (q @ j) = [q @ j]" "split_str s [s] (q @ j @ s # s # rest) = (q @ j) # split_str s [s] rest"
      using 3 j by simp_all
    then show ?case using pref [OF p] pref [OF q(1)] one [OF q] j by (auto split: list.splits)
  qed
qed

text \<open>
  Parsing is the inverse of printing: eight groups written in hexadecimal, in full or with a
  \<open>::\<close> standing for a run of zero groups, are read back.
\<close>

theorem ipv6_text_round_trip:
  "(length gs = 8 \<and> (\<forall>g \<in> set gs. g < 65536) \<longrightarrow>
      parseIpv6Words (hex_groups gs) = Some (map of_nat gs)) \<and>
   (length left + length right \<le> 7 \<and> (\<forall>g \<in> set (left @ right). g < 65536) \<longrightarrow>
      parseIpv6Words (hex_groups left @ ''::'' @ hex_groups right) =
        Some (map of_nat (left @ replicate (8 - length left - length right) 0 @ right)))"
proof (intro conjI impI; elim conjE)
  have parts: "\<forall>p \<in> set (map to_hex gs). p \<noteq> [] \<and> CHR '':'' \<notin> set p" for gs
    by (auto simp: to_hex_chars hex_value_to_hex)
  note split = split_dcolon_parts [OF parts, folded hex_groups_def]
  {
    assume len: "length gs = 8" and small: "\<forall>g \<in> set gs. g < 65536"
    then show "parseIpv6Words (hex_groups gs) = Some (map of_nat gs)"
      using split [of gs] by (simp add: parseIpv6Words_def parseIpv6Side_hex [OF small])
  next
    assume len: "length left + length right \<le> 7" and small: "\<forall>g \<in> set (left @ right). g < 65536"
    have sides: "\<forall>g \<in> set left. g < 65536" "\<forall>g \<in> set right. g < 65536" using small by auto
    have fill: "\<not> 8 - int (length left) - int (length right) < 1" using len by linarith
    have halves: "split_str (CHR '':'') '':'' (hex_groups left @ ''::'' @ hex_groups right)
        = [hex_groups left, hex_groups right]"
      using split [of left "hex_groups right"] split [of right] by simp
    show "parseIpv6Words (hex_groups left @ ''::'' @ hex_groups right) =
        Some (map of_nat (left @ replicate (8 - length left - length right) 0 @ right))"
      unfolding parseIpv6Words_def halves Let_def
      using fill by (simp add: parseIpv6Side_hex [OF sides(1)] parseIpv6Side_hex [OF sides(2)])
  }
qed

theorem ipv6_text_round_trip_witness:
  "parseIpv6Words (hex_groups [8193, 3512, 1, 2, 3, 4, 5, 65535]) =
     Some (map of_nat [8193, 3512, 1, 2, 3, 4, 5, 65535]) \<and>
   parseIpv6Words (hex_groups [100, 65435] @ ''::'' @ hex_groups [49320, 1]) =
     Some (map of_nat ([100, 65435] @ replicate 4 0 @ [49320, 1]))"
  using ipv6_text_round_trip [of "[8193, 3512, 1, 2, 3, 4, 5, 65535]" "[100, 65435]" "[49320, 1]"]
  by simp

section \<open>The guard\<close>

text \<open>The canonical dotted quad; exactly these texts pass \<open>isIPv4\<close>.\<close>

definition quad :: "nat \<Rightarrow> nat \<Rightarrow> nat \<Rightarrow> nat \<Rightarrow> string" where
  "quad a b c d = nat_to_string a @ ''.'' @ nat_to_string b @ ''.'' @ nat_to_string c @ ''.'' @ nat_to_string d"

lemma is_octet_iff: "is_octet s \<longleftrightarrow> (\<exists>n < 256. s = nat_to_string n)"
proof
  assume s: "is_octet s"
  then have "nat_to_string (nat (digits_value s)) = s" "digits_value s \<le> 255"
    by (auto simp: is_octet_def intro: nat_to_string_canonical)
  then show "\<exists>n < 256. s = nat_to_string n" by (intro exI [of _ "nat (digits_value s)"]) auto
next
  assume "\<exists>n < 256. s = nat_to_string n"
  then obtain n where n: "n < 256" "s = nat_to_string n" by blast
  have "length s \<le> 3" using nat_to_string_length [of 3 n] n by simp
  moreover have "1 < length s \<longrightarrow> hd s \<noteq> CHR ''0''"
    using nat_to_string_hd [of n] n(2) by (cases "n = 0") (auto simp: nat_to_string.simps [of 0])
  ultimately show "is_octet s" using n by (simp add: is_octet_def)
qed

lemma isIPv4_iff: "isIPv4 s \<longleftrightarrow> (\<exists>a b c d. a < 256 \<and> b < 256 \<and> c < 256 \<and> d < 256 \<and> s = quad a b c d)"
proof
  assume v4: "isIPv4 s"
  then obtain p q r t where ps: "split_on (CHR ''.'') s = [p, q, r, t]" and ok: "is_octet p" "is_octet q" "is_octet r" "is_octet t"
    by (auto simp: isIPv4_def Let_def numeral_eq_Suc length_Suc_conv)
  from ps have "s = p @ ''.'' @ q @ ''.'' @ r @ ''.'' @ t" using join_split [of "CHR ''.''" s] by simp
  with ok show "\<exists>a b c d. a < 256 \<and> b < 256 \<and> c < 256 \<and> d < 256 \<and> s = quad a b c d"
    unfolding is_octet_iff quad_def by blast
next
  assume "\<exists>a b c d. a < 256 \<and> b < 256 \<and> c < 256 \<and> d < 256 \<and> s = quad a b c d"
  then obtain a b c d where n: "a < 256" "b < 256" "c < 256" "d < 256" and s: "s = quad a b c d" by blast
  have dot: "CHR ''.'' \<notin> set (nat_to_string n)" for n by (rule is_digits_not_mem) simp_all
  have "split_on (CHR ''.'') s = map nat_to_string [a, b, c, d]"
    by (simp add: s quad_def split_on_append_sep dot split_on_no_sep)
  then show "isIPv4 s" using n by (auto simp: isIPv4_def is_octet_iff)
qed

lemma bare_quad: "bare_ip (quad a b c d) = quad a b c d"
proof -
  have "hd (nat_to_string a) \<noteq> CHR ''[''"
    using is_digits_not_mem [of "nat_to_string a" "CHR ''[''"]
      list.set_sel(1) [OF nat_to_string_nonempty [of a]] by fastforce
  then show ?thesis by (cases "nat_to_string a") (auto simp: quad_def bare_ip_def)
qed

text \<open>
  C18: On every dotted quad the guard's verdict, a table of ten ranges tested with shifted masks on
  a 32-bit word, is the one the registry's octet ranges give, category included.
\<close>

theorem classify_ipv4_exact:
  assumes "a < 256" "b < 256" "c < 256" "d < 256"
  shows "isIPv4 (quad a b c d) \<and> verdict_category (classifyIp v6 (quad a b c d)) = ipv4_category a b c d"
proof -
  have v4: "isIPv4 (quad a b c d)" using assms by (auto simp: isIPv4_iff)
  have "octets (quad a b c d) = [int a, int b, int c, int d]" unfolding quad_def by (rule octets_quad)
  from classifyIpv4_category [OF this assms] v4 show ?thesis
    by (simp add: classifyIp_def bare_quad)
qed

theorem classify_ipv4_exact_witness:
  "verdict_category (classifyIp (\<lambda>_. False) (quad 169 254 169 254)) = Some LinkLocal \<and>
   verdict_category (classifyIp (\<lambda>_. False) (quad 172 32 0 1)) = None"
  using classify_ipv4_exact [of 169 254 169 254 "\<lambda>_. False"] classify_ipv4_exact [of 172 32 0 1 "\<lambda>_. False"]
  by (simp add: ipv4_category_def)

text \<open>
  C19: A text that is not a dotted quad is judged by its eight groups, an embedded IPv4 address
  (mapped, NAT64, 6to4) by its own octets; a text the parser rejects is blocked even though the
  runtime's \<open>isIPv6\<close> accepted it.
\<close>

theorem classify_ipv6_exact:
  assumes "\<not> isIPv4 (bare_ip ip)" "v6 (bare_ip ip)"
  shows "verdict_category (classifyIp v6 ip) =
    (case parseIpv6Words (bare_ip ip) of None \<Rightarrow> Some Invalid | Some ws \<Rightarrow> ipv6_category (map unat ws))"
proof -
  have "verdict_category (classifyIp v6 ip) = verdict_category (classifyIpv6 (bare_ip ip))"
    using assms by (simp add: classifyIp_def bare_ip_def Let_def)
  also have "\<dots> = (case parseIpv6Words (bare_ip ip) of None \<Rightarrow> Some Invalid | Some ws \<Rightarrow> ipv6_category (map unat ws))"
  proof (cases "parseIpv6Words (bare_ip ip)")
    case None
    then show ?thesis by (simp add: classifyIpv6_def blocked_def)
  next
    case (Some ws)
    from classifyIpv6_category [OF Some parseIpv6Words_shape [OF Some]] Some show ?thesis by simp
  qed
  finally show ?thesis .
qed

lemma replicate_5: "replicate 5 x = [x, x, x, x, x]"
  by (simp add: numeral_eq_Suc)

theorem classify_ipv6_exact_witness:
  "verdict_category (classifyIp (\<lambda>_. True) ''::ffff:10.0.0.1'') = Some Private \<and>
   verdict_category (classifyIp (\<lambda>_. True) ''2002:7f00:1::'') = Some Loopback"
proof -
  have "bare_ip ''::ffff:10.0.0.1'' = ''::ffff:10.0.0.1''" "bare_ip ''2002:7f00:1::'' = ''2002:7f00:1::''"
    "\<not> isIPv4 ''::ffff:10.0.0.1''" "\<not> isIPv4 ''2002:7f00:1::''"
    by code_simp+
  moreover have "parseIpv6Words ''::ffff:10.0.0.1'' = Some [0, 0, 0, 0, 0, 65535, 2560, 1]"
    "parseIpv6Words ''2002:7f00:1::'' = Some [8194, 32512, 1, 0, 0, 0, 0, 0]"
    by (simp_all add: parseIpv6Words_def parseIpv6Side_def isIPv4_def is_octet_def octets_def
        digits_value_Cons digit_value_def is_hex_group_def hex_value_def hex_digit_value_def Let_def replicate_5)
  ultimately show ?thesis
    using classify_ipv6_exact [of "''::ffff:10.0.0.1''" "\<lambda>_. True"]
      classify_ipv6_exact [of "''2002:7f00:1::''" "\<lambda>_. True"]
    by (simp add: embedded_category_def ipv4_category_def)
qed

lemma isPublic_category: "isPublic v \<longleftrightarrow> verdict_category v = None"
  by (cases v) auto

text \<open>
  The addresses the guard lets through, in the terms of the specification. Everything else,
  unreadable text included, is refused.
\<close>

definition public_address :: "(string \<Rightarrow> bool) \<Rightarrow> string \<Rightarrow> bool" where
  "public_address v6 ip \<longleftrightarrow>
     (\<exists>a b c d. a < 256 \<and> b < 256 \<and> c < 256 \<and> d < 256 \<and> bare_ip ip = quad a b c d
        \<and> ipv4_category a b c d = None) \<or>
     (\<exists>ws. v6 (bare_ip ip) \<and> parseIpv6Words (bare_ip ip) = Some ws \<and> length ws = 8
        \<and> ipv6_category (map unat ws) = None \<and> \<not> isIPv4 (bare_ip ip))"

text \<open>
  The guard is complete and fail-closed: it admits an address exactly when the text is a readable
  literal of an address outside every blocked range.
\<close>

lemma isPublicIp_iff: "isPublicIp v6 ip \<longleftrightarrow> public_address v6 ip"
proof (cases "isIPv4 (bare_ip ip)")
  case True
  then obtain a b c d where q: "a < 256" "b < 256" "c < 256" "d < 256" "bare_ip ip = quad a b c d"
    unfolding isIPv4_iff by blast
  have "octets (quad a b c d) = [int a, int b, int c, int d]" unfolding quad_def by (rule octets_quad)
  from classifyIpv4_category [OF this q(1-4)] True q
  have cat: "isPublicIp v6 ip \<longleftrightarrow> ipv4_category a b c d = None"
    by (simp add: isPublicIp_def isPublic_category classifyIp_def Let_def)
  have inj: "a' = a \<and> b' = b \<and> c' = c \<and> d' = d" if "quad a' b' c' d' = quad a b c d" for a' b' c' d'
  proof -
    have "[int a', int b', int c', int d'] = [int a, int b, int c, int d]"
      using that octets_quad unfolding quad_def by metis
    then show ?thesis by simp
  qed
  show ?thesis unfolding cat public_address_def using True q inj by metis
next
  case False
  show ?thesis
  proof (cases "v6 (bare_ip ip)")
    case True
    have "isPublicIp v6 ip \<longleftrightarrow> verdict_category (classifyIpv6 (bare_ip ip)) = None"
      using False True by (simp add: isPublicIp_def isPublic_category classifyIp_def Let_def)
    moreover have "public_address v6 ip \<longleftrightarrow>
        (\<exists>ws. parseIpv6Words (bare_ip ip) = Some ws \<and> length ws = 8 \<and> ipv6_category (map unat ws) = None)"
      using False True unfolding public_address_def isIPv4_iff by blast
    moreover have "verdict_category (classifyIpv6 (bare_ip ip)) = None \<longleftrightarrow>
        (\<exists>ws. parseIpv6Words (bare_ip ip) = Some ws \<and> length ws = 8 \<and> ipv6_category (map unat ws) = None)"
    proof (cases "parseIpv6Words (bare_ip ip)")
      case None
      then show ?thesis by (simp add: classifyIpv6_def blocked_def)
    next
      case (Some ws)
      then show ?thesis using classifyIpv6_category [OF Some parseIpv6Words_shape [OF Some]]
          parseIpv6Words_shape(1) [OF Some] by simp
    qed
    ultimately show ?thesis by simp
  next
    case no_v6: False
    then have "\<not> isPublicIp v6 ip"
      using False by (simp add: isPublicIp_def classifyIp_def blocked_def Let_def)
    moreover have "\<not> public_address v6 ip"
      using no_v6 False unfolding public_address_def isIPv4_iff by blast
    ultimately show ?thesis by blast
  qed
qed

end
