(* ===== verification/Steps.thy ===== *)
theory Steps
  imports Prelude
begin

text \<open>
  The contract shared by the stateful components. Each is a deterministic step function over a
  state and an event; what it promises is an invariant every step keeps, and sometimes a
  measure of progress that no step undoes. A component interprets the locale on its own step
  function, and gets the facts about whole runs.
\<close>

definition run :: "('s \<Rightarrow> 'e \<Rightarrow> 's) \<Rightarrow> 's \<Rightarrow> 'e list \<Rightarrow> 's" where
  "run step s es = foldl step s es"

lemma run_simps [simp]:
  "run step s [] = s"
  "run step s (e # es) = run step (step s e) es"
  "run step s (es @ fs) = run step (run step s es) fs"
  by (simp_all add: run_def)

text \<open>A sequence of events each of which can happen in the state it finds.\<close>

fun legal :: "('s \<Rightarrow> 'e \<Rightarrow> 's) \<Rightarrow> ('s \<Rightarrow> 'e \<Rightarrow> bool) \<Rightarrow> 's \<Rightarrow> 'e list \<Rightarrow> bool" where
  "legal step enabled s [] = True"
| "legal step enabled s (e # es) = (enabled s e \<and> legal step enabled (step s e) es)"

lemma legal_append [simp]:
  "legal step enabled s (es @ fs) \<longleftrightarrow> legal step enabled s es \<and> legal step enabled (run step s es) fs"
  by (induction es arbitrary: s) auto

locale stepper =
  fixes step :: "'s \<Rightarrow> 'e \<Rightarrow> 's" and enabled :: "'s \<Rightarrow> 'e \<Rightarrow> bool" and inv :: "'s \<Rightarrow> bool"
  assumes step_inv: "inv s \<Longrightarrow> enabled s e \<Longrightarrow> inv (step s e)"
begin

lemma run_inv: "inv s \<Longrightarrow> legal step enabled s es \<Longrightarrow> inv (run step s es)"
  by (induction es arbitrary: s) (auto intro: step_inv)

lemma prefix_inv: "inv s \<Longrightarrow> legal step enabled s (es @ fs) \<Longrightarrow> inv (run step s es)"
  by (auto intro: run_inv)

end

text \<open>A step function with a quantity that only grows.\<close>

locale growing_stepper = stepper step enabled inv
  for step :: "'s \<Rightarrow> 'e \<Rightarrow> 's" and enabled and inv +
  fixes progress :: "'s \<Rightarrow> 'p :: order"
  assumes step_grows: "inv s \<Longrightarrow> enabled s e \<Longrightarrow> progress s \<le> progress (step s e)"
begin

lemma run_grows: "inv s \<Longrightarrow> legal step enabled s es \<Longrightarrow> progress s \<le> progress (run step s es)"
proof (induction es arbitrary: s)
  case (Cons e es)
  then have "progress s \<le> progress (step s e)" "inv (step s e)" "legal step enabled (step s e) es"
    by (auto intro: step_grows step_inv)
  with Cons.IH [of "step s e"] show ?case by (auto intro: order_trans)
qed simp

end

section \<open>Compare-and-set over a transition table\<close>

text \<open>
  \<open>updateMany({ where: { id, state: from }, data: { state: to } })\<close> behind a table of allowed
  moves, on one row: the flag says whether the row was changed.
\<close>

definition cas :: "('s \<Rightarrow> 's \<Rightarrow> bool) \<Rightarrow> 's \<Rightarrow> 's \<Rightarrow> 's \<Rightarrow> bool \<times> 's" where
  "cas allowed from_state to_state s =
     (if allowed from_state to_state \<and> s = from_state then (True, to_state) else (False, s))"

text \<open>Competing writers, in whatever order they reach the row: the flags they read.\<close>

fun compete :: "('s \<Rightarrow> 's \<Rightarrow> bool) \<Rightarrow> ('s \<times> 's) list \<Rightarrow> 's \<Rightarrow> bool list \<times> 's" where
  "compete allowed [] s = ([], s)"
| "compete allowed ((a, b) # moves) s =
     (case cas allowed a b s of (won, s') \<Rightarrow>
        (case compete allowed moves s' of (flags, s'') \<Rightarrow> (won # flags, s'')))"

locale cas_table =
  fixes allowed :: "'s \<Rightarrow> 's \<Rightarrow> bool"
  assumes no_self_move: "\<not> allowed s s"
begin

lemma compete_moved: "a \<noteq> s \<Longrightarrow> compete allowed (map (Pair a) bs) s = (replicate (length bs) False, s)"
  by (induction bs) (auto simp: cas_def)

text \<open>Of any number of writers leaving the same state by allowed moves, exactly the first wins.\<close>

lemma one_winner:
  assumes "\<forall>b \<in> set (b # bs). allowed a b"
  shows "compete allowed (map (Pair a) (b # bs)) a = (True # replicate (length bs) False, b)"
proof -
  have "a \<noteq> b" using assms no_self_move by auto
  with assms show ?thesis by (simp add: cas_def compete_moved)
qed

text \<open>A state without outgoing moves is never left.\<close>

lemma terminal_stays:
  "(\<And>b. \<not> allowed s b) \<Longrightarrow> compete allowed moves s = (replicate (length moves) False, s)"
  by (induction allowed moves s rule: compete.induct) (auto simp: cas_def)

end

end
