(* ===== verification/SafeFetch.thy ===== *)
theory SafeFetch
  imports IpGuard Steps Contracts
begin

text \<open>
  The guarded fetch, \<open>packages/safe-fetch/src/safe-fetch.ts\<close>: validate the URL, resolve every
  address of its host, refuse unless all are public, connect only to those addresses, and do it
  again for every redirect. \<open>errors.ts\<close> and \<open>resolver.ts\<close> give the errors and
  \<open>stripIpv6Brackets\<close>.

  The outside world is the record \<open>world\<close>: the URL parser of the runtime, the resolver and
  the server as functions of the hop number (so a resolver may answer differently every time),
  and when the abort signal fires. A run returns the outcome together with the trace of what it did.
\<close>

record url =
  href :: string
  protocol :: string
  username :: string
  password :: string
  hostname :: string
  port :: string
  pathname :: string
  search :: string

record RedirectHop =
  hop_url :: string
  hop_status :: nat
  hop_location :: string

datatype url_problem = NotParseable | UnsupportedScheme string | UserinfoNotAllowed | UrlTooLong nat nat
  | UnresolvableLocation

datatype SafeFetchError =
    UrlValidationError string url_problem
  | SsrfBlockedError string string string string
  | RedirectLimitError nat "RedirectHop list"
  | TimeoutError nat
  | RequestAbortedError string
  | NetworkError string

text \<open>What can be thrown inside \<open>safeFetch\<close>: one of its own errors, or a foreign one.\<close>

datatype thrown = Own SafeFetchError | Foreign

definition REDIRECT_STATUSES :: "nat set" where
  "REDIRECT_STATUSES = {301, 302, 303, 307, 308}"

section \<open>URL validation\<close>

text \<open>\<open>Buffer.byteLength(text, 'utf8')\<close> on code units below 256.\<close>

definition utf8_length :: "string \<Rightarrow> nat" where
  "utf8_length s = (\<Sum>c \<leftarrow> s. if code_unit c < (128 :: nat) then 1 else 2)"

definition validateUrl :: "(string \<Rightarrow> url option) \<Rightarrow> string \<Rightarrow> nat \<Rightarrow> SafeFetchError + url" where
  "validateUrl parse_url input limit =
     (case parse_url input of
        None \<Rightarrow> Inl (UrlValidationError input NotParseable)
      | Some parsed \<Rightarrow>
          if protocol parsed \<noteq> ''http:'' \<and> protocol parsed \<noteq> ''https:'' then
            Inl (UrlValidationError input (UnsupportedScheme (protocol parsed)))
          else if username parsed \<noteq> [] \<or> password parsed \<noteq> [] then
            Inl (UrlValidationError input UserinfoNotAllowed)
          else
            let byteLength = utf8_length (href parsed) in
            if limit < byteLength then
              Inl (UrlValidationError input (UrlTooLong byteLength limit))
            else Inr parsed)"

definition resolveRedirectTarget ::
    "(string \<Rightarrow> url \<Rightarrow> url option) \<Rightarrow> string \<Rightarrow> url \<Rightarrow> SafeFetchError + string" where
  "resolveRedirectTarget parse_relative loc base =
     (case parse_relative loc base of
        None \<Rightarrow> Inl (UrlValidationError loc UnresolvableLocation)
      | Some u \<Rightarrow> Inr (href u))"

section \<open>Resolution\<close>

definition stripIpv6Brackets :: "string \<Rightarrow> string" where
  "stripIpv6Brackets host = (if starts_with host ''['' \<and> ends_with host '']'' then butlast (drop 1 host) else host)"

fun guard_addresses :: "(string \<Rightarrow> bool) \<Rightarrow> bool \<Rightarrow> url \<Rightarrow> string \<Rightarrow> string list \<Rightarrow> SafeFetchError + unit" where
  "guard_addresses v6 allowLoopback u host [] = Inr ()"
| "guard_addresses v6 allowLoopback u host (ip # ips) =
     (case classifyIp v6 ip of
        PublicIp \<Rightarrow> guard_addresses v6 allowLoopback u host ips
      | BlockedIp cat why \<Rightarrow>
          if allowLoopback \<and> cat = Loopback then guard_addresses v6 allowLoopback u host ips
          else Inl (SsrfBlockedError (href u) host ip why))"

text \<open>\<open>answer\<close> is what the resolver returned: a failure, or the addresses.\<close>

definition resolveAndGuard ::
    "(string \<Rightarrow> bool) \<Rightarrow> (string \<Rightarrow> string list option) \<Rightarrow> bool \<Rightarrow> url \<Rightarrow> SafeFetchError + string list" where
  "resolveAndGuard v6 resolveAll allowLoopback u =
     (let host = stripIpv6Brackets (hostname u) in
      case resolveAll host of
        None \<Rightarrow> Inl (NetworkError (''safe-fetch: DNS resolution failed for host \"'' @ host @ ''\"''))
      | Some addresses \<Rightarrow>
          if addresses = [] then
            Inl (NetworkError (''safe-fetch: DNS returned no addresses for host \"'' @ host @ ''\"''))
          else res_bind (guard_addresses v6 allowLoopback u host addresses) (\<lambda>_. Inr addresses))"

section \<open>One request\<close>

datatype lookup_answer = LookupFailed | LookupAll "(string \<times> nat) list" | LookupOne string nat

text \<open>The \<open>lookup\<close> handed to the socket: it can only answer with the verified addresses.\<close>

definition pinnedLookup :: "(string \<Rightarrow> nat) \<Rightarrow> string list \<Rightarrow> bool \<Rightarrow> lookup_answer" where
  "pinnedLookup isIP addresses want_all =
     (case map (\<lambda>address. (address, isIP address)) addresses of
        [] \<Rightarrow> LookupFailed
      | first # rest \<Rightarrow>
          if want_all then LookupAll (first # rest) else LookupOne (fst first) (snd first))"

record response =
  statusCode :: nat
  location :: "string option"
  payload :: "nat list"

datatype event =
    Resolve string
  | ConnectPinned string "string list" nat
  | Tunnel string nat

text \<open>
  The world at hop \<open>i\<close>. \<open>reply_at i u\<close> is the server's response (\<open>None\<close>: the request failed);
  \<open>tunnel_at i a\<close> whether the proxy opened a tunnel to address \<open>a\<close>; \<open>aborted_before_dns\<close>,
  \<open>aborted_in_dns\<close> and \<open>aborted_in_tunnel\<close> when the request's signal fired.
\<close>

record world =
  parse_url :: "string \<Rightarrow> url option"
  parse_relative :: "string \<Rightarrow> url \<Rightarrow> url option"
  is_v6 :: "string \<Rightarrow> bool"
  resolve_at :: "nat \<Rightarrow> string \<Rightarrow> string list option"
  aborted_before_dns :: "nat \<Rightarrow> bool"
  aborted_in_dns :: "nat \<Rightarrow> bool"
  tunnel_at :: "nat \<Rightarrow> string \<Rightarrow> bool"
  aborted_in_tunnel :: "nat \<Rightarrow> string \<Rightarrow> bool"
  reply_at :: "nat \<Rightarrow> url \<Rightarrow> response option"

record options =
  max_redirects :: nat
  max_url_bytes :: nat
  allow_loopback :: bool
  manual_redirects :: bool
  via_proxy :: bool

definition default_options :: options where
  "default_options =
     \<lparr> max_redirects = maxRedirects CRAWL_LIMITS, max_url_bytes = maxUrlBytes CRAWL_LIMITS,
       allow_loopback = False, manual_redirects = False, via_proxy = False \<rparr>"

definition port_of :: "url \<Rightarrow> nat" where
  "port_of u = (if port u \<noteq> [] then nat (js_Number (port u)) else if protocol u = ''https:'' then 443 else 80)"

text \<open>\<open>awaitUntilAborted\<close> around \<open>resolveAndGuard\<close>: an abort wins over the resolver, and a signal
  that has fired already keeps it from starting.\<close>

definition resolve_step :: "world \<Rightarrow> options \<Rightarrow> nat \<Rightarrow> url \<Rightarrow> event list \<times> (thrown + string list)" where
  "resolve_step w opt i u =
     (if aborted_before_dns w i then ([], Inl Foreign)
      else ([Resolve (stripIpv6Brackets (hostname u))],
        if aborted_in_dns w i then Inl Foreign
        else (case resolveAndGuard (is_v6 w) (resolve_at w i) (allow_loopback opt) u of
                Inl e \<Rightarrow> Inl (Own e)
              | Inr addresses \<Rightarrow> Inr addresses)))"

text \<open>The addresses are tried one by one; the last error is thrown, an abort at once.\<close>

fun tunnelledConnection ::
    "world \<Rightarrow> nat \<Rightarrow> nat \<Rightarrow> string \<Rightarrow> thrown option \<Rightarrow> string list \<Rightarrow> event list \<times> (thrown + unit)" where
  "tunnelledConnection w i p host lastError [] =
     ([], Inl (case lastError of
         Some e \<Rightarrow> e
       | None \<Rightarrow> Own (NetworkError (''safe-fetch: no verified address to tunnel to for host \"'' @ host @ ''\"''))))"
| "tunnelledConnection w i p host lastError (a # as) =
     (if tunnel_at w i a then ([Tunnel a p], Inr ())
      else if aborted_in_tunnel w i a then ([Tunnel a p], Inl Foreign)
      else case tunnelledConnection w i p host (Some Foreign) as of
             (tr, r) \<Rightarrow> (Tunnel a p # tr, r))"

definition performRequest :: "world \<Rightarrow> options \<Rightarrow> nat \<Rightarrow> url \<Rightarrow> string list \<Rightarrow> event list \<times> (thrown + response)" where
  "performRequest w opt i u addresses =
     (let host = stripIpv6Brackets (hostname u);
          answer = (case reply_at w i u of None \<Rightarrow> Inl Foreign | Some r \<Rightarrow> Inr r)
      in if via_proxy opt then
           (case tunnelledConnection w i (port_of u) host None addresses of
              (tr, Inl e) \<Rightarrow> (tr, Inl e)
            | (tr, Inr _) \<Rightarrow> (tr, answer))
         else ([ConnectPinned host addresses (port_of u)], answer))"

section \<open>The redirect loop\<close>

record fetched =
  finalUrl :: string
  status :: nat
  redirectChain :: "RedirectHop list"
  response_of :: response

definition is_followed_redirect :: "options \<Rightarrow> response \<Rightarrow> string option" where
  "is_followed_redirect opt r =
     (if \<not> manual_redirects opt \<and> statusCode r \<in> REDIRECT_STATUSES then location r else None)"

text \<open>One turn of the \<open>for (;;)\<close> loop: it returns, throws, or continues with the next URL.\<close>

datatype hop_outcome = Done "thrown + fetched" | Continue url "RedirectHop list"

definition fetch_hop :: "world \<Rightarrow> options \<Rightarrow> url \<Rightarrow> RedirectHop list \<Rightarrow> event list \<times> hop_outcome" where
  "fetch_hop w opt currentUrl chain =
     (let i = length chain in
      case resolve_step w opt i currentUrl of
        (tr1, Inl e) \<Rightarrow> (tr1, Done (Inl e))
      | (tr1, Inr addresses) \<Rightarrow>
          (case performRequest w opt i currentUrl addresses of
             (tr2, Inl e) \<Rightarrow> (tr1 @ tr2, Done (Inl e))
           | (tr2, Inr r) \<Rightarrow>
               (tr1 @ tr2,
                case is_followed_redirect opt r of
                  None \<Rightarrow> Done (Inr \<lparr> finalUrl = href currentUrl, status = statusCode r,
                      redirectChain = chain, response_of = r \<rparr>)
                | Some loc \<Rightarrow>
                    let hop = \<lparr> hop_url = href currentUrl, hop_status = statusCode r, hop_location = loc \<rparr> in
                    if max_redirects opt \<le> length chain then
                      Done (Inl (Own (RedirectLimitError (max_redirects opt) (chain @ [hop]))))
                    else
                      (case res_bind (resolveRedirectTarget (parse_relative w) loc currentUrl)
                               (\<lambda>target. validateUrl (parse_url w) target (max_url_bytes opt)) of
                         Inl e \<Rightarrow> Done (Inl (Own e))
                       | Inr nextUrl \<Rightarrow> Continue nextUrl (chain @ [hop])))))"

lemma fetch_hop_continues:
  assumes "fetch_hop w opt u chain = (tr, Continue v chain')"
  shows "length chain < max_redirects opt \<and> length chain' = length chain + 1"
  using assms by (auto simp: fetch_hop_def Let_def split: prod.splits sum.splits option.splits if_splits)

function fetch_loop :: "world \<Rightarrow> options \<Rightarrow> url \<Rightarrow> RedirectHop list \<Rightarrow> event list \<times> (thrown + fetched)" where
  "fetch_loop w opt currentUrl chain =
     (case fetch_hop w opt currentUrl chain of
        (tr, Done r) \<Rightarrow> (tr, r)
      | (tr, Continue nextUrl chain') \<Rightarrow>
          (case fetch_loop w opt nextUrl chain' of (tr', r) \<Rightarrow> (tr @ tr', r)))"
  by pat_completeness auto
termination
  by (relation "measure (\<lambda>(w, opt, u, chain). max_redirects opt - length chain)")
    (auto dest!: fetch_hop_continues [OF sym])

declare fetch_loop.simps [simp del]

text \<open>A caller's abort is reported before our deadline, and both before the error they caused.\<close>

definition mapError :: "thrown \<Rightarrow> bool \<Rightarrow> bool \<Rightarrow> nat \<Rightarrow> string \<Rightarrow> SafeFetchError" where
  "mapError err deadlineFired callerAborted timeoutMs u =
     (if callerAborted then RequestAbortedError u
      else if deadlineFired then TimeoutError timeoutMs
      else case err of Own e \<Rightarrow> e | Foreign \<Rightarrow> NetworkError ''safe-fetch: request failed'')"

text \<open>
  The whole call. \<open>aborted_at_start\<close> is the caller's signal when it begins, \<open>flags\<close> the deadline
  and the caller's signal when an error reaches the handler.
\<close>

definition safeFetch ::
    "world \<Rightarrow> options \<Rightarrow> nat \<Rightarrow> bool \<Rightarrow> bool \<times> bool \<Rightarrow> string \<Rightarrow> event list \<times> (SafeFetchError + fetched)" where
  "safeFetch w opt timeoutMs aborted_at_start flags u =
     (let body =
        (if aborted_at_start then ([], Inl (Own (RequestAbortedError u)))
         else case validateUrl (parse_url w) u (max_url_bytes opt) of
                Inl e \<Rightarrow> ([], Inl (Own e))
              | Inr parsed \<Rightarrow> fetch_loop w opt parsed [])
      in case body of
           (tr, Inr r) \<Rightarrow> (tr, Inr r)
         | (tr, Inl e) \<Rightarrow> (tr, Inl (mapError e (fst flags) (snd flags) timeoutMs u)))"

section \<open>Reading the body\<close>

text \<open>The three listeners of \<open>readBodyCapped\<close> over the promise's state.\<close>

datatype body_event = Data "nat list" | End | StreamError

record body_state =
  chunks :: "nat list list"
  received :: int
  settled :: "(thrown + nat list \<times> bool) option"
  destroyed :: bool

definition body_start :: body_state where
  "body_start = \<lparr> chunks = [], received = 0, settled = None, destroyed = False \<rparr>"

definition finish :: "bool \<Rightarrow> body_state \<Rightarrow> body_state" where
  "finish truncated s =
     (if settled s \<noteq> None then s else s\<lparr> settled := Some (Inr (concat (chunks s), truncated)) \<rparr>)"

fun readBodyCapped :: "nat \<Rightarrow> body_state \<Rightarrow> body_event \<Rightarrow> body_state" where
  "readBodyCapped maxBodyBytes s (Data chunk) =
     (let remaining = int maxBodyBytes - received s in
      if remaining < int (length chunk) then
        finish True (s\<lparr> chunks := chunks s @ [take (nat remaining) chunk],
          received := int maxBodyBytes, destroyed := True \<rparr>)
      else s\<lparr> chunks := chunks s @ [chunk], received := received s + int (length chunk) \<rparr>)"
| "readBodyCapped maxBodyBytes s End = finish False s"
| "readBodyCapped maxBodyBytes s StreamError =
     (if settled s = None then s\<lparr> settled := Some (Inl Foreign) \<rparr> else s)"

datatype header_value = Missing | Single string | Many "string list"

fun header_text :: "header_value \<Rightarrow> string" where
  "header_text (Many vs) = join_with '', '' vs"
| "header_text (Single v) = v"
| "header_text Missing = ''undefined''"

definition flattenHeaders :: "(string \<times> header_value) list \<Rightarrow> (string \<times> string) list" where
  "flattenHeaders headers = map (\<lambda>(name, v). (name, header_text v)) (filter (\<lambda>(name, v). v \<noteq> Missing) headers)"

text \<open>Until the promise settles the chunks are the bytes so far, within the limit.\<close>

definition body_inv :: "nat \<Rightarrow> body_state \<Rightarrow> bool" where
  "body_inv limit s \<longleftrightarrow> received s \<le> int limit \<and>
     (case settled s of
        None \<Rightarrow> received s = int (length (concat (chunks s))) \<and> \<not> destroyed s
      | Some (Inl e) \<Rightarrow> True
      | Some (Inr (bytes, truncated)) \<Rightarrow> length bytes \<le> limit \<and> (truncated \<longrightarrow> length bytes = limit \<and> destroyed s))"

lemma readBodyCapped_inv: "body_inv limit s \<Longrightarrow> body_inv limit (readBodyCapped limit s e)"
  by (cases e) (auto simp: body_inv_def finish_def Let_def split: option.splits sum.splits if_splits)

interpretation body: stepper "readBodyCapped limit" "\<lambda>_ _. True" "body_inv limit" for limit
  by unfold_locales (rule readBodyCapped_inv)

lemma settled_stays: "settled s = Some v \<Longrightarrow> settled (readBodyCapped limit s e) = Some v"
  by (cases e) (auto simp: finish_def Let_def)

lemma settled_run: "settled s = Some v \<Longrightarrow> settled (run (readBodyCapped limit) s es) = Some v"
  by (induction es arbitrary: s) (auto dest: settled_stays)

lemma body_prefix:
  assumes "settled s = None" "received s = int (length (concat (chunks s)))" "received s \<le> int limit"
  shows "(case settled (run (readBodyCapped limit) s (map Data cs)) of
      None \<Rightarrow> length (concat (chunks s @ cs)) \<le> limit
        \<and> chunks (run (readBodyCapped limit) s (map Data cs)) = chunks s @ cs
    | Some v \<Rightarrow> limit < length (concat (chunks s @ cs))
        \<and> v = Inr (take limit (concat (chunks s @ cs)), True))"
  using assms
proof (induction cs arbitrary: s)
  case Nil
  then show ?case by simp
next
  case (Cons c cs)
  show ?case
  proof (cases "int limit - received s < int (length c)")
    case True
    let ?s = "readBodyCapped limit s (Data c)"
    have "take (nat (int limit - received s)) c = take (limit - length (concat (chunks s))) c"
      using Cons.prems by (simp add: nat_diff_distrib)
    then have "settled ?s = Some (Inr (take limit (concat (chunks s @ c # cs)), True))"
      using True Cons.prems by (simp add: finish_def Let_def)
    with settled_run have "settled (run (readBodyCapped limit) ?s (map Data cs)) =
        Some (Inr (take limit (concat (chunks s @ c # cs)), True))" by blast
    moreover have "limit < length (concat (chunks s @ c # cs))" using True Cons.prems by simp
    ultimately show ?thesis by simp
  next
    case False
    define s' where "s' = readBodyCapped limit s (Data c)"
    have s': "chunks s' = chunks s @ [c]" "received s' = received s + int (length c)" "settled s' = None"
      using False Cons.prems by (simp_all add: s'_def Let_def)
    have unroll: "run (readBodyCapped limit) s (map Data (c # cs)) = run (readBodyCapped limit) s' (map Data cs)"
      by (simp add: s'_def)
    have all_chunks: "chunks s' @ cs = chunks s @ c # cs" by (simp add: s')
    have ok: "received s' = int (length (concat (chunks s')))" "received s' \<le> int limit"
      using s' False Cons.prems by simp_all
    from Cons.IH [OF s'(3) ok] show ?thesis unfolding unroll all_chunks .
  qed
qed

text \<open>
  A body that streams in as any sequence of chunks and then ends is returned whole when it fits
  the limit, and otherwise cut to exactly the first \<open>maxBodyBytes\<close> bytes and marked truncated;
  nothing that happens afterwards changes the result.
\<close>

theorem body_capped_exact:
  "settled (run (readBodyCapped limit) body_start (map Data cs @ [End] @ later)) =
     Some (Inr (take limit (concat cs), limit < length (concat cs)))"
proof -
  let ?s = "run (readBodyCapped limit) body_start (map Data cs)"
  have "settled (readBodyCapped limit ?s End) = Some (Inr (take limit (concat cs), limit < length (concat cs)))"
    using body_prefix [of body_start limit cs]
    by (cases "settled ?s") (simp_all add: finish_def body_start_def)
  from settled_run [OF this] show ?thesis by simp
qed

section \<open>What the guard promises\<close>

definition permitted :: "(string \<Rightarrow> bool) \<Rightarrow> bool \<Rightarrow> string \<Rightarrow> bool" where
  "permitted v6 allowLoopback ip \<longleftrightarrow>
     public_address v6 ip \<or> (allowLoopback \<and> verdict_category (classifyIp v6 ip) = Some Loopback)"

lemma permitted_verdict:
  "permitted v6 allowLoopback ip \<longleftrightarrow>
     (case classifyIp v6 ip of PublicIp \<Rightarrow> True | BlockedIp cat why \<Rightarrow> allowLoopback \<and> cat = Loopback)"
  unfolding permitted_def isPublicIp_iff [symmetric] isPublicIp_def
  by (cases "classifyIp v6 ip") auto

fun verdict_reason :: "IpClassification \<Rightarrow> string" where
  "verdict_reason PublicIp = []"
| "verdict_reason (BlockedIp cat why) = why"

lemma guard_addresses_find:
  "guard_addresses v6 allowLoopback u host ips =
     (case find (\<lambda>ip. \<not> permitted v6 allowLoopback ip) ips of
        None \<Rightarrow> Inr ()
      | Some ip \<Rightarrow> Inl (SsrfBlockedError (href u) host ip (verdict_reason (classifyIp v6 ip))))"
proof (induction ips)
  case (Cons ip ips)
  then show ?case by (cases "classifyIp v6 ip") (auto simp: permitted_verdict)
qed simp

text \<open>
  Resolution is fail-closed and precise: it returns the resolver's answer, unchanged, exactly
  when the answer is non-empty and every address in it is permitted; otherwise it throws, naming
  the first address that is not.
\<close>

lemma resolve_guard_exact:
  "resolveAndGuard v6 resolver allowLoopback u =
     (let host = stripIpv6Brackets (hostname u) in
      case resolver host of
        None \<Rightarrow> Inl (NetworkError (''safe-fetch: DNS resolution failed for host \"'' @ host @ ''\"''))
      | Some [] \<Rightarrow> Inl (NetworkError (''safe-fetch: DNS returned no addresses for host \"'' @ host @ ''\"''))
      | Some ips \<Rightarrow>
          (case find (\<lambda>ip. \<not> permitted v6 allowLoopback ip) ips of
             None \<Rightarrow> Inr ips
           | Some ip \<Rightarrow> Inl (SsrfBlockedError (href u) host ip (verdict_reason (classifyIp v6 ip)))))"
  by (simp add: resolveAndGuard_def Let_def guard_addresses_find split: option.split list.split)

lemma resolveAndGuard_ok:
  "resolveAndGuard v6 resolver allowLoopback u = Inr ips \<Longrightarrow>
     ips \<noteq> [] \<and> list_all (permitted v6 allowLoopback) ips"
  by (auto simp: resolveAndGuard_def Let_def guard_addresses_find find_None_iff list_all_iff
      split: option.splits if_splits)

text \<open>What a step of the trace may be: a connection or a tunnel only to permitted addresses.\<close>

fun event_safe :: "(string \<Rightarrow> bool) \<Rightarrow> bool \<Rightarrow> event \<Rightarrow> bool" where
  "event_safe v6 allowLoopback (Resolve host) = True"
| "event_safe v6 allowLoopback (ConnectPinned host ips p) =
     (ips \<noteq> [] \<and> list_all (permitted v6 allowLoopback) ips)"
| "event_safe v6 allowLoopback (Tunnel ip p) = permitted v6 allowLoopback ip"

fun is_connect :: "event \<Rightarrow> bool" where
  "is_connect (ConnectPinned host ips p) = True"
| "is_connect e = False"

fun is_resolve :: "event \<Rightarrow> bool" where
  "is_resolve (Resolve host) = True"
| "is_resolve e = False"

lemma pinnedLookup_addresses:
  "case pinnedLookup isIP ips want_all of
     LookupFailed \<Rightarrow> ips = []
   | LookupAll entries \<Rightarrow> map fst entries = ips
   | LookupOne ip family \<Rightarrow> ip \<in> set ips"
  by (cases ips) (auto simp: pinnedLookup_def comp_def)

lemma tunnelledConnection_safe:
  "tunnelledConnection w i p host err ips = (tr, r) \<Longrightarrow> list_all (permitted v6 al) ips \<Longrightarrow>
     list_all (event_safe v6 al) tr \<and> filter is_connect tr = [] \<and> filter is_resolve tr = []"
  by (induction w i p host err ips arbitrary: tr r rule: tunnelledConnection.induct)
    (auto split: if_splits prod.splits)

lemma performRequest_safe:
  assumes "performRequest w opt i u ips = (tr, r)" "ips \<noteq> []" "list_all (permitted v6 al) ips"
  shows "list_all (event_safe v6 al) tr \<and> length (filter is_connect tr) \<le> 1 \<and> filter is_resolve tr = []"
  using assms tunnelledConnection_safe [of w i _ _ _ ips _ _ v6 al]
  by (fastforce simp: performRequest_def Let_def split: if_splits prod.splits sum.splits)

lemma resolve_step_ok:
  "resolve_step w opt i u = (tr, r) \<Longrightarrow>
     list_all (event_safe v6 al) tr \<and> filter is_connect tr = [] \<and> length (filter is_resolve tr) \<le> 1
     \<and> (\<forall>ips. r = Inr ips \<longrightarrow> ips \<noteq> [] \<and> list_all (permitted (is_v6 w) (allow_loopback opt)) ips)"
  by (auto simp: resolve_step_def dest!: resolveAndGuard_ok split: if_splits sum.splits)

text \<open>The shape of a finished redirect chain.\<close>

fun chain_ok :: "options \<Rightarrow> thrown + fetched \<Rightarrow> bool" where
  "chain_ok opt (Inr f) =
     (length (redirectChain f) \<le> max_redirects opt
        \<and> list_all (\<lambda>h. hop_status h \<in> REDIRECT_STATUSES) (redirectChain f)
        \<and> (manual_redirects opt \<longrightarrow> redirectChain f = []))"
| "chain_ok opt (Inl (Own (RedirectLimitError n chain))) =
     (n = max_redirects opt \<and> length chain = n + 1 \<and> \<not> manual_redirects opt)"
| "chain_ok opt (Inl e) = True"

lemma validateUrl_error_chain [simp]:
  "validateUrl p t l = Inl e \<Longrightarrow> chain_ok opt (Inl (Own e))"
  "resolveRedirectTarget q loc v = Inl e \<Longrightarrow> chain_ok opt (Inl (Own e))"
  by (auto simp: validateUrl_def resolveRedirectTarget_def Let_def split: option.splits if_splits)

lemma resolve_step_error_chain: "resolve_step w opt i u = (tr, Inl e) \<Longrightarrow> chain_ok opt (Inl e)"
  by (auto simp: resolve_step_def resolveAndGuard_def guard_addresses_find Let_def split: if_splits option.splits)

lemma tunnelledConnection_error_chain:
  "tunnelledConnection w i p host err ips = (tr, Inl e) \<Longrightarrow> err = None \<or> err = Some Foreign \<Longrightarrow> chain_ok opt (Inl e)"
  by (induction w i p host err ips arbitrary: tr rule: tunnelledConnection.induct)
    (auto split: if_splits prod.splits option.splits)

lemma performRequest_error_chain: "performRequest w opt i u ips = (tr, Inl e) \<Longrightarrow> chain_ok opt (Inl e)"
  by (auto simp: performRequest_def Let_def split: if_splits option.splits prod.splits sum.splits
      dest: tunnelledConnection_error_chain)

text \<open>A chain the loop can be at.\<close>

definition chain_at :: "options \<Rightarrow> RedirectHop list \<Rightarrow> bool" where
  "chain_at opt chain \<longleftrightarrow> length chain \<le> max_redirects opt
     \<and> list_all (\<lambda>h. hop_status h \<in> REDIRECT_STATUSES) chain \<and> (manual_redirects opt \<longrightarrow> chain = [])"

lemma is_followed_redirect_Some:
  "is_followed_redirect opt r = Some loc \<Longrightarrow> \<not> manual_redirects opt \<and> statusCode r \<in> REDIRECT_STATUSES"
  by (auto simp: is_followed_redirect_def split: if_splits)

lemma fetch_hop_safe:
  assumes "fetch_hop w opt u chain = (tr, out)" "chain_at opt chain"
  shows "list_all (event_safe (is_v6 w) (allow_loopback opt)) tr"
    "length (filter is_connect tr) \<le> 1" "length (filter is_resolve tr) \<le> 1"
    "case out of Done r \<Rightarrow> chain_ok opt r
       | Continue v chain' \<Rightarrow> chain_at opt chain' \<and> length chain' = length chain + 1"
proof -
  obtain tr1 r1 where s1: "resolve_step w opt (length chain) u = (tr1, r1)" by force
  note ok1 = resolve_step_ok [OF s1, of "is_v6 w" "allow_loopback opt"]
  have "list_all (event_safe (is_v6 w) (allow_loopback opt)) tr \<and>
    length (filter is_connect tr) \<le> 1 \<and> length (filter is_resolve tr) \<le> 1 \<and>
    (case out of Done r \<Rightarrow> chain_ok opt r
       | Continue v chain' \<Rightarrow> chain_at opt chain' \<and> length chain' = length chain + 1)"
  proof (cases r1)
    case (Inl e)
    then show ?thesis using assms(1) s1 ok1 resolve_step_error_chain
      by (auto simp: fetch_hop_def)
  next
    case ips: (Inr ips)
    obtain tr2 r2 where s2: "performRequest w opt (length chain) u ips = (tr2, r2)" by force
    have "ips \<noteq> []" "list_all (permitted (is_v6 w) (allow_loopback opt)) ips" using ok1 ips by auto
    note ok2 = performRequest_safe [OF s2 this]
    have tr: "tr = tr1 @ tr2" using assms(1) s1 s2 ips by (auto simp: fetch_hop_def split: sum.splits)
    have "case out of Done r \<Rightarrow> chain_ok opt r
       | Continue v chain' \<Rightarrow> chain_at opt chain' \<and> length chain' = length chain + 1"
      using assms s1 s2 ips performRequest_error_chain [of w opt "length chain" u ips]
      by (auto simp: fetch_hop_def Let_def chain_at_def res_bind_eq_Inl dest: is_followed_redirect_Some
          split: sum.splits option.splits if_splits)
    then show ?thesis using ok1 ok2 tr by auto
  qed
  then show "list_all (event_safe (is_v6 w) (allow_loopback opt)) tr"
    "length (filter is_connect tr) \<le> 1" "length (filter is_resolve tr) \<le> 1"
    "case out of Done r \<Rightarrow> chain_ok opt r
       | Continue v chain' \<Rightarrow> chain_at opt chain' \<and> length chain' = length chain + 1"
    by blast+
qed

lemma fetch_loop_safe:
  assumes "fetch_loop w opt u chain = (tr, r)" "chain_at opt chain"
  shows "list_all (event_safe (is_v6 w) (allow_loopback opt)) tr \<and> chain_ok opt r
    \<and> length (filter is_connect tr) + length chain \<le> max_redirects opt + 1
    \<and> length (filter is_resolve tr) + length chain \<le> max_redirects opt + 1"
  using assms
proof (induction w opt u chain arbitrary: tr r rule: fetch_loop.induct)
  case (1 w opt u chain)
  obtain tr1 out where hop: "fetch_hop w opt u chain = (tr1, out)" by force
  note ok = fetch_hop_safe [OF hop 1(3)]
  show ?case
  proof (cases out)
    case (Done r')
    then show ?thesis using 1(2,3) hop ok by (simp add: fetch_loop.simps [of w opt u] chain_at_def)
  next
    case (Continue v chain')
    obtain tr2 r2 where rest: "fetch_loop w opt v chain' = (tr2, r2)" by force
    have ih: "list_all (event_safe (is_v6 w) (allow_loopback opt)) tr2 \<and> chain_ok opt r2
        \<and> length (filter is_connect tr2) + length chain' \<le> max_redirects opt + 1
        \<and> length (filter is_resolve tr2) + length chain' \<le> max_redirects opt + 1"
      by (rule 1(1) [OF hop [symmetric] Continue rest]) (use ok(4) Continue in simp)
    have "tr = tr1 @ tr2" "r = r2" using 1(2) hop Continue rest by (simp_all add: fetch_loop.simps [of w opt u])
    then show ?thesis using ih ok Continue by auto
  qed
qed

text \<open>
  C1: The guard cannot be bypassed. Whatever the resolver answers from one hop to the next, the
  servers reply and the redirects point at: every connection and every proxy tunnel goes to
  addresses that are all permitted, no more requests are made than the redirect limit allows, a
  returned chain holds only redirects within the limit (none with the manual policy), and the
  limit error carries the chain that exceeded it.
\<close>

theorem safe_fetch_guarded:
  assumes "safeFetch w opt timeoutMs a flags u = (tr, r)"
  shows "list_all (event_safe (is_v6 w) (allow_loopback opt)) tr
    \<and> length (filter is_connect tr) \<le> max_redirects opt + 1
    \<and> length (filter is_resolve tr) \<le> max_redirects opt + 1
    \<and> (case r of Inl e \<Rightarrow> chain_ok opt (Inl (Own e)) | Inr f \<Rightarrow> chain_ok opt (Inr f))"
proof -
  define body where "body = (if a then ([], Inl (Own (RequestAbortedError u)))
         else case validateUrl (parse_url w) u (max_url_bytes opt) of
                Inl e \<Rightarrow> ([], Inl (Own e))
              | Inr parsed \<Rightarrow> fetch_loop w opt parsed [])"
  obtain tr' r' where b: "body = (tr', r')" by force
  have "list_all (event_safe (is_v6 w) (allow_loopback opt)) tr' \<and> chain_ok opt r'
    \<and> length (filter is_connect tr') \<le> max_redirects opt + 1
    \<and> length (filter is_resolve tr') \<le> max_redirects opt + 1"
    using b fetch_loop_safe [of w opt _ "[]" tr' r']
    by (auto simp: body_def chain_at_def split: if_splits sum.splits)
  moreover have "tr = tr'" "r = (case r' of Inr f \<Rightarrow> Inr f | Inl e \<Rightarrow> Inl (mapError e (fst flags) (snd flags) timeoutMs u))"
    using assms b by (auto simp: safeFetch_def body_def [symmetric] split: sum.splits)
  ultimately show ?thesis
    by (cases r') (auto simp: mapError_def split: thrown.splits)
qed

text \<open>A run with one redirect, on a concrete world.\<close>

definition sample_url :: "string \<Rightarrow> url" where
  "sample_url h = \<lparr> href = h, protocol = ''https:'', username = [], password = [], hostname = h, port = [],
     pathname = ''/'', search = [] \<rparr>"

definition sample_world :: world where
  "sample_world = \<lparr> parse_url = (\<lambda>s. Some (sample_url s)), parse_relative = (\<lambda>s _. Some (sample_url s)),
     is_v6 = (\<lambda>_. False), resolve_at = (\<lambda>i _. Some [if i = 0 then quad 8 8 8 8 else quad 9 9 9 9]),
     aborted_before_dns = (\<lambda>_. False), aborted_in_dns = (\<lambda>_. False), tunnel_at = (\<lambda>_ _. True),
     aborted_in_tunnel = (\<lambda>_ _. False),
     reply_at = (\<lambda>i _. Some (if i = 0 then \<lparr> statusCode = 301, location = Some ''b'', payload = [] \<rparr>
       else \<lparr> statusCode = 200, location = None, payload = [1] \<rparr>)) \<rparr>"

lemma public_quad:
  "a < 256 \<Longrightarrow> b < 256 \<Longrightarrow> c < 256 \<Longrightarrow> d < 256 \<Longrightarrow> ipv4_category a b c d = None \<Longrightarrow>
     classifyIp v6 (quad a b c d) = PublicIp"
  using classify_ipv4_exact [of a b c d v6] by (cases "classifyIp v6 (quad a b c d)") auto

lemma sample_fetch:
  "\<exists>r. safeFetch sample_world default_options 10000 False (False, False) ''a'' =
     ([Resolve ''a'', ConnectPinned ''a'' [quad 8 8 8 8] 443, Resolve ''b'', ConnectPinned ''b'' [quad 9 9 9 9] 443], Inr r)
   \<and> map hop_location (redirectChain r) = [''b''] \<and> status r = 200"
proof -
  have ok: "classifyIp v6 (quad 8 8 8 8) = PublicIp" "classifyIp v6 (quad 9 9 9 9) = PublicIp" for v6
    by (rule public_quad; simp add: ipv4_category_def)+
  note eval = sample_world_def sample_url_def default_options_def CRAWL_LIMITS_def fetch_hop_def
    resolve_step_def resolveAndGuard_def ok performRequest_def port_of_def is_followed_redirect_def
    REDIRECT_STATUSES_def resolveRedirectTarget_def stripIpv6Brackets_def validateUrl_def utf8_length_def
  let ?hop = "\<lparr> hop_url = ''a'', hop_status = 301, hop_location = ''b'' \<rparr>"
  have start: "validateUrl (parse_url sample_world) ''a'' (max_url_bytes default_options) = Inr (sample_url ''a'')"
    by (simp add: eval)
  have "fetch_hop sample_world default_options (sample_url ''a'') [] =
      ([Resolve ''a'', ConnectPinned ''a'' [quad 8 8 8 8] 443], Continue (sample_url ''b'') [?hop])"
    by (simp add: eval)
  moreover have "\<exists>r. fetch_hop sample_world default_options (sample_url ''b'') [?hop] =
      ([Resolve ''b'', ConnectPinned ''b'' [quad 9 9 9 9] 443], Done (Inr r))
      \<and> redirectChain r = [?hop] \<and> status r = 200"
    by (simp add: eval)
  ultimately show ?thesis using start
    by (auto simp: safeFetch_def fetch_loop.simps [of _ _ "sample_url ''a''"] fetch_loop.simps [of _ _ "sample_url ''b''"])
qed

theorem safe_fetch_guarded_witness:
  "list_all (event_safe (is_v6 sample_world) False)
     [Resolve ''a'', ConnectPinned ''a'' [quad 8 8 8 8] 443, Resolve ''b'', ConnectPinned ''b'' [quad 9 9 9 9] 443]
   \<and> length (filter is_connect [Resolve ''a'', ConnectPinned ''a'' [quad 8 8 8 8] 443, Resolve ''b'',
       ConnectPinned ''b'' [quad 9 9 9 9] 443]) \<le> 6"
proof -
  obtain r where "safeFetch sample_world default_options 10000 False (False, False) ''a'' =
     ([Resolve ''a'', ConnectPinned ''a'' [quad 8 8 8 8] 443, Resolve ''b'', ConnectPinned ''b'' [quad 9 9 9 9] 443], Inr r)"
    using sample_fetch by blast
  from safe_fetch_guarded [OF this] show ?thesis
    by (simp add: default_options_def CRAWL_LIMITS_def)
qed
end
