(* ===== verification/RateLimit.thy ===== *)
theory RateLimit
  imports Steps Contracts
begin

text \<open>
  The per-host limiter, \<open>packages/safe-fetch/src/rate-limit.ts\<close>: a token bucket of capacity
  \<open>rps\<close> and a concurrency semaphore with a FIFO queue of waiters. A waiter is named by a number;
  resolving its promise is recorded in \<open>granted\<close> (ghost, in order), calling its release function
  in \<open>released\<close> (the closure's \<open>released\<close> flag). Time is in milliseconds, tokens are exact
  rationals. The events are the calls of the class and the timer it arms; each carries the
  reading of \<open>now()\<close> it makes.
\<close>

record limiter_config =
  rps :: rat
  concurrency :: int

record HostState =
  tokens :: rat
  lastRefillMs :: rat
  active :: int
  queue :: "nat list"
  timer :: "int option"
  granted :: "nat list"
  released :: "nat list"

datatype limiter_error = RpsNotPositive | ConcurrencyNotPositive

text \<open>The constructor: defaults, then its two checks. \<open>NonFinite\<close> is NaN or an infinity.\<close>

definition new_limiter :: "js_number option \<Rightarrow> js_number option \<Rightarrow> limiter_error + limiter_config" where
  "new_limiter rps_opt concurrency_opt =
     (let r = (case rps_opt of Some v \<Rightarrow> v | None \<Rightarrow> Num (of_nat (perHostRps CRAWL_LIMITS)));
          c = (case concurrency_opt of Some v \<Rightarrow> v | None \<Rightarrow> Num (of_nat (perHostConcurrency CRAWL_LIMITS)))
      in case r of
           NonFinite \<Rightarrow> Inl RpsNotPositive
         | Num rv \<Rightarrow>
             if rv \<le> 0 then Inl RpsNotPositive
             else (case c of
                 NonFinite \<Rightarrow> Inl ConcurrencyNotPositive
               | Num cv \<Rightarrow>
                   if cv \<noteq> of_int \<lfloor>cv\<rfloor> \<or> cv < 1 then Inl ConcurrencyNotPositive
                   else Inr \<lparr> rps = rv, concurrency = \<lfloor>cv\<rfloor> \<rparr>))"

text \<open>\<open>stateFor\<close> on a host seen for the first time.\<close>

definition stateFor :: "limiter_config \<Rightarrow> rat \<Rightarrow> HostState" where
  "stateFor cfg now_ms =
     \<lparr> tokens = rps cfg, lastRefillMs = now_ms, active = 0, queue = [], timer = None,
       granted = [], released = [] \<rparr>"

definition refill :: "limiter_config \<Rightarrow> rat \<Rightarrow> HostState \<Rightarrow> HostState" where
  "refill cfg now_ms s =
     (let elapsedSeconds = max 0 (now_ms - lastRefillMs s) / 1000 in
      s\<lparr> tokens := min (rps cfg) (tokens s + elapsedSeconds * rps cfg), lastRefillMs := now_ms \<rparr>)"

text \<open>The loop of \<open>pump\<close>, over the queue it shifts from.\<close>

fun pump_loop :: "limiter_config \<Rightarrow> nat list \<Rightarrow> HostState \<Rightarrow> HostState" where
  "pump_loop cfg [] s = s\<lparr> queue := [] \<rparr>"
| "pump_loop cfg (w # ws) s =
     (if active s < concurrency cfg \<and> 1 \<le> tokens s then
        pump_loop cfg ws (s\<lparr> tokens := tokens s - 1, active := active s + 1, granted := granted s @ [w] \<rparr>)
      else s\<lparr> queue := w # ws \<rparr>)"

definition arm_timer :: "limiter_config \<Rightarrow> HostState \<Rightarrow> HostState" where
  "arm_timer cfg s =
     (if queue s \<noteq> [] \<and> active s < concurrency cfg \<and> timer s = None then
        s\<lparr> timer := Some (max 1 \<lceil>((1 - tokens s) / rps cfg) * 1000\<rceil>) \<rparr>
      else s)"

definition pump :: "limiter_config \<Rightarrow> rat \<Rightarrow> HostState \<Rightarrow> HostState" where
  "pump cfg now_ms s =
     (let s1 = refill cfg now_ms s in arm_timer cfg (pump_loop cfg (queue s1) s1))"

definition acquire :: "limiter_config \<Rightarrow> rat \<Rightarrow> nat \<Rightarrow> HostState \<Rightarrow> HostState" where
  "acquire cfg now_ms w s = pump cfg now_ms (s\<lparr> queue := queue s @ [w] \<rparr>)"

definition makeRelease :: "limiter_config \<Rightarrow> rat \<Rightarrow> nat \<Rightarrow> HostState \<Rightarrow> HostState" where
  "makeRelease cfg now_ms w s =
     (if w \<in> set (released s) then s
      else pump cfg now_ms (s\<lparr> released := released s @ [w], active := active s - 1 \<rparr>))"

definition timer_fires :: "limiter_config \<Rightarrow> rat \<Rightarrow> HostState \<Rightarrow> HostState" where
  "timer_fires cfg now_ms s = pump cfg now_ms (s\<lparr> timer := None \<rparr>)"

datatype limiter_event = Acquire rat nat | Release rat nat | TimerFires rat

fun clock :: "limiter_event \<Rightarrow> rat" where
  "clock (Acquire t w) = t"
| "clock (Release t w) = t"
| "clock (TimerFires t) = t"

fun limiter_step :: "limiter_config \<Rightarrow> HostState \<Rightarrow> limiter_event \<Rightarrow> HostState" where
  "limiter_step cfg s (Acquire t w) = acquire cfg t w s"
| "limiter_step cfg s (Release t w) = makeRelease cfg t w s"
| "limiter_step cfg s (TimerFires t) = timer_fires cfg t s"

text \<open>
  What can happen: a caller asks under a name not used before, only a granted caller holds a
  release function, only an armed timer fires. The clock does not run backwards.
\<close>

fun possible :: "HostState \<Rightarrow> limiter_event \<Rightarrow> bool" where
  "possible s (Acquire t w) \<longleftrightarrow> w \<notin> set (granted s) \<union> set (queue s)"
| "possible s (Release t w) \<longleftrightarrow> w \<in> set (granted s)"
| "possible s (TimerFires t) \<longleftrightarrow> timer s \<noteq> None"

definition limiter_enabled :: "HostState \<Rightarrow> limiter_event \<Rightarrow> bool" where
  "limiter_enabled s e \<longleftrightarrow> possible s e \<and> lastRefillMs s \<le> clock e"

section \<open>The invariant\<close>

definition good_config :: "limiter_config \<Rightarrow> bool" where
  "good_config cfg \<longleftrightarrow> 0 < rps cfg \<and> 1 \<le> concurrency cfg"

lemma new_limiter_good: "new_limiter r c = Inr cfg \<Longrightarrow> good_config cfg"
  by (auto simp: new_limiter_def good_config_def Let_def le_floor_iff split: js_number.splits if_splits)

text \<open>The parts every intermediate state of a pump keeps; \<open>t0\<close> is when the host was first seen.\<close>

definition accounts :: "limiter_config \<Rightarrow> rat \<Rightarrow> HostState \<Rightarrow> bool" where
  "accounts cfg t0 s \<longleftrightarrow>
     distinct (granted s) \<and> distinct (released s) \<and> set (released s) \<subseteq> set (granted s)
     \<and> active s = int (length (granted s)) - int (length (released s)) \<and> active s \<le> concurrency cfg
     \<and> 0 \<le> tokens s \<and> tokens s \<le> rps cfg \<and> t0 \<le> lastRefillMs s
     \<and> of_nat (length (granted s)) + tokens s \<le> rps cfg + rps cfg * (lastRefillMs s - t0) / 1000"

text \<open>No lost wake-up: if a waiter could be served but for tokens, a timer is armed.\<close>

definition awake :: "limiter_config \<Rightarrow> HostState \<Rightarrow> bool" where
  "awake cfg s \<longleftrightarrow> (queue s \<noteq> [] \<and> active s < concurrency cfg \<longrightarrow> tokens s < 1 \<and> timer s \<noteq> None)"

definition limiter_inv :: "limiter_config \<Rightarrow> rat \<Rightarrow> HostState \<Rightarrow> bool" where
  "limiter_inv cfg t0 s \<longleftrightarrow> accounts cfg t0 s \<and> distinct (granted s @ queue s) \<and> awake cfg s"

lemma accounts_refill:
  assumes "good_config cfg" "accounts cfg t0 s" "lastRefillMs s \<le> t"
  shows "accounts cfg t0 (refill cfg t s)"
proof -
  define gain where "gain = (t - lastRefillMs s) / 1000 * rps cfg"
  have gain: "0 \<le> gain" using assms by (simp add: good_config_def gain_def)
  have time: "rps cfg * (t - t0) / 1000 = rps cfg * (lastRefillMs s - t0) / 1000 + gain"
    by (simp add: field_simps gain_def)
  have tokens: "tokens (refill cfg t s) = min (rps cfg) (tokens s + gain)"
    using assms(3) by (simp add: refill_def Let_def gain_def)
  have "of_nat (length (granted s)) + min (rps cfg) (tokens s + gain)
      \<le> rps cfg + rps cfg * (t - t0) / 1000"
    using assms(2) unfolding time accounts_def by linarith
  moreover have "0 \<le> tokens s" "0 \<le> rps cfg" using assms by (auto simp: accounts_def good_config_def)
  ultimately show ?thesis
    using assms gain unfolding accounts_def tokens by (simp add: refill_def Let_def)
qed

lemma refill_simps [simp]:
  "granted (refill cfg t s) = granted s" "queue (refill cfg t s) = queue s" "timer (refill cfg t s) = timer s"
  "released (refill cfg t s) = released s" "active (refill cfg t s) = active s" "lastRefillMs (refill cfg t s) = t"
  by (simp_all add: refill_def Let_def)

lemma pump_loop_order: "granted (pump_loop cfg ws s) @ queue (pump_loop cfg ws s) = granted s @ ws"
  by (induction cfg ws s rule: pump_loop.induct) auto

lemma pump_loop_frame [simp]:
  "timer (pump_loop cfg ws s) = timer s" "released (pump_loop cfg ws s) = released s"
  "lastRefillMs (pump_loop cfg ws s) = lastRefillMs s"
  by (induction cfg ws s rule: pump_loop.induct) auto

lemma accounts_pump_loop:
  "accounts cfg t0 s \<Longrightarrow> distinct (granted s @ ws) \<Longrightarrow> accounts cfg t0 (pump_loop cfg ws s)"
  by (induction cfg ws s rule: pump_loop.induct) (auto simp: accounts_def)

lemma pump_loop_stuck:
  "queue (pump_loop cfg ws s) \<noteq> [] \<Longrightarrow>
     \<not> (active (pump_loop cfg ws s) < concurrency cfg \<and> 1 \<le> tokens (pump_loop cfg ws s))"
  by (induction cfg ws s rule: pump_loop.induct) auto

lemma arm_timer_frame [simp]:
  "granted (arm_timer cfg s) = granted s" "queue (arm_timer cfg s) = queue s" "released (arm_timer cfg s) = released s"
  "active (arm_timer cfg s) = active s" "tokens (arm_timer cfg s) = tokens s" "lastRefillMs (arm_timer cfg s) = lastRefillMs s"
  by (simp_all add: arm_timer_def)

lemma pump_order: "granted (pump cfg t s) @ queue (pump cfg t s) = granted s @ queue s"
  by (simp add: pump_def Let_def pump_loop_order)

lemma pump_inv:
  assumes "good_config cfg" "accounts cfg t0 s" "distinct (granted s @ queue s)" "lastRefillMs s \<le> t"
  shows "limiter_inv cfg t0 (pump cfg t s)"
proof -
  let ?s1 = "refill cfg t s"
  let ?s2 = "pump_loop cfg (queue ?s1) ?s1"
  have "accounts cfg t0 ?s1" by (rule accounts_refill) (use assms in auto)
  then have "accounts cfg t0 ?s2" by (rule accounts_pump_loop) (use assms in simp)
  then have "accounts cfg t0 (pump cfg t s)" by (simp add: pump_def Let_def accounts_def)
  moreover have "awake cfg (pump cfg t s)"
    using pump_loop_stuck [of cfg "queue ?s1" ?s1]
    by (auto simp: awake_def pump_def Let_def arm_timer_def not_le)
  ultimately show ?thesis
    using assms(3) by (simp only: limiter_inv_def pump_order)
qed

lemma limiter_step_inv:
  assumes cfg: "good_config cfg" and inv: "limiter_inv cfg t0 s" and en: "limiter_enabled s e"
  shows "limiter_inv cfg t0 (limiter_step cfg s e)"
proof (cases e)
  case (Acquire t w)
  with inv en have "accounts cfg t0 (s\<lparr>queue := queue s @ [w]\<rparr>)"
    "distinct (granted s @ queue s @ [w])"
    by (auto simp: limiter_inv_def accounts_def limiter_enabled_def)
  with cfg en Acquire show ?thesis
    by (auto simp: acquire_def limiter_enabled_def intro!: pump_inv)
next
  case (Release t w)
  show ?thesis
  proof (cases "w \<in> set (released s)")
    case True
    with Release inv show ?thesis by (simp add: makeRelease_def)
  next
    case False
    with inv en Release have "accounts cfg t0 (s\<lparr>released := released s @ [w], active := active s - 1\<rparr>)"
      by (auto simp: limiter_inv_def accounts_def limiter_enabled_def)
    with False cfg en inv Release show ?thesis
      by (auto simp: makeRelease_def limiter_enabled_def limiter_inv_def [of cfg t0 s] intro!: pump_inv)
  qed
next
  case (TimerFires t)
  with inv have "accounts cfg t0 (s\<lparr>timer := None\<rparr>)" by (simp add: limiter_inv_def accounts_def)
  with cfg en inv TimerFires show ?thesis
    by (auto simp: timer_fires_def limiter_enabled_def limiter_inv_def [of cfg t0 s] intro!: pump_inv)
qed

lemma limiter_inv_start: "good_config cfg \<Longrightarrow> limiter_inv cfg t0 (stateFor cfg t0)"
  by (simp add: limiter_inv_def accounts_def awake_def stateFor_def good_config_def)

interpretation limiter: growing_stepper "limiter_step cfg" limiter_enabled
  "\<lambda>s. good_config cfg \<and> limiter_inv cfg t0 s" "\<lambda>s. length (granted s)"
  for cfg t0
proof
  show "good_config cfg \<and> limiter_inv cfg t0 (limiter_step cfg s e)"
    if "good_config cfg \<and> limiter_inv cfg t0 s" "limiter_enabled s e" for s e
    using that limiter_step_inv by blast
next
  have "length (granted s) \<le> length (granted (pump cfg t s))" for s t
  proof -
    have "length (granted s') \<le> length (granted (pump_loop cfg ws s'))" for ws s'
      by (induction cfg ws s' rule: pump_loop.induct) auto
    from this [of "refill cfg t s"] show ?thesis by (simp add: pump_def Let_def)
  qed
  from this [of "s\<lparr>queue := q\<rparr>" for s q] this [of "s\<lparr>released := q, active := a\<rparr>" for s q a] this [of "s\<lparr>timer := None\<rparr>" for s]
  show "length (granted s) \<le> length (granted (limiter_step cfg s e))"
    if "good_config cfg \<and> limiter_inv cfg t0 s" "limiter_enabled s e" for s e
    by (cases e) (auto simp: acquire_def makeRelease_def timer_fires_def)
qed

section \<open>Properties\<close>

definition limiter_run :: "limiter_config \<Rightarrow> rat \<Rightarrow> limiter_event list \<Rightarrow> HostState" where
  "limiter_run cfg t0 es = run (limiter_step cfg) (stateFor cfg t0) es"

definition limiter_legal :: "limiter_config \<Rightarrow> rat \<Rightarrow> limiter_event list \<Rightarrow> bool" where
  "limiter_legal cfg t0 es = legal (limiter_step cfg) limiter_enabled (stateFor cfg t0) es"

text \<open>The names that asked, in order.\<close>

fun requested :: "limiter_event list \<Rightarrow> nat list" where
  "requested [] = []"
| "requested (Acquire t w # es) = w # requested es"
| "requested (Release t w # es) = requested es"
| "requested (TimerFires t # es) = requested es"

lemma limiter_fifo:
  "granted (run (limiter_step cfg) s es) @ queue (run (limiter_step cfg) s es)
     = granted s @ queue s @ requested es"
proof (induction es arbitrary: s)
  case (Cons e es)
  then show ?case
    by (cases e) (auto simp: acquire_def makeRelease_def timer_fires_def pump_order simp flip: append_assoc)
qed simp

text \<open>
  C29: Whatever the callers and the timer do, from a limiter the constructor accepted: at most
  \<open>concurrency\<close> requests hold a slot, slots are granted in the order asked for, the number of
  grants is bounded by the bucket's capacity plus \<open>rps\<close> per second elapsed, and a waiter that
  is held back only by the rate always has a timer armed.
\<close>

theorem limiter_safe:
  assumes "new_limiter r c = Inr cfg" "limiter_legal cfg t0 es" "s = limiter_run cfg t0 es"
  shows "0 \<le> active s \<and> active s \<le> concurrency cfg
    \<and> active s = int (length (granted s)) - int (length (released s))
    \<and> granted s @ queue s = requested es
    \<and> of_nat (length (granted s)) \<le> rps cfg + rps cfg * (lastRefillMs s - t0) / 1000
    \<and> (queue s \<noteq> [] \<and> active s < concurrency cfg \<longrightarrow> tokens s < 1 \<and> timer s \<noteq> None)"
proof -
  have cfg: "good_config cfg" using assms(1) by (rule new_limiter_good)
  have inv: "limiter_inv cfg t0 s"
    using limiter.run_inv [of cfg t0 "stateFor cfg t0" es] assms(2,3) cfg limiter_inv_start [OF cfg]
    by (simp add: limiter_legal_def limiter_run_def)
  have "length (released s) \<le> length (granted s)"
    using inv by (metis accounts_def card_mono distinct_card limiter_inv_def List.finite_set)
  moreover have "granted s @ queue s = requested es"
    using limiter_fifo [of cfg "stateFor cfg t0" es] assms(3) by (simp add: limiter_run_def stateFor_def)
  ultimately show ?thesis
    using inv by (auto simp: limiter_inv_def accounts_def awake_def)
qed

lemmas limiter_eval = limiter_legal_def limiter_run_def stateFor_def limiter_enabled_def acquire_def
  makeRelease_def timer_fires_def pump_def refill_def arm_timer_def Let_def

theorem limiter_safe_witness:
  "granted (limiter_run \<lparr> rps = 1, concurrency = 1 \<rparr> 0
     [Acquire 0 0, Acquire 5 1, Release 10 0, TimerFires 2000]) = [0, 1]
   \<and> active (limiter_run \<lparr> rps = 1, concurrency = 1 \<rparr> 0
     [Acquire 0 0, Acquire 5 1, Release 10 0, TimerFires 2000]) \<le> 1"
proof -
  let ?cfg = "\<lparr> rps = 1, concurrency = 1 \<rparr>"
  let ?es = "[Acquire 0 0, Acquire 5 1, Release 10 0, TimerFires 2000]"
  have "new_limiter (Some (Num 1)) (Some (Num 1)) = Inr ?cfg" by (simp add: new_limiter_def)
  moreover have "limiter_legal ?cfg 0 ?es" by (simp add: limiter_eval)
  ultimately have safe: "active (limiter_run ?cfg 0 ?es) \<le> concurrency ?cfg
      \<and> granted (limiter_run ?cfg 0 ?es) @ queue (limiter_run ?cfg 0 ?es) = [0, 1]"
    using limiter_safe [of "Some (Num 1)" "Some (Num 1)" ?cfg 0 ?es] by simp
  moreover have "queue (limiter_run ?cfg 0 ?es) = []" by (simp add: limiter_eval)
  ultimately show ?thesis by simp
qed

text \<open>
  The timer is long enough. With \<open>rps\<close> at least 1, if a pump leaves waiters and a free slot,
  then firing the timer it armed after its delay grants the first waiter.
\<close>

theorem limiter_timer_serves:
  assumes "good_config cfg" "1 \<le> rps cfg" "accounts cfg t0 s" "lastRefillMs s \<le> t"
    "distinct (granted s @ queue s)" "timer s = None" "s' = pump cfg t s" "queue s' = w # ws"
    "active s' < concurrency cfg" "timer s' = Some delay" "t + of_int delay \<le> t'"
  shows "w \<in> set (granted (timer_fires cfg t' s'))"
proof -
  define s2 where "s2 = pump_loop cfg (queue s) (refill cfg t s)"
  have s': "s' = arm_timer cfg s2" using assms(7) by (simp add: pump_def Let_def s2_def)
  have inv: "limiter_inv cfg t0 s'" unfolding assms(7) by (rule pump_inv) (use assms in auto)
  have last: "lastRefillMs s' = t" by (simp add: s' s2_def)
  have delay: "delay = max 1 \<lceil>((1 - tokens s') / rps cfg) * 1000\<rceil>"
    using assms(6,8-10) by (auto simp: s' s2_def arm_timer_def split: if_splits)
  have pos: "0 < rps cfg" using assms(1) by (simp add: good_config_def)
  have "((1 - tokens s') / rps cfg) * 1000 \<le> of_int delay"
    unfolding delay by (meson le_of_int_ceiling max.cobounded2 of_int_le_iff order_trans)
  also have "\<dots> \<le> t' - lastRefillMs s'" using assms(11) last by simp
  finally have "1 - tokens s' \<le> (t' - lastRefillMs s') / 1000 * rps cfg"
    using pos by (simp add: field_simps)
  moreover have "0 \<le> t' - lastRefillMs s'" using assms(11) last delay by linarith
  ultimately have "1 \<le> tokens (refill cfg t' (s'\<lparr>timer := None\<rparr>))"
    using assms(2) by (simp add: refill_def Let_def)
  have mono: "w \<in> set (granted s0) \<Longrightarrow> w \<in> set (granted (pump_loop cfg vs s0))" for vs s0
    by (induction cfg vs s0 rule: pump_loop.induct) auto
  with \<open>1 \<le> tokens (refill cfg t' (s'\<lparr>timer := None\<rparr>))\<close> show ?thesis
    using assms(8,9) by (auto simp: timer_fires_def pump_def Let_def intro!: mono)
qed

theorem limiter_timer_serves_witness:
  "2 \<in> set (granted (timer_fires \<lparr> rps = 2, concurrency = 4 \<rparr> 500
     (pump \<lparr> rps = 2, concurrency = 4 \<rparr> 0 ((stateFor \<lparr> rps = 2, concurrency = 4 \<rparr> 0)\<lparr> queue := [0, 1, 2] \<rparr>))))"
  by (rule limiter_timer_serves [where ?t0.0 = 0 and t = 0 and ws = "[]" and delay = 500
        and s = "(stateFor \<lparr> rps = 2, concurrency = 4 \<rparr> 0)\<lparr> queue := [0, 1, 2] \<rparr>"])
    (simp_all add: good_config_def accounts_def limiter_eval)

text \<open>
  A rate below one request per second is accepted by the constructor, but the bucket's
  capacity is then below one token, so no request to the host is ever granted.
\<close>

theorem limiter_starves_below_one:
  assumes "new_limiter (Some (Num v)) c = Inr cfg" "v < 1" "limiter_legal cfg t0 es"
  shows "granted (limiter_run cfg t0 es) = []"
proof -
  have cfg: "good_config cfg" using assms(1) by (rule new_limiter_good)
  have v: "rps cfg = v" using assms(1) by (auto simp: new_limiter_def Let_def split: js_number.splits if_splits)
  have "granted (pump cfg t s) = granted s" for t s
  proof -
    have "tokens (refill cfg t s) < 1" using v assms(2) by (simp add: refill_def Let_def min_less_iff_disj)
    then show ?thesis by (cases "queue s") (simp_all add: pump_def Let_def)
  qed
  then have "granted (limiter_step cfg s e) = granted s" for s e
    by (cases e) (simp_all add: acquire_def makeRelease_def timer_fires_def)
  then have "granted (run (limiter_step cfg) s es) = granted s" for s
    by (induction es arbitrary: s) simp_all
  then show ?thesis by (simp add: limiter_run_def stateFor_def)
qed

theorem limiter_starves_below_one_witness:
  "granted (limiter_run \<lparr> rps = 1 / 2, concurrency = 4 \<rparr> 0 [Acquire 0 0, TimerFires 5000]) = []"
  by (rule limiter_starves_below_one [where v = "1 / 2" and c = None])
    (simp_all add: new_limiter_def CRAWL_LIMITS_def limiter_eval)

end
