(* ===== verification/ScanState.thy ===== *)
theory ScanState
  imports Steps Contracts
begin

text \<open>
  The stored scan and its state machine, \<open>apps/api/src/billing/state-machine.ts\<close>. The table of
  scans is a map from ids to rows; an \<open>updateMany\<close> is one atomic change of it that reports how
  many rows it matched. \<open>transitionScan\<close> issues two such statements, which other processes can
  separate: \<open>scan_op\<close> is one statement of any of them, and the properties hold for every
  interleaving of statements. Times are milliseconds; error messages are left out.
\<close>

record scan_row =
  status :: scan_runtime_status
  statusReason :: "string option"
  startedAt :: "nat option"
  completedAt :: "nat option"
  platformRetryCount :: nat
  moduleRetryCount :: nat
  scan_purchase :: "string option"

type_synonym scan_table = "string \<Rightarrow> scan_row option"

datatype billing_error = InvalidTransition | BillingNotFound | RefundPolicy

definition new_scan :: "string option \<Rightarrow> scan_row" where
  "new_scan purchase =
     \<lparr> status = SPending, statusReason = None, startedAt = None, completedAt = None,
       platformRetryCount = 0, moduleRetryCount = 0, scan_purchase = purchase \<rparr>"

text \<open>\<open>scan.updateMany({ where: { id, ...matches }, data: change })\<close>.\<close>

definition updateMany :: "string \<Rightarrow> (scan_row \<Rightarrow> bool) \<Rightarrow> (scan_row \<Rightarrow> scan_row) \<Rightarrow> scan_table \<Rightarrow> nat \<times> scan_table" where
  "updateMany scanId matches change db =
     (case db scanId of
        Some row \<Rightarrow> if matches row then (1, db(scanId \<mapsto> change row)) else (0, db)
      | None \<Rightarrow> (0, db))"

fun timestampChanges :: "scan_runtime_status \<Rightarrow> nat \<Rightarrow> nat option" where
  "timestampChanges SRunning now = None"
| "timestampChanges SQueued now = None"
| "timestampChanges to_status now = Some now"

text \<open>\<open>reason\<close> is \<open>options.statusReason\<close>: absent, or written verbatim (\<open>Some None\<close> clears it).\<close>

definition cas_where :: "scan_runtime_status \<Rightarrow> scan_runtime_status \<Rightarrow> scan_row \<Rightarrow> bool" where
  "cas_where from_status to_status row \<longleftrightarrow>
     status row = from_status
     \<and> (from_status = SFailed \<and> to_status = SQueued \<longrightarrow> platformRetryCount row < 1)
     \<and> (from_status = SPartial \<and> to_status = SRunning \<longrightarrow> moduleRetryCount row < 1)"

definition cas_data ::
    "scan_runtime_status \<Rightarrow> scan_runtime_status \<Rightarrow> string option option \<Rightarrow> nat \<Rightarrow> scan_row \<Rightarrow> scan_row" where
  "cas_data from_status to_status reason now row =
     row\<lparr> status := to_status,
          statusReason := (case reason of None \<Rightarrow> statusReason row | Some r \<Rightarrow> r),
          completedAt := timestampChanges to_status now,
          platformRetryCount := platformRetryCount row + (if from_status = SFailed \<and> to_status = SQueued then 1 else 0),
          moduleRetryCount := moduleRetryCount row + (if from_status = SPartial \<and> to_status = SRunning then 1 else 0) \<rparr>"

text \<open>The first statement: the compare-and-set that decides the transition.\<close>

definition cas_statement ::
    "string \<Rightarrow> scan_runtime_status \<Rightarrow> scan_runtime_status \<Rightarrow> string option option \<Rightarrow> nat \<Rightarrow> scan_table
      \<Rightarrow> billing_error + scan_table" where
  "cas_statement scanId from_status to_status reason now db =
     (if \<not> canTransition from_status to_status then Inl InvalidTransition
      else case updateMany scanId (cas_where from_status to_status) (cas_data from_status to_status reason now) db of
             (count, db') \<Rightarrow> if count \<noteq> 1 then Inl InvalidTransition else Inr db')"

text \<open>The second statement, only after \<open>Queued -> Running\<close>: fill a blank \<open>startedAt\<close>.\<close>

definition fill_start :: "string \<Rightarrow> nat \<Rightarrow> scan_table \<Rightarrow> scan_table" where
  "fill_start scanId now db =
     snd (updateMany scanId (\<lambda>row. startedAt row = None) (\<lambda>row. row\<lparr> startedAt := Some now \<rparr>) db)"

definition transitionScan ::
    "string \<Rightarrow> scan_runtime_status \<Rightarrow> scan_runtime_status \<Rightarrow> string option option \<Rightarrow> nat \<Rightarrow> scan_table
      \<Rightarrow> billing_error + scan_table" where
  "transitionScan scanId from_status to_status reason now db =
     res_bind (cas_statement scanId from_status to_status reason now db)
       (\<lambda>db'. if to_status = SRunning \<and> from_status = SQueued then Inr (fill_start scanId now db')
              else Inr db')"

text \<open>The grant of the single external retry (\<open>resolveNoUsableOutput\<close>), one statement.\<close>

definition grant_retry :: "string \<Rightarrow> scan_table \<Rightarrow> nat \<times> scan_table" where
  "grant_retry scanId =
     updateMany scanId (\<lambda>row. status row = SRunning \<and> moduleRetryCount row < 1)
       (\<lambda>row. row\<lparr> moduleRetryCount := moduleRetryCount row + 1 \<rparr>)"

section \<open>Interleaved statements\<close>

datatype scan_op =
    CreateScan string "string option"
  | Cas string scan_runtime_status scan_runtime_status "string option option" nat
  | FillStart string nat
  | GrantRetry string

fun scan_step :: "scan_table \<Rightarrow> scan_op \<Rightarrow> scan_table" where
  "scan_step db (CreateScan scanId purchase) =
     (case db scanId of None \<Rightarrow> db(scanId \<mapsto> new_scan purchase) | Some row \<Rightarrow> db)"
| "scan_step db (Cas scanId a b reason now) =
     (case cas_statement scanId a b reason now db of Inl e \<Rightarrow> db | Inr db' \<Rightarrow> db')"
| "scan_step db (FillStart scanId now) = fill_start scanId now db"
| "scan_step db (GrantRetry scanId) = snd (grant_retry scanId db)"

text \<open>How many of the statements moved scan \<open>i\<close> to another status.\<close>

fun moves :: "string \<Rightarrow> scan_table \<Rightarrow> scan_op list \<Rightarrow> nat" where
  "moves i db [] = 0"
| "moves i db (e # es) =
     (if map_option status (db i) \<noteq> None
         \<and> map_option status (db i) \<noteq> map_option status (scan_step db e i) then 1 else 0)
     + moves i (scan_step db e) es"

definition result_states :: "scan_runtime_status set" where
  "result_states = {SCompleted, SPartial, SFailed, SCancelled}"

definition row_ok :: "scan_row \<Rightarrow> bool" where
  "row_ok row \<longleftrightarrow> platformRetryCount row \<le> 1 \<and> moduleRetryCount row \<le> 1
     \<and> (completedAt row \<noteq> None \<longleftrightarrow> status row \<in> result_states)"

definition scans_ok :: "scan_table \<Rightarrow> bool" where
  "scans_ok db \<longleftrightarrow> (\<forall>i row. db i = Some row \<longrightarrow> row_ok row)"

text \<open>The moves a row has left: a retry spends its counter, so it can only fall.\<close>

fun status_rank :: "scan_runtime_status \<Rightarrow> nat" where
  "status_rank SPending = 4" | "status_rank SQueued = 3" | "status_rank SRunning = 2"
| "status_rank SPartial = 1" | "status_rank SFailed = 1"
| "status_rank SCompleted = 0" | "status_rank SCancelled = 0"

definition moves_left :: "scan_row \<Rightarrow> nat" where
  "moves_left row = status_rank (status row) + 3 * (1 - platformRetryCount row) + 2 * (1 - moduleRetryCount row)"

lemma updateMany_row:
  "updateMany i P f db = (n, db') \<Longrightarrow>
     (\<forall>j. j \<noteq> i \<longrightarrow> db' j = db j) \<and>
     (n = 1 \<longleftrightarrow> (\<exists>row. db i = Some row \<and> P row)) \<and>
     db' i = map_option (\<lambda>row. if P row then f row else row) (db i)"
  by (auto simp: updateMany_def split: option.splits if_splits)

lemma cas_statement_ok:
  "cas_statement i a b reason now db = Inr db' \<longleftrightarrow>
     canTransition a b \<and> (\<exists>row. db i = Some row \<and> cas_where a b row \<and> db' = db(i \<mapsto> cas_data a b reason now row))"
  by (auto simp: cas_statement_def updateMany_def split: option.splits if_splits)

text \<open>What one statement does to a row that exists.\<close>

definition row_move :: "scan_row \<Rightarrow> scan_row \<Rightarrow> bool" where
  "row_move row row' \<longleftrightarrow> row' = row
     \<or> (\<exists>a b reason now. canTransition a b \<and> cas_where a b row \<and> row' = cas_data a b reason now row)
     \<or> (startedAt row = None \<and> (\<exists>now. row' = row\<lparr> startedAt := Some now \<rparr>))
     \<or> (status row = SRunning \<and> moduleRetryCount row < 1 \<and> row' = row\<lparr> moduleRetryCount := moduleRetryCount row + 1 \<rparr>)"

lemma row_move_refl [simp]: "row_move row row"
  by (simp add: row_move_def)

lemma row_move_cas [intro]: "canTransition a b \<Longrightarrow> cas_where a b row \<Longrightarrow> row_move row (cas_data a b reason now row)"
  unfolding row_move_def by blast

lemma row_move_cases:
  assumes "row_move row row'"
  obtains (same) "row' = row"
    | (cas) a b reason now where "canTransition a b" "cas_where a b row" "row' = cas_data a b reason now row"
    | (start) now where "startedAt row = None" "row' = row\<lparr> startedAt := Some now \<rparr>"
    | (retry) "status row = SRunning" "moduleRetryCount row < 1"
        "row' = row\<lparr> moduleRetryCount := moduleRetryCount row + 1 \<rparr>"
  using assms unfolding row_move_def by blast

lemma scan_step_row: "db i = Some row \<Longrightarrow> \<exists>row'. scan_step db e i = Some row' \<and> row_move row row'"
proof (cases e)
  case (CreateScan j p)
  assume "db i = Some row"
  with CreateScan show ?thesis by (auto simp: row_move_def split: option.split)
next
  case (Cas j a b reason now)
  assume row: "db i = Some row"
  show ?thesis
  proof (cases "cas_statement j a b reason now db")
    case (Inl err)
    with Cas row show ?thesis by (simp add: row_move_def)
  next
    case (Inr db')
    then have step: "scan_step db e = db'" using Cas by simp
    from Inr obtain row0 where "canTransition a b" "db j = Some row0" "cas_where a b row0"
      "db' = db(j \<mapsto> cas_data a b reason now row0)"
      by (auto simp: cas_statement_ok)
    with row show ?thesis unfolding step by (cases "i = j") auto
  qed
next
  case (FillStart j now)
  assume "db i = Some row"
  with FillStart show ?thesis
    by (cases "i = j") (auto simp: fill_start_def updateMany_def row_move_def split: option.split)
next
  case (GrantRetry j)
  assume "db i = Some row"
  with GrantRetry show ?thesis
    by (cases "i = j") (auto simp: grant_retry_def updateMany_def row_move_def split: option.split)
qed

lemma scan_step_fresh: "db i = None \<Longrightarrow> scan_step db e i = None \<or> (\<exists>p. scan_step db e i = Some (new_scan p))"
  by (cases e) (auto simp: cas_statement_ok fill_start_def grant_retry_def updateMany_def
      split: option.splits sum.splits if_splits)

lemma row_move_ok: "row_ok row \<Longrightarrow> row_move row row' \<Longrightarrow> row_ok row'"
proof -
  assume ok: "row_ok row" and mv: "row_move row row'"
  have "row_ok (cas_data a b reason now row)" if "canTransition a b" "cas_where a b row" for a b reason now
    using ok that by (cases a; cases b)
      (auto simp: row_ok_def cas_data_def cas_where_def canTransition_def result_states_def)
  moreover have "row_ok (row\<lparr>startedAt := x\<rparr>)" for x using ok by (simp add: row_ok_def)
  moreover have "row_ok (row\<lparr>moduleRetryCount := moduleRetryCount row + 1\<rparr>)" if "moduleRetryCount row < 1"
    using ok that by (simp add: row_ok_def)
  ultimately show ?thesis using ok mv unfolding row_move_def by blast
qed

lemma scan_step_ok: "scans_ok db \<Longrightarrow> scans_ok (scan_step db e)"
proof -
  assume ok: "scans_ok db"
  have "row_ok row'" if "scan_step db e i = Some row'" for i row'
  proof (cases "db i")
    case None
    with scan_step_fresh [of db i e] that show ?thesis by (auto simp: row_ok_def new_scan_def result_states_def)
  next
    case (Some row)
    with scan_step_row [of db i row e] that ok show ?thesis
      by (auto simp: scans_ok_def dest: row_move_ok)
  qed
  then show ?thesis by (simp add: scans_ok_def)
qed

interpretation scans: stepper scan_step "\<lambda>_ _. True" scans_ok
  by unfold_locales (rule scan_step_ok)

interpretation scan_cas: cas_table canTransition
  by unfold_locales simp

lemma legal_True [simp]: "legal step (\<lambda>_ _. True) s es"
  by (induction es arbitrary: s) auto

lemma row_move_left:
  "row_move row row' \<Longrightarrow> row_ok row \<Longrightarrow> moves_left row' + (if status row' \<noteq> status row then 1 else 0) \<le> moves_left row"
proof -
  assume mv: "row_move row row'" and ok: "row_ok row"
  have "moves_left (cas_data a b reason now row) + 1 \<le> moves_left row" if "canTransition a b" "cas_where a b row" for a b reason now
    using ok that by (cases a; cases b)
      (auto simp: row_ok_def cas_data_def cas_where_def canTransition_def moves_left_def)
  note cas_left = this
  show ?thesis using mv
  proof (cases rule: row_move_cases)
    case (cas a b reason now)
    then show ?thesis using cas_left [of a b reason now] by simp
  qed (auto simp: moves_left_def)
qed

lemma moves_bound:
  "scans_ok db \<Longrightarrow> db i = Some row \<Longrightarrow> moves i db es \<le> moves_left row"
proof (induction es arbitrary: db row)
  case (Cons e es)
  obtain row' where row': "scan_step db e i = Some row'" "row_move row row'"
    using scan_step_row [of db i row e] Cons.prems(2) by blast
  have "row_ok row" using Cons.prems by (simp add: scans_ok_def)
  note left = row_move_left [OF row'(2) this]
  have "moves i (scan_step db e) es \<le> moves_left row'"
    using Cons.IH scan_step_ok [OF Cons.prems(1)] row'(1) by blast
  then show ?case using left Cons.prems(2) row'(1) by (auto split: if_splits)
qed simp

section \<open>Properties\<close>

lemma moves_bound_any:
  "scans_ok db \<Longrightarrow> moves i db es \<le> (case db i of None \<Rightarrow> 9 | Some row \<Rightarrow> moves_left row)"
proof (induction es arbitrary: db)
  case (Cons e es)
  show ?case
  proof (cases "db i")
    case None
    have "moves i (scan_step db e) es \<le> (case scan_step db e i of None \<Rightarrow> 9 | Some row \<Rightarrow> moves_left row)"
      by (rule Cons.IH [OF scan_step_ok [OF Cons.prems]])
    moreover have "(case scan_step db e i of None \<Rightarrow> 9 | Some row \<Rightarrow> moves_left row) = 9"
      using scan_step_fresh [of db i e] None by (auto simp: moves_left_def new_scan_def)
    ultimately show ?thesis using None by simp
  next
    case (Some row)
    then show ?thesis using moves_bound [OF Cons.prems Some, of "e # es"] by (simp only: Some option.case)
  qed
qed (simp split: option.split)

text \<open>
  C10: Whatever statements any number of processes issue, in any order: a scan changes status at
  most nine times in its life, each free retry is spent at most once, and \<open>completedAt\<close> is set
  exactly in the result states.
\<close>

theorem scan_lifetime:
  "moves i Map.empty es \<le> 9 \<and>
   (case run scan_step Map.empty es i of
      None \<Rightarrow> True
    | Some row \<Rightarrow> platformRetryCount row \<le> 1 \<and> moduleRetryCount row \<le> 1
        \<and> (completedAt row \<noteq> None \<longleftrightarrow> status row \<in> {SCompleted, SPartial, SFailed, SCancelled}))"
proof -
  have empty: "scans_ok Map.empty" by (simp add: scans_ok_def)
  have "scans_ok (run scan_step Map.empty es)" by (rule scans.run_inv [OF empty]) simp
  then show ?thesis using moves_bound_any [OF empty, of i es]
    by (auto simp: scans_ok_def row_ok_def result_states_def split: option.split)
qed

text \<open>
  \<open>transitionScan\<close> on every input: it fails exactly when the pair is not in the table, the scan
  is missing or elsewhere, or the retry it needs is spent; otherwise it rewrites that one row as
  stated, and a retry keeps the original \<open>startedAt\<close>.
\<close>

theorem transition_exact:
  "transitionScan i a b reason now db =
     (case db i of
        None \<Rightarrow> Inl InvalidTransition
      | Some row \<Rightarrow>
          if canTransition a b \<and> status row = a
             \<and> \<not> (a = SFailed \<and> 1 \<le> platformRetryCount row) \<and> \<not> (a = SPartial \<and> 1 \<le> moduleRetryCount row)
          then Inr (db(i \<mapsto> row\<lparr> status := b,
              statusReason := (case reason of None \<Rightarrow> statusReason row | Some r \<Rightarrow> r),
              startedAt := (if a = SQueued \<and> b = SRunning \<and> startedAt row = None then Some now else startedAt row),
              completedAt := (if b = SRunning \<or> b = SQueued then None else Some now),
              platformRetryCount := platformRetryCount row + (if a = SFailed then 1 else 0),
              moduleRetryCount := moduleRetryCount row + (if a = SPartial then 1 else 0) \<rparr>))
          else Inl InvalidTransition)"
proof (cases "db i")
  case None
  then show ?thesis by (simp add: transitionScan_def cas_statement_def updateMany_def)
next
  case (Some row)
  show ?thesis
  proof (cases "canTransition a b")
    case False
    then show ?thesis using Some by (simp add: transitionScan_def cas_statement_def)
  next
    case True
    then show ?thesis using Some
      by (cases a; cases b)
        (auto simp: transitionScan_def cas_statement_def updateMany_def cas_where_def cas_data_def
          canTransition_def fill_start_def)
  qed
qed

text \<open>Several processes that all try to move scan \<open>i\<close> out of the same status: what each observes.\<close>

fun claims ::
    "string \<Rightarrow> scan_runtime_status \<Rightarrow> (scan_runtime_status \<times> string option option \<times> nat) list \<Rightarrow> scan_table
      \<Rightarrow> bool list \<times> scan_table" where
  "claims i a [] db = ([], db)"
| "claims i a ((b, reason, now) # rest) db =
     (case transitionScan i a b reason now db of
        Inl e \<Rightarrow> (case claims i a rest db of (flags, db') \<Rightarrow> (False # flags, db'))
      | Inr db1 \<Rightarrow> (case claims i a rest db1 of (flags, db') \<Rightarrow> (True # flags, db')))"

definition retry_left :: "scan_runtime_status \<Rightarrow> scan_row \<Rightarrow> bool" where
  "retry_left a row \<longleftrightarrow> \<not> (a = SFailed \<and> 1 \<le> platformRetryCount row) \<and> \<not> (a = SPartial \<and> 1 \<le> moduleRetryCount row)"

lemma claims_compete:
  "db i = Some row \<Longrightarrow> (status row = a \<longrightarrow> retry_left a row) \<Longrightarrow>
     fst (claims i a ops db) = fst (compete canTransition (map (\<lambda>(b, _, _). (a, b)) ops) (status row))
     \<and> map_option status (snd (claims i a ops db) i) = Some (snd (compete canTransition (map (\<lambda>(b, _, _). (a, b)) ops) (status row)))"
proof (induction ops arbitrary: db row)
  case (Cons op ops)
  obtain b reason now where op: "op = (b, reason, now)" by (cases op)
  show ?case
  proof (cases "canTransition a b \<and> status row = a")
    case True
    then obtain db1 row1 where t: "transitionScan i a b reason now db = Inr db1" "db1 i = Some row1" "status row1 = b"
      using Cons.prems by (auto simp: transition_exact retry_left_def)
    have "status row1 \<noteq> a" using True t(3) canTransition_irrefl by metis
    with Cons.IH [of db1 row1] True op t show ?thesis by (auto simp: cas_def split: prod.splits)
  next
    case False
    then have "transitionScan i a b reason now db = Inl InvalidTransition"
      using Cons.prems(1) by (auto simp: transition_exact)
    with Cons.IH [of db row] Cons.prems False op show ?thesis by (auto simp: cas_def split: prod.split)
  qed
qed simp

text \<open>
  Of any number of concurrent transitions out of the scan's current status (worker claims,
  cancellations, retries), exactly the one that reaches the row first succeeds.
\<close>

theorem claim_exclusive:
  assumes "db i = Some row" "status row = a" "retry_left a row"
    "list_all (\<lambda>(b, reason, now). canTransition a b) ((b, reason, now) # rest)"
  shows "fst (claims i a ((b, reason, now) # rest) db) = True # replicate (length rest) False
    \<and> map_option status (snd (claims i a ((b, reason, now) # rest) db) i) = Some b"
proof -
  let ?bs = "map fst rest"
  have pairs: "map (\<lambda>(b, _, _). (a, b)) ((b, reason, now) # rest) = map (Pair a) (b # ?bs)"
    by auto
  have "\<forall>c \<in> set (b # ?bs). canTransition a c"
    using assms(4) by (auto simp: list_all_iff)
  then have "compete canTransition (map (Pair a) (b # ?bs)) a = (True # replicate (length ?bs) False, b)"
    by (rule scan_cas.one_winner)
  with claims_compete [of db i row a "(b, reason, now) # rest"] assms(1-3) show ?thesis
    unfolding pairs assms(2) by (simp del: compete.simps claims.simps) 
qed

theorem claim_exclusive_witness:
  "fst (claims ''s'' SQueued [(SRunning, None, 5), (SCancelled, None, 6), (SRunning, None, 7)]
     (Map.empty(''s'' \<mapsto> (new_scan None)\<lparr> status := SQueued \<rparr>))) = [True, False, False]"
  using claim_exclusive [of "Map.empty(''s'' \<mapsto> (new_scan None)\<lparr> status := SQueued \<rparr>)" "''s''"
      "(new_scan None)\<lparr> status := SQueued \<rparr>" SQueued SRunning None 5 "[(SCancelled, None, 6), (SRunning, None, 7)]"]
  by (simp add: retry_left_def canTransition_def numeral_eq_Suc)

end
