(* ===== verification/RefundDispatch.thy ===== *)
theory RefundDispatch
  imports Steps Contracts
begin

text \<open>
  Outbound refunds: the state table (\<open>apps/api/src/billing/refunds/states.ts\<close>), the stored rows and
  their compare-and-set moves (\<open>outbox.ts\<close>), the deployment switch (\<open>config.ts\<close>) and the sweep
  that submits refunds (\<open>dispatcher.ts\<close>).

  The table of dispatches is a map keyed by the purchase, which the unique constraint on
  \<open>purchaseId\<close> makes one row each; a row's \<open>id\<close> is identified with its purchase. The stored state
  is a string, because the column has no constraint behind it. Other processes act between the
  statements of a function: wherever the code awaits, a function \<open>others\<close> of the model, on which
  nothing is assumed, may rewrite the table.
\<close>

section \<open>States\<close>

datatype RefundDispatchState = Requested | Submitting | Submitted | Settled | Manual | Uncertain | Failed

fun REFUND_DISPATCH_STATES :: "RefundDispatchState \<Rightarrow> string" where
  "REFUND_DISPATCH_STATES Requested = ''requested''"
| "REFUND_DISPATCH_STATES Submitting = ''submitting''"
| "REFUND_DISPATCH_STATES Submitted = ''submitted''"
| "REFUND_DISPATCH_STATES Settled = ''settled''"
| "REFUND_DISPATCH_STATES Manual = ''manual''"
| "REFUND_DISPATCH_STATES Uncertain = ''uncertain''"
| "REFUND_DISPATCH_STATES Failed = ''failed''"

definition all_states :: "RefundDispatchState list" where
  "all_states = [Requested, Submitting, Submitted, Settled, Manual, Uncertain, Failed]"

definition DISPATCHABLE_STATES :: "RefundDispatchState list" where
  "DISPATCHABLE_STATES = [Requested]"

definition OPERATOR_STATES :: "RefundDispatchState list" where
  "OPERATOR_STATES = [Submitting, Uncertain, Failed, Manual]"

definition TERMINAL_STATES :: "RefundDispatchState list" where
  "TERMINAL_STATES = [Settled]"

definition refundDispatchKey :: "string \<Rightarrow> string" where
  "refundDispatchKey purchaseId = ''refund-dispatch:'' @ purchaseId"

fun ALLOWED_TRANSITIONS :: "RefundDispatchState \<Rightarrow> RefundDispatchState list" where
  "ALLOWED_TRANSITIONS Requested = [Submitting, Manual, Settled]"
| "ALLOWED_TRANSITIONS Submitting = [Submitted, Failed, Uncertain, Settled, Manual]"
| "ALLOWED_TRANSITIONS Submitted = [Settled, Manual]"
| "ALLOWED_TRANSITIONS Settled = []"
| "ALLOWED_TRANSITIONS Manual = [Requested, Settled]"
| "ALLOWED_TRANSITIONS Uncertain = [Settled, Manual]"
| "ALLOWED_TRANSITIONS Failed = [Manual, Requested, Settled]"

text \<open>\<open>Object.hasOwn(ALLOWED_TRANSITIONS, value)\<close>.\<close>

definition state_of :: "string \<Rightarrow> RefundDispatchState option" where
  "state_of s = find (\<lambda>st. REFUND_DISPATCH_STATES st = s) all_states"

definition isRefundDispatchState :: "string \<Rightarrow> bool" where
  "isRefundDispatchState s \<longleftrightarrow> state_of s \<noteq> None"

text \<open>
  \<open>(ALLOWED_TRANSITIONS[from] ?? []).includes(to)\<close>. A key inherited from \<open>Object.prototype\<close> finds
  a value that is not an array: calling \<open>includes\<close> on it is a \<open>TypeError\<close>.
\<close>

definition canTransition_dispatch :: "string \<Rightarrow> RefundDispatchState \<Rightarrow> js_exception + bool" where
  "canTransition_dispatch from_state to_state =
     (case js_lookup_in (map (\<lambda>st. (REFUND_DISPATCH_STATES st, ALLOWED_TRANSITIONS st)) all_states) from_state of
        Own targets \<Rightarrow> Inr (to_state \<in> set targets)
      | Inherited \<Rightarrow> Inl TypeError
      | Undefined \<Rightarrow> Inr False)"

lemma state_of_string [simp]: "state_of (REFUND_DISPATCH_STATES st) = Some st"
  by (cases st) (simp_all add: state_of_def all_states_def)

lemma state_of_Some: "state_of s = Some st \<longleftrightarrow> s = REFUND_DISPATCH_STATES st"
proof
  assume "state_of s = Some st"
  then show "s = REFUND_DISPATCH_STATES st" by (auto simp: state_of_def find_Some_iff)
qed simp

lemma states_inj [simp]: "REFUND_DISPATCH_STATES a = REFUND_DISPATCH_STATES b \<longleftrightarrow> a = b"
  by (metis option.inject state_of_string)

lemma lookup_known:
  "js_lookup_in (map (\<lambda>st. (REFUND_DISPATCH_STATES st, ALLOWED_TRANSITIONS st)) all_states)
     (REFUND_DISPATCH_STATES st) = Own (ALLOWED_TRANSITIONS st)"
  by (cases st) (simp_all add: all_states_def)

lemma canTransition_known [simp]:
  "canTransition_dispatch (REFUND_DISPATCH_STATES st) to_state = Inr (to_state \<in> set (ALLOWED_TRANSITIONS st))"
  by (simp add: canTransition_dispatch_def lookup_known)

lemma canTransition_unknown:
  "state_of s = None \<Longrightarrow> canTransition_dispatch s to_state =
     (if s \<in> set object_prototype_names then Inl TypeError else Inr False)"
proof -
  assume "state_of s = None"
  then have "map_of (map (\<lambda>st. (REFUND_DISPATCH_STATES st, ALLOWED_TRANSITIONS st)) all_states) s = None"
    by (auto simp: state_of_def find_None_iff map_of_eq_None_iff)
  then show ?thesis by (simp add: canTransition_dispatch_def js_lookup_in_def)
qed

definition allowed_move :: "RefundDispatchState \<Rightarrow> RefundDispatchState \<Rightarrow> bool" where
  "allowed_move a b \<longleftrightarrow> b \<in> set (ALLOWED_TRANSITIONS a)"

interpretation dispatch_cas: cas_table allowed_move
proof
  show "\<not> allowed_move s s" for s by (cases s) (simp_all add: allowed_move_def)
qed

section \<open>Rows\<close>

record dispatch_row =
  provider :: string
  state :: string
  stateReason :: "string option"
  attempts :: nat
  amountUsd :: rat
  currency :: string
  providerOrderId :: "string option"
  providerRefundId :: "string option"
  providerReasonCode :: "string option"
  resolvedBy :: "string option"
  requestedAt :: nat
  submittedAt :: "nat option"
  settledAt :: "nat option"

type_synonym dispatch_table = "string \<Rightarrow> dispatch_row option"

record refund_record =
  reasonCode :: refund_reason_code
  record_amountUsd :: rat
  record_currency :: "string option"
  record_provider :: string
  providerTransactionId :: "string option"

text \<open>The columns a submission row is created with.\<close>

definition new_dispatch :: "refund_record \<Rightarrow> RefundDispatchState \<Rightarrow> string option \<Rightarrow> nat \<Rightarrow> dispatch_row" where
  "new_dispatch rec initialState reason now =
     \<lparr> provider = record_provider rec, state = REFUND_DISPATCH_STATES initialState, stateReason = reason,
       attempts = 0, amountUsd = record_amountUsd rec,
       currency = (case record_currency rec of Some c \<Rightarrow> c | None \<Rightarrow> ''USD''),
       providerOrderId = providerTransactionId rec, providerRefundId = None, providerReasonCode = None,
       resolvedBy = None, requestedAt = now, submittedAt = None, settledAt = None \<rparr>"

text \<open>An insert that violates the unique constraint reads the existing row instead.\<close>

definition recordRefundDispatch ::
    "string \<Rightarrow> refund_record \<Rightarrow> RefundDispatchState \<Rightarrow> string option \<Rightarrow> nat \<Rightarrow> dispatch_table
      \<Rightarrow> dispatch_row \<times> dispatch_table" where
  "recordRefundDispatch purchaseId rec initialState reason now db =
     (case db purchaseId of
        Some existing \<Rightarrow> (existing, db)
      | None \<Rightarrow> (let row = new_dispatch rec initialState reason now in (row, db(purchaseId \<mapsto> row))))"

record TransitionInput =
  in_from :: RefundDispatchState
  in_to :: RefundDispatchState
  in_reason :: "string option"
  in_now :: nat
  in_providerRefundId :: "string option"
  in_providerReasonCode :: "string option"
  in_resolvedBy :: "string option"
  in_countAttempt :: bool

definition transition_row :: "TransitionInput \<Rightarrow> dispatch_row \<Rightarrow> dispatch_row" where
  "transition_row i row =
     row\<lparr> state := REFUND_DISPATCH_STATES (in_to i), stateReason := in_reason i,
          attempts := attempts row + (if in_countAttempt i then 1 else 0),
          providerRefundId := (case in_providerRefundId i of None \<Rightarrow> providerRefundId row | Some v \<Rightarrow> Some v),
          providerReasonCode := (case in_providerReasonCode i of None \<Rightarrow> providerReasonCode row | Some v \<Rightarrow> Some v),
          resolvedBy := (case in_resolvedBy i of None \<Rightarrow> resolvedBy row | Some v \<Rightarrow> Some v),
          submittedAt := (if in_to i = Submitted then Some (in_now i) else submittedAt row),
          settledAt := (if in_to i = Settled then Some (in_now i) else settledAt row) \<rparr>"

datatype dispatch_error = MoveNotAllowed RefundDispatchState RefundDispatchState | JsError js_exception

text \<open>\<open>Inl\<close> is the thrown error of a move outside the table, \<open>Inr (moved, db)\<close> the result.\<close>

definition transitionDispatch ::
    "string \<Rightarrow> TransitionInput \<Rightarrow> dispatch_table \<Rightarrow> dispatch_error + bool \<times> dispatch_table" where
  "transitionDispatch purchaseId i db =
     (case canTransition_dispatch (REFUND_DISPATCH_STATES (in_from i)) (in_to i) of
        Inl e \<Rightarrow> Inl (JsError e)
      | Inr False \<Rightarrow> Inl (MoveNotAllowed (in_from i) (in_to i))
      | Inr True \<Rightarrow>
          (case db purchaseId of
             Some row \<Rightarrow>
               if state row = REFUND_DISPATCH_STATES (in_from i)
               then Inr (True, db(purchaseId \<mapsto> transition_row i row)) else Inr (False, db)
           | None \<Rightarrow> Inr (False, db)))"

definition plain_input :: "RefundDispatchState \<Rightarrow> RefundDispatchState \<Rightarrow> string \<Rightarrow> nat \<Rightarrow> TransitionInput" where
  "plain_input a b reason now =
     \<lparr> in_from = a, in_to = b, in_reason = Some reason, in_now = now, in_providerRefundId = None,
       in_providerReasonCode = None, in_resolvedBy = None, in_countAttempt = False \<rparr>"

definition claimDispatchForSubmission :: "string \<Rightarrow> nat \<Rightarrow> dispatch_table \<Rightarrow> dispatch_error + bool \<times> dispatch_table" where
  "claimDispatchForSubmission purchaseId now =
     transitionDispatch purchaseId ((plain_input Requested Submitting ''submission in flight'' now)\<lparr> in_countAttempt := True \<rparr>)"

lemma transitionDispatch_eq:
  "transitionDispatch p i db =
     (if \<not> allowed_move (in_from i) (in_to i) then Inl (MoveNotAllowed (in_from i) (in_to i))
      else case db p of
             Some row \<Rightarrow>
               if state row = REFUND_DISPATCH_STATES (in_from i)
               then Inr (True, db(p \<mapsto> transition_row i row)) else Inr (False, db)
           | None \<Rightarrow> Inr (False, db))"
  by (simp add: transitionDispatch_def allowed_move_def)

lemma plain_input_simps [simp]:
  "in_from (plain_input a b r t) = a" "in_to (plain_input a b r t) = b"
  by (simp_all add: plain_input_def)

section \<open>The provider reports the money\<close>

definition RECONCILE_ATTEMPTS :: nat where
  "RECONCILE_ATTEMPTS = 3"

datatype unresolved_reason = LostRace | TransitionRefused

datatype reconciliation =
    ROutSettled | RHandedToOperator | RAlreadySettled | RNoDispatch | RUnresolved string unresolved_reason

text \<open>
  The loop of \<open>reconcileDispatchFromProviderRefund\<close>; \<open>n\<close> attempts are left. \<open>others n\<close> is what other
  processes do between this attempt's read and its write.
\<close>

fun reconcile_loop ::
    "(nat \<Rightarrow> dispatch_table \<Rightarrow> dispatch_table) \<Rightarrow> string \<Rightarrow> string \<Rightarrow> string \<Rightarrow> nat \<Rightarrow> nat \<Rightarrow> string \<Rightarrow> dispatch_table
      \<Rightarrow> dispatch_error + reconciliation \<times> dispatch_table" where
  "reconcile_loop others p refundId reason now 0 observed db = Inr (RUnresolved observed LostRace, db)"
| "reconcile_loop others p refundId reason now (Suc n) observed db =
     (case db p of
        None \<Rightarrow> Inr (RNoDispatch, db)
      | Some row \<Rightarrow>
          if state row = ''settled'' then Inr (RAlreadySettled, db)
          else
            (case canTransition_dispatch (state row) Settled of
               Inl e \<Rightarrow> Inl (JsError e)
             | Inr False \<Rightarrow> Inr (RUnresolved (state row) TransitionRefused, db)
             | Inr True \<Rightarrow>
                 (case state_of (state row) of
                    None \<Rightarrow> Inr (RUnresolved (state row) TransitionRefused, db)
                  | Some st \<Rightarrow>
                      (case transitionDispatch p ((plain_input st Settled reason now)\<lparr> in_providerRefundId := Some refundId \<rparr>)
                              (others n db) of
                         Inl e \<Rightarrow> Inl e
                       | Inr (True, db') \<Rightarrow> Inr (ROutSettled, db')
                       | Inr (False, db') \<Rightarrow> reconcile_loop others p refundId reason now n (state row) db'))))"

definition reconcileDispatchFromProviderRefund ::
    "(nat \<Rightarrow> dispatch_table \<Rightarrow> dispatch_table) \<Rightarrow> string \<Rightarrow> string \<Rightarrow> string \<Rightarrow> nat \<Rightarrow> dispatch_table
      \<Rightarrow> dispatch_error + reconciliation \<times> dispatch_table" where
  "reconcileDispatchFromProviderRefund others p refundId reason now db =
     reconcile_loop others p refundId reason now RECONCILE_ATTEMPTS [] db"

text \<open>The loop of \<open>notePartialProviderRefund\<close>.\<close>

fun note_partial_loop ::
    "(nat \<Rightarrow> dispatch_table \<Rightarrow> dispatch_table) \<Rightarrow> string \<Rightarrow> string \<Rightarrow> nat \<Rightarrow> nat \<Rightarrow> string \<Rightarrow> dispatch_table
      \<Rightarrow> dispatch_error + reconciliation \<times> dispatch_table" where
  "note_partial_loop others p reason now 0 observed db = Inr (RUnresolved observed LostRace, db)"
| "note_partial_loop others p reason now (Suc n) observed db =
     (case db p of
        None \<Rightarrow> Inr (RNoDispatch, db)
      | Some row \<Rightarrow>
          if state row = ''settled'' then Inr (RAlreadySettled, db)
          else if state row = ''manual'' then
            (let db1 = others n db in
             case db1 p of
               Some row1 \<Rightarrow>
                 if state row1 = ''manual'' then Inr (RHandedToOperator, db1(p \<mapsto> row1\<lparr> stateReason := Some reason \<rparr>))
                 else note_partial_loop others p reason now n (state row) db1
             | None \<Rightarrow> note_partial_loop others p reason now n (state row) db1)
          else
            (case canTransition_dispatch (state row) Manual of
               Inl e \<Rightarrow> Inl (JsError e)
             | Inr False \<Rightarrow> Inr (RUnresolved (state row) TransitionRefused, db)
             | Inr True \<Rightarrow>
                 (case state_of (state row) of
                    None \<Rightarrow> Inr (RUnresolved (state row) TransitionRefused, db)
                  | Some st \<Rightarrow>
                      (case transitionDispatch p (plain_input st Manual reason now) (others n db) of
                         Inl e \<Rightarrow> Inl e
                       | Inr (True, db') \<Rightarrow> Inr (RHandedToOperator, db')
                       | Inr (False, db') \<Rightarrow> note_partial_loop others p reason now n (state row) db'))))"

definition notePartialProviderRefund ::
    "(nat \<Rightarrow> dispatch_table \<Rightarrow> dispatch_table) \<Rightarrow> string \<Rightarrow> string \<Rightarrow> nat \<Rightarrow> dispatch_table
      \<Rightarrow> dispatch_error + reconciliation \<times> dispatch_table" where
  "notePartialProviderRefund others p reason now db =
     note_partial_loop others p reason now RECONCILE_ATTEMPTS [] db"

datatype resolution = ResSettled | ResManual | ResRequested

fun resolution_state :: "resolution \<Rightarrow> RefundDispatchState" where
  "resolution_state ResSettled = Settled"
| "resolution_state ResManual = Manual"
| "resolution_state ResRequested = Requested"

definition resolveRefundDispatch ::
    "(dispatch_table \<Rightarrow> dispatch_table) \<Rightarrow> string \<Rightarrow> resolution \<Rightarrow> string \<Rightarrow> string \<Rightarrow> nat \<Rightarrow> dispatch_table
      \<Rightarrow> dispatch_error + bool \<times> dispatch_table" where
  "resolveRefundDispatch others p res by_whom note now db =
     (case db p of
        None \<Rightarrow> Inr (False, db)
      | Some row \<Rightarrow>
          if \<not> isRefundDispatchState (state row) then Inr (False, db)
          else (case state_of (state row) of
                  None \<Rightarrow> Inr (False, db)
                | Some st \<Rightarrow>
                    transitionDispatch p
                      ((plain_input st (resolution_state res)
                          (REFUND_DISPATCH_STATES (resolution_state res) @ '' by '' @ by_whom @ '': '' @ note) now)
                         \<lparr> in_resolvedBy := Some by_whom \<rparr>)
                      (others db)))"

section \<open>The deployment's switch\<close>

datatype dispatch_mode = ModeOff | ModeManual

datatype RefundDispatchConfig = Inactive dispatch_mode | Active string | InvalidConfig

definition trimmed :: "string option \<Rightarrow> string option" where
  "trimmed v = (let result = (case v of None \<Rightarrow> [] | Some s \<Rightarrow> js_trim s) in if result = [] then None else Some result)"

definition readRefundDispatchConfig :: "(string \<Rightarrow> string option) \<Rightarrow> RefundDispatchConfig" where
  "readRefundDispatchConfig env =
     (case trimmed (env ''FLUXRADAR_REFUND_DISPATCH'') of
        None \<Rightarrow> Inactive ModeManual
      | Some raw \<Rightarrow>
          if raw = ''off'' then Inactive ModeOff
          else if raw = ''manual'' then Inactive ModeManual
          else if raw = ''auto'' then
            (case trimmed (env ''FLUXRADAR_REFUND_DISPATCH_ACK'') of
               None \<Rightarrow> InvalidConfig
             | Some acknowledged \<Rightarrow> Active acknowledged)
          else InvalidConfig)"

definition submitsRefundsTo :: "string \<Rightarrow> (string \<Rightarrow> string option) \<Rightarrow> bool" where
  "submitsRefundsTo p env \<longleftrightarrow> readRefundDispatchConfig env = Active p"

section \<open>The sweep\<close>

definition MAX_DISPATCHES_PER_SWEEP :: nat where
  "MAX_DISPATCHES_PER_SWEEP = 5"

definition ORPHAN_SWEEP_LIMIT :: nat where
  "ORPHAN_SWEEP_LIMIT = 50"

datatype submission_outcome =
    SubmissionAccepted string "string option" string
  | SubmissionRefused string
  | SubmissionUncertain string

record purchase_facts =
  purchase_status :: string
  reported_count :: nat
  reported_usd :: rat

text \<open>
  What the sweep reads and asks besides the dispatch table: the purchases, the adapter's answer
  for each, the clock, \<open>usd_text\<close> (the printing of a number) and the other processes.
\<close>

record sweep_world =
  purchase_of :: "string \<Rightarrow> purchase_facts option"
  submit :: "string \<Rightarrow> submission_outcome"
  usd_text :: "rat \<Rightarrow> string"
  now_ms :: nat
  before_claim :: "string \<Rightarrow> dispatch_table \<Rightarrow> dispatch_table"
  before_answer :: "string \<Rightarrow> dispatch_table \<Rightarrow> dispatch_table"

definition operatorReason :: "sweep_world \<Rightarrow> string \<Rightarrow> dispatch_row \<Rightarrow> string option" where
  "operatorReason w p row =
     (if providerOrderId row = None \<or> providerOrderId row = Some [] then
        Some ''no provider order id was recorded for this purchase, so no return can be addressed''
      else case purchase_of w p of
        None \<Rightarrow> Some ''the purchase this refund belongs to is gone''
      | Some facts \<Rightarrow>
          if purchase_status facts = ''Disputed'' then
            Some ''the purchase is disputed; a chargeback is already reversing it''
          else if 0 < reported_count facts then
            Some (''the provider already reported '' @ nat_to_string (reported_count facts) @ '' return(s) totalling ''
              @ usd_text w (reported_usd facts) @ '' USD against this order; any remainder has to be issued by hand'')
          else if purchase_status facts = ''Refunded'' then
            Some ''the purchase is already marked refunded, with no provider return recorded to match''
          else None)"

datatype tally = TSubmitted | TRefused | TUncertain | THandedToOperator | TLost

text \<open>The move is attempted on whatever the row has become; its result is not looked at.\<close>

definition attempt_move :: "string \<Rightarrow> TransitionInput \<Rightarrow> dispatch_table \<Rightarrow> dispatch_error + dispatch_table" where
  "attempt_move p i db = res_bind (transitionDispatch p i db) (\<lambda>r. Inr (snd r))"

definition applyOutcome :: "sweep_world \<Rightarrow> string \<Rightarrow> dispatch_table \<Rightarrow> dispatch_error + tally \<times> dispatch_table" where
  "applyOutcome w p db =
     (let db1 = before_answer w p db in
      case submit w p of
        SubmissionAccepted refundId reference code \<Rightarrow>
          res_bind (attempt_move p
              ((plain_input Submitting Submitted
                  (case reference of None \<Rightarrow> ''provider accepted the return''
                   | Some r \<Rightarrow> ''provider accepted the return ('' @ r @ '')'') (now_ms w))
                \<lparr> in_providerRefundId := Some refundId, in_providerReasonCode := Some code \<rparr>) db1)
            (\<lambda>db2. Inr (TSubmitted, db2))
      | SubmissionRefused reason \<Rightarrow>
          res_bind (attempt_move p (plain_input Submitting Failed reason (now_ms w)) db1) (\<lambda>db2. Inr (TRefused, db2))
      | SubmissionUncertain reason \<Rightarrow>
          res_bind (attempt_move p (plain_input Submitting Uncertain reason (now_ms w)) db1) (\<lambda>db2. Inr (TUncertain, db2)))"

text \<open>One pending row, as it was read; the flag says whether the adapter was called.\<close>

definition sweep_item ::
    "sweep_world \<Rightarrow> string \<times> dispatch_row \<Rightarrow> dispatch_table \<Rightarrow> dispatch_error + tally \<times> bool \<times> dispatch_table" where
  "sweep_item w item db =
     (case item of (p, row) \<Rightarrow>
       (let db1 = before_claim w p db in
        case operatorReason w p row of
          Some reason \<Rightarrow>
            res_bind (attempt_move p (plain_input Requested Manual reason (now_ms w)) db1)
              (\<lambda>db2. Inr (THandedToOperator, False, db2))
        | None \<Rightarrow>
            res_bind (claimDispatchForSubmission p (now_ms w) db1)
              (\<lambda>(claimed, db2). if \<not> claimed then Inr (TLost, False, db2)
                 else res_bind (applyOutcome w p db2) (\<lambda>(t, db3). Inr (t, True, db3)))))"

fun sweep_items ::
    "sweep_world \<Rightarrow> (string \<times> dispatch_row) list \<Rightarrow> dispatch_table
      \<Rightarrow> dispatch_error + tally list \<times> string list \<times> dispatch_table" where
  "sweep_items w [] db = Inr ([], [], db)"
| "sweep_items w (item # items) db =
     res_bind (sweep_item w item db) (\<lambda>(t, sent, db1).
       res_bind (sweep_items w items db1) (\<lambda>(ts, ps, db2).
         Inr (t # ts, (if sent then fst item # ps else ps), db2)))"

text \<open>
  The stored decisions are listed newest first; a decision without a row is adopted as a person's
  job, at most \<open>limit\<close> of them.
\<close>

definition adoptOrphanedRefund :: "string \<Rightarrow> refund_record \<Rightarrow> nat \<Rightarrow> dispatch_table \<Rightarrow> dispatch_table" where
  "adoptOrphanedRefund p rec now db =
     snd (recordRefundDispatch p rec Manual
       (Some (''recovered: this refund decision had no submission row. Check the provider console for a ''
          @ ''return against this order before queueing it'')) now db)"

definition adoptOrphanedRefunds ::
    "nat \<Rightarrow> (string \<times> refund_record) list \<Rightarrow> nat \<Rightarrow> dispatch_table \<Rightarrow> nat \<times> dispatch_table" where
  "adoptOrphanedRefunds limit decisions now db =
     (let orphans = take limit (filter (\<lambda>(p, rec). db p = None) decisions)
      in (length orphans, fold (\<lambda>(p, rec) db. adoptOrphanedRefund p rec now db) orphans db))"

definition refundDispatchQueue :: "(string \<times> refund_record) list \<Rightarrow> dispatch_table \<Rightarrow> (string \<times> nat) list" where
  "refundDispatchQueue decisions db =
     map (\<lambda>(st, ps). (st, length ps))
       (group_by (\<lambda>p. case db p of Some row \<Rightarrow> state row | None \<Rightarrow> [])
         (filter (\<lambda>p. db p \<noteq> None) (map fst decisions)))"

definition pending_dispatches ::
    "string \<Rightarrow> nat \<Rightarrow> (string \<times> refund_record) list \<Rightarrow> dispatch_table \<Rightarrow> (string \<times> dispatch_row) list" where
  "pending_dispatches adapter limit decisions db =
     take limit (sort_key (\<lambda>(p, row). requestedAt row)
       (List.map_filter (\<lambda>(p, rec). case db p of
            Some row \<Rightarrow> if state row = ''requested'' \<and> provider row = adapter then Some (p, row) else None
          | None \<Rightarrow> None) decisions))"

text \<open>The counters of the summary are the numbers of each outcome in \<open>sweep_tally\<close>.\<close>

record sweep_summary =
  sweep_mode :: RefundDispatchConfig
  sweep_queue :: "(string \<times> nat) list"
  sweep_adopted :: nat
  sweep_tally :: "tally list"
  sweep_sent :: "string list"

definition dispatchPendingRefunds ::
    "RefundDispatchConfig \<Rightarrow> string list \<Rightarrow> nat option \<Rightarrow> sweep_world \<Rightarrow> (string \<times> refund_record) list \<Rightarrow> dispatch_table
      \<Rightarrow> dispatch_error + sweep_summary \<times> dispatch_table" where
  "dispatchPendingRefunds config adapters maxPerSweep w decisions db =
     (case adoptOrphanedRefunds ORPHAN_SWEEP_LIMIT decisions (now_ms w) db of
        (adopted, db1) \<Rightarrow>
          (let idle = Inr (\<lparr> sweep_mode = config, sweep_queue = refundDispatchQueue decisions db1, sweep_adopted = adopted, sweep_tally = [], sweep_sent = [] \<rparr>, db1) in
           case config of
             Active p \<Rightarrow>
               if p \<notin> set adapters then idle
               else
                 let limit = (case maxPerSweep of Some m \<Rightarrow> m | None \<Rightarrow> MAX_DISPATCHES_PER_SWEEP) in
                 res_bind (sweep_items w (pending_dispatches p limit decisions db1) db1)
                   (\<lambda>(ts, ps, db2). Inr (\<lparr> sweep_mode = config, sweep_queue = refundDispatchQueue decisions db1, sweep_adopted = adopted, sweep_tally = ts, sweep_sent = ps \<rparr>, db2))
           | _ \<Rightarrow> idle))"

section \<open>The protocol as a step relation\<close>

text \<open>
  What may happen to the table, one statement at a time, by whatever process. \<open>Claim\<close> is the only
  step after which a submission is sent; \<open>Requeue\<close> is an operator's decision.
\<close>

datatype label = Create string | Claim string | Move string | Note string | Requeue string

inductive dstep :: "dispatch_table \<Rightarrow> label \<Rightarrow> dispatch_table \<Rightarrow> bool" where
  create: "db p = None \<Longrightarrow> st = Requested \<or> st = Manual \<Longrightarrow>
    dstep db (Create p) (db(p \<mapsto> new_dispatch rec st reason now))"
| claim: "claimDispatchForSubmission p now db = Inr (True, db') \<Longrightarrow> dstep db (Claim p) db'"
| move: "transitionDispatch p i db = Inr (True, db') \<Longrightarrow> in_to i \<noteq> Requested \<Longrightarrow> in_to i \<noteq> Submitting \<Longrightarrow>
    \<not> in_countAttempt i \<Longrightarrow> dstep db (Move p) db'"
| note_reason: "db p = Some row \<Longrightarrow> dstep db (Note p) (db(p \<mapsto> row\<lparr> stateReason := reason \<rparr>))"
| requeue: "transitionDispatch p i db = Inr (True, db') \<Longrightarrow> in_to i = Requested \<Longrightarrow>
    \<not> in_countAttempt i \<Longrightarrow> dstep db (Requeue p) db'"

inductive_cases dstep_CreateE: "dstep db (Create p) db'"
inductive_cases dstep_ClaimE: "dstep db (Claim p) db'"
inductive_cases dstep_MoveE: "dstep db (Move p) db'"
inductive_cases dstep_NoteE: "dstep db (Note p) db'"
inductive_cases dstep_RequeueE: "dstep db (Requeue p) db'"

lemmas dstep_elims = dstep_CreateE dstep_ClaimE dstep_MoveE dstep_NoteE dstep_RequeueE

inductive druns :: "dispatch_table \<Rightarrow> label list \<Rightarrow> dispatch_table \<Rightarrow> bool" where
  stay: "druns db [] db"
| snoc: "druns db ls db1 \<Longrightarrow> dstep db1 l db2 \<Longrightarrow> druns db (ls @ [l]) db2"

lemma druns_trans: "druns db1 ms db2 \<Longrightarrow> druns db ls db1 \<Longrightarrow> druns db (ls @ ms) db2"
proof (induction rule: druns.induct)
  case (snoc db1 ms db2 l db3)
  then show ?case using druns.snoc [of db "ls @ ms" db2 l db3] by simp
qed simp

lemma druns_one: "dstep db l db' \<Longrightarrow> druns db [l] db'"
  using druns.snoc [OF druns.stay] by fastforce

definition claims_of :: "string \<Rightarrow> label list \<Rightarrow> nat" where
  "claims_of p ls = length (filter (\<lambda>l. l = Claim p) ls)"

definition requeues_of :: "string \<Rightarrow> label list \<Rightarrow> nat" where
  "requeues_of p ls = length (filter (\<lambda>l. l = Requeue p) ls)"

lemma claims_simps [simp]:
  "claims_of p [] = 0" "claims_of p (ls @ ms) = claims_of p ls + claims_of p ms"
  "claims_of p (l # ls) = (if l = Claim p then 1 else 0) + claims_of p ls"
  "requeues_of p [] = 0" "requeues_of p (ls @ ms) = requeues_of p ls + requeues_of p ms"
  "requeues_of p (l # ls) = (if l = Requeue p then 1 else 0) + requeues_of p ls"
  by (simp_all add: claims_of_def requeues_of_def)

definition dispatch_inv :: "string \<Rightarrow> label list \<Rightarrow> dispatch_table \<Rightarrow> bool" where
  "dispatch_inv p ls db \<longleftrightarrow>
     (case db p of
        None \<Rightarrow> claims_of p ls = 0 \<and> requeues_of p ls = 0
      | Some row \<Rightarrow>
          attempts row = claims_of p ls
          \<and> isRefundDispatchState (state row)
          \<and> claims_of p ls + (if state row = ''requested'' then 1 else 0) \<le> 1 + requeues_of p ls
          \<and> (settledAt row \<noteq> None \<longrightarrow> state row = ''settled''))"

lemma transition_moved:
  "transitionDispatch p i db = Inr (True, db') \<longleftrightarrow>
     allowed_move (in_from i) (in_to i) \<and>
     (\<exists>row. db p = Some row \<and> state row = REFUND_DISPATCH_STATES (in_from i) \<and> db' = db(p \<mapsto> transition_row i row))"
  by (auto simp: transitionDispatch_eq split: option.splits if_splits)

lemma known_state [simp]: "isRefundDispatchState (REFUND_DISPATCH_STATES st)"
  by (simp add: isRefundDispatchState_def)

lemmas known_strings [simp] = known_state [of Submitting, simplified] known_state [of Requested, simplified]

lemma requested_string [simp]: "REFUND_DISPATCH_STATES st = ''requested'' \<longleftrightarrow> st = Requested"
  and settled_string [simp]: "REFUND_DISPATCH_STATES st = ''settled'' \<longleftrightarrow> st = Settled"
  by (cases st; simp)+

lemma inv_other:
  assumes "db' p = db p" "l \<noteq> Claim p" "l \<noteq> Requeue p"
  shows "dispatch_inv p (ls @ [l]) db' = dispatch_inv p ls db"
proof -
  have "claims_of p (ls @ [l]) = claims_of p ls" "requeues_of p (ls @ [l]) = requeues_of p ls"
    using assms(2,3) by simp_all
  then show ?thesis by (simp only: dispatch_inv_def assms(1))
qed

lemma dstep_inv: "dstep db l db' \<Longrightarrow> dispatch_inv p ls db \<Longrightarrow> dispatch_inv p (ls @ [l]) db'"
proof (induction rule: dstep.induct)
  case (create db q st rec reason now)
  then show ?case by (auto simp: dispatch_inv_def new_dispatch_def split: option.splits)
next
  case (claim q now db db')
  then show ?case
    by (auto simp: dispatch_inv_def claimDispatchForSubmission_def transition_moved transition_row_def plain_input_def
        split: option.splits if_splits)
next
  case (move q i db db')
  then obtain row where row: "db q = Some row" "state row = REFUND_DISPATCH_STATES (in_from i)"
    "db' = db(q \<mapsto> transition_row i row)" and al: "allowed_move (in_from i) (in_to i)"
    by (auto simp: transition_moved)
  have "in_from i \<noteq> Settled" using al by (auto simp: allowed_move_def)
  show ?case
  proof (cases "p = q")
    case True
    with move row \<open>in_from i \<noteq> Settled\<close> show ?thesis by (auto simp: dispatch_inv_def transition_row_def)
  next
    case False
    with move row show ?thesis by (simp add: inv_other)
  qed
next
  case (note_reason db q row reason)
  then show ?case by (auto simp: dispatch_inv_def split: option.splits if_splits)
next
  case (requeue q i db db')
  then obtain row where row: "db q = Some row" "state row = REFUND_DISPATCH_STATES (in_from i)"
    "db' = db(q \<mapsto> transition_row i row)" and al: "allowed_move (in_from i) (in_to i)"
    by (auto simp: transition_moved)
  have "in_from i \<noteq> Settled" using al by (auto simp: allowed_move_def)
  show ?case
  proof (cases "p = q")
    case True
    with requeue row \<open>in_from i \<noteq> Settled\<close> show ?thesis by (auto simp: dispatch_inv_def transition_row_def)
  next
    case False
    with requeue row show ?thesis by (simp add: inv_other)
  qed
qed

lemma druns_inv: "druns db ls db' \<Longrightarrow> dispatch_inv p [] db \<Longrightarrow> dispatch_inv p ls db'"
  by (induction rule: druns.induct) (auto intro: dstep_inv)

section \<open>The functions refine the protocol\<close>

text \<open>Other processes behave when everything they do is a run of the protocol.\<close>

definition behaves :: "(dispatch_table \<Rightarrow> dispatch_table) \<Rightarrow> bool" where
  "behaves f \<longleftrightarrow> (\<forall>db. \<exists>ls. druns db ls (f db))"

text \<open>Runs of labels in \<open>A\<close> only, and other processes that keep to them.\<close>

definition runs_in :: "label set \<Rightarrow> dispatch_table \<Rightarrow> dispatch_table \<Rightarrow> bool" where
  "runs_in A db db' \<longleftrightarrow> (\<exists>ls. druns db ls db' \<and> set ls \<subseteq> A)"

definition behaves_in :: "label set \<Rightarrow> (dispatch_table \<Rightarrow> dispatch_table) \<Rightarrow> bool" where
  "behaves_in A f \<longleftrightarrow> (\<forall>db. runs_in A db (f db))"

text \<open>What anyone may do to a row without creating it or putting it back into the queue.\<close>

definition work_labels :: "label set" where
  "work_labels = range Claim \<union> range Move \<union> range Note"

lemma work_labels_simps [simp]:
  "Claim p \<in> work_labels" "Move p \<in> work_labels" "Note p \<in> work_labels"
  "Create p \<notin> work_labels" "Requeue p \<notin> work_labels"
  by (auto simp: work_labels_def)

lemma behaves_UNIV: "behaves f = behaves_in UNIV f"
  by (simp add: behaves_def behaves_in_def runs_in_def)

lemma behaves_id [simp]: "behaves_in A (\<lambda>db. db)"
  by (auto simp: behaves_in_def runs_in_def intro: exI [of _ "[]"] druns.stay)

lemma runs_inI: "druns db ls db' \<Longrightarrow> set ls \<subseteq> A \<Longrightarrow> runs_in A db db'"
  by (auto simp: runs_in_def)

lemma runs_in_refl [simp]: "runs_in A db db"
  by (rule runs_inI [OF druns.stay]) simp

lemma runs_in_join: "runs_in A db db1 \<Longrightarrow> runs_in A db1 db2 \<Longrightarrow> runs_in A db db2"
  unfolding runs_in_def using druns_trans by (metis Un_subset_iff set_append)

lemma druns_join: "druns db ls db1 \<Longrightarrow> druns db1 ms db2 \<Longrightarrow> druns db (ls @ ms) db2"
  by (rule druns_trans)

lemma behaves_run: "behaves_in A f \<Longrightarrow> \<exists>ls. druns db ls (f db) \<and> set ls \<subseteq> A"
  by (simp add: behaves_in_def runs_in_def)

lemma record_runs: "init = Requested \<or> init = Manual \<Longrightarrow>
    runs_in {Create p} db (snd (recordRefundDispatch p rec init reason now db))"
proof (cases "db p")
  case None
  assume "init = Requested \<or> init = Manual"
  then have "druns db [Create p] (db(p \<mapsto> new_dispatch rec init reason now))"
    using None by (intro druns_one dstep.create)
  then show ?thesis using None by (auto simp: recordRefundDispatch_def Let_def runs_in_def)
qed (simp add: recordRefundDispatch_def)

lemma transition_runs:
  assumes "transitionDispatch p i db = Inr (moved, db')" "in_to i \<noteq> Submitting" "\<not> in_countAttempt i"
  shows "\<exists>ls. druns db ls db' \<and> set ls \<subseteq> {if in_to i = Requested then Requeue p else Move p} \<and> length ls \<le> 1
    \<and> (\<not> moved \<longrightarrow> ls = [])"
proof (cases moved)
  case True
  then have t: "transitionDispatch p i db = Inr (True, db')" using assms(1) by simp
  show ?thesis
  proof (cases "in_to i = Requested")
    case True
    then have "dstep db (Requeue p) db'" using t assms(3) by (auto intro: dstep.requeue)
    then show ?thesis using True \<open>moved\<close> by (intro exI [of _ "[Requeue p]"]) (auto intro: druns_one)
  next
    case False
    then have "dstep db (Move p) db'" using t assms(2,3) by (auto intro: dstep.move)
    then show ?thesis using False \<open>moved\<close> by (intro exI [of _ "[Move p]"]) (auto intro: druns_one)
  qed
next
  case False
  then have "db' = db" using assms(1) by (auto simp: transitionDispatch_eq split: if_splits option.splits)
  then show ?thesis by (intro exI [of _ "[]"]) (auto intro: druns.stay)
qed

lemma claim_runs:
  assumes "claimDispatchForSubmission p now db = Inr (moved, db')"
  shows "druns db (if moved then [Claim p] else []) db'"
proof (cases moved)
  case True
  then show ?thesis using assms by (auto intro: druns_one dstep.claim)
next
  case False
  then have "db' = db" using assms
    by (auto simp: claimDispatchForSubmission_def transitionDispatch_eq split: if_splits option.splits)
  with False show ?thesis by (auto intro: druns.stay)
qed

lemma move_runs:
  assumes "transitionDispatch p i db = Inr (moved, db')" "in_to i \<notin> {Submitting, Requested}" "\<not> in_countAttempt i"
  shows "runs_in {Move p} db db'"
  using transition_runs [OF assms(1) _ assms(3)] assms(2) by (auto simp: runs_in_def)

lemma attempt_move_runs:
  assumes "attempt_move p i db = Inr db'" "in_to i \<notin> {Submitting, Requested}" "\<not> in_countAttempt i"
  shows "runs_in {Move p} db db'"
  using assms by (auto simp: attempt_move_def intro: move_runs)

lemma runs_in_mono: "runs_in A db db' \<Longrightarrow> A \<subseteq> B \<Longrightarrow> runs_in B db db'"
  by (auto simp: runs_in_def)

lemma adopt_runs: "runs_in (Create ` fst ` set decisions) db (snd (adoptOrphanedRefunds limit decisions now db))"
proof -
  have "runs_in (Create ` fst ` set orphans) db (fold (\<lambda>(p, rec) db. adoptOrphanedRefund p rec now db) orphans db)"
    for orphans db
  proof (induction orphans arbitrary: db)
    case (Cons o' orphans)
    obtain p rec where o': "o' = (p, rec)" by (cases o')
    have "runs_in {Create p} db (adoptOrphanedRefund p rec now db)"
      unfolding adoptOrphanedRefund_def by (rule record_runs) simp
    then have "runs_in (Create ` fst ` set (o' # orphans)) db (adoptOrphanedRefund p rec now db)"
      by (rule runs_in_mono) (simp add: o')
    moreover have "runs_in (Create ` fst ` set (o' # orphans)) (adoptOrphanedRefund p rec now db)
        (fold (\<lambda>(p, rec) db. adoptOrphanedRefund p rec now db) orphans (adoptOrphanedRefund p rec now db))"
      using Cons.IH by (rule runs_in_mono) auto
    ultimately show ?case using runs_in_join by (fastforce simp: o')
  qed simp
  then show ?thesis
    by (simp add: adoptOrphanedRefunds_def Let_def)
      (rule runs_in_mono, blast, force dest!: in_set_takeD)
qed

lemma applyOutcome_runs:
  assumes "applyOutcome w p db = Inr (t, db')" "behaves_in A (before_answer w p)" "work_labels \<subseteq> A"
  shows "runs_in A db db'"
proof -
  have "runs_in {Move p} (before_answer w p db) db'"
    using assms(1) attempt_move_runs [of p _ "before_answer w p db" db']
    by (auto simp: applyOutcome_def Let_def plain_input_def split: submission_outcome.splits)
  moreover have "{Move p} \<subseteq> A" using assms(3) by (auto simp: work_labels_def)
  ultimately have "runs_in A (before_answer w p db) db'" by (rule runs_in_mono)
  with assms(2) show ?thesis unfolding behaves_in_def by (blast intro: runs_in_join)
qed

lemma sweep_item_runs:
  assumes "sweep_item w (p, row) db = Inr (t, sent, db')" "behaves_in A (before_claim w p)"
    "behaves_in A (before_answer w p)" "work_labels \<subseteq> A"
  shows "\<exists>ls. druns db ls db' \<and> set ls \<subseteq> A \<and> (sent \<longrightarrow> Claim p \<in> set ls)"
proof -
  let ?db1 = "before_claim w p db"
  have lab: "Claim p \<in> A" "{Move p} \<subseteq> A" using assms(4) by (auto simp: work_labels_def)
  obtain ls where ls: "druns db ls ?db1" "set ls \<subseteq> A" using assms(2) behaves_run by blast
  show ?thesis
  proof (cases "operatorReason w p row")
    case (Some reason)
    then have m: "attempt_move p (plain_input Requested Manual reason (now_ms w)) ?db1 = Inr db'" "\<not> sent"
      using assms(1) by (auto simp: sweep_item_def Let_def)
    have "runs_in A ?db1 db'"
      using attempt_move_runs [OF m(1)] runs_in_mono [OF _ lab(2)] by (simp add: plain_input_def)
    then have "runs_in A db db'" using ls by (blast intro: runs_in_join runs_inI)
    with m(2) show ?thesis by (auto simp: runs_in_def)
  next
    case None
    then obtain claimed db2 where c: "claimDispatchForSubmission p (now_ms w) ?db1 = Inr (claimed, db2)"
      and rest: "(if \<not> claimed then Inr (TLost, False, db2)
          else res_bind (applyOutcome w p db2) (\<lambda>(t, db3). Inr (t, True, db3))) = Inr (t, sent, db')"
      using assms(1) by (auto simp: sweep_item_def Let_def)
    note cr = druns_join [OF ls(1) claim_runs [OF c]]
    show ?thesis
    proof (cases claimed)
      case False
      then show ?thesis using rest cr ls(2) by auto
    next
      case True
      then obtain t' where "applyOutcome w p db2 = Inr (t', db')" using rest by auto
      from applyOutcome_runs [OF this assms(3,4)] obtain ms where "druns db2 ms db'" "set ms \<subseteq> A"
        by (auto simp: runs_in_def)
      with druns_join [OF cr this(1)] True ls(2) lab(1) show ?thesis
        by (intro exI [of _ "(ls @ [Claim p]) @ ms"]) simp
    qed
  qed
qed

lemma sweep_items_runs:
  assumes "sweep_items w items db = Inr (ts, ps, db')"
    "\<And>p. behaves_in A (before_claim w p)" "\<And>p. behaves_in A (before_answer w p)" "work_labels \<subseteq> A"
  shows "\<exists>ls. druns db ls db' \<and> set ls \<subseteq> A \<and> (\<forall>p. count_list ps p \<le> claims_of p ls) \<and> length ps \<le> length items"
  using assms(1)
proof (induction items arbitrary: db ts ps)
  case Nil
  then show ?case by (auto intro: exI [of _ "[]"] druns.stay)
next
  case (Cons item items)
  obtain p row where item: "item = (p, row)" by (cases item)
  obtain t sent db1 ts' ps' where s: "sweep_item w (p, row) db = Inr (t, sent, db1)"
    "sweep_items w items db1 = Inr (ts', ps', db')" "ps = (if sent then p # ps' else ps')"
    using Cons.prems item by auto
  obtain ls where ls: "druns db ls db1" "set ls \<subseteq> A" "sent \<longrightarrow> Claim p \<in> set ls"
    using sweep_item_runs [OF s(1) assms(2-4)] by blast
  obtain ms where ms: "druns db1 ms db'" "set ms \<subseteq> A" "\<forall>p. count_list ps' p \<le> claims_of p ms" "length ps' \<le> length items"
    using Cons.IH [OF s(2)] by blast
  have "1 \<le> claims_of p ls" if sent
    using ls(3) that by (auto simp: claims_of_def Suc_le_eq filter_empty_conv)
  then have "count_list ps q \<le> claims_of q (ls @ ms)" for q
    using ms(3) [rule_format, of q] s(3) by (cases sent; cases "p = q") auto
  then have "\<forall>q. count_list ps q \<le> claims_of q (ls @ ms)" by blast
  moreover have "druns db (ls @ ms) db'" by (rule druns_join [OF ls(1) ms(1)])
  moreover have "length ps \<le> length (item # items)" using ms(4) s(3) by simp
  moreover have "set (ls @ ms) \<subseteq> A" using ls(2) ms(2) by simp
  ultimately show ?case by blast
qed

text \<open>A whole sweep: creations only for the decisions it was given, and what \<open>A\<close> allows.\<close>

lemma sweep_runs:
  assumes "dispatchPendingRefunds config adapters maxPerSweep w decisions db = Inr (s, db')"
    "\<And>p. behaves_in A (before_claim w p)" "\<And>p. behaves_in A (before_answer w p)" "work_labels \<subseteq> A"
  shows "\<exists>ls. druns db ls db' \<and> set ls \<subseteq> A \<union> Create ` fst ` set decisions
    \<and> (\<forall>p. count_list (sweep_sent s) p \<le> claims_of p ls)
    \<and> length (sweep_sent s) \<le> (case maxPerSweep of Some n \<Rightarrow> n | None \<Rightarrow> 5)
    \<and> (sweep_sent s \<noteq> [] \<longrightarrow> (\<exists>p \<in> set adapters. config = Active p))"
proof -
  define db1 where "db1 = snd (adoptOrphanedRefunds ORPHAN_SWEEP_LIMIT decisions (now_ms w) db)"
  obtain ls where ls: "druns db ls db1" "set ls \<subseteq> Create ` fst ` set decisions"
    using adopt_runs unfolding db1_def runs_in_def by blast
  show ?thesis
  proof (cases "\<exists>p \<in> set adapters. config = Active p")
    case False
    then have "db' = db1" "sweep_sent s = []"
      using assms(1) by (auto simp: dispatchPendingRefunds_def db1_def Let_def split: RefundDispatchConfig.splits prod.splits if_splits)
    with ls show ?thesis by auto
  next
    case True
    then obtain p where p: "p \<in> set adapters" "config = Active p" by blast
    define items where "items = pending_dispatches p (case maxPerSweep of Some m \<Rightarrow> m | None \<Rightarrow> MAX_DISPATCHES_PER_SWEEP) decisions db1"
    have len: "length items \<le> (case maxPerSweep of Some n \<Rightarrow> n | None \<Rightarrow> 5)"
      by (simp add: items_def pending_dispatches_def MAX_DISPATCHES_PER_SWEEP_def split: option.split)
    obtain ts where "sweep_items w items db1 = Inr (ts, sweep_sent s, db')"
      using assms(1) p by (auto simp: dispatchPendingRefunds_def db1_def items_def Let_def split: prod.splits)
    from sweep_items_runs [OF this assms(2-4)] obtain ms where
      ms: "druns db1 ms db'" "set ms \<subseteq> A" "\<forall>p. count_list (sweep_sent s) p \<le> claims_of p ms" "length (sweep_sent s) \<le> length items"
      by blast
    have "druns db (ls @ ms) db'" by (rule druns_join [OF ls(1) ms(1)])
    moreover have "\<forall>p. count_list (sweep_sent s) p \<le> claims_of p (ls @ ms)" using ms(3) by (auto intro: trans_le_add2)
    moreover have "set (ls @ ms) \<subseteq> A \<union> Create ` fst ` set decisions" using ls(2) ms(2) by auto
    ultimately show ?thesis using ms(4) len True by (metis order_trans)
  qed
qed

text \<open>The provider's report, whole or partial, only moves or annotates the row.\<close>

lemma settle_allowed: "Settled \<in> set (ALLOWED_TRANSITIONS st) \<longleftrightarrow> st \<noteq> Settled"
  by (cases st) simp_all

lemma transition_total:
  "allowed_move (in_from i) (in_to i) \<Longrightarrow> \<exists>moved db'. transitionDispatch p i db = Inr (moved, db')"
  by (cases "db p") (auto simp: transitionDispatch_eq)

lemma transition_settled: "transitionDispatch p i db = Inr (True, db') \<Longrightarrow> \<exists>row. db' p = Some row \<and> state row = REFUND_DISPATCH_STATES (in_to i)"
  by (auto simp: transition_moved transition_row_def)

lemma disturbed_move:
  assumes "transitionDispatch p i (others db) = Inr (moved, db')" "in_to i \<notin> {Submitting, Requested}" "\<not> in_countAttempt i"
    "behaves_in A others" "work_labels \<subseteq> A"
  shows "runs_in A db db'"
proof -
  have "runs_in A (others db) db'"
    using move_runs [OF assms(1-3)] by (rule runs_in_mono) (use assms(5) in \<open>auto simp: work_labels_def\<close>)
  then show ?thesis using assms(4) unfolding behaves_in_def by (blast intro: runs_in_join)
qed

lemma reconcile_loop_facts:
  assumes "\<And>n. behaves_in A (others n)" "work_labels \<subseteq> A" "reconcile_loop others p r why now n obs db = Inr (out, db')"
  shows "runs_in A db db' \<and>
    (out = ROutSettled \<or> out = RAlreadySettled \<longrightarrow> (\<exists>row. db' p = Some row \<and> state row = ''settled''))"
  using assms(3)
proof (induction n arbitrary: obs db)
  case (Suc n)
  show ?case
  proof (cases "db p")
    case None
    with Suc.prems show ?thesis by auto
  next
    case (Some row)
    show ?thesis
    proof (cases "state_of (state row)")
      case None
      with Suc.prems Some show ?thesis by (auto simp: canTransition_unknown split: if_splits)
    next
      case (Some st)
      then have st: "state row = REFUND_DISPATCH_STATES st" by (simp add: state_of_Some)
      show ?thesis
      proof (cases "st = Settled")
        case True
        with Suc.prems st \<open>db p = Some row\<close> show ?thesis by auto
      next
        case False
        let ?i = "(plain_input st Settled why now)\<lparr> in_providerRefundId := Some r \<rparr>"
        obtain moved db2 where t: "transitionDispatch p ?i (others n db) = Inr (moved, db2)"
          using False transition_total [of ?i p "others n db"] by (auto simp: plain_input_def allowed_move_def settle_allowed)
        have run2: "runs_in A db db2"
          using disturbed_move [OF t _ _ assms(1,2)] by (simp add: plain_input_def)
        show ?thesis
        proof (cases moved)
          case True
          then have t': "transitionDispatch p ?i (others n db) = Inr (True, db2)" using t by simp
          with Suc.prems st \<open>db p = Some row\<close> False have "out = ROutSettled" "db' = db2"
            by (simp_all add: settle_allowed)
          with run2 transition_settled [OF t'] show ?thesis by (auto simp: plain_input_def)
        next
          case False
          then have "reconcile_loop others p r why now n (state row) db2 = Inr (out, db')"
            using Suc.prems st \<open>db p = Some row\<close> \<open>st \<noteq> Settled\<close> t by (simp add: settle_allowed)
          from Suc.IH [OF this] run2 show ?thesis by (blast intro: runs_in_join)
        qed
      qed
    qed
  qed
qed auto

lemma note_runs: "db p = Some row \<Longrightarrow> runs_in {Note p} db (db(p \<mapsto> row\<lparr> stateReason := reason \<rparr>))"
  by (rule runs_inI [OF druns_one [OF dstep.note_reason]]) auto

lemma note_partial_loop_runs:
  assumes "\<And>n. behaves_in A (others n)" "work_labels \<subseteq> A" "note_partial_loop others p why now n obs db = Inr (out, db')"
  shows "runs_in A db db'"
  using assms(3)
proof (induction n arbitrary: obs db)
  case (Suc n)
  have others: "runs_in A db (others n db)" using assms(1) by (simp add: behaves_in_def)
  show ?case
  proof (cases "db p")
    case None
    with Suc.prems show ?thesis by simp
  next
    case (Some row)
    consider "state row = ''settled''" | "state row = ''manual''" | "state row \<noteq> ''settled''" "state row \<noteq> ''manual''" by blast
    then show ?thesis
    proof cases
      case 1
      with Suc.prems Some show ?thesis by simp
    next
      case 2
      show ?thesis
      proof (cases "\<exists>row1. others n db p = Some row1 \<and> state row1 = ''manual''")
        case True
        then obtain row1 where row1: "others n db p = Some row1" "state row1 = ''manual''" by blast
        then have "db' = (others n db)(p \<mapsto> row1\<lparr> stateReason := Some why \<rparr>)"
          using Suc.prems Some 2 by simp
        moreover have "{Note p} \<subseteq> A" using assms(2) by (auto simp: work_labels_def)
        ultimately show ?thesis
          using runs_in_join [OF others] runs_in_mono [OF note_runs [where db = "others n db" and p = p, OF row1(1)]]
          by presburger
      next
        case False
        then have "note_partial_loop others p why now n (state row) (others n db) = Inr (out, db')"
          using Suc.prems Some 2 by (auto simp: Let_def split: option.splits)
        from Suc.IH [OF this] others show ?thesis by (rule runs_in_join [rotated])
      qed
    next
      case 3
      show ?thesis
      proof (cases "canTransition_dispatch (state row) Manual = Inr True")
        case False
        then show ?thesis using Suc.prems Some 3 by (auto split: sum.splits bool.splits)
      next
        case True
        show ?thesis
        proof (cases "state_of (state row)")
          case None
          with True Suc.prems Some 3 show ?thesis by simp
        next
          case st: (Some st)
          obtain moved db2 where t: "transitionDispatch p (plain_input st Manual why now) (others n db) = Inr (moved, db2)"
            using True st transition_total [of "plain_input st Manual why now" p "others n db"]
            by (auto simp: state_of_Some plain_input_def allowed_move_def)
          have run2: "runs_in A db db2"
            using disturbed_move [OF t _ _ assms(1,2)] by (simp add: plain_input_def)
          show ?thesis
          proof (cases moved)
            case True
            then have "db' = db2" using Suc.prems Some 3 \<open>canTransition_dispatch (state row) Manual = Inr True\<close> st t by simp
            with run2 show ?thesis by simp
          next
            case False
            then have "note_partial_loop others p why now n (state row) db2 = Inr (out, db')"
              using Suc.prems Some 3 \<open>canTransition_dispatch (state row) Manual = Inr True\<close> st t by simp
            from Suc.IH [OF this] run2 show ?thesis by (blast intro: runs_in_join)
          qed
        qed
      qed
    qed
  qed
qed auto

lemma resolve_runs:
  assumes "resolveRefundDispatch others p res by_whom note now db = Inr (moved, db')" "others = (\<lambda>db. db)"
  shows "\<exists>ls. druns db ls db' \<and> set ls \<subseteq> {Move p, Requeue p} \<and> requeues_of p ls \<le> (if res = ResRequested \<and> moved then 1 else 0)"
proof (cases "\<exists>row st. db p = Some row \<and> state_of (state row) = Some st")
  case False
  then have "db' = db" using assms by (auto simp: resolveRefundDispatch_def isRefundDispatchState_def split: option.splits if_splits)
  then show ?thesis by (auto intro!: exI [of _ "[]"] druns.stay)
next
  case True
  then obtain i where t: "transitionDispatch p i db = Inr (moved, db')" "in_to i = resolution_state res" "\<not> in_countAttempt i"
    using assms by (auto simp: resolveRefundDispatch_def isRefundDispatchState_def plain_input_def split: if_splits)
  have "in_to i \<noteq> Submitting" "in_to i = Requested \<longleftrightarrow> res = ResRequested" by (cases res; simp add: t(2))+
  with transition_runs [OF t(1) _ t(3)] obtain ls where
    ls: "druns db ls db'" "set ls \<subseteq> {if res = ResRequested then Requeue p else Move p}" "length ls \<le> 1" "\<not> moved \<longrightarrow> ls = []"
    by auto
  then show ?thesis by (cases ls) (auto intro!: exI [of _ ls])
qed

section \<open>Properties\<close>

lemma dispatch_inv_empty [simp]: "dispatch_inv p [] Map.empty"
  by (simp add: dispatch_inv_def)

text \<open>
  C2: One submission per purchase. In every run of the protocol from an empty table, whatever
  the interleaving, a purchase's row is claimed for submission at most once more often than an
  operator put it back into the queue; the row's \<open>attempts\<close> counts the claims, its state is always
  one the release knows, and a settlement date is only ever on a settled row.
\<close>

theorem refund_claimed_once:
  assumes "druns Map.empty ls db"
  shows "claims_of p ls \<le> 1 + requeues_of p ls \<and>
    (case db p of
       None \<Rightarrow> claims_of p ls = 0
     | Some row \<Rightarrow> attempts row = claims_of p ls \<and> isRefundDispatchState (state row)
         \<and> (settledAt row \<noteq> None \<longrightarrow> state row = ''settled''))"
  using druns_inv [OF assms dispatch_inv_empty, of p]
  by (auto simp: dispatch_inv_def split: option.splits if_splits)

definition sample_record :: refund_record where
  "sample_record = \<lparr> reasonCode = LEGAL_SUPPORT, record_amountUsd = 39, record_currency = None,
     record_provider = ''creem'', providerTransactionId = Some ''o1'' \<rparr>"

theorem refund_claimed_once_witness:
  "\<exists>db row. druns Map.empty [Create ''p'', Claim ''p''] db \<and> db ''p'' = Some row \<and> attempts row = 1
     \<and> state row = ''submitting''"
proof -
  define row where "row = new_dispatch sample_record Requested None 0"
  define db where "db = Map.empty(''p'' \<mapsto> row)"
  obtain db' where c: "claimDispatchForSubmission ''p'' 5 db = Inr (True, db')"
    by (simp add: db_def row_def claimDispatchForSubmission_def transitionDispatch_eq allowed_move_def new_dispatch_def plain_input_def)
  have "druns Map.empty [Create ''p''] db"
    unfolding db_def row_def by (intro druns_one dstep.create) auto
  from druns.snoc [OF this dstep.claim [OF c]] have r: "druns Map.empty [Create ''p'', Claim ''p''] db'" by simp
  obtain row' where row': "db' ''p'' = Some row'" "state row' = ''submitting''"
    using c by (auto simp: db_def claimDispatchForSubmission_def transition_moved transition_row_def)
  from refund_claimed_once [OF r, of "''p''"] row' have "attempts row' = 1" by simp
  with r row' show ?thesis by blast
qed

text \<open>
  C20: The sweep refines the protocol. Whatever other processes do meanwhile, as long as they
  follow it too: everything a sweep does is a run of the protocol in which each submission it sent is
  paid for by its own claim; it sends at most its limit, and nothing unless the deployment is
  active for a provider that has an adapter.
\<close>

theorem sweep_refines:
  assumes "dispatchPendingRefunds config adapters maxPerSweep w decisions db = Inr (s, db')"
    "\<And>p. behaves (before_claim w p)" "\<And>p. behaves (before_answer w p)"
  shows "(\<exists>ls. druns db ls db' \<and> (\<forall>p. count_list (sweep_sent s) p \<le> claims_of p ls))
    \<and> length (sweep_sent s) \<le> (case maxPerSweep of Some n \<Rightarrow> n | None \<Rightarrow> 5)
    \<and> (sweep_sent s \<noteq> [] \<longrightarrow> (\<exists>p \<in> set adapters. config = Active p))"
  using sweep_runs [where A = UNIV, OF assms(1)] assms(2,3) unfolding behaves_UNIV by blast

definition sample_sweep :: sweep_world where
  "sample_sweep = \<lparr> purchase_of = (\<lambda>_. Some \<lparr> purchase_status = ''paid'', reported_count = 0, reported_usd = 0 \<rparr>),
     submit = (\<lambda>_. SubmissionUncertain ''timeout''), usd_text = (\<lambda>_. []), now_ms = 7,
     before_claim = (\<lambda>_ db. db), before_answer = (\<lambda>_ db. db) \<rparr>"

lemma sample_sweep_behaves: "behaves (before_claim sample_sweep p)" "behaves (before_answer sample_sweep p)"
  by (auto simp: behaves_def sample_sweep_def intro: exI [of _ "[]"] druns.stay)

lemmas sweep_eval = dispatchPendingRefunds_def adoptOrphanedRefunds_def pending_dispatches_def
  List.map_filter_def sweep_item_def applyOutcome_def attempt_move_def claimDispatchForSubmission_def
  transitionDispatch_eq allowed_move_def transition_row_def plain_input_def operatorReason_def new_dispatch_def
  MAX_DISPATCHES_PER_SWEEP_def

theorem sweep_refines_witness:
  "\<exists>s db' ls. dispatchPendingRefunds (Active ''creem'') [''creem''] None sample_sweep [(''p'', sample_record)]
       (Map.empty(''p'' \<mapsto> new_dispatch sample_record Requested None 0)) = Inr (s, db')
     \<and> sweep_sent s = [''p''] \<and> druns (Map.empty(''p'' \<mapsto> new_dispatch sample_record Requested None 0)) ls db'
     \<and> 1 \<le> claims_of ''p'' ls"
proof -
  let ?db = "Map.empty(''p'' \<mapsto> new_dispatch sample_record Requested None 0)"
  have "\<exists>s db'. dispatchPendingRefunds (Active ''creem'') [''creem''] None sample_sweep [(''p'', sample_record)] ?db = Inr (s, db')
      \<and> sweep_sent s = [''p'']"
    by (simp add: sweep_eval sample_sweep_def sample_record_def)
  then obtain s db' where r: "dispatchPendingRefunds (Active ''creem'') [''creem''] None sample_sweep [(''p'', sample_record)] ?db = Inr (s, db')"
    "sweep_sent s = [''p'']" by blast
  from sweep_refines [OF r(1) sample_sweep_behaves] r(2) obtain ls where
    ls: "druns ?db ls db'" "\<forall>p. count_list [''p''] p \<le> claims_of p ls" by auto
  from ls(2) have "1 \<le> claims_of ''p'' ls" by (metis count_list.simps(2) add.commute le_add1 le_trans)
  with r ls(1) show ?thesis by blast
qed

text \<open>
  Settlement is neither invented nor lost: recording the provider's report only takes protocol
  steps, answers "settled" or "already settled" only when the row is settled, and always gets there
  when the row is in a known state and nobody disturbs the first attempt.
\<close>

theorem reconcile_settles:
  assumes "\<And>n. behaves (others n)" "reconcileDispatchFromProviderRefund others p r why now db = Inr (out, db')"
  shows "(\<exists>ls. druns db ls db') \<and>
    (out = ROutSettled \<or> out = RAlreadySettled \<longrightarrow> (\<exists>row. db' p = Some row \<and> state row = ''settled'')) \<and>
    (db p \<noteq> None \<and> isRefundDispatchState (state (the (db p))) \<and> others 2 db = db \<longrightarrow>
       out = ROutSettled \<or> out = RAlreadySettled)"
proof -
  have "out = ROutSettled \<or> out = RAlreadySettled"
    if "db p = Some row" "isRefundDispatchState (state row)" "others 2 db = db" for row
  proof -
    note given = that
    obtain st where "state row = REFUND_DISPATCH_STATES st"
      using given(2) by (auto simp: isRefundDispatchState_def state_of_Some)
    then show ?thesis using assms(2) given
      by (cases "st = Settled") (auto simp: reconcileDispatchFromProviderRefund_def RECONCILE_ATTEMPTS_def numeral_3_eq_3
          numeral_2_eq_2 settle_allowed transitionDispatch_eq allowed_move_def)
  qed
  then show ?thesis
    using reconcile_loop_facts [where A = UNIV, OF _ _ assms(2) [unfolded reconcileDispatchFromProviderRefund_def]] assms(1)
    unfolding behaves_UNIV runs_in_def by auto
qed

theorem reconcile_settles_witness:
  "\<exists>db' row. reconcileDispatchFromProviderRefund (\<lambda>_ db. db) ''p'' ''r1'' ''refunded'' 9
      (Map.empty(''p'' \<mapsto> (new_dispatch sample_record Requested None 0)\<lparr> state := ''uncertain'' \<rparr>)) = Inr (ROutSettled, db')
    \<and> db' ''p'' = Some row \<and> state row = ''settled''"
proof -
  let ?db = "Map.empty(''p'' \<mapsto> (new_dispatch sample_record Requested None 0)\<lparr> state := ''uncertain'' \<rparr>)"
  have b: "behaves ((\<lambda>_ db. db) n)" for n :: nat by (auto simp: behaves_def intro: exI [of _ "[]"] druns.stay)
  have "canTransition_dispatch ''uncertain'' s = Inr (s \<in> {Settled, Manual})" "state_of ''uncertain'' = Some Uncertain" for s
    using canTransition_known [of Uncertain s] state_of_string [of Uncertain] by simp_all
  then obtain db' where r: "reconcileDispatchFromProviderRefund (\<lambda>_ db. db) ''p'' ''r1'' ''refunded'' 9 ?db = Inr (ROutSettled, db')"
    by (simp add: reconcileDispatchFromProviderRefund_def RECONCILE_ATTEMPTS_def numeral_3_eq_3 transitionDispatch_eq allowed_move_def)
  from reconcile_settles [OF b r] r show ?thesis by blast
qed

text \<open>
  A stored state that is the name of an \<open>Object.prototype\<close> property makes recording the
  provider's report throw a \<open>TypeError\<close>, not refuse the move.
\<close>

theorem reconcile_inherited_name_throws:
  assumes "db p = Some row" "state row \<in> set object_prototype_names"
  shows "reconcileDispatchFromProviderRefund others p r why now db = Inl (JsError TypeError)"
proof -
  have "state_of (state row) = None" "state row \<noteq> ''settled''"
    using assms(2) by (auto simp: object_prototype_names_def state_of_def all_states_def)
  then show ?thesis using assms
    by (simp add: reconcileDispatchFromProviderRefund_def RECONCILE_ATTEMPTS_def numeral_3_eq_3 canTransition_unknown)
qed

theorem reconcile_inherited_name_throws_witness:
  "reconcileDispatchFromProviderRefund (\<lambda>_ db. db) ''p'' ''r1'' ''x'' 9
     (Map.empty(''p'' \<mapsto> (new_dispatch sample_record Requested None 0)\<lparr> state := ''constructor'' \<rparr>)) = Inl (JsError TypeError)"
  by (rule reconcile_inherited_name_throws [where row = "(new_dispatch sample_record Requested None 0)\<lparr> state := ''constructor'' \<rparr>"])
    (simp_all add: object_prototype_names_def)

text \<open>
  An operator's decision on a row: an unknown state is left alone, a known one moves exactly as
  the table allows and records who decided; putting a row back into the queue is refused with an error
  from every state but \<open>manual\<close> and \<open>failed\<close>.
\<close>

theorem resolve_dispatch_exact:
  "resolveRefundDispatch (\<lambda>db. db) p res by_whom note now db =
     (case db p of
        None \<Rightarrow> Inr (False, db)
      | Some row \<Rightarrow>
          (case state_of (state row) of
             None \<Rightarrow> Inr (False, db)
           | Some st \<Rightarrow>
               if (case res of ResSettled \<Rightarrow> st \<noteq> Settled
                     | ResManual \<Rightarrow> st \<in> {Requested, Submitting, Submitted, Uncertain, Failed}
                     | ResRequested \<Rightarrow> st \<in> {Manual, Failed})
               then Inr (True, db(p \<mapsto> row\<lparr> state := REFUND_DISPATCH_STATES (resolution_state res),
                      stateReason := Some (REFUND_DISPATCH_STATES (resolution_state res) @ '' by '' @ by_whom @ '': '' @ note),
                      resolvedBy := Some by_whom,
                      settledAt := (if res = ResSettled then Some now else settledAt row) \<rparr>))
               else Inl (MoveNotAllowed st (resolution_state res))))"
proof (cases "db p")
  case None
  then show ?thesis by (simp add: resolveRefundDispatch_def)
next
  case (Some row)
  show ?thesis
  proof (cases "state_of (state row)")
    case None
    then show ?thesis using Some by (simp add: resolveRefundDispatch_def isRefundDispatchState_def)
  next
    case st: (Some st)
    then have "state row = REFUND_DISPATCH_STATES st" by (simp add: state_of_Some)
    then show ?thesis using Some st
      by (cases res; cases st)
        (auto simp: resolveRefundDispatch_def isRefundDispatchState_def transitionDispatch_eq allowed_move_def
          transition_row_def plain_input_def)
  qed
qed

end
