(* ===== verification/Billing.thy ===== *)
theory Billing
  imports ScanState RefundDispatch
begin

text \<open>
  The billing decisions over the stored scan and the refund outbox: the refund decision
  (\<open>apps/api/src/billing/refund.ts\<close>), cancellation (\<open>cancel-scan.ts\<close>) and the outcome of a run
  (\<open>resolve-outcome.ts\<close>). The database is a record of its tables; \<open>others\<close> is what other
  processes do between the read and the transaction of \<open>requestRefund\<close>.
\<close>

section \<open>The tables\<close>

record purchase_row =
  purchase_amountUsd :: rat
  purchase_currency :: string
  purchase_provider :: string
  purchase_transaction :: "string option"
  purchase_scan :: "string option"

record billing_db =
  scans :: scan_table
  purchases :: "string \<Rightarrow> purchase_row option"
  refunds :: "string \<Rightarrow> refund_record option"
  dispatches :: dispatch_table

section \<open>Status reasons (constants.ts)\<close>

definition preQueueCancel :: string where "preQueueCancel = ''UserCancelledPreQueue''"
definition postQueueCancel :: string where "postQueueCancel = ''UserCancelledAfterQueue''"
definition midRunCancel :: string where "midRunCancel = ''UserCancelledAfterStart''"
definition noUsableOutput :: string where "noUsableOutput = ''NoUsableOutput''"
definition externalModuleFailure :: string where "externalModuleFailure = ''ExternalModuleFailure''"
definition incompleteChecks :: string where "incompleteChecks = ''IncompleteChecks''"

definition NO_USABLE_OUTPUT_STATUS_REASONS :: "string list" where
  "NO_USABLE_OUTPUT_STATUS_REASONS =
     noUsableOutput # filter (\<lambda>r. r \<noteq> [])
       (map SITE_REACH_STATUS_REASONS [Reachable, AccessDenied, BlockedByRobots, Unreachable, BadResponse])"

definition refundIdempotencyKey :: "string \<Rightarrow> string" where
  "refundIdempotencyKey purchaseId = ''refund:'' @ purchaseId"

section \<open>The refund decision\<close>

fun assertRefundAllowed :: "refund_reason_code \<Rightarrow> scan_row option \<Rightarrow> billing_error + unit" where
  "assertRefundAllowed PRE_QUEUE_CANCEL scan =
     (case scan of
        None \<Rightarrow> Inl RefundPolicy
      | Some s \<Rightarrow> if status s \<noteq> SCancelled \<or> statusReason s \<noteq> Some preQueueCancel then Inl RefundPolicy else Inr ())"
| "assertRefundAllowed PLATFORM_FAILURE_AFTER_RETRY scan =
     (case scan of
        None \<Rightarrow> Inl RefundPolicy
      | Some s \<Rightarrow> if status s \<noteq> SFailed \<or> platformRetryCount s < 1 then Inl RefundPolicy else Inr ())"
| "assertRefundAllowed EXTERNAL_NO_USABLE_OUTPUT scan =
     (case scan of
        None \<Rightarrow> Inl RefundPolicy
      | Some s \<Rightarrow>
          if status s \<noteq> SFailed then Inl RefundPolicy
          else (case statusReason s of
                  None \<Rightarrow> Inl RefundPolicy
                | Some r \<Rightarrow> if r \<notin> set NO_USABLE_OUTPUT_STATUS_REASONS then Inl RefundPolicy else Inr ()))"
| "assertRefundAllowed LEGAL_SUPPORT scan = Inr ()"

text \<open>Where the outbound half starts: \<open>requested\<close> only in a deployment that switched sending on.\<close>

definition recordOutboundRefund ::
    "RefundDispatchConfig \<Rightarrow> string \<Rightarrow> refund_record \<Rightarrow> nat \<Rightarrow> dispatch_table \<Rightarrow> dispatch_table" where
  "recordOutboundRefund config purchaseId rec now db =
     (case config of
        Active p \<Rightarrow> snd (recordRefundDispatch purchaseId rec Requested (Some ''waiting for the refund dispatcher'') now db)
      | _ \<Rightarrow> snd (recordRefundDispatch purchaseId rec Manual
          (Some ''outbound refunds are not switched on in this deployment; issue it in the provider console'') now db))"

definition refund_of_purchase :: "refund_reason_code \<Rightarrow> purchase_row \<Rightarrow> refund_record" where
  "refund_of_purchase code p =
     \<lparr> reasonCode = code, record_amountUsd = purchase_amountUsd p, record_currency = Some (purchase_currency p),
       record_provider = purchase_provider p, providerTransactionId = purchase_transaction p \<rparr>"

definition adopt_in :: "string \<Rightarrow> refund_record \<Rightarrow> nat \<Rightarrow> billing_db \<Rightarrow> billing_db" where
  "adopt_in purchaseId rec now db = db\<lparr> dispatches := adoptOrphanedRefund purchaseId rec now (dispatches db) \<rparr>"

text \<open>The result is the record and whether it was there before.\<close>

definition requestRefund ::
    "RefundDispatchConfig \<Rightarrow> (billing_db \<Rightarrow> billing_db) \<Rightarrow> string \<Rightarrow> refund_reason_code \<Rightarrow> nat \<Rightarrow> billing_db
      \<Rightarrow> billing_error + (refund_record \<times> bool) \<times> billing_db" where
  "requestRefund config others purchaseId code now db =
     (case purchases db purchaseId of
        None \<Rightarrow> Inl BillingNotFound
      | Some purchase \<Rightarrow>
          (case refunds db purchaseId of
             Some rec \<Rightarrow> Inr ((rec, True), adopt_in purchaseId rec now db)
           | None \<Rightarrow>
               res_bind (assertRefundAllowed code (case purchase_scan purchase of None \<Rightarrow> None | Some i \<Rightarrow> scans db i))
                 (\<lambda>_. let db1 = others db in
                    (case refunds db1 purchaseId of
                       Some rec \<Rightarrow> Inr ((rec, True), adopt_in purchaseId rec now db1)
                     | None \<Rightarrow>
                         (let rec = refund_of_purchase code purchase in
                          Inr ((rec, False),
                            db1\<lparr> refunds := (refunds db1)(purchaseId \<mapsto> rec),
                                 dispatches := recordOutboundRefund config purchaseId rec now (dispatches db1) \<rparr>))))))"

section \<open>Cancellation\<close>

datatype cancelled_from = FromPending | FromQueued | FromRunning

definition tryCancel :: "string \<Rightarrow> scan_runtime_status \<Rightarrow> string \<Rightarrow> nat \<Rightarrow> billing_db \<Rightarrow> bool \<times> billing_db" where
  "tryCancel scanId from_status reason now db =
     (case transitionScan scanId from_status SCancelled (Some (Some reason)) now (scans db) of
        Inl e \<Rightarrow> (False, db)
      | Inr t \<Rightarrow> (True, db\<lparr> scans := t \<rparr>))"

definition cancelScan ::
    "RefundDispatchConfig \<Rightarrow> string \<Rightarrow> nat \<Rightarrow> billing_db
      \<Rightarrow> billing_error + (cancelled_from \<times> refund_record option) \<times> billing_db" where
  "cancelScan config scanId now db =
     (case tryCancel scanId SPending preQueueCancel now db of
        (True, db1) \<Rightarrow>
          (case scans db1 scanId of
             None \<Rightarrow> Inl BillingNotFound
           | Some scan \<Rightarrow>
               (case scan_purchase scan of
                  None \<Rightarrow> Inr ((FromPending, None), db1)
                | Some pid \<Rightarrow>
                    res_bind (requestRefund config id pid PRE_QUEUE_CANCEL now db1)
                      (\<lambda>((rec, dedup), db2). Inr ((FromPending, Some rec), db2))))
      | (False, db1) \<Rightarrow>
          (case tryCancel scanId SQueued postQueueCancel now db1 of
             (True, db2) \<Rightarrow> Inr ((FromQueued, None), db2)
           | (False, db2) \<Rightarrow>
               (case tryCancel scanId SRunning midRunCancel now db2 of
                  (True, db3) \<Rightarrow> Inr ((FromRunning, None), db3)
                | (False, db3) \<Rightarrow> Inl InvalidTransition)))"

section \<open>The outcome of a run\<close>

record module_row =
  module_id :: audit_module
  runtimeStatus :: module_runtime_status
  usableOutput :: bool
  applicableChecks :: "nat option"
  completedApplicableChecks :: "nat option"

text \<open>The other columns of the scan that are read: plan, crawl summary (already parsed), modules.\<close>

record scan_report =
  report_plan :: string
  report_crawl :: "crawl_summary option"
  report_modules :: "module_row list"

datatype scan_outcome =
  OutCompleted | OutPartial string | ExternalRetryGranted | OutFailed string "refund_record option"

definition allApplicableChecksClosed :: "module_row \<Rightarrow> bool" where
  "allApplicableChecksClosed m \<longleftrightarrow>
     (case applicableChecks m of None \<Rightarrow> 0 | Some n \<Rightarrow> n) \<le> (case completedApplicableChecks m of None \<Rightarrow> 0 | Some n \<Rightarrow> n)"

definition failureReasonFor :: "scan_report \<Rightarrow> string" where
  "failureReasonFor scan =
     (case report_crawl scan of
        None \<Rightarrow> noUsableOutput
      | Some summary \<Rightarrow> (case siteReachStatusReason summary of None \<Rightarrow> noUsableOutput | Some r \<Rightarrow> r))"

definition resolveNoUsableOutput ::
    "RefundDispatchConfig \<Rightarrow> string \<Rightarrow> string option \<Rightarrow> string \<Rightarrow> nat \<Rightarrow> billing_db
      \<Rightarrow> billing_error + scan_outcome \<times> billing_db" where
  "resolveNoUsableOutput config scanId purchase reason now db =
     (case grant_retry scanId (scans db) of
        (count, t) \<Rightarrow>
          if count = 1 then Inr (ExternalRetryGranted, db\<lparr> scans := t \<rparr>)
          else
            res_bind (transitionScan scanId SRunning SFailed (Some (Some reason)) now (scans db))
              (\<lambda>t'. let db1 = db\<lparr> scans := t' \<rparr> in
                 (case purchase of
                    None \<Rightarrow> Inr (OutFailed reason None, db1)
                  | Some pid \<Rightarrow>
                      res_bind (requestRefund config id pid EXTERNAL_NO_USABLE_OUTPUT now db1)
                        (\<lambda>((rec, dedup), db2). Inr (OutFailed reason (Some rec), db2)))))"

definition relevant_modules :: "scan_report \<Rightarrow> module_row list" where
  "relevant_modules scan =
     filter (\<lambda>m. runtimeStatus m \<noteq> MNotApplicable \<and> module_id m \<notin> set (planPreviewModules (report_plan scan)))
       (report_modules scan)"

definition resolveScanOutcome ::
    "RefundDispatchConfig \<Rightarrow> string \<Rightarrow> scan_report \<Rightarrow> nat \<Rightarrow> billing_db \<Rightarrow> billing_error + scan_outcome \<times> billing_db" where
  "resolveScanOutcome config scanId scan now db =
     (case scans db scanId of
        None \<Rightarrow> Inl BillingNotFound
      | Some row \<Rightarrow>
          if status row \<noteq> SRunning then Inl InvalidTransition
          else
            let relevant = relevant_modules scan; usable = filter usableOutput relevant in
            if length usable = 0 then
              resolveNoUsableOutput config scanId (scan_purchase row) (failureReasonFor scan) now db
            else if length usable = length relevant \<and> list_all allApplicableChecksClosed relevant then
              res_bind (transitionScan scanId SRunning SCompleted (Some None) now (scans db))
                (\<lambda>t. Inr (OutCompleted, db\<lparr> scans := t \<rparr>))
            else
              let reason = (if length usable < length relevant then externalModuleFailure else incompleteChecks) in
              res_bind (transitionScan scanId SRunning SPartial (Some (Some reason)) now (scans db))
                (\<lambda>t. Inr (OutPartial reason, db\<lparr> scans := t \<rparr>)))"

section \<open>Properties\<close>

lemma adopt_keeps [simp]:
  "refunds (adopt_in p rec now db) = refunds db" "scans (adopt_in p rec now db) = scans db"
  by (simp_all add: adopt_in_def)

lemma recordRefundDispatch_row: "snd (recordRefundDispatch p rec st why now db) p \<noteq> None"
  by (cases "db p") (auto simp: recordRefundDispatch_def Let_def)

lemma adopt_row: "dispatches (adopt_in p rec now db) p \<noteq> None"
  unfolding adopt_in_def adoptOrphanedRefund_def using recordRefundDispatch_row by simp

lemma outbound_row: "recordOutboundRefund config p rec now db p \<noteq> None"
  unfolding recordOutboundRefund_def
  by (cases config) (simp_all only: RefundDispatchConfig.case recordRefundDispatch_row not_False_eq_True)


definition sample_db :: "scan_row \<Rightarrow> billing_db" where
  "sample_db row = \<lparr> scans = Map.empty(''s'' \<mapsto> row\<lparr> scan_purchase := Some ''p'' \<rparr>),
     purchases = Map.empty(''p'' \<mapsto> \<lparr> purchase_amountUsd = 39, purchase_currency = ''USD'', purchase_provider = ''creem'',
       purchase_transaction = Some ''o1'', purchase_scan = Some ''s'' \<rparr>),
     refunds = Map.empty, dispatches = Map.empty \<rparr>"


text \<open>The foreign keys of the schema, for one scan: its purchase exists and points back at it.\<close>

definition linked :: "billing_db \<Rightarrow> string \<Rightarrow> bool" where
  "linked db i \<longleftrightarrow>
     (case scans db i of
        None \<Rightarrow> True
      | Some row \<Rightarrow>
          (case scan_purchase row of
             None \<Rightarrow> True
           | Some p \<Rightarrow> (case purchases db p of None \<Rightarrow> False | Some purchase \<Rightarrow> purchase_scan purchase = Some i)))"

lemma transition_ok:
  assumes "t i = Some row" "status row = a" "canTransition a b" "retry_left a row"
  shows "\<exists>row'. transitionScan i a b reason now t = Inr (t(i \<mapsto> row')) \<and> status row' = b
    \<and> statusReason row' = (case reason of None \<Rightarrow> statusReason row | Some r \<Rightarrow> r)
    \<and> scan_purchase row' = scan_purchase row
    \<and> platformRetryCount row \<le> platformRetryCount row'"
  using assms by (auto simp: transition_exact retry_left_def)

lemma transition_fails:
  assumes "t i = Some row" "status row \<noteq> a"
  shows "transitionScan i a b reason now t = Inl InvalidTransition"
  using assms by (simp add: transition_exact)

lemma refund_granted:
  assumes "purchases db p = Some purchase" "purchase_scan purchase = Some i"
    "assertRefundAllowed code (scans db i) = Inr ()"
  shows "\<exists>rec dedup db'. requestRefund config id p code now db = Inr ((rec, dedup), db')
    \<and> refunds db' p = Some rec \<and> scans db' = scans db"
  using assms by (cases "refunds db p") (auto simp: requestRefund_def Let_def)

lemma cancel_allowed [simp]:
  "canTransition SPending SCancelled" "canTransition SQueued SCancelled" "canTransition SRunning SCancelled"
  by (simp_all add: canTransition_def)

lemma retry_left_simps [simp]:
  "retry_left SPending row" "retry_left SQueued row" "retry_left SRunning row"
  by (simp_all add: retry_left_def)

text \<open>What cancelling achieved: the scan is cancelled for this reason, and the refund table changed only by \<open>rec\<close>.\<close>

definition cancelled_as :: "string \<Rightarrow> string \<Rightarrow> billing_db \<Rightarrow> bool" where
  "cancelled_as i reason db \<longleftrightarrow>
     (case scans db i of None \<Rightarrow> False | Some row \<Rightarrow> status row = SCancelled \<and> statusReason row = Some reason)"

text \<open>
  C26: Cancellation decides the refund by where the scan was. A pending scan is cancelled and, when it
  was paid for, always refunded; a queued or running one is cancelled without a refund; anything else
  (also an unknown scan) is refused.
\<close>

theorem cancel_exact:
  assumes "linked db i"
  shows "case scans db i of
      None \<Rightarrow> cancelScan config i now db = Inl InvalidTransition
    | Some row \<Rightarrow>
        (case status row of
           SPending \<Rightarrow> \<exists>rec db'. cancelScan config i now db = Inr ((FromPending, rec), db')
             \<and> cancelled_as i preQueueCancel db'
             \<and> (case scan_purchase row of None \<Rightarrow> rec = None \<and> refunds db' = refunds db
                  | Some p \<Rightarrow> rec \<noteq> None \<and> refunds db' p = rec)
         | SQueued \<Rightarrow> \<exists>db'. cancelScan config i now db = Inr ((FromQueued, None), db')
             \<and> cancelled_as i postQueueCancel db' \<and> refunds db' = refunds db
         | SRunning \<Rightarrow> \<exists>db'. cancelScan config i now db = Inr ((FromRunning, None), db')
             \<and> cancelled_as i midRunCancel db' \<and> refunds db' = refunds db
         | _ \<Rightarrow> cancelScan config i now db = Inl InvalidTransition)"
proof (cases "scans db i")
  case None
  then show ?thesis by (simp add: cancelScan_def tryCancel_def transition_exact)
next
  case (Some row)
  have fail: "tryCancel i a why now db = (False, db)" if "status row \<noteq> a" for a why
    using transition_fails [of "scans db" i row a] Some that by (simp add: tryCancel_def)
  have ok: "\<exists>row'. tryCancel i (status row) why now db = (True, db\<lparr> scans := (scans db)(i \<mapsto> row') \<rparr>)
      \<and> status row' = SCancelled \<and> statusReason row' = Some why \<and> scan_purchase row' = scan_purchase row"
    if "status row \<in> {SPending, SQueued, SRunning}" for why
  proof -
    have "canTransition (status row) SCancelled" "retry_left (status row) row" using that by auto
    from transition_ok [of "scans db" i row, OF Some refl this, of "Some (Some why)" now] show ?thesis
      by (auto simp: tryCancel_def)
  qed
  show ?thesis
  proof (cases "status row")
    case SPending
    with ok [of preQueueCancel] obtain row' where t: "tryCancel i SPending preQueueCancel now db = (True, db\<lparr> scans := (scans db)(i \<mapsto> row') \<rparr>)"
      and row': "status row' = SCancelled" "statusReason row' = Some preQueueCancel" "scan_purchase row' = scan_purchase row"
      by auto
    show ?thesis
    proof (cases "scan_purchase row")
      case None
      then show ?thesis using t row' Some SPending by (simp add: cancelScan_def cancelled_as_def)
    next
      case p: (Some p)
      let ?db1 = "db\<lparr> scans := (scans db)(i \<mapsto> row') \<rparr>"
      obtain purchase where purchase: "purchases ?db1 p = Some purchase" "purchase_scan purchase = Some i"
        using assms Some p by (auto simp: linked_def split: option.splits)
      have "assertRefundAllowed PRE_QUEUE_CANCEL (scans ?db1 i) = Inr ()" using row' by simp
      from refund_granted [OF purchase this] obtain rec dedup db' where
        "requestRefund config id p PRE_QUEUE_CANCEL now ?db1 = Inr ((rec, dedup), db')" "refunds db' p = Some rec"
        "scans db' = scans ?db1" by blast
      then show ?thesis using t row' Some SPending p by (simp add: cancelScan_def cancelled_as_def)
    qed
  next
    case SQueued
    with ok [of postQueueCancel] fail show ?thesis using Some by (auto simp: cancelScan_def cancelled_as_def)
  next
    case SRunning
    with ok [of midRunCancel] fail show ?thesis using Some by (auto simp: cancelScan_def cancelled_as_def)
  qed (use fail Some in \<open>simp_all add: cancelScan_def\<close>)
qed

theorem cancel_exact_witness:
  "\<exists>rec db'. cancelScan (Inactive ModeManual) ''s'' 5 (sample_db (new_scan None)) = Inr ((FromPending, Some rec), db')
     \<and> refunds db' ''p'' = Some rec"
proof -
  have "linked (sample_db (new_scan None)) ''s''" by (simp add: linked_def sample_db_def)
  from cancel_exact [OF this, of "Inactive ModeManual" 5] show ?thesis
    by (auto simp: sample_db_def new_scan_def)
qed

lemma failureReason_refundable: "failureReasonFor scan \<in> set NO_USABLE_OUTPUT_STATUS_REASONS"
proof -
  have "SITE_REACH_STATUS_REASONS r \<in> set NO_USABLE_OUTPUT_STATUS_REASONS" if "r \<noteq> Reachable" for r
    using that by (cases r) (simp_all add: NO_USABLE_OUTPUT_STATUS_REASONS_def)
  moreover have "noUsableOutput \<in> set NO_USABLE_OUTPUT_STATUS_REASONS"
    by (simp add: NO_USABLE_OUTPUT_STATUS_REASONS_def)
  ultimately show ?thesis
    by (auto simp: failureReasonFor_def siteReachStatusReason_def split: option.splits if_splits)
qed

text \<open>
  C25: The outcome of a running scan, on every set of modules. With no usable relevant module the
  first pass gets the one external retry and stays running, and the second fails with a reason the
  refund policy accepts, so that a paid scan is always refunded; otherwise the scan is Completed exactly
  when every relevant module is usable and closed, and Partial for the stated reason when not.
\<close>

theorem resolve_outcome_exact:
  assumes "linked db i" "scans db i = Some row" "status row = SRunning"
  shows "\<exists>out db' row'. resolveScanOutcome config i scan now db = Inr (out, db') \<and> scans db' i = Some row' \<and>
    (let relevant = relevant_modules scan; usable = filter usableOutput relevant in
     if usable = [] then
       (if moduleRetryCount row = 0
        then out = ExternalRetryGranted \<and> status row' = SRunning \<and> moduleRetryCount row' = 1 \<and> refunds db' = refunds db
        else \<exists>rec. out = OutFailed (failureReasonFor scan) rec \<and> status row' = SFailed
          \<and> statusReason row' = Some (failureReasonFor scan)
          \<and> (case scan_purchase row of None \<Rightarrow> rec = None \<and> refunds db' = refunds db
               | Some p \<Rightarrow> rec \<noteq> None \<and> refunds db' p = rec))
     else if usable = relevant \<and> list_all allApplicableChecksClosed relevant
       then out = OutCompleted \<and> status row' = SCompleted \<and> statusReason row' = None \<and> refunds db' = refunds db
     else (let why = (if usable \<noteq> relevant then externalModuleFailure else incompleteChecks) in
       out = OutPartial why \<and> status row' = SPartial \<and> statusReason row' = Some why \<and> refunds db' = refunds db))"
proof -
  define relevant where "relevant = relevant_modules scan"
  define usable where "usable = filter usableOutput relevant"
  have all: "length usable = length relevant \<longleftrightarrow> usable = relevant" "length usable < length relevant \<longleftrightarrow> usable \<noteq> relevant"
    unfolding usable_def using length_filter_le [of usableOutput relevant]
    by (metis filter_id_conv length_filter_less nat_neq_iff)+
  have unfold: "resolveScanOutcome config i scan now db =
      (if length usable = 0 then resolveNoUsableOutput config i (scan_purchase row) (failureReasonFor scan) now db
       else if length usable = length relevant \<and> list_all allApplicableChecksClosed relevant then
         res_bind (transitionScan i SRunning SCompleted (Some None) now (scans db)) (\<lambda>t. Inr (OutCompleted, db\<lparr> scans := t \<rparr>))
       else
         (let reason = (if length usable < length relevant then externalModuleFailure else incompleteChecks) in
          res_bind (transitionScan i SRunning SPartial (Some (Some reason)) now (scans db))
            (\<lambda>t. Inr (OutPartial reason, db\<lparr> scans := t \<rparr>))))"
    using assms(2,3) by (simp add: resolveScanOutcome_def relevant_def usable_def Let_def)
  have step: "\<exists>row'. transitionScan i SRunning b (Some why) now (scans db) = Inr ((scans db)(i \<mapsto> row'))
      \<and> status row' = b \<and> statusReason row' = why \<and> scan_purchase row' = scan_purchase row"
    if "canTransition SRunning b" for b why
    using transition_ok [of "scans db" i row, OF assms(2,3) that retry_left_simps(3), of "Some why" now] by auto
  have targets: "canTransition SRunning SCompleted" "canTransition SRunning SPartial" "canTransition SRunning SFailed"
    by (simp_all add: canTransition_def)
  show ?thesis
  proof (cases "usable = []")
    case False
    obtain row1 where row1: "transitionScan i SRunning SCompleted (Some None) now (scans db) = Inr ((scans db)(i \<mapsto> row1))"
      "status row1 = SCompleted" "statusReason row1 = None"
      using step [OF targets(1), of None] by blast
    define why where "why = (if usable \<noteq> relevant then externalModuleFailure else incompleteChecks)"
    obtain row2 where row2: "transitionScan i SRunning SPartial (Some (Some why)) now (scans db) = Inr ((scans db)(i \<mapsto> row2))"
      "status row2 = SPartial" "statusReason row2 = Some why"
      using step [OF targets(2), of "Some why"] by blast
    show ?thesis
    proof (cases "usable = relevant \<and> list_all allApplicableChecksClosed relevant")
      case True
      with False row1 show ?thesis unfolding unfold all
        unfolding relevant_def [symmetric] Let_def usable_def [symmetric] by simp
    next
      case no: False
      then have nf: "(usable = relevant \<and> list_all allApplicableChecksClosed relevant) = False" by blast
      show ?thesis using False row2 unfolding unfold all
        unfolding relevant_def [symmetric] Let_def usable_def [symmetric] why_def [symmetric] nf
        by simp
    qed
  next
    case none: True
    show ?thesis
    proof (cases "moduleRetryCount row = 0")
      case True
      then show ?thesis using none assms(2,3) unfolding unfold
        unfolding relevant_def [symmetric] Let_def usable_def [symmetric]
        by (simp add: resolveNoUsableOutput_def grant_retry_def updateMany_def)
    next
      case False
      then have no_grant: "grant_retry i (scans db) = (0, scans db)"
        using assms(2) by (simp add: grant_retry_def updateMany_def)
      obtain row' where t: "transitionScan i SRunning SFailed (Some (Some (failureReasonFor scan))) now (scans db) = Inr ((scans db)(i \<mapsto> row'))"
        and row': "status row' = SFailed" "statusReason row' = Some (failureReasonFor scan)"
        using step [OF targets(3)] by blast
      let ?db1 = "db\<lparr> scans := (scans db)(i \<mapsto> row') \<rparr>"
      show ?thesis
      proof (cases "scan_purchase row")
        case None
        then show ?thesis using none False t row' no_grant unfolding unfold
          unfolding relevant_def [symmetric] Let_def usable_def [symmetric]
          by (simp add: resolveNoUsableOutput_def)
      next
        case p: (Some p)
        obtain purchase where purchase: "purchases ?db1 p = Some purchase" "purchase_scan purchase = Some i"
          using assms(1,2) p by (auto simp: linked_def split: option.splits)
        have "assertRefundAllowed EXTERNAL_NO_USABLE_OUTPUT (scans ?db1 i) = Inr ()"
          using row' failureReason_refundable by simp
        from refund_granted [OF purchase this] obtain rec dedup db' where
          "requestRefund config id p EXTERNAL_NO_USABLE_OUTPUT now ?db1 = Inr ((rec, dedup), db')" "refunds db' p = Some rec"
          "scans db' = scans ?db1" by blast
        then show ?thesis using none False t row' no_grant p unfolding unfold
          unfolding relevant_def [symmetric] Let_def usable_def [symmetric]
          by (simp add: resolveNoUsableOutput_def)
      qed
    qed
  qed
qed

theorem resolve_outcome_exact_witness:
  "\<exists>rec db'. resolveScanOutcome (Inactive ModeManual) ''s'' \<lparr> report_plan = ''Basic'', report_crawl = None, report_modules = [] \<rparr> 5
       (sample_db ((new_scan None)\<lparr> status := SRunning, moduleRetryCount := 1 \<rparr>)) = Inr (OutFailed noUsableOutput (Some rec), db')
     \<and> refunds db' ''p'' = Some rec"
proof -
  let ?db = "sample_db ((new_scan None)\<lparr> status := SRunning, moduleRetryCount := 1 \<rparr>)"
  have "linked ?db ''s''" by (simp add: linked_def sample_db_def)
  moreover have "scans ?db ''s'' = Some ((new_scan (Some ''p''))\<lparr> status := SRunning, moduleRetryCount := 1 \<rparr>)"
    by (simp add: sample_db_def new_scan_def)
  ultimately show ?thesis
    using resolve_outcome_exact [of ?db "''s''" _ "Inactive ModeManual"
        "\<lparr> report_plan = ''Basic'', report_crawl = None, report_modules = [] \<rparr>" 5]
    by (auto simp: relevant_modules_def failureReasonFor_def new_scan_def)
qed

text \<open>
  The preconditions of the two failure refunds are not exclusive: a scan that spent its platform
  retry and then produced no usable output passes both.
\<close>

theorem failure_reasons_overlap:
  "\<exists>es row. run scan_step Map.empty es ''s'' = Some row
     \<and> assertRefundAllowed PLATFORM_FAILURE_AFTER_RETRY (Some row) = Inr ()
     \<and> assertRefundAllowed EXTERNAL_NO_USABLE_OUTPUT (Some row) = Inr ()"
  by (rule exI [of _ "[CreateScan ''s'' None, Cas ''s'' SPending SQueued None 1, Cas ''s'' SQueued SRunning None 2,
        Cas ''s'' SRunning SFailed (Some (Some ''PlatformError'')) 3, Cas ''s'' SFailed SQueued None 4,
        Cas ''s'' SQueued SRunning None 5, Cas ''s'' SRunning SFailed (Some (Some ''NoUsableOutput'')) 6]"])
    (simp add: cas_statement_def updateMany_def cas_where_def cas_data_def canTransition_def new_scan_def
      NO_USABLE_OUTPUT_STATUS_REASONS_def noUsableOutput_def)

end
