(* ===== verification/Money.thy ===== *)
theory Money
  imports Contracts
begin

text \<open>
  What an order is worth and what a refund returns: \<open>apps/api/src/billing/refund-basis.ts\<close>,
  \<open>creem/refund-line.ts\<close> and \<open>creem/order-amount.ts\<close>. Amounts in dollars are exact rationals in
  place of doubles, amounts in cents integers. \<open>num\<close> is \<open>String(number)\<close>. \<open>toUpperCase\<close> is given for
  the code units whose capital is one code unit below 256; the two others are left alone.
\<close>

section \<open>The basis (refund-basis.ts)\<close>

definition FULL_REFUND_RATIO :: rat where
  "FULL_REFUND_RATIO = 99 / 100"

record charge_basis =
  basis_total :: rat
  basis_currency :: string
  basis_totalUsd :: rat

record cumulative_refund =
  cum_amountCharged :: rat
  cum_amountUsd :: rat
  share :: rat
  isFull :: bool

record purchase_money =
  money_amountUsd :: rat
  money_currency :: string
  settledAmount :: "rat option"
  settledCurrency :: "string option"

definition chargeBasisOf :: "purchase_money \<Rightarrow> charge_basis" where
  "chargeBasisOf p =
     \<lparr> basis_total = (case settledAmount p of Some a \<Rightarrow> a | None \<Rightarrow> money_amountUsd p),
       basis_currency = (case settledCurrency p of Some c \<Rightarrow> c | None \<Rightarrow> money_currency p),
       basis_totalUsd = money_amountUsd p \<rparr>"

definition roundCents :: "rat \<Rightarrow> rat" where
  "roundCents v = of_int (js_round (v * 100)) / 100"

definition cumulativeRefund :: "rat option \<Rightarrow> rat option \<Rightarrow> charge_basis \<Rightarrow> cumulative_refund" where
  "cumulativeRefund charged usd basis =
     (let amountCharged = roundCents (case charged of Some a \<Rightarrow> a | None \<Rightarrow> 0);
          s = (if 0 < basis_total basis then min 1 (max 0 (amountCharged / basis_total basis)) else 1)
      in \<lparr> cum_amountCharged = amountCharged, cum_amountUsd = roundCents (case usd of Some a \<Rightarrow> a | None \<Rightarrow> 0),
           share = s, isFull = (FULL_REFUND_RATIO \<le> s) \<rparr>)"

section \<open>One refund (creem/refund-line.ts)\<close>

definition js_upper_char :: "char \<Rightarrow> string" where
  "js_upper_char c =
     (let n = code_unit c in
      if n = (223 :: nat) then ''SS''
      else if (97 \<le> n \<and> n \<le> 122) \<or> (224 \<le> n \<and> n \<le> 254 \<and> n \<noteq> 247) then [char_of (n - 32)]
      else [c])"

definition js_upper :: "string \<Rightarrow> string" where
  "js_upper s = concat (map js_upper_char s)"

record refund_event =
  refundAmount :: "int option"
  refundCurrency :: "string option"

record refund_line =
  line_amountCharged :: rat
  line_amountUsd :: rat
  line_currency :: string
  line_reason :: "string option"

definition whole :: "charge_basis \<Rightarrow> string \<Rightarrow> refund_line" where
  "whole basis why =
     \<lparr> line_amountCharged = roundCents (basis_total basis), line_amountUsd = roundCents (basis_totalUsd basis),
       line_currency = basis_currency basis, line_reason = Some why \<rparr>"

definition usdOf :: "rat \<Rightarrow> charge_basis \<Rightarrow> rat" where
  "usdOf amountCharged basis =
     (if js_upper (basis_currency basis) = ''USD'' \<or> basis_total basis \<le> 0 then roundCents amountCharged
      else roundCents (basis_totalUsd basis * amountCharged / basis_total basis))"

definition resolveCreemRefundLine :: "refund_event \<Rightarrow> charge_basis \<Rightarrow> refund_line" where
  "resolveCreemRefundLine event basis =
     (case refundAmount event of
        None \<Rightarrow> whole basis ''refund.created states no amount, so it returns the whole charge''
      | Some cents \<Rightarrow>
          if basis_total basis \<le> 0 then
            whole basis ''purchase records no usable charged amount to measure the refund against''
          else
            let currency = map_option js_upper (refundCurrency event) in
            if currency = None \<or> currency = Some (js_upper (basis_currency basis)) then
              let amountCharged = roundCents (of_int cents / 100) in
              \<lparr> line_amountCharged = amountCharged, line_amountUsd = usdOf amountCharged basis,
                line_currency = basis_currency basis,
                line_reason = (if currency = None
                  then Some (''refund.created states no currency; read as '' @ basis_currency basis @ '', the charged currency'')
                  else None) \<rparr>
            else
              whole basis (''refund quoted in '' @ the currency @ '' against a charge in '' @ basis_currency basis
                @ '', which cannot be converted here, so it is counted as the whole charge''))"

section \<open>What a completed order charged (creem/order-amount.ts)\<close>

definition EXACT_TOLERANCE :: rat where
  "EXACT_TOLERANCE = 1 / 100"

record checkout_event =
  amount :: "int option"
  subTotal :: "int option"
  taxAmount :: "int option"
  amountDue :: "int option"
  amountPaid :: "int option"
  discountAmount :: "int option"
  hasDiscount :: bool
  event_currency :: "string option"

record order_amounts =
  charged :: rat
  worthBeforeTax :: rat
  discounted :: bool
  discount :: "rat option"
  order_currency :: string

datatype amount_verdict =
    Accepted rat rat string "string option"
  | Rejected string

definition dollars :: "int \<Rightarrow> rat" where
  "dollars cents = roundCents (of_int cents / 100)"

definition readDiscount :: "checkout_event \<Rightarrow> rat option" where
  "readDiscount event =
     (case discountAmount event of
        Some d \<Rightarrow> if 0 < d then Some (dollars d)
                  else (case (amount event, subTotal event) of
                          (Some a, Some t) \<Rightarrow> if t < a then Some (dollars (a - t)) else None
                        | _ \<Rightarrow> None)
      | None \<Rightarrow> (case (amount event, subTotal event) of
                   (Some a, Some t) \<Rightarrow> if t < a then Some (dollars (a - t)) else None
                 | _ \<Rightarrow> None))"

definition first_of :: "'a option \<Rightarrow> 'a option \<Rightarrow> 'a option" where
  "first_of a b = (case a of Some x \<Rightarrow> Some x | None \<Rightarrow> b)"

definition is_discounted :: "checkout_event \<Rightarrow> bool" where
  "is_discounted event \<longleftrightarrow>
     hasDiscount event \<or> (case (amount event, subTotal event) of (Some a, Some t) \<Rightarrow> t < a | _ \<Rightarrow> False)"

definition readOrderAmounts :: "checkout_event \<Rightarrow> string + order_amounts" where
  "readOrderAmounts event =
     (let disc = is_discounted event;
          paidCents = first_of (amountPaid event) (amountDue event);
          chargedCents = first_of paidCents (if disc then None else first_of (subTotal event) (amount event))
      in case chargedCents of
           None \<Rightarrow> Inl (if disc
             then ''order carries a discount and states no post-discount charge (amount_paid or ''
               @ ''amount_due), so what was paid cannot be verified against the tariff''
             else ''checkout.completed payload states no order amount'')
         | Some cents \<Rightarrow>
             (let c = dollars cents; tax = dollars (case taxAmount event of Some t \<Rightarrow> t | None \<Rightarrow> 0) in
              Inr \<lparr> charged = c, worthBeforeTax = roundCents (max 0 (c - tax)), discounted = disc,
                    discount = readDiscount event,
                    order_currency = js_upper (case event_currency event of Some s \<Rightarrow> s | None \<Rightarrow> ''USD'') \<rparr>))"

text \<open>\<open>promised\<close> is the session's \<open>expectedAmountUsd\<close>.\<close>

definition requiredUsd :: "js_number \<Rightarrow> plan \<Rightarrow> rat" where
  "requiredUsd promised plan =
     (let tariff = of_int (priceUsd (TARIFFS plan)) in
      case promised of Num v \<Rightarrow> if 0 < v then min tariff v else tariff | NonFinite \<Rightarrow> tariff)"

definition discountReason :: "(rat \<Rightarrow> string) \<Rightarrow> order_amounts \<Rightarrow> rat \<Rightarrow> plan \<Rightarrow> string option" where
  "discountReason num amounts expectedUsd plan =
     (if \<not> discounted amounts then None
      else Some (''order carries ''
        @ (case discount amounts of None \<Rightarrow> ''a discount'' | Some d \<Rightarrow> ''a '' @ num d @ '' USD discount'')
        @ ''; the '' @ num (worthBeforeTax amounts) @ '' USD paid before tax still covers the '' @ num expectedUsd
        @ '' USD '' @ plan_string plan @ '' plan price''))"

definition catalogueMismatchReason :: "(rat \<Rightarrow> string) \<Rightarrow> rat \<Rightarrow> rat \<Rightarrow> plan \<Rightarrow> string option" where
  "catalogueMismatchReason num worth expectedUsd plan =
     (if worth \<le> expectedUsd + EXACT_TOLERANCE then None
      else Some (''order is worth '' @ num worth @ '' USD before tax, above the '' @ num expectedUsd @ '' USD ''
        @ plan_string plan @ '' plan price; the Creem product price does not match the tariff''))"

definition joinReasons :: "string option list \<Rightarrow> string option" where
  "joinReasons reasons =
     (let stated = List.map_filter id reasons in if stated = [] then None else Some (join_with ''; '' stated))"

definition resolveCreemOrderAmount :: "(rat \<Rightarrow> string) \<Rightarrow> js_number \<Rightarrow> checkout_event \<Rightarrow> plan \<Rightarrow> amount_verdict" where
  "resolveCreemOrderAmount num promised event plan =
     (case readOrderAmounts event of
        Inl unreadable \<Rightarrow> Rejected unreadable
      | Inr amounts \<Rightarrow>
          let expectedUsd = requiredUsd promised plan in
          if order_currency amounts \<noteq> ''USD'' then
            (if discounted amounts then
               Rejected (''order was charged in '' @ order_currency amounts @ '' and carries a discount, so what is left of ''
                 @ ''it cannot be verified against the '' @ num expectedUsd @ '' USD '' @ plan_string plan @ '' plan price'')
             else
               Accepted expectedUsd (charged amounts) (order_currency amounts)
                 (Some (''order was charged in '' @ order_currency amounts @ ''; amount not verified against the ''
                    @ num expectedUsd @ '' USD '' @ plan_string plan
                    @ '' plan price (Creem products are expected to be priced in USD)'')))
          else
            let floor_usd = expectedUsd - EXACT_TOLERANCE in
            if floor_usd \<le> worthBeforeTax amounts then
              Accepted (charged amounts) (charged amounts) (order_currency amounts)
                (joinReasons [discountReason num amounts expectedUsd plan,
                   catalogueMismatchReason num (worthBeforeTax amounts) expectedUsd plan])
            else if floor_usd \<le> charged amounts \<and> \<not> discounted amounts then
              Accepted (charged amounts) (charged amounts) (order_currency amounts) None
            else
              Rejected (''order is worth '' @ num (worthBeforeTax amounts) @ '' USD before tax ('' @ num (charged amounts)
                @ '' USD charged)'' @ (if discounted amounts then '' after a discount'' else []) @ '', below the ''
                @ num expectedUsd @ '' USD '' @ plan_string plan @ '' plan price''))"

section \<open>Cents\<close>

lemma roundCents_cents [simp]: "roundCents (of_int n / 100) = of_int n / 100"
  by (simp add: roundCents_def)

lemma dollars_exact: "dollars n = of_int n / 100"
  by (simp add: dollars_def)

lemma roundCents_sum_cents [simp]: "roundCents (\<Sum>n \<leftarrow> ns. of_int n / 100) = of_int (sum_list ns) / 100"
proof -
  have eq: "(\<Sum>n \<leftarrow> ns. of_int n / 100 :: rat) = of_int (sum_list ns) / 100"
    by (induction ns) (simp_all add: add_divide_distrib)
  show ?thesis unfolding eq by (rule roundCents_cents)
qed

section \<open>Properties\<close>

text \<open>
  A purchase counts as fully refunded exactly when the measured refunds return 99 percent of
  the charge, counted in cents, and the share always lies between 0 and 1.
\<close>

theorem full_refund_exact:
  assumes "basis_total basis = of_int T / 100" "0 < T"
    "list_all (\<lambda>e. refundAmount e \<noteq> None
       \<and> (refundCurrency e = None \<or> map_option js_upper (refundCurrency e) = Some (js_upper (basis_currency basis)))) events"
  shows "let c = cumulativeRefund (Some (\<Sum>e \<leftarrow> events. line_amountCharged (resolveCreemRefundLine e basis))) usd basis in
    (isFull c \<longleftrightarrow> 99 * T \<le> 100 * (\<Sum>e \<leftarrow> events. the (refundAmount e))) \<and> 0 \<le> share c \<and> share c \<le> 1"
proof -
  define R where "R = (\<Sum>e \<leftarrow> events. the (refundAmount e))"
  have "line_amountCharged (resolveCreemRefundLine e basis) = of_int (the (refundAmount e)) / 100" if "e \<in> set events" for e
    using assms that by (auto simp: list_all_iff resolveCreemRefundLine_def Let_def)
  then have lines: "map (\<lambda>e. line_amountCharged (resolveCreemRefundLine e basis)) events
      = map (\<lambda>n. of_int n / 100) (map (\<lambda>e. the (refundAmount e)) events)"
    by simp
  have amt: "roundCents (\<Sum>e \<leftarrow> events. line_amountCharged (resolveCreemRefundLine e basis)) = of_int R / 100"
    unfolding lines R_def by (rule roundCents_sum_cents)
  have pos: "0 < basis_total basis" using assms(1,2) by simp
  have ratio: "of_int R / 100 / basis_total basis = of_int R / of_int T" using assms(1,2) by simp
  have "FULL_REFUND_RATIO \<le> min 1 (max 0 (of_int R / of_int T :: rat)) \<longleftrightarrow> 99 / 100 \<le> (of_int R / of_int T :: rat)"
    by (auto simp: FULL_REFUND_RATIO_def le_max_iff_disj)
  also have "\<dots> \<longleftrightarrow> 99 * T \<le> 100 * R"
  proof -
    have "99 / 100 \<le> (of_int R / of_int T :: rat) \<longleftrightarrow> of_int (99 * T) \<le> (of_int (100 * R) :: rat)"
      using assms(2) by (simp add: field_simps)
    then show ?thesis by (simp only: of_int_le_iff)
  qed
  finally show ?thesis
    by (simp only: cumulativeRefund_def Let_def option.case amt pos if_True ratio cumulative_refund.simps
        R_def [symmetric]) simp
qed

theorem full_refund_exact_witness:
  "isFull (cumulativeRefund (Some (\<Sum>e \<leftarrow> [\<lparr> refundAmount = Some 3000, refundCurrency = Some ''usd'' \<rparr>,
       \<lparr> refundAmount = Some 865, refundCurrency = None \<rparr>].
       line_amountCharged (resolveCreemRefundLine e \<lparr> basis_total = 39, basis_currency = ''USD'', basis_totalUsd = 39 \<rparr>))) None
     \<lparr> basis_total = 39, basis_currency = ''USD'', basis_totalUsd = 39 \<rparr>)"
proof -
  let ?basis = "\<lparr> basis_total = 39, basis_currency = ''USD'', basis_totalUsd = 39 \<rparr>"
  let ?events = "[\<lparr> refundAmount = Some 3000, refundCurrency = Some ''usd'' \<rparr>, \<lparr> refundAmount = Some 865, refundCurrency = None \<rparr>]"
  have "js_upper ''usd'' = ''USD''" "js_upper ''USD'' = ''USD''"
    by code_simp+
  then have "list_all (\<lambda>e. refundAmount e \<noteq> None
       \<and> (refundCurrency e = None \<or> map_option js_upper (refundCurrency e) = Some (js_upper (basis_currency ?basis)))) ?events"
    by simp
  from full_refund_exact [of ?basis 3900, OF _ _ this, of None] show ?thesis by (simp add: Let_def)
qed

text \<open>
  Refunds fail closed: if any refund of a purchase cannot be measured (no amount, or another
  currency) the purchase counts as fully refunded, whatever the others are, provided none is negative.
\<close>

theorem unmeasurable_refund_is_full:
  assumes "basis_total basis = of_int T / 100" "0 < T" "e \<in> set events"
    "refundAmount e = None \<or> (refundCurrency e \<noteq> None
       \<and> map_option js_upper (refundCurrency e) \<noteq> Some (js_upper (basis_currency basis)))"
    "list_all (\<lambda>e. case refundAmount e of None \<Rightarrow> True | Some c \<Rightarrow> 0 \<le> c) events"
  shows "isFull (cumulativeRefund (Some (\<Sum>e \<leftarrow> events. line_amountCharged (resolveCreemRefundLine e basis))) usd basis)"
proof -
  define f where "f e = line_amountCharged (resolveCreemRefundLine e basis)" for e
  have rc: "roundCents (basis_total basis) = of_int T / 100" using assms(1) by (metis roundCents_cents)
  have cents: "\<exists>n \<ge> 0. f x = of_int n / 100" if "x \<in> set events" for x
    using assms(1,2,5) rc that
    by (auto simp: f_def resolveCreemRefundLine_def whole_def Let_def list_all_iff split: option.splits
        intro: exI [of _ T] dest: bspec)
  have "f e = of_int T / 100"
    using assms(1,2,4) rc by (auto simp: f_def resolveCreemRefundLine_def whole_def Let_def split: option.splits)
  moreover have nonneg: "0 \<le> f x" if "x \<in> set events" for x
  proof -
    obtain n :: int where "0 \<le> n" "f x = of_int n / 100" using cents [OF \<open>x \<in> set events\<close>] by blast
    then show ?thesis by simp
  qed
  moreover have "f e \<le> (\<Sum>x \<leftarrow> events. f x)"
    using assms(3) nonneg by (intro member_le_sum_list) auto
  moreover have "\<exists>n. (\<Sum>x \<leftarrow> xs. f x) = of_int n / 100" if "set xs \<subseteq> set events" for xs
    using that
  proof (induction xs)
    case Nil
    then show ?case by (auto intro: exI [of _ 0])
  next
    case (Cons x xs)
    obtain m where "(\<Sum>x \<leftarrow> xs. f x) = of_int m / 100" using Cons by auto
    moreover obtain n where "f x = of_int n / 100" using cents [of x] Cons.prems by auto
    ultimately have "(\<Sum>x \<leftarrow> x # xs. f x) = of_int (n + m) / 100" by (simp add: add_divide_distrib)
    then show ?case by blast
  qed
  then obtain n where n: "(\<Sum>x \<leftarrow> events. f x) = of_int n / 100" by blast
  ultimately have "1 \<le> (of_int n / 100) / basis_total basis" using assms(1,2) by simp
  then have "1 \<le> max 0 (roundCents (\<Sum>x \<leftarrow> events. f x) / basis_total basis)" by (simp add: n)
  then show ?thesis
    by (simp add: cumulativeRefund_def Let_def f_def [symmetric] FULL_REFUND_RATIO_def le_max_iff_disj min_def)
qed

theorem unmeasurable_refund_is_full_witness:
  "isFull (cumulativeRefund (Some (\<Sum>e \<leftarrow> [\<lparr> refundAmount = Some 1, refundCurrency = None \<rparr>,
       \<lparr> refundAmount = None, refundCurrency = None \<rparr>].
       line_amountCharged (resolveCreemRefundLine e \<lparr> basis_total = 39, basis_currency = ''EUR'', basis_totalUsd = 42 \<rparr>))) None
     \<lparr> basis_total = 39, basis_currency = ''EUR'', basis_totalUsd = 42 \<rparr>)"
  by (rule unmeasurable_refund_is_full [where T = 3900 and e = "\<lparr> refundAmount = None, refundCurrency = None \<rparr>"]) simp_all

lemma roundCents_max_cents: "roundCents (max 0 (of_int a / 100 - of_int b / 100)) = of_int (max 0 (a - b)) / 100"
proof -
  have "max 0 (of_int a / 100 - of_int b / 100) = (of_int (max 0 (a - b)) / 100 :: rat)"
    by (simp add: max_def field_simps)
  then show ?thesis by (simp only: roundCents_cents)
qed

text \<open>The tax of an event, in cents.\<close>

definition tax_cents :: "checkout_event \<Rightarrow> int" where
  "tax_cents event = (case taxAmount event of Some t \<Rightarrow> t | None \<Rightarrow> 0)"

lemma readOrderAmounts_cents:
  "readOrderAmounts event = Inr a \<Longrightarrow>
     \<exists>c. charged a = of_int c / 100 \<and> worthBeforeTax a = of_int (max 0 (c - tax_cents event)) / 100
       \<and> discounted a = is_discounted event
       \<and> (is_discounted event \<longrightarrow> first_of (amountPaid event) (amountDue event) = Some c)
       \<and> first_of (first_of (amountPaid event) (amountDue event)) (first_of (subTotal event) (amount event)) = Some c"
  by (auto simp: readOrderAmounts_def Let_def dollars_exact roundCents_max_cents tax_cents_def first_of_def
      split: option.splits if_splits)



end
