(* ===== verification/ReportAccess.thy ===== *)
theory ReportAccess
  imports Prelude
begin

text \<open>
  Who may read a paid report, and who may buy more work with a purchase:
  \<open>apps/api/src/billing/report-access.ts\<close>. Times are milliseconds. The two guards throw a
  403 with their own code.
\<close>

record entitlement =
  suspended :: bool
  expiresAt :: int

record access_purchase =
  access_status :: string
  access_entitlement :: "entitlement option"

record access_scan =
  access_purchaseId :: "string option"
  access_purchase :: "access_purchase option"

datatype PaidAccessDenial = DenialRefunded | DenialSuspended | DenialMissing | DenialExpired

definition paidAccessDenial :: "access_scan \<Rightarrow> int option \<Rightarrow> PaidAccessDenial option" where
  "paidAccessDenial scan now =
     (if access_purchaseId scan = None then None
      else case access_purchase scan of
        None \<Rightarrow> Some DenialMissing
      | Some purchase \<Rightarrow>
          if access_status purchase \<noteq> ''paid'' then Some DenialRefunded
          else (case access_entitlement purchase of
                  None \<Rightarrow> Some DenialMissing
                | Some e \<Rightarrow>
                    if suspended e then Some DenialSuspended
                    else (case now of
                            Some t \<Rightarrow> if expiresAt e \<le> t then Some DenialExpired else None
                          | None \<Rightarrow> None)))"

definition isPaidAccessActive :: "access_scan \<Rightarrow> bool" where
  "isPaidAccessActive scan \<longleftrightarrow> paidAccessDenial scan None = None"

datatype access_error = ENTITLEMENT_SUSPENDED | ENTITLEMENT_INACTIVE

definition assertPaidReportAccess :: "access_scan \<Rightarrow> access_error + unit" where
  "assertPaidReportAccess scan = (if paidAccessDenial scan None = None then Inr () else Inl ENTITLEMENT_SUSPENDED)"

definition assertPaidWorkAllowed :: "access_scan \<Rightarrow> int \<Rightarrow> access_error + unit" where
  "assertPaidWorkAllowed scan now = (if paidAccessDenial scan (Some now) = None then Inr () else Inl ENTITLEMENT_INACTIVE)"

text \<open>
  Access is decided by the purchase alone and fails closed: a paid scan may be read exactly while
  its purchase is paid and its entitlement exists and is not suspended; new work additionally needs an
  entitlement that has not expired, so it is allowed only to those who may read; a scan without a purchase
  is never denied.
\<close>

theorem paid_access:
  "(assertPaidReportAccess scan = Inr () \<longleftrightarrow>
      access_purchaseId scan = None \<or>
      (\<exists>e. access_purchase scan = Some \<lparr> access_status = ''paid'', access_entitlement = Some e \<rparr> \<and> \<not> suspended e)) \<and>
   (assertPaidWorkAllowed scan now = Inr () \<longleftrightarrow>
      assertPaidReportAccess scan = Inr () \<and>
      (access_purchaseId scan = None \<or>
       (\<exists>e. map_option access_entitlement (access_purchase scan) = Some (Some e) \<and> now < expiresAt e)))"
proof (cases "access_purchaseId scan")
  case None
  then show ?thesis by (simp add: assertPaidReportAccess_def assertPaidWorkAllowed_def paidAccessDenial_def)
next
  case id: (Some i)
  show ?thesis
  proof (cases "access_purchase scan")
    case None
    then show ?thesis using id by (simp add: assertPaidReportAccess_def assertPaidWorkAllowed_def paidAccessDenial_def)
  next
    case (Some p)
    obtain st ent where p: "p = \<lparr> access_status = st, access_entitlement = ent \<rparr>" by (cases p) auto
    show ?thesis using id Some p
      by (cases ent) (auto simp: assertPaidReportAccess_def assertPaidWorkAllowed_def paidAccessDenial_def)
  qed
qed

end
