(* ===== verification/Robots.thy ===== *)
theory Robots
  imports Prelude
begin

text \<open>
  The robots.txt policy and the crawl scope: \<open>packages/crawler/src/robots.ts\<close> and \<open>scope.ts\<close>.
  A pattern is turned into a regular expression made of quoted literals and \<open>[^]*\<close>, anchored at the
  start and, for a final \<open>$\<close>, at the end; \<open>regex_test\<close> is the matching of exactly those expressions.
  \<open>glob\<close> is the specification: the reading of a pattern character by character that RFC 9309
  gives.
\<close>

section \<open>Patterns\<close>

text \<open>Some suffix of the text, itself included.\<close>

fun some_suffix :: "('a list \<Rightarrow> bool) \<Rightarrow> 'a list \<Rightarrow> bool" where
  "some_suffix P [] = P []"
| "some_suffix P (x # xs) = (P (x # xs) \<or> some_suffix P xs)"

lemma some_suffix_iff: "some_suffix P xs \<longleftrightarrow> (\<exists>a b. xs = a @ b \<and> P b)"
proof (induction xs)
  case (Cons x xs)
  have "(\<exists>a b. x # xs = a @ b \<and> P b) \<longleftrightarrow> P (x # xs) \<or> (\<exists>a b. xs = a @ b \<and> P b)"
    by (metis append_Cons append_Nil list.inject list.exhaust)
  with Cons.IH show ?case by simp
qed simp

lemma some_suffix_cong [fundef_cong]:
  "xs = ys \<Longrightarrow> (\<And>b. P b = Q b) \<Longrightarrow> some_suffix P xs = some_suffix Q ys"
  by (simp add: some_suffix_iff)

text \<open>\<open>new RegExp("^" + literals.join("[^]*") + (anchored ? "$" : "")).test(text)\<close>.\<close>

fun regex_test :: "bool \<Rightarrow> string list \<Rightarrow> string \<Rightarrow> bool" where
  "regex_test anchored [] path = (if anchored then path = [] else True)"
| "regex_test anchored [literal] path = (if anchored then path = literal else starts_with path literal)"
| "regex_test anchored (literal # next_literal # literals) path =
     (starts_with path literal
        \<and> some_suffix (regex_test anchored (next_literal # literals)) (drop (length literal) path))"

definition matchesPattern :: "string \<Rightarrow> string \<Rightarrow> bool" where
  "matchesPattern pattern path =
     (let anchored = ends_with pattern ''$'';
          body = (if anchored then butlast pattern else pattern)
      in regex_test anchored (split_on (CHR ''*'') body) path)"

definition matchesGlob :: "string \<Rightarrow> string \<Rightarrow> bool" where
  "matchesGlob pattern pathname = regex_test True (split_on (CHR ''*'') pattern) pathname"

section \<open>The file\<close>

datatype rule_type = Allow | Disallow

record RobotsRule =
  rule_type :: rule_type
  rule_pattern :: string

record RobotsGroup =
  userAgents :: "string list"
  group_rules :: "RobotsRule list"

record RobotsTxt =
  robots_groups :: "RobotsGroup list"
  sitemaps :: "string list"

definition stripComment :: "string \<Rightarrow> string" where
  "stripComment line = (case index_of (CHR ''#'') line of None \<Rightarrow> line | Some i \<Rightarrow> take i line)"

definition parseDirective :: "string \<Rightarrow> (string \<times> string) option" where
  "parseDirective line =
     (case index_of (CHR '':'') line of
        None \<Rightarrow> None
      | Some i \<Rightarrow> Some (js_lower (js_trim (take i line)), js_trim (drop (i + 1) line)))"

text \<open>\<open>content.split(/\r?\n/)\<close>: a carriage return right before the line feed goes with it.\<close>

definition LF :: char where "LF = char_of (10 :: nat)"
definition CR :: char where "CR = char_of (13 :: nat)"

definition drop_cr :: "string \<Rightarrow> string" where
  "drop_cr line = (if line \<noteq> [] \<and> last line = CR then butlast line else line)"

definition split_lines :: "string \<Rightarrow> string list" where
  "split_lines content = (let ls = split_on LF content in map drop_cr (butlast ls) @ [last ls])"

record parser =
  done_groups :: "RobotsGroup list"
  found_sitemaps :: "string list"
  currentAgents :: "string list"
  currentRules :: "RobotsRule list"
  collectingAgents :: bool

definition parser_start :: parser where
  "parser_start = \<lparr> done_groups = [], found_sitemaps = [], currentAgents = [], currentRules = [], collectingAgents = False \<rparr>"

definition flushGroup :: "parser \<Rightarrow> parser" where
  "flushGroup p =
     p\<lparr> done_groups := (if currentAgents p \<noteq> [] then done_groups p @ [\<lparr> userAgents = currentAgents p, group_rules = currentRules p \<rparr>]
                        else done_groups p),
        currentAgents := [], currentRules := [] \<rparr>"

definition directive_step :: "string \<Rightarrow> string \<Rightarrow> parser \<Rightarrow> parser" where
  "directive_step name val p =
     (if name = ''user-agent'' then
        (let p1 = (if \<not> collectingAgents p then (flushGroup p)\<lparr> collectingAgents := True \<rparr> else p) in
         if val \<noteq> [] then p1\<lparr> currentAgents := currentAgents p1 @ [js_lower val] \<rparr> else p1)
      else if name = ''sitemap'' then
        (if val \<noteq> [] then p\<lparr> found_sitemaps := found_sitemaps p @ [val] \<rparr> else p)
      else if name = ''allow'' \<or> name = ''disallow'' then
        (let p1 = p\<lparr> collectingAgents := False \<rparr> in
         if val \<noteq> [] then
           p1\<lparr> currentRules := currentRules p1
                @ [\<lparr> rule_type = (if name = ''allow'' then Allow else Disallow), rule_pattern = val \<rparr>] \<rparr>
         else p1)
      else p\<lparr> collectingAgents := False \<rparr>)"

definition line_step :: "string \<Rightarrow> parser \<Rightarrow> parser" where
  "line_step rawLine p =
     (let line = js_trim (stripComment rawLine) in
      if line = [] then p
      else case parseDirective line of None \<Rightarrow> p | Some (name, val) \<Rightarrow> directive_step name val p)"

definition parseRobotsTxt :: "string \<Rightarrow> RobotsTxt" where
  "parseRobotsTxt content =
     (let p = flushGroup (fold line_step (split_lines content) parser_start) in
      \<lparr> robots_groups = done_groups p, sitemaps = found_sitemaps p \<rparr>)"

section \<open>The verdict\<close>

text \<open>The longest token that is not \<open>*\<close> and occurs in the agent's name; the first of equal length.\<close>

fun best_token :: "string \<Rightarrow> string option \<Rightarrow> string list \<Rightarrow> string option" where
  "best_token agent best [] = best"
| "best_token agent best (token # tokens) =
     (if token = ''*'' \<or> \<not> js_includes agent token then best_token agent best tokens
      else if (case best of None \<Rightarrow> True | Some b \<Rightarrow> length b < length token) then best_token agent (Some token) tokens
      else best_token agent best tokens)"

definition wanted_token :: "RobotsTxt \<Rightarrow> string \<Rightarrow> string" where
  "wanted_token robots userAgent =
     (let agentLower = js_lower userAgent;
          bestToken = best_token agentLower None (concat (map userAgents (robots_groups robots)))
      in case bestToken of Some t \<Rightarrow> t | None \<Rightarrow> ''*'')"

definition selected_groups :: "RobotsTxt \<Rightarrow> string \<Rightarrow> RobotsGroup list" where
  "selected_groups robots userAgent =
     filter (\<lambda>group. wanted_token robots userAgent \<in> set (userAgents group)) (robots_groups robots)"

definition selectRules :: "RobotsTxt \<Rightarrow> string \<Rightarrow> RobotsRule list" where
  "selectRules robots userAgent = concat (map group_rules (selected_groups robots userAgent))"

fun best_rule :: "string \<Rightarrow> RobotsRule option \<Rightarrow> RobotsRule list \<Rightarrow> RobotsRule option" where
  "best_rule path best [] = best"
| "best_rule path best (rule # rest) =
     (if \<not> matchesPattern (rule_pattern rule) path then best_rule path best rest
      else if (case best of
                 None \<Rightarrow> True
               | Some b \<Rightarrow> length (rule_pattern b) < length (rule_pattern rule)
                   \<or> (length (rule_pattern rule) = length (rule_pattern b) \<and> rule_type rule = Allow \<and> rule_type b = Disallow))
           then best_rule path (Some rule) rest
           else best_rule path best rest)"

definition isPathAllowed :: "RobotsTxt \<Rightarrow> string \<Rightarrow> string \<Rightarrow> bool" where
  "isPathAllowed robots userAgent path =
     (case best_rule path None (selectRules robots userAgent) of None \<Rightarrow> True | Some r \<Rightarrow> rule_type r = Allow)"

text \<open>\<open>entryPath\<close> is \<open>url.pathname + url.search\<close> of the entry address.\<close>

definition blockedSearchEngines :: "string \<Rightarrow> string \<Rightarrow> string list" where
  "blockedSearchEngines content entryPath =
     (let robots = parseRobotsTxt content in
      filter (\<lambda>agent. \<not> isPathAllowed robots agent entryPath) [''Bingbot'', ''Googlebot''])"

text \<open>
  The groups and rules are objects, so the rule that \<open>robotsBlockEvidence\<close> looks for again is in the
  one group it came from: the candidates carry their group. \<open>sort\<close> is stable, so its first element
  is the first of the longest.
\<close>

definition block_candidates :: "RobotsTxt \<Rightarrow> string \<Rightarrow> string \<Rightarrow> (RobotsGroup \<times> RobotsRule) list" where
  "block_candidates robots agent entryPath =
     filter (\<lambda>(g, r). rule_type r = Disallow \<and> matchesPattern (rule_pattern r) entryPath)
       (concat (map (\<lambda>g. map (Pair g) (group_rules g)) (selected_groups robots agent)))"

fun first_longest :: "(RobotsGroup \<times> RobotsRule) \<Rightarrow> (RobotsGroup \<times> RobotsRule) list \<Rightarrow> RobotsGroup \<times> RobotsRule" where
  "first_longest best [] = best"
| "first_longest best (c # cs) =
     first_longest (if length (rule_pattern (snd best)) < length (rule_pattern (snd c)) then c else best) cs"

definition robotsBlockEvidence :: "string \<Rightarrow> string \<Rightarrow> string \<Rightarrow> string" where
  "robotsBlockEvidence content agent entryPath =
     (case block_candidates (parseRobotsTxt content) agent entryPath of
        [] \<Rightarrow> []
      | c # cs \<Rightarrow>
          (let (g, r) = first_longest c cs in
           ''User-agent: '' @ join_with '', '' (userAgents g) @ ''; Disallow: '' @ rule_pattern r))"

section \<open>Scope (scope.ts)\<close>

definition isHostInScope :: "string \<Rightarrow> string \<Rightarrow> bool \<Rightarrow> bool" where
  "isHostInScope hostname originHostname includeSubdomains \<longleftrightarrow>
     hostname = originHostname \<or> (includeSubdomains \<and> ends_with hostname (''.'' @ originHostname))"

definition isPathnameAllowedByPatterns :: "string \<Rightarrow> string list option \<Rightarrow> string list option \<Rightarrow> bool" where
  "isPathnameAllowedByPatterns pathname includePatterns excludePatterns =
     (let excludes = (case excludePatterns of Some ps \<Rightarrow> ps | None \<Rightarrow> []);
          includes = (case includePatterns of Some ps \<Rightarrow> ps | None \<Rightarrow> [])
      in if \<exists>p \<in> set excludes. matchesGlob p pathname then False
         else if length includes = 0 then True
         else (\<exists>p \<in> set includes. matchesGlob p pathname))"

section \<open>The reading of a pattern\<close>

text \<open>
  \<open>*\<close> is any sequence, also the empty one; a final \<open>$\<close> is the end of the path; every other character
  stands for itself; a pattern without \<open>$\<close> matches every path it is a prefix of.
\<close>

fun glob :: "string \<Rightarrow> string \<Rightarrow> bool" where
  "glob [] path = True"
| "glob (c # ps) path =
     (if c = CHR ''*'' then some_suffix (glob ps) path
      else if c = CHR ''$'' \<and> ps = [] then path = []
      else (case path of [] \<Rightarrow> False | x # xs \<Rightarrow> x = c \<and> glob ps xs))"

lemma regex_test_Cons_literal:
  "c \<noteq> s \<Longrightarrow> regex_test anchored (split_on s (c # p)) path =
     (case path of [] \<Rightarrow> False | x # xs \<Rightarrow> x = c \<and> regex_test anchored (split_on s p) xs)"
proof -
  assume c: "c \<noteq> s"
  obtain l ls where l: "split_on s p = l # ls" by (cases "split_on s p") auto
  show ?thesis using c l by (cases ls; cases path) auto
qed

lemma regex_test_Cons_star:
  "regex_test anchored (split_on s (s # p)) path = some_suffix (regex_test anchored (split_on s p)) path"
proof -
  obtain l ls where l: "split_on s p = l # ls" by (cases "split_on s p") auto
  then show ?thesis by simp
qed

lemma ends_with_dollar: "ends_with (c # p) ''$'' \<longleftrightarrow> (p = [] \<and> c = CHR ''$'') \<or> (p \<noteq> [] \<and> ends_with p ''$'')"
  by (cases p rule: rev_cases) (auto simp: ends_with_def)

text \<open>The code's test with the end mark already taken off.\<close>

definition pattern_test :: "bool \<Rightarrow> string \<Rightarrow> string \<Rightarrow> bool" where
  "pattern_test anchored body path = regex_test anchored (split_on (CHR ''*'') body) path"

lemma pattern_test_simps:
  "pattern_test anchored [] path = (anchored \<longrightarrow> path = [])"
  "pattern_test anchored (CHR ''*'' # body) path = some_suffix (pattern_test anchored body) path"
  "c \<noteq> CHR ''*'' \<Longrightarrow> pattern_test anchored (c # body) path =
     (case path of [] \<Rightarrow> False | x # xs \<Rightarrow> x = c \<and> pattern_test anchored body xs)"
  by (simp add: pattern_test_def starts_with_iff,
      simp only: pattern_test_def regex_test_Cons_star fun_eq_iff cong: some_suffix_cong,
      simp only: pattern_test_def, rule regex_test_Cons_literal)

lemma glob_unanchored: "\<not> ends_with p ''$'' \<Longrightarrow> glob p path = pattern_test False p path"
proof (induction p arbitrary: path)
  case (Cons c p)
  from Cons.prems have p: "p = [] \<and> c \<noteq> CHR ''$'' \<or> p \<noteq> [] \<and> \<not> ends_with p ''$''"
    by (auto simp: ends_with_dollar)
  have "glob p = pattern_test False p"
    using p Cons.IH by (cases "p = []") (auto simp: pattern_test_simps)
  with p show ?case
    by (cases "c = CHR ''*''") (auto simp: pattern_test_simps split: list.split)
qed (simp add: pattern_test_simps)

lemma glob_anchored: "glob (p @ ''$'') path = pattern_test True p path"
proof (induction p arbitrary: path)
  case (Cons c p)
  then have "glob (p @ ''$'') = pattern_test True p" by blast
  then show ?case
    by (cases "c = CHR ''*''") (auto simp: pattern_test_simps split: list.split)
qed (simp add: pattern_test_simps)

lemma glob_regex:
  "glob p path = pattern_test (ends_with p ''$'') (if ends_with p ''$'' then butlast p else p) path"
proof (cases "ends_with p ''$''")
  case True
  then have "p = butlast p @ ''$''" by (cases p rule: rev_cases) (auto simp: ends_with_def)
  with True show ?thesis using glob_anchored [of "butlast p" path] by simp
qed (simp add: glob_unanchored)

lemma matches_glob: "matchesPattern pattern path = glob pattern path"
  unfolding matchesPattern_def Let_def glob_regex pattern_test_def ..

text \<open>
  C38: A pattern of robots.txt means what RFC 9309 says: the regular expression the code builds from it
  accepts a path exactly when the pattern, read character by character, matches it.
\<close>

theorem robots_pattern_meaning: "matchesPattern pattern path = glob pattern path"
  by (rule matches_glob)

section \<open>The verdict, independent of the order of the rules\<close>

text \<open>The rank of a matching rule: its length first, then Allow before Disallow.\<close>

definition rule_rank :: "RobotsRule \<Rightarrow> nat" where
  "rule_rank r = 2 * length (rule_pattern r) + (if rule_type r = Allow then 1 else 0)"

lemma rule_rank_less:
  "rule_rank b < rule_rank r \<longleftrightarrow>
     length (rule_pattern b) < length (rule_pattern r)
       \<or> (length (rule_pattern r) = length (rule_pattern b) \<and> rule_type r = Allow \<and> rule_type b = Disallow)"
  by (cases "rule_type b"; cases "rule_type r") (auto simp: rule_rank_def)

lemma best_rule_Cons:
  "best_rule path best (rule # rest) =
     (if matchesPattern (rule_pattern rule) path \<and> (\<forall>b. best = Some b \<longrightarrow> rule_rank b < rule_rank rule)
      then best_rule path (Some rule) rest else best_rule path best rest)"
  by (cases best) (simp_all add: rule_rank_less)

lemma best_rule_None [simp]:
  "best_rule path best rs = None \<longleftrightarrow> best = None \<and> (\<forall>r \<in> set rs. \<not> matchesPattern (rule_pattern r) path)"
  by (induction rs arbitrary: best) (auto simp: best_rule_Cons simp del: best_rule.simps(2))

lemma best_rule_Some:
  "best_rule path best rs = Some r \<Longrightarrow>
     (best = Some r \<or> (r \<in> set rs \<and> matchesPattern (rule_pattern r) path))
     \<and> (\<forall>b. best = Some b \<longrightarrow> rule_rank b \<le> rule_rank r)
     \<and> (\<forall>x \<in> set rs. matchesPattern (rule_pattern x) path \<longrightarrow> rule_rank x \<le> rule_rank r)"
proof (induction rs arbitrary: best)
  case (Cons x rs)
  show ?case
  proof (cases "matchesPattern (rule_pattern x) path \<and> (\<forall>b. best = Some b \<longrightarrow> rule_rank b < rule_rank x)")
    case True
    then have "best_rule path (Some x) rs = Some r" using Cons.prems unfolding best_rule_Cons by simp
    from Cons.IH [OF this] True show ?thesis by fastforce
  next
    case False
    then have "best_rule path best rs = Some r" using Cons.prems unfolding best_rule_Cons by (simp only: if_False)
    from Cons.IH [OF this] False show ?thesis by fastforce
  qed
qed simp

text \<open>
  The verdict of robots.txt for a path does not depend on the order of the file's rules: the path
  is refused exactly when some Disallow of the selected groups matches it and is longer than every
  Allow of those groups that matches it.
\<close>

theorem robots_verdict_exact:
  "isPathAllowed robots agent path \<longleftrightarrow>
     \<not> (\<exists>d \<in> set (selectRules robots agent). rule_type d = Disallow \<and> glob (rule_pattern d) path
          \<and> (\<forall>a \<in> set (selectRules robots agent). rule_type a = Allow \<and> glob (rule_pattern a) path
               \<longrightarrow> length (rule_pattern a) < length (rule_pattern d)))"
proof (cases "best_rule path None (selectRules robots agent)")
  case None
  then have "isPathAllowed robots agent path" by (simp only: isPathAllowed_def option.case)
  with None show ?thesis by (simp add: matches_glob)
next
  case (Some r)
  have r: "r \<in> set (selectRules robots agent)" "glob (rule_pattern r) path"
    and top: "\<And>x. x \<in> set (selectRules robots agent) \<Longrightarrow> glob (rule_pattern x) path \<Longrightarrow> rule_rank x \<le> rule_rank r"
    using best_rule_Some [OF Some] by (simp_all add: matches_glob)
  show ?thesis
  proof (cases "rule_type r")
    case Allow
    have "length (rule_pattern d) \<le> length (rule_pattern r)"
      if "d \<in> set (selectRules robots agent)" "glob (rule_pattern d) path" for d
      using top [OF that] by (simp add: rule_rank_def Allow split: if_splits)
    with r Allow Some show ?thesis by (fastforce simp: isPathAllowed_def)
  next
    case Disallow
    have "length (rule_pattern a) < length (rule_pattern r)"
      if "a \<in> set (selectRules robots agent)" "glob (rule_pattern a) path" "rule_type a = Allow" for a
      using top [OF that(1,2)] that(3) by (simp add: rule_rank_def Disallow)
    with r Disallow Some show ?thesis by (auto simp: isPathAllowed_def)
  qed
qed

text \<open>A rule against Bingbot that a longer Allow for the same group outranks, and one it does not.\<close>

definition sample_robots :: RobotsTxt where
  "sample_robots = parseRobotsTxt
     (''User-agent: bingbot'' @ [LF] @ ''Disallow: /a*'' @ [LF] @ ''Allow: /a/b$'' @ [CR, LF]
      @ ''User-agent: *'' @ [LF] @ ''Disallow: /'')"

lemma sample_robots_value:
  "sample_robots = \<lparr> robots_groups =
     [\<lparr> userAgents = [''bingbot''],
        group_rules = [\<lparr> rule_type = Disallow, rule_pattern = ''/a*'' \<rparr>, \<lparr> rule_type = Allow, rule_pattern = ''/a/b$'' \<rparr>] \<rparr>,
      \<lparr> userAgents = [''*''], group_rules = [\<lparr> rule_type = Disallow, rule_pattern = ''/'' \<rparr>] \<rparr>],
     sitemaps = [] \<rparr>"
  by code_simp

theorem robots_verdict_exact_witness:
  "isPathAllowed sample_robots ''Bingbot'' ''/a/b'' \<and> \<not> isPathAllowed sample_robots ''Bingbot'' ''/a/bc''"
proof -
  have rules: "set (selectRules sample_robots ''Bingbot'') =
    {\<lparr> rule_type = Disallow, rule_pattern = ''/a*'' \<rparr>, \<lparr> rule_type = Allow, rule_pattern = ''/a/b$'' \<rparr>}"
    unfolding sample_robots_value by code_simp
  show ?thesis
    unfolding robots_verdict_exact [of sample_robots "''Bingbot''"] rules by simp
qed

section \<open>Which group, and the evidence of a refusal\<close>

lemma best_token_spec:
  "best_token agent best tokens = Some t \<Longrightarrow>
     (best = Some t \<or> (t \<in> set tokens \<and> t \<noteq> ''*'' \<and> js_includes agent t))
     \<and> (\<forall>b. best = Some b \<longrightarrow> length b \<le> length t)
     \<and> (\<forall>u \<in> set tokens. u \<noteq> ''*'' \<and> js_includes agent u \<longrightarrow> length u \<le> length t)"
proof (induction tokens arbitrary: best)
  case (Cons u us)
  let ?fits = "u \<noteq> ''*'' \<and> js_includes agent u \<and> (\<forall>b. best = Some b \<longrightarrow> length b < length u)"
  have step: "best_token agent best (u # us) = best_token agent (if ?fits then Some u else best) us"
    by (cases best) simp_all
  have "best_token agent (if ?fits then Some u else best) us = Some t" using Cons.prems unfolding step .
  from Cons.IH [OF this] show ?case
    by (cases ?fits) (cases best; simp; fastforce)+
qed simp

lemma best_token_None [simp]:
  "best_token agent best tokens = None \<longleftrightarrow>
     best = None \<and> (\<forall>u \<in> set tokens. u \<noteq> ''*'' \<longrightarrow> \<not> js_includes agent u)"
  by (induction agent best tokens rule: best_token.induct) auto

definition agent_tokens :: "RobotsTxt \<Rightarrow> string set" where
  "agent_tokens robots = (\<Union>g \<in> set (robots_groups robots). set (userAgents g))"

text \<open>The group sought is named by the longest token that occurs in the agent's name, or by \<open>*\<close>.\<close>

lemma wanted_token_cases:
  obtains "wanted_token robots agent = ''*''"
      "\<forall>u \<in> agent_tokens robots. u \<noteq> ''*'' \<longrightarrow> \<not> js_includes (js_lower agent) u"
  | "wanted_token robots agent \<in> agent_tokens robots" "js_includes (js_lower agent) (wanted_token robots agent)"
      "wanted_token robots agent \<noteq> ''*''"
      "\<forall>u \<in> agent_tokens robots. u \<noteq> ''*'' \<and> js_includes (js_lower agent) u
         \<longrightarrow> length u \<le> length (wanted_token robots agent)"
proof -
  let ?tokens = "concat (map userAgents (robots_groups robots))"
  have tokens: "set ?tokens = agent_tokens robots" by (auto simp: agent_tokens_def)
  show thesis
  proof (cases "best_token (js_lower agent) None ?tokens")
    case None
    then have "wanted_token robots agent = ''*''" by (simp only: wanted_token_def Let_def option.case)
    then show thesis using None that(1) unfolding best_token_None tokens by blast
  next
    case (Some t)
    then have "wanted_token robots agent = t" by (simp add: wanted_token_def)
    then show thesis using best_token_spec [OF Some] that(2) unfolding tokens by simp
  qed
qed

lemma map_snd_concat_pairs: "map snd (concat (map (\<lambda>g. map (Pair g) (group_rules g)) gs)) = concat (map group_rules gs)"
  by (induction gs) (simp_all add: comp_def)

lemma block_candidates_rules:
  "map snd (block_candidates robots agent path) =
     filter (\<lambda>r. rule_type r = Disallow \<and> matchesPattern (rule_pattern r) path) (selectRules robots agent)"
  unfolding block_candidates_def selectRules_def map_snd_concat_pairs [symmetric] filter_map
  by (simp add: comp_def case_prod_beta')

lemma block_candidates_own:
  "(g, r) \<in> set (block_candidates robots agent path) \<Longrightarrow> g \<in> set (robots_groups robots) \<and> r \<in> set (group_rules g)"
  by (auto simp: block_candidates_def selected_groups_def)

lemma first_longest_spec:
  "first_longest c cs \<in> set (c # cs)
     \<and> (\<forall>x \<in> set (c # cs). length (rule_pattern (snd x)) \<le> length (rule_pattern (snd (first_longest c cs))))"
proof (induction c cs rule: first_longest.induct)
  case (2 best c cs)
  then show ?case by (fastforce split: if_splits)
qed simp

text \<open>
  A refusal always comes with its evidence: the agents of the group that holds the refusing rule and a
  Disallow of that group, the longest that matches.
\<close>

lemma block_evidence:
  assumes "\<not> isPathAllowed (parseRobotsTxt content) agent path"
  obtains g r where
    "g \<in> set (robots_groups (parseRobotsTxt content))" "r \<in> set (group_rules g)"
    "rule_type r = Disallow" "glob (rule_pattern r) path"
    "\<forall>d \<in> set (selectRules (parseRobotsTxt content) agent).
        rule_type d = Disallow \<and> glob (rule_pattern d) path \<longrightarrow> length (rule_pattern d) \<le> length (rule_pattern r)"
    "robotsBlockEvidence content agent path =
       ''User-agent: '' @ join_with '', '' (userAgents g) @ ''; Disallow: '' @ rule_pattern r"
proof -
  let ?R = "parseRobotsTxt content"
  let ?cs = "block_candidates ?R agent path"
  have rules: "snd ` set ?cs = {d \<in> set (selectRules ?R agent). rule_type d = Disallow \<and> glob (rule_pattern d) path}"
    using arg_cong [OF block_candidates_rules [of ?R agent path], of set] by (simp add: matches_glob)
  obtain d where "best_rule path None (selectRules ?R agent) = Some d" "rule_type d \<noteq> Allow"
    using assms by (auto simp: isPathAllowed_def simp del: best_rule_None split: option.splits)
  then have "d \<in> snd ` set ?cs"
    unfolding rules using best_rule_Some [of path None "selectRules ?R agent" d]
    by (cases "rule_type d") (auto simp: matches_glob)
  then obtain c cs where cs: "?cs = c # cs" by (cases ?cs) auto
  obtain g r where gr: "first_longest c cs = (g, r)" by fastforce
  have mem: "(g, r) \<in> set ?cs" using first_longest_spec [of c cs] by (simp add: gr cs)
  have "\<forall>d \<in> snd ` set ?cs. length (rule_pattern d) \<le> length (rule_pattern r)"
    using first_longest_spec [of c cs] by (simp add: gr cs)
  moreover have "r \<in> snd ` set ?cs" using mem by (rule rev_image_eqI) simp
  ultimately show thesis
    using block_candidates_own [OF mem] unfolding rules
    by (intro that [of g r]) (simp_all add: robotsBlockEvidence_def cs gr)
qed

section \<open>Writing a file that reads back\<close>

text \<open>A field of the file: not empty, no comment sign, no line feed, no space at either end.\<close>

definition plain_field :: "string \<Rightarrow> bool" where
  "plain_field v \<longleftrightarrow> v \<noteq> [] \<and> CHR ''#'' \<notin> set v \<and> LF \<notin> set v \<and> \<not> js_is_space (hd v) \<and> \<not> js_is_space (last v)"

definition rule_line :: "RobotsRule \<Rightarrow> string" where
  "rule_line r = (if rule_type r = Allow then ''Allow: '' else ''Disallow: '') @ rule_pattern r"

definition group_lines :: "RobotsGroup \<Rightarrow> string list" where
  "group_lines g = map (\<lambda>a. ''User-agent: '' @ a) (userAgents g) @ map rule_line (group_rules g)"

definition robots_lines :: "RobotsTxt \<Rightarrow> string list" where
  "robots_lines r = concat (map group_lines (robots_groups r)) @ map (\<lambda>u. ''Sitemap: '' @ u) (sitemaps r)"

definition print_robots :: "RobotsTxt \<Rightarrow> string" where
  "print_robots r = join_with [LF] (robots_lines r)"

definition group_ok :: "RobotsGroup \<Rightarrow> bool" where
  "group_ok g \<longleftrightarrow> userAgents g \<noteq> [] \<and> group_rules g \<noteq> []
     \<and> list_all (\<lambda>a. plain_field a \<and> js_lower a = a) (userAgents g)
     \<and> list_all (\<lambda>r. plain_field (rule_pattern r)) (group_rules g)"

definition robots_ok :: "RobotsTxt \<Rightarrow> bool" where
  "robots_ok r \<longleftrightarrow> list_all group_ok (robots_groups r) \<and> list_all plain_field (sitemaps r)"

lemma js_trim_id: "s \<noteq> [] \<Longrightarrow> \<not> js_is_space (hd s) \<Longrightarrow> \<not> js_is_space (last s) \<Longrightarrow> js_trim s = s"
proof -
  have same: "dropWhile P xs = xs" if "xs \<noteq> []" "\<not> P (hd xs)" for P and xs :: string
    using that by (cases xs) auto
  assume "s \<noteq> []" "\<not> js_is_space (hd s)" "\<not> js_is_space (last s)"
  then show ?thesis by (simp add: js_trim_def same hd_rev)
qed

lemma js_trim_space: "js_is_space c \<Longrightarrow> js_trim (c # s) = js_trim s"
  by (simp add: js_trim_def)

lemma index_of_append: "x \<notin> set xs \<Longrightarrow> index_of x (xs @ x # ys) = Some (length xs)"
  by (induction xs) auto

lemma space_simps [simp]:
  "js_is_space CHR '' ''" "js_is_space CR" "\<not> js_is_space CHR ''U''" "\<not> js_is_space CHR ''A''"
  "\<not> js_is_space CHR ''D''" "\<not> js_is_space CHR ''S''"
  by code_simp+

text \<open>A printed line \<open>Name: v\<close> is the directive it was printed from.\<close>

lemma printed_line:
  assumes v: "plain_field v"
    and name: "name \<noteq> []" "\<not> js_is_space (hd name)" "js_trim name = name"
      "CHR '':'' \<notin> set name" "CHR ''#'' \<notin> set name"
  shows "line_step (name @ '': '' @ v) p = directive_step (js_lower name) v p"
proof -
  let ?line = "name @ '': '' @ v"
  have v': "v \<noteq> []" "\<not> js_is_space (hd v)" "\<not> js_is_space (last v)" "CHR ''#'' \<notin> set v"
    using v by (auto simp: plain_field_def)
  have "index_of (CHR ''#'') ?line = None" unfolding index_of_None using v' name by simp
  then have "stripComment ?line = ?line" by (simp only: stripComment_def option.case)
  moreover have "js_trim ?line = ?line" using v' name by (intro js_trim_id) simp_all
  moreover have "parseDirective ?line = Some (js_lower name, v)"
    using index_of_append [OF name(4), of "'' '' @ v"] js_trim_id [OF v'(1-3)] name(3)
    by (simp add: parseDirective_def js_trim_space)
  ultimately show ?thesis by (simp add: line_step_def)
qed

lemma printed_names:
  "js_lower ''User-agent'' = ''user-agent''" "js_lower ''Allow'' = ''allow''"
  "js_lower ''Disallow'' = ''disallow''" "js_lower ''Sitemap'' = ''sitemap''"
  "js_trim ''User-agent'' = ''User-agent''" "js_trim ''Allow'' = ''Allow''"
  "js_trim ''Disallow'' = ''Disallow''" "js_trim ''Sitemap'' = ''Sitemap''"
  by code_simp+

lemma printed_steps:
  assumes "plain_field v"
  shows "line_step (''User-agent: '' @ v) p = directive_step ''user-agent'' v p"
    "line_step (''Allow: '' @ v) p = directive_step ''allow'' v p"
    "line_step (''Disallow: '' @ v) p = directive_step ''disallow'' v p"
    "line_step (''Sitemap: '' @ v) p = directive_step ''sitemap'' v p"
  using printed_line [OF assms, of "''User-agent''" p] printed_line [OF assms, of "''Allow''" p]
    printed_line [OF assms, of "''Disallow''" p] printed_line [OF assms, of "''Sitemap''" p]
  by (simp_all add: printed_names)

lemma fold_agents:
  "list_all (\<lambda>a. plain_field a \<and> js_lower a = a) as \<Longrightarrow> collectingAgents p \<Longrightarrow>
     fold line_step (map (\<lambda>a. ''User-agent: '' @ a) as) p = p\<lparr> currentAgents := currentAgents p @ as \<rparr>"
proof (induction as arbitrary: p)
  case (Cons a as)
  then have a: "plain_field a" "js_lower a = a" "a \<noteq> []" by (auto simp: plain_field_def)
  have "line_step (''User-agent: '' @ a) p = p\<lparr> currentAgents := currentAgents p @ [a] \<rparr>"
    using a Cons.prems(2) unfolding printed_steps(1) [OF a(1)] by (simp add: directive_step_def)
  then show ?case using Cons.IH [of "p\<lparr> currentAgents := currentAgents p @ [a] \<rparr>"] Cons.prems by simp
qed simp

lemma fold_rules:
  "list_all (\<lambda>r. plain_field (rule_pattern r)) rs \<Longrightarrow> rs \<noteq> [] \<Longrightarrow>
     fold line_step (map rule_line rs) p = p\<lparr> currentRules := currentRules p @ rs, collectingAgents := False \<rparr>"
proof (induction rs arbitrary: p)
  case (Cons r rs)
  then have r: "plain_field (rule_pattern r)" "rule_pattern r \<noteq> []" by (auto simp: plain_field_def)
  have rule: "\<lparr> rule_type = rule_type r, rule_pattern = rule_pattern r \<rparr> = r" by simp
  have "line_step (rule_line r) p = p\<lparr> currentRules := currentRules p @ [r], collectingAgents := False \<rparr>"
    using r(2) rule printed_steps(2,3) [OF r(1), of p]
    by (cases "rule_type r") (simp_all add: rule_line_def directive_step_def)
  then show ?case using Cons by (cases "rs = []") simp_all
qed simp

lemma fold_group:
  assumes "group_ok g" "\<not> collectingAgents p"
  shows "fold line_step (group_lines g) p =
    (flushGroup p)\<lparr> currentAgents := userAgents g, currentRules := group_rules g, collectingAgents := False \<rparr>"
proof -
  obtain a as where as: "userAgents g = a # as" using assms(1) by (cases "userAgents g") (auto simp: group_ok_def)
  have a: "plain_field a" "js_lower a = a" "a \<noteq> []"
    and rest: "list_all (\<lambda>a. plain_field a \<and> js_lower a = a) as"
    using assms(1) by (auto simp: group_ok_def as plain_field_def)
  let ?p1 = "(flushGroup p)\<lparr> collectingAgents := True, currentAgents := [a] \<rparr>"
  have "line_step (''User-agent: '' @ a) p = ?p1"
    using a assms(2) unfolding printed_steps(1) [OF a(1)] by (simp add: directive_step_def Let_def flushGroup_def)
  then have "fold line_step (map (\<lambda>a. ''User-agent: '' @ a) (userAgents g)) p = ?p1\<lparr> currentAgents := userAgents g \<rparr>"
    using fold_agents [OF rest, of ?p1] by (simp add: as)
  then show ?thesis
    using fold_rules [of "group_rules g" "?p1\<lparr> currentAgents := userAgents g \<rparr>"] assms(1)
    by (simp add: group_lines_def group_ok_def flushGroup_def)
qed

lemma fold_groups:
  "list_all group_ok gs \<Longrightarrow> \<not> collectingAgents p \<Longrightarrow>
     flushGroup (fold line_step (concat (map group_lines gs)) p) =
       (flushGroup p)\<lparr> done_groups := done_groups (flushGroup p) @ gs \<rparr>
     \<and> \<not> collectingAgents (fold line_step (concat (map group_lines gs)) p)
     \<and> found_sitemaps (fold line_step (concat (map group_lines gs)) p) = found_sitemaps p"
proof (induction gs arbitrary: p)
  case (Cons g gs)
  have "\<lparr> userAgents = userAgents g, group_rules = group_rules g \<rparr> = g" by simp
  then show ?case
    using Cons fold_group [of g p] by (simp add: flushGroup_def group_ok_def)
qed (simp add: flushGroup_def)

lemma fold_sitemaps:
  "list_all plain_field us \<Longrightarrow>
     fold line_step (map (\<lambda>u. ''Sitemap: '' @ u) us) p = p\<lparr> found_sitemaps := found_sitemaps p @ us \<rparr>"
proof (induction us arbitrary: p)
  case (Cons u us)
  then have u: "plain_field u" "u \<noteq> []" by (auto simp: plain_field_def)
  have "line_step (''Sitemap: '' @ u) p = p\<lparr> found_sitemaps := found_sitemaps p @ [u] \<rparr>"
    using u(2) unfolding printed_steps(4) [OF u(1)] by (simp add: directive_step_def)
  with Cons show ?case by simp
qed simp

text \<open>No printed line holds a line feed or ends with a carriage return, so the lines come back.\<close>

definition clean_line :: "string \<Rightarrow> bool" where
  "clean_line l \<longleftrightarrow> LF \<notin> set l \<and> (l \<noteq> [] \<longrightarrow> last l \<noteq> CR)"

lemma clean_field: "plain_field v \<Longrightarrow> LF \<notin> set name \<Longrightarrow> clean_line (name @ v)"
  by (auto simp: clean_line_def plain_field_def)

lemma clean_lines: "robots_ok r \<Longrightarrow> \<forall>l \<in> set (robots_lines r). clean_line l"
proof -
  assume ok: "robots_ok r"
  have names: "LF \<notin> set ''User-agent: ''" "LF \<notin> set ''Allow: ''" "LF \<notin> set ''Disallow: ''" "LF \<notin> set ''Sitemap: ''"
    by code_simp+
  have "clean_line l" if "g \<in> set (robots_groups r)" "l \<in> set (group_lines g)" for g l
  proof -
    have "group_ok g" using ok that(1) by (auto simp: robots_ok_def list_all_iff)
    then show ?thesis
      using that(2) clean_field [OF _ names(1)] clean_field [OF _ names(2)] clean_field [OF _ names(3)]
      by (auto simp: group_ok_def group_lines_def rule_line_def list_all_iff)
  qed
  moreover have "clean_line (''Sitemap: '' @ u)" if "u \<in> set (sitemaps r)" for u
    using ok that by (intro clean_field names(4)) (auto simp: robots_ok_def list_all_iff)
  ultimately show ?thesis unfolding robots_lines_def by fastforce
qed

lemma drop_cr_clean: "clean_line l \<Longrightarrow> drop_cr l = l"
  by (auto simp: drop_cr_def clean_line_def)

lemma split_lines_join:
  assumes "ls \<noteq> []" "\<forall>l \<in> set ls. clean_line l"
  shows "split_lines (join_with [LF] ls) = ls"
proof -
  have "split_on LF (join_with [LF] ls) = ls"
    using assms by (intro split_join) (auto simp: clean_line_def)
  moreover have "map drop_cr (butlast ls) = butlast ls"
    using assms(2) by (intro map_idI) (auto dest: in_set_butlastD intro: drop_cr_clean)
  ultimately show ?thesis using assms(1) by (simp add: split_lines_def)
qed

text \<open>
  A robots.txt written line by line from groups (agents in lower case, at least one agent and one
  rule each) and sitemap addresses is parsed back to exactly those groups, rules and addresses, in order.
\<close>

theorem robots_round_trip:
  assumes "robots_ok r"
  shows "parseRobotsTxt (print_robots r) = r"
proof -
  let ?p = "fold line_step (concat (map group_lines (robots_groups r))) parser_start"
  have groups: "flushGroup ?p = (flushGroup parser_start)\<lparr> done_groups := robots_groups r \<rparr>"
      "found_sitemaps ?p = []"
    using fold_groups [of "robots_groups r" parser_start] assms
    by (simp_all add: robots_ok_def parser_start_def flushGroup_def)
  have "fold line_step (split_lines (print_robots r)) parser_start = fold line_step (robots_lines r) parser_start"
  proof (cases "robots_lines r = []")
    case True
    have "split_lines [] = [[]]" "line_step [] parser_start = parser_start" by code_simp+
    then show ?thesis by (simp add: True print_robots_def)
  qed (simp add: print_robots_def split_lines_join clean_lines [OF assms])
  moreover have "fold line_step (robots_lines r) parser_start = ?p\<lparr> found_sitemaps := sitemaps r \<rparr>"
    using fold_sitemaps [of "sitemaps r" ?p] assms groups(2)
    by (simp add: robots_lines_def robots_ok_def)
  moreover have "flushGroup (?p\<lparr> found_sitemaps := sitemaps r \<rparr>) = (flushGroup ?p)\<lparr> found_sitemaps := sitemaps r \<rparr>"
    by (simp add: flushGroup_def)
  ultimately show ?thesis by (simp add: parseRobotsTxt_def groups(1))
qed

definition printable_robots :: RobotsTxt where
  "printable_robots = \<lparr> robots_groups =
     [\<lparr> userAgents = [''googlebot'', ''bingbot''],
        group_rules = [\<lparr> rule_type = Disallow, rule_pattern = ''/private/*'' \<rparr>, \<lparr> rule_type = Allow, rule_pattern = ''/$'' \<rparr>] \<rparr>,
      \<lparr> userAgents = [''*''], group_rules = [\<lparr> rule_type = Disallow, rule_pattern = ''/a b:c'' \<rparr>] \<rparr>],
     sitemaps = [''https://example.test/sitemap.xml''] \<rparr>"

theorem robots_round_trip_witness:
  "parseRobotsTxt (print_robots printable_robots) = printable_robots"
  by (rule robots_round_trip) code_simp

end
