(* ===== verification/CreemEvents.thy ===== *)
theory CreemEvents
  imports Money
begin

text \<open>
  Reading a payment provider's delivery: \<open>apps/api/src/billing/creem/events.ts\<close>. A parsed JSON text is
  a value of \<open>json\<close>; the members of an object are its own properties, each key once. The
  schemas check what the code states of them and ignore other members. Everything after this module
  works on the typed events it returns.
\<close>

section \<open>JSON\<close>

datatype json =
    JNull | JBool bool | JNumber js_number | JString string
  | JArray "json list" | JObject "(string \<times> json) list"

type_synonym json_object = "(string \<times> json) list"

text \<open>\<open>typeof value === 'string' && value.trim() !== ''\<close>; an absent member is \<open>None\<close>.\<close>

fun readString :: "json option \<Rightarrow> string option" where
  "readString (Some (JString s)) = (if js_trim s \<noteq> [] then Some s else None)"
| "readString _ = None"

fun readInteger :: "json option \<Rightarrow> int option" where
  "readInteger (Some (JNumber (Num r))) = (if of_int \<lfloor>r\<rfloor> = r \<and> 0 \<le> r then Some \<lfloor>r\<rfloor> else None)"
| "readInteger _ = None"

fun isRecord :: "json option \<Rightarrow> bool" where
  "isRecord (Some (JObject members)) = True"
| "isRecord _ = False"

fun nested :: "json_object \<Rightarrow> string \<Rightarrow> json_object option" where
  "nested data key = (case map_of data key of Some (JObject members) \<Rightarrow> Some members | _ \<Rightarrow> None)"

text \<open>\<open>object?.[key]\<close>.\<close>

definition field :: "json_object option \<Rightarrow> string \<Rightarrow> json option" where
  "field object key = (case object of None \<Rightarrow> None | Some members \<Rightarrow> map_of members key)"

fun is_string :: "json \<Rightarrow> bool" where
  "is_string (JString s) = True"
| "is_string _ = False"

text \<open>An object all of whose members are strings, or else the empty one.\<close>

fun readStringMap :: "json option \<Rightarrow> json_object" where
  "readStringMap (Some (JObject members)) = (if list_all (\<lambda>(k, v). is_string v) members then members else [])"
| "readStringMap _ = []"

section \<open>The envelope\<close>

record RawCreemEvent =
  raw_id :: string
  raw_eventType :: string
  raw_object :: "json_object option"

fun finite_number :: "json option \<Rightarrow> bool" where
  "finite_number None = True"
| "finite_number (Some (JNumber (Num r))) = True"
| "finite_number _ = False"

fun rawEventSchema :: "json \<Rightarrow> RawCreemEvent option" where
  "rawEventSchema (JObject members) =
     (case (map_of members ''id'', map_of members ''eventType'') of
        (Some (JString i), Some (JString t)) \<Rightarrow>
          if i = [] \<or> t = [] \<or> \<not> finite_number (map_of members ''created_at'') then None
          else (case map_of members ''object'' of
                  None \<Rightarrow> Some \<lparr> raw_id = i, raw_eventType = t, raw_object = None \<rparr>
                | Some (JObject object) \<Rightarrow> Some \<lparr> raw_id = i, raw_eventType = t, raw_object = Some object \<rparr>
                | Some _ \<Rightarrow> None)
      | _ \<Rightarrow> None)"
| "rawEventSchema _ = None"

fun parse_all :: "json list \<Rightarrow> RawCreemEvent list option" where
  "parse_all [] = Some []"
| "parse_all (x # xs) =
     (case rawEventSchema x of None \<Rightarrow> None | Some e \<Rightarrow> map_option (Cons e) (parse_all xs))"

definition parseCreemEnvelope :: "json \<Rightarrow> RawCreemEvent list option" where
  "parseCreemEnvelope body =
     (case rawEventSchema body of
        Some e \<Rightarrow> Some [e]
      | None \<Rightarrow> (case body of JArray (x # xs) \<Rightarrow> parse_all (x # xs) | _ \<Rightarrow> None))"

section \<open>The typed events\<close>

datatype CreemTaxMode = Inclusive | Exclusive

record CreemCheckoutCompletedEvent = checkout_event +
  checkoutId :: string
  requestId :: "string option"
  metadataReference :: "string option"
  co_orderId :: string
  productId :: "string option"
  taxMode :: "CreemTaxMode option"
  orderStatus :: "string option"
  customerEmail :: "string option"

record CreemRefundCreatedEvent = refund_event +
  refundId :: "string option"
  re_orderId :: "string option"
  transactionId :: "string option"
  re_status :: "string option"
  re_reason :: "string option"

record CreemDisputeCreatedEvent =
  disputeId :: "string option"
  di_orderId :: "string option"
  di_amount :: "int option"
  di_currency :: "string option"

datatype NormalizedCreemEvent =
    CheckoutCompleted CreemCheckoutCompletedEvent
  | RefundCreated CreemRefundCreatedEvent
  | DisputeCreated CreemDisputeCreatedEvent

definition checkoutCompleted :: string where "checkoutCompleted = ''checkout.completed''"
definition refundCreated :: string where "refundCreated = ''refund.created''"
definition disputeCreated :: string where "disputeCreated = ''dispute.created''"

definition CREEM_CHECKOUT_REFERENCE_KEY :: string where
  "CREEM_CHECKOUT_REFERENCE_KEY = ''fluxradarCheckoutRef''"

definition readTaxMode :: "string option \<Rightarrow> CreemTaxMode option" where
  "readTaxMode stated =
     (if stated = Some ''inclusive'' then Some Inclusive
      else if stated = Some ''exclusive'' then Some Exclusive else None)"

text \<open>\<open>Inl\<close> is the reason of \<open>ok: false\<close>.\<close>

definition normalizeCheckoutCompleted :: "json_object \<Rightarrow> string + NormalizedCreemEvent" where
  "normalizeCheckoutCompleted object =
     (case readString (map_of object ''id'') of
        None \<Rightarrow> Inl ''checkout.completed payload has no checkout id''
      | Some checkout \<Rightarrow>
          let order = nested object ''order'' in
          (case first_of (readString (field order ''id'')) (readString (map_of object ''order'')) of
             None \<Rightarrow> Inl ''checkout.completed payload has no order id''
           | Some oid \<Rightarrow>
               let product = nested object ''product'';
                   customer = nested object ''customer'';
                   metadata = readStringMap (map_of object ''metadata'');
                   off = readInteger (field order ''discount_amount'')
               in Inr (CheckoutCompleted
                    \<lparr> amount = readInteger (field order ''amount''),
                      subTotal = readInteger (field order ''sub_total''),
                      taxAmount = readInteger (field order ''tax_amount''),
                      amountDue = readInteger (field order ''amount_due''),
                      amountPaid = readInteger (field order ''amount_paid''),
                      discountAmount = off,
                      hasDiscount = (isRecord (map_of object ''discount'')
                        \<or> readString (field order ''discount'') \<noteq> None
                        \<or> (case off of None \<Rightarrow> False | Some d \<Rightarrow> 0 < d)),
                      event_currency = first_of (readString (field order ''currency'')) (readString (field product ''currency'')),
                      checkoutId = checkout,
                      requestId = readString (map_of object ''request_id''),
                      metadataReference = readString (map_of metadata CREEM_CHECKOUT_REFERENCE_KEY),
                      co_orderId = oid,
                      productId = first_of (first_of (readString (field product ''id'')) (readString (field order ''product'')))
                        (readString (map_of object ''product'')),
                      taxMode = readTaxMode (readString (field product ''tax_mode'')),
                      orderStatus = readString (field order ''status''),
                      customerEmail = readString (field customer ''email'') \<rparr>)))"

definition linked_order :: "json_object \<Rightarrow> string option" where
  "linked_order object =
     first_of (first_of (readString (field (nested object ''order'') ''id'')) (readString (map_of object ''order'')))
       (readString (field (nested object ''transaction'') ''order''))"

definition normalizeRefundCreated :: "json_object \<Rightarrow> CreemRefundCreatedEvent" where
  "normalizeRefundCreated object =
     \<lparr> refundAmount = readInteger (map_of object ''refund_amount''),
       refundCurrency = readString (map_of object ''refund_currency''),
       refundId = readString (map_of object ''id''),
       re_orderId = linked_order object,
       transactionId = first_of (readString (field (nested object ''transaction'') ''id''))
         (readString (map_of object ''transaction'')),
       re_status = readString (map_of object ''status''),
       re_reason = readString (map_of object ''reason'') \<rparr>"

definition normalizeDisputeCreated :: "json_object \<Rightarrow> CreemDisputeCreatedEvent" where
  "normalizeDisputeCreated object =
     \<lparr> disputeId = readString (map_of object ''id''),
       di_orderId = linked_order object,
       di_amount = readInteger (map_of object ''amount''),
       di_currency = readString (map_of object ''currency'') \<rparr>"

definition normalizeCreemEvent :: "RawCreemEvent \<Rightarrow> string + NormalizedCreemEvent" where
  "normalizeCreemEvent raw =
     (let object = (case raw_object raw of None \<Rightarrow> [] | Some members \<Rightarrow> members) in
      if raw_eventType raw = checkoutCompleted then normalizeCheckoutCompleted object
      else if raw_eventType raw = refundCreated then Inr (RefundCreated (normalizeRefundCreated object))
      else if raw_eventType raw = disputeCreated then Inr (DisputeCreated (normalizeDisputeCreated object))
      else Inl (''unsupported event type '' @ raw_eventType raw))"

definition CREEM_LIVE_MODE :: string where
  "CREEM_LIVE_MODE = ''prod''"

definition readCreemEventLiveFlag :: "RawCreemEvent \<Rightarrow> bool option" where
  "readCreemEventLiveFlag raw =
     map_option (\<lambda>m. m = CREEM_LIVE_MODE)
       (readString (map_of (case raw_object raw of None \<Rightarrow> [] | Some members \<Rightarrow> members) ''mode''))"

fun creemOrderIdOf :: "NormalizedCreemEvent \<Rightarrow> string option" where
  "creemOrderIdOf (CheckoutCompleted e) = Some (co_orderId e)"
| "creemOrderIdOf (RefundCreated e) = re_orderId e"
| "creemOrderIdOf (DisputeCreated e) = di_orderId e"

definition readCreemCheckoutReference :: "CreemCheckoutCompletedEvent \<Rightarrow> string option" where
  "readCreemCheckoutReference event = first_of (requestId event) (metadataReference event)"

section \<open>What every event satisfies\<close>

definition stated_text :: "string option \<Rightarrow> bool" where
  "stated_text s \<longleftrightarrow> (case s of None \<Rightarrow> True | Some t \<Rightarrow> js_trim t \<noteq> [])"

definition stated_cents :: "int option \<Rightarrow> bool" where
  "stated_cents n \<longleftrightarrow> (case n of None \<Rightarrow> True | Some c \<Rightarrow> 0 \<le> c)"

lemma stated_text_simps [simp]:
  "stated_text (readString j)"
  "stated_text a \<Longrightarrow> stated_text b \<Longrightarrow> stated_text (first_of a b)"
  by (induction j rule: readString.induct) (auto simp: stated_text_def first_of_def split: option.splits)

lemma stated_cents_readInteger [simp]: "stated_cents (readInteger j)"
  by (induction j rule: readInteger.induct) (auto simp: stated_cents_def)

fun event_well_typed :: "NormalizedCreemEvent \<Rightarrow> bool" where
  "event_well_typed (CheckoutCompleted e) =
     (list_all stated_cents [amount e, subTotal e, taxAmount e, amountDue e, amountPaid e, discountAmount e]
      \<and> list_all stated_text [event_currency e, Some (checkoutId e), requestId e, metadataReference e,
           Some (co_orderId e), productId e, orderStatus e, customerEmail e]
      \<and> (\<forall>d. discountAmount e = Some d \<and> 0 < d \<longrightarrow> hasDiscount e))"
| "event_well_typed (RefundCreated e) =
     (stated_cents (refundAmount e)
      \<and> list_all stated_text [refundCurrency e, refundId e, re_orderId e, transactionId e, re_status e, re_reason e])"
| "event_well_typed (DisputeCreated e) =
     (stated_cents (di_amount e) \<and> list_all stated_text [disputeId e, di_orderId e, di_currency e])"

lemma linked_order_text [simp]: "stated_text (linked_order object)"
  by (simp add: linked_order_def)

lemma checkout_well_typed:
  "normalizeCheckoutCompleted object = Inr e \<Longrightarrow> event_well_typed e \<and> (\<exists>c. e = CheckoutCompleted c)"
proof (cases "readString (map_of object ''id'')")
  case (Some checkout)
  then have c: "stated_text (Some checkout)" using stated_text_simps(1) by metis
  let ?oid = "first_of (readString (field (nested object ''order'') ''id'')) (readString (map_of object ''order''))"
  assume e: "normalizeCheckoutCompleted object = Inr e"
  show ?thesis
  proof (cases ?oid)
    case None
    with e Some show ?thesis by (simp add: normalizeCheckoutCompleted_def Let_def)
  next
    case oid: (Some oid)
    have "stated_text ?oid" by simp
    then have o: "stated_text (Some oid)" unfolding oid .
    show ?thesis using e Some oid c o
      by (auto simp: normalizeCheckoutCompleted_def Let_def simp del: nested.simps)
  qed
qed (simp add: normalizeCheckoutCompleted_def)



end
