(* ===== verification/Shop.thy ===== *)
theory Shop
  imports CreemEvents Billing ReportAccess
begin

text \<open>
  The tables of a sale and what turns a payment into access: the checkout session's lifecycle
  (\<open>apps/api/src/billing/checkout-lifecycle.ts\<close>, \<open>closeUnopenedSession\<close> of \<open>checkout-preconditions.ts\<close>, the
  session sweep of \<open>data-retention.ts\<close>), \<open>paid-scan.ts\<close> and the stored webhook deliveries. A purchase of the
  provider is named by its order, which \<open>@@unique([provider, providerTransactionId])\<close> makes one row each;
  its entitlement is a part of it, as \<open>purchaseId\<close> is unique there too. A session is named by its unique
  reference. The tables that cancellation, refunds and the outbox work on are the \<open>billing\<close> part.
\<close>

section \<open>Rows\<close>

datatype PurchaseStatus = Paid | Refunded | Disputed

fun PURCHASE_STATUSES :: "PurchaseStatus \<Rightarrow> string" where
  "PURCHASE_STATUSES Paid = ''paid''"
| "PURCHASE_STATUSES Refunded = ''Refunded''"
| "PURCHASE_STATUSES Disputed = ''Disputed''"

datatype CheckoutSessionStatus = SessionCreated | SessionCompleted | SessionRejected

text \<open>The columns of a purchase besides those of \<open>purchase_row\<close>, and its entitlement.\<close>

record grant =
  g_accountId :: string
  g_siteProfileId :: string
  g_plan :: string
  g_priceId :: string
  g_settledAmount :: "rat option"
  g_settledCurrency :: "string option"
  g_status :: PurchaseStatus
  g_entitlement :: "entitlement option"

record checkout_session =
  cs_provider :: string
  cs_accountId :: string
  cs_siteProfileId :: string
  cs_plan :: string
  cs_productPath :: string
  cs_expectedAmountUsd :: rat
  cs_liveMode :: bool
  cs_status :: CheckoutSessionStatus
  cs_statusReason :: "string option"
  cs_settledAmount :: "rat option"
  cs_settledCurrency :: "string option"
  cs_scopeJson :: string
  cs_profileConfigVersion :: int
  cs_executionConfigJson :: "string option"
  cs_aiConsentJson :: "string option"
  cs_purchaseId :: "string option"
  cs_expiresAt :: "nat option"
  cs_createdAt :: nat

datatype WebhookOutcome = Processed | Deduplicated | Ignored | WRejected | Unlinked

record webhook_event =
  we_eventId :: string
  we_accountId :: "string option"
  we_orderId :: "string option"
  we_eventType :: string
  we_outcome :: WebhookOutcome
  we_reason :: "string option"
  we_rawBody :: string
  we_processedAt :: nat

text \<open>What the refund record states of the provider's side, besides the decision's columns.\<close>

record refund_report =
  report_status :: string
  report_eventId :: string
  report_priceId :: string
  report_reasonCode :: string
  report_processedAt :: nat

record shop =
  billing :: billing_db
  grants :: "string \<Rightarrow> grant option"
  sessions :: "string \<Rightarrow> checkout_session option"
  deliveries :: "webhook_event list"
  refund_lines :: "string \<Rightarrow> (string \<times> refund_line) list"
  refund_reports :: "string \<Rightarrow> refund_report option"
  jobs :: "string \<Rightarrow> string option"
  consents :: "string \<Rightarrow> string option"

definition empty_shop :: shop where
  "empty_shop = \<lparr> billing = \<lparr> scans = Map.empty, purchases = Map.empty, refunds = Map.empty, dispatches = Map.empty \<rparr>,
     grants = Map.empty, sessions = Map.empty, deliveries = [], refund_lines = (\<lambda>_. []), refund_reports = Map.empty,
     jobs = Map.empty, consents = Map.empty \<rparr>"

text \<open>
  What the handlers ask of the rest of the program: \<open>JSON.parse\<close>, the printing of a number, the owner of
  a site profile, the execution snapshot of a session (\<open>None\<close> when capturing it throws), the reading of a
  stored consent, the id of a new scan, and what other processes do to the outbox inside a refund's transaction.
\<close>

record shop_world =
  json_parse :: "string \<Rightarrow> json option"
  num_text :: "rat \<Rightarrow> string"
  profile_owner :: "string \<Rightarrow> string option"
  execution_config :: "checkout_session \<Rightarrow> string option"
  consent_of :: "string \<Rightarrow> string option"
  new_scan_id :: "string \<Rightarrow> string"
  dispatch_others :: "nat \<Rightarrow> dispatch_table \<Rightarrow> dispatch_table"

definition CREEM_PROVIDER :: string where
  "CREEM_PROVIDER = ''creem''"

section \<open>The checkout session (checkout-lifecycle.ts)\<close>

definition DAY_MS :: nat where "DAY_MS = 24 * 60 * 60 * 1000"
definition CHECKOUT_SESSION_FALLBACK_TTL_DAYS :: nat where "CHECKOUT_SESSION_FALLBACK_TTL_DAYS = 7"
definition CHECKOUT_ABANDON_GRACE_DAYS :: nat where "CHECKOUT_ABANDON_GRACE_DAYS = 7"

definition providerUnavailable :: string where
  "providerUnavailable = ''checkout could not be opened with the payment provider''"

definition abandoned :: string where
  "abandoned = ''checkout expired before a payment arrived''"

definition provisionalCheckoutDeadline :: "nat \<Rightarrow> nat \<Rightarrow> nat" where
  "provisionalCheckoutDeadline createdAt expirationDays = createdAt + expirationDays * DAY_MS"

text \<open>\<open>t <= daysBefore(now, days)\<close>, on numbers that cannot be negative.\<close>

definition older_than :: "nat \<Rightarrow> nat \<Rightarrow> nat \<Rightarrow> bool" where
  "older_than now days t \<longleftrightarrow> t + days * DAY_MS \<le> now"

definition openCheckoutSession :: "nat \<Rightarrow> checkout_session \<Rightarrow> bool" where
  "openCheckoutSession now row \<longleftrightarrow>
     cs_status row = SessionCreated \<and>
     (case cs_expiresAt row of
        Some t \<Rightarrow> now < t
      | None \<Rightarrow> \<not> older_than now CHECKOUT_SESSION_FALLBACK_TTL_DAYS (cs_createdAt row))"

definition abandonedCheckoutSession :: "nat \<Rightarrow> checkout_session \<Rightarrow> bool" where
  "abandonedCheckoutSession now row \<longleftrightarrow>
     cs_status row = SessionCreated \<and> cs_purchaseId row = None \<and>
     (case cs_expiresAt row of
        Some t \<Rightarrow> older_than now CHECKOUT_ABANDON_GRACE_DAYS t
      | None \<Rightarrow> older_than now (CHECKOUT_SESSION_FALLBACK_TTL_DAYS + CHECKOUT_ABANDON_GRACE_DAYS) (cs_createdAt row))"

definition claimableCheckoutSession :: "checkout_session \<Rightarrow> bool" where
  "claimableCheckoutSession row \<longleftrightarrow>
     cs_purchaseId row = None \<and>
     (cs_status row = SessionCreated \<or> (cs_status row = SessionRejected \<and> cs_statusReason row = Some abandoned))"

definition reject_row :: "string \<Rightarrow> checkout_session \<Rightarrow> checkout_session" where
  "reject_row reason row = row\<lparr> cs_status := SessionRejected, cs_statusReason := Some reason \<rparr>"

definition update_where ::
    "(checkout_session \<Rightarrow> bool) \<Rightarrow> (checkout_session \<Rightarrow> checkout_session) \<Rightarrow> string \<Rightarrow> shop \<Rightarrow> nat \<times> shop" where
  "update_where P f reference s =
     (case sessions s reference of
        Some row \<Rightarrow> if P row then (1, s\<lparr> sessions := (sessions s)(reference \<mapsto> f row) \<rparr>) else (0, s)
      | None \<Rightarrow> (0, s))"

definition markSessionRejected :: "string \<Rightarrow> string \<Rightarrow> shop \<Rightarrow> shop" where
  "markSessionRejected reference reason s = snd (update_where claimableCheckoutSession (reject_row reason) reference s)"

definition closeUnopenedSession :: "string \<Rightarrow> shop \<Rightarrow> shop" where
  "closeUnopenedSession reference s =
     snd (update_where (\<lambda>row. cs_status row = SessionCreated) (reject_row providerUnavailable) reference s)"

text \<open>The retention sweep closes every abandoned session in one statement.\<close>

definition expireAbandonedCheckouts :: "nat \<Rightarrow> shop \<Rightarrow> shop" where
  "expireAbandonedCheckouts now s =
     s\<lparr> sessions := (\<lambda>reference. map_option
          (\<lambda>row. if abandonedCheckoutSession now row then reject_row abandoned row else row) (sessions s reference)) \<rparr>"

text \<open>The row a checkout is opened with, before the provider is called (\<open>creem/checkout-session.ts\<close>).\<close>

definition CREEM_CHECKOUT_DEADLINE_DAYS :: nat where "CREEM_CHECKOUT_DEADLINE_DAYS = 7"

record checkout_request =
  rq_accountId :: string
  rq_siteProfileId :: string
  rq_plan :: plan
  rq_productId :: string
  rq_liveMode :: bool
  rq_scopeJson :: string
  rq_profileConfigVersion :: int
  rq_executionConfigJson :: string
  rq_aiConsentJson :: "string option"

definition new_session :: "checkout_request \<Rightarrow> nat \<Rightarrow> checkout_session" where
  "new_session rq createdAt =
     \<lparr> cs_provider = CREEM_PROVIDER, cs_accountId = rq_accountId rq, cs_siteProfileId = rq_siteProfileId rq,
       cs_plan = plan_string (rq_plan rq), cs_productPath = rq_productId rq,
       cs_expectedAmountUsd = of_int (priceUsd (TARIFFS (rq_plan rq))), cs_liveMode = rq_liveMode rq,
       cs_status = SessionCreated, cs_statusReason = None, cs_settledAmount = None, cs_settledCurrency = None,
       cs_scopeJson = rq_scopeJson rq, cs_profileConfigVersion = rq_profileConfigVersion rq,
       cs_executionConfigJson = Some (rq_executionConfigJson rq), cs_aiConsentJson = rq_aiConsentJson rq,
       cs_purchaseId = None, cs_expiresAt = Some (provisionalCheckoutDeadline createdAt CREEM_CHECKOUT_DEADLINE_DAYS),
       cs_createdAt = createdAt \<rparr>"

text \<open>The reference is a fresh UUID; a reference in use would violate its unique constraint.\<close>

definition openSession :: "string \<Rightarrow> checkout_request \<Rightarrow> nat \<Rightarrow> shop \<Rightarrow> shop" where
  "openSession reference rq createdAt s =
     (case sessions s reference of
        Some row \<Rightarrow> s
      | None \<Rightarrow> s\<lparr> sessions := (sessions s)(reference \<mapsto> new_session rq createdAt) \<rparr>)"

section \<open>A payment becomes access (paid-scan.ts)\<close>

datatype webhook_abort =
    ClaimedSessionRollback string string string string
  | DuplicateEventId
  | DuplicateTransactionId
  | WebhookValidation string
  | Infrastructure

definition isPaidPlan :: "string \<Rightarrow> bool" where
  "isPaidPlan s \<longleftrightarrow> s \<in> set [plan_string Basic, plan_string Complete]"

definition addDays :: "nat \<Rightarrow> int \<Rightarrow> int" where
  "addDays base days = int base + days * 24 * 60 * 60 * 1000"

record paid_scan_params =
  ps_orderId :: string
  ps_reference :: string
  ps_amount :: rat
  ps_settled :: "(rat \<times> string) option"
  ps_now :: nat

definition paid_row :: "shop_world \<Rightarrow> paid_scan_params \<Rightarrow> purchase_row" where
  "paid_row w ps =
     \<lparr> purchase_amountUsd = ps_amount ps, purchase_currency = ''USD'', purchase_provider = CREEM_PROVIDER,
       purchase_transaction = Some (ps_orderId ps), purchase_scan = Some (new_scan_id w (ps_orderId ps)) \<rparr>"

definition paid_grant :: "paid_scan_params \<Rightarrow> checkout_session \<Rightarrow> grant" where
  "paid_grant ps session =
     \<lparr> g_accountId = cs_accountId session, g_siteProfileId = cs_siteProfileId session, g_plan = cs_plan session,
       g_priceId = cs_productPath session, g_settledAmount = map_option fst (ps_settled ps),
       g_settledCurrency = map_option snd (ps_settled ps), g_status = Paid,
       g_entitlement = Some \<lparr> suspended = False, expiresAt = addDays (ps_now ps) ENTITLEMENT_DAYS \<rparr> \<rparr>"

text \<open>
  \<open>session\<close> is the row the order names; a purchase already there violates the unique constraint.
  The inserts are one transaction: \<open>Inl\<close> undoes all of them.
\<close>

definition createPaidScan :: "shop_world \<Rightarrow> paid_scan_params \<Rightarrow> checkout_session \<Rightarrow> shop \<Rightarrow> webhook_abort + shop" where
  "createPaidScan w ps session s =
     (if profile_owner w (cs_siteProfileId session) \<noteq> Some (cs_accountId session) then
        Inl (WebhookValidation (''site profile '' @ cs_siteProfileId session @ '' not found for account '' @ cs_accountId session))
      else if execution_config w session = None then Inl Infrastructure
      else if purchases (billing s) (ps_orderId ps) \<noteq> None then Inl DuplicateTransactionId
      else
        let scan = new_scan_id w (ps_orderId ps);
            db = billing s;
            consent = (case cs_aiConsentJson session of None \<Rightarrow> None | Some j \<Rightarrow> consent_of w j)
        in Inr (s\<lparr> billing := db\<lparr> purchases := (purchases db)(ps_orderId ps \<mapsto> paid_row w ps),
                      scans := scan_step (scans db) (CreateScan scan (Some (ps_orderId ps))) \<rparr>,
                  grants := (grants s)(ps_orderId ps \<mapsto> paid_grant ps session),
                  jobs := (jobs s)(scan \<mapsto> ''Pending''),
                  consents := (case consent of None \<Rightarrow> consents s | Some c \<Rightarrow> (consents s)(scan \<mapsto> c)) \<rparr>))"

text \<open>What a purchase was charged, as the refunds measure it.\<close>

definition purchase_basis :: "purchase_row \<Rightarrow> grant \<Rightarrow> charge_basis" where
  "purchase_basis row g =
     chargeBasisOf \<lparr> money_amountUsd = purchase_amountUsd row, money_currency = purchase_currency row,
       settledAmount = g_settledAmount g, settledCurrency = g_settledCurrency g \<rparr>"

text \<open>The scan an order bought, as the report guard reads it.\<close>

definition order_access :: "shop \<Rightarrow> string \<Rightarrow> access_scan" where
  "order_access s oid =
     \<lparr> access_purchaseId = Some oid,
       access_purchase = map_option (\<lambda>g. \<lparr> access_status = PURCHASE_STATUSES (g_status g), access_entitlement = g_entitlement g \<rparr>)
         (grants s oid) \<rparr>"

definition suspend :: "grant \<Rightarrow> grant" where
  "suspend g = g\<lparr> g_entitlement := map_option (\<lambda>e. e\<lparr> suspended := True \<rparr>) (g_entitlement g) \<rparr>"

text \<open>\<open>updateMany({ where: { id, status: paid }, data: { status } })\<close>, then the suspension.\<close>

definition close_purchase :: "PurchaseStatus \<Rightarrow> grant \<Rightarrow> grant" where
  "close_purchase st g = suspend (if g_status g = Paid then g\<lparr> g_status := st \<rparr> else g)"

lemma close_purchase_denied:
  "st \<noteq> Paid \<Longrightarrow> g_status (close_purchase st g) \<noteq> Paid"
  by (simp add: close_purchase_def suspend_def)

lemma status_string_paid [simp]: "PURCHASE_STATUSES st = ''paid'' \<longleftrightarrow> st = Paid"
  by (cases st) simp_all

text \<open>A purchase that left \<open>paid\<close>, or whose entitlement is suspended, is never readable.\<close>

lemma denied_iff:
  "paidAccessDenial (order_access s oid) None = None \<longleftrightarrow>
     (\<exists>g e. grants s oid = Some g \<and> g_status g = Paid \<and> g_entitlement g = Some e \<and> \<not> suspended e)"
  by (auto simp: paidAccessDenial_def order_access_def split: option.splits)

end
