(* ===== verification/RefundEvents.thy ===== *)
theory RefundEvents
  imports Shop
begin

text \<open>
  What a reported refund or dispute does to a purchase (\<open>apps/api/src/billing/creem/refund-events.ts\<close>), and
  the replay of those that were delivered before their order (\<open>creem/pending-refunds.ts\<close>). \<open>visible\<close> says
  whether a purchase that exists was already committed when the transaction looked for it: a refund whose
  transaction read the tables before the grant committed finds no purchase, and its row commits all the same.
\<close>

section \<open>Results\<close>

record DispatchResult =
  dr_outcome :: WebhookOutcome
  dr_reason :: "string option"
  dr_accountId :: "string option"
  dr_orderId :: "string option"
  dr_purchaseId :: "string option"
  dr_entitlementId :: "string option"
  dr_scanId :: "string option"

definition NOTHING :: DispatchResult where
  "NOTHING = \<lparr> dr_outcome = Ignored, dr_reason = None, dr_accountId = None, dr_orderId = None, dr_purchaseId = None,
     dr_entitlementId = None, dr_scanId = None \<rparr>"

definition rejected :: "string option \<Rightarrow> string \<Rightarrow> DispatchResult" where
  "rejected orderId reason = NOTHING\<lparr> dr_outcome := WRejected, dr_orderId := orderId, dr_reason := Some reason \<rparr>"

definition unlinked :: "string \<Rightarrow> DispatchResult" where
  "unlinked orderId =
     NOTHING\<lparr> dr_outcome := Unlinked, dr_orderId := Some orderId, dr_reason := Some ''no purchase for this order yet'' \<rparr>"

definition findPurchase :: "bool \<Rightarrow> string \<Rightarrow> shop \<Rightarrow> (purchase_row \<times> grant) option" where
  "findPurchase visible orderId s =
     (if \<not> visible then None
      else case (purchases (billing s) orderId, grants s orderId) of
             (Some row, Some g) \<Rightarrow> Some (row, g)
           | _ \<Rightarrow> None)"

definition about_purchase :: "string \<Rightarrow> purchase_row \<Rightarrow> grant \<Rightarrow> DispatchResult" where
  "about_purchase orderId row g =
     NOTHING\<lparr> dr_accountId := Some (g_accountId g), dr_orderId := Some orderId, dr_purchaseId := Some orderId,
       dr_entitlementId := (case g_entitlement g of None \<Rightarrow> None | Some e \<Rightarrow> Some orderId),
       dr_scanId := purchase_scan row \<rparr>"

section \<open>One refund\<close>

definition succeeded :: "string option \<Rightarrow> bool" where
  "succeeded st \<longleftrightarrow> st = None \<or> st = Some ''succeeded''"

definition lineReason :: "string option \<Rightarrow> CreemRefundCreatedEvent \<Rightarrow> string \<Rightarrow> string option" where
  "lineReason measured event deliveryEventId =
     joinReasons
       [measured,
        (if succeeded (re_status event) then None
         else Some (''refund.created reports status '' @ the (re_status event) @ ''; counted as money back regardless'')),
        (if refundId event = None
         then Some (''refund.created carries no refund id; counted once per delivery ('' @ deliveryEventId @ '')'')
         else None)]"

definition refundReason ::
    "(rat \<Rightarrow> string) \<Rightarrow> cumulative_refund \<Rightarrow> charge_basis \<Rightarrow> string option \<Rightarrow> PurchaseStatus \<Rightarrow> CreemRefundCreatedEvent
      \<Rightarrow> string option" where
  "refundReason num refunded basis duplicateOf statusBefore event =
     (let counted = num (cum_amountCharged refunded) @ '' of '' @ num (basis_total basis) @ '' '' @ basis_currency basis
            @ '' refunded so far'';
          pending = (if succeeded (re_status event) then []
            else ''; Creem reports the refund as '' @ the (re_status event))
      in case duplicateOf of
           Some r \<Rightarrow> Some (''refund '' @ r @ '' was already counted; '' @ counted)
         | None \<Rightarrow>
             if isFull refunded then
               (if statusBefore = Disputed then
                  Some (''full refund recorded; '' @ counted @ ''; the purchase stays '' @ PURCHASE_STATUSES Disputed
                    @ '' because a dispute was recorded against it first, and access stays suspended'' @ pending)
                else if pending = [] then None
                else Some (''full refund recorded'' @ pending))
             else Some (''partial refund recorded; '' @ counted @ ''; access left in place'' @ pending))"

definition withDispatchNote :: "string option \<Rightarrow> reconciliation \<Rightarrow> string option" where
  "withDispatchNote reason reconciled =
     (case reconciled of
        RUnresolved observed why \<Rightarrow>
          (let note = ''the refund dispatch row could not be moved (it reads '' @ observed @ '') '' @ ''and needs an operator''
           in Some (case reason of None \<Rightarrow> note | Some r \<Rightarrow> r @ ''; '' @ note))
      | _ \<Rightarrow> reason)"

text \<open>\<open>createMany\<close> with \<open>skipDuplicates\<close>: a refund id already counted leaves the stored line alone.\<close>

definition insert_line :: "string \<Rightarrow> refund_line \<Rightarrow> (string \<times> refund_line) list \<Rightarrow> bool \<times> (string \<times> refund_line) list" where
  "insert_line rid line ls = (if rid \<in> fst ` set ls then (False, ls) else (True, ls @ [(rid, line)]))"

definition refunded_total :: "(string \<times> refund_line) list \<Rightarrow> charge_basis \<Rightarrow> cumulative_refund" where
  "refunded_total ls basis =
     (let sum_of = (\<lambda>f. if ls = [] then None else Some (\<Sum>(r, l) \<leftarrow> ls. f l))
      in cumulativeRefund (sum_of line_amountCharged) (sum_of line_amountUsd) basis)"

definition reported_refund :: "string \<Rightarrow> cumulative_refund \<Rightarrow> refund_record option \<Rightarrow> refund_record" where
  "reported_refund orderId refunded stored =
     \<lparr> reasonCode = (case stored of None \<Rightarrow> LEGAL_SUPPORT | Some r \<Rightarrow> reasonCode r),
       record_amountUsd = cum_amountUsd refunded, record_currency = Some ''USD'', record_provider = CREEM_PROVIDER,
       providerTransactionId = Some orderId \<rparr>"

definition processCreemRefund ::
    "shop_world \<Rightarrow> bool \<Rightarrow> CreemRefundCreatedEvent \<Rightarrow> nat \<Rightarrow> string \<Rightarrow> shop \<Rightarrow> webhook_abort + DispatchResult \<times> shop" where
  "processCreemRefund w visible event now deliveryEventId s =
     (case re_orderId event of
        None \<Rightarrow> Inr (NOTHING\<lparr> dr_reason := Some ''refund.created payload has no order id'' \<rparr>, s)
      | Some oid \<Rightarrow>
          (case findPurchase visible oid s of
             None \<Rightarrow> Inr (unlinked oid, s)
           | Some (row, g) \<Rightarrow>
               let basis = purchase_basis row g;
                   line = resolveCreemRefundLine (refund_event.truncate event) basis;
                   rid = (case refundId event of Some r \<Rightarrow> r | None \<Rightarrow> deliveryEventId);
                   (inserted, ls) = insert_line rid
                     (line\<lparr> line_reason := lineReason (line_reason line) event deliveryEventId \<rparr>) (refund_lines s oid);
                   refunded = refunded_total ls basis;
                   g' = (if isFull refunded then close_purchase Refunded g else g);
                   db = billing s;
                   db' = db\<lparr> refunds := (refunds db)(oid \<mapsto> reported_refund oid refunded (refunds db oid)) \<rparr>;
                   reconciled =
                     (if isFull refunded then
                        reconcileDispatchFromProviderRefund (dispatch_others w) oid rid
                          (''provider reported the full charge refunded ('' @ rid @ '')'') now (dispatches db')
                      else
                        notePartialProviderRefund (dispatch_others w) oid
                          (''provider refunded '' @ num_text w (cum_amountCharged refunded) @ '' of '' @ num_text w (basis_total basis)
                            @ '' '' @ basis_currency basis @ ''; '' @ ''the remainder has to be issued by hand'') now (dispatches db'))
               in case reconciled of
                    Inl e \<Rightarrow> Inl Infrastructure
                  | Inr (outcome, table) \<Rightarrow>
                      Inr ((about_purchase oid row g)
                             \<lparr> dr_outcome := (if inserted then Processed else Deduplicated),
                               dr_reason := withDispatchNote
                                 (refundReason (num_text w) refunded basis (if inserted then None else Some rid) (g_status g) event)
                                 outcome \<rparr>,
                           s\<lparr> billing := db'\<lparr> dispatches := table \<rparr>,
                              grants := (grants s)(oid \<mapsto> g'),
                              refund_lines := (refund_lines s)(oid := ls),
                              refund_reports := (refund_reports s)(oid \<mapsto>
                                \<lparr> report_status = ''paid'', report_eventId = rid, report_priceId = g_priceId g,
                                  report_reasonCode = ''LEGAL_SUPPORT'', report_processedAt = now \<rparr>) \<rparr>)))"

section \<open>One dispute\<close>

definition processCreemDispute ::
    "bool \<Rightarrow> CreemDisputeCreatedEvent \<Rightarrow> shop \<Rightarrow> webhook_abort + DispatchResult \<times> shop" where
  "processCreemDispute visible event s =
     (case di_orderId event of
        None \<Rightarrow> Inr (NOTHING\<lparr> dr_reason := Some ''dispute.created payload has no order id'' \<rparr>, s)
      | Some oid \<Rightarrow>
          (case findPurchase visible oid s of
             None \<Rightarrow> Inr (unlinked oid, s)
           | Some (row, g) \<Rightarrow>
               Inr ((about_purchase oid row g)\<lparr> dr_outcome := Processed \<rparr>,
                    s\<lparr> grants := (grants s)(oid \<mapsto> close_purchase Disputed g) \<rparr>)))"

section \<open>The replay of stored events (pending-refunds.ts)\<close>

fun find_event :: "string \<Rightarrow> RawCreemEvent list \<Rightarrow> RawCreemEvent option" where
  "find_event i [] = None"
| "find_event i (e # es) = (if raw_id e = i then Some e else find_event i es)"

definition replayableEvent :: "shop_world \<Rightarrow> string \<Rightarrow> string \<Rightarrow> NormalizedCreemEvent option" where
  "replayableEvent w rawBody eventId =
     (case json_parse w rawBody of
        None \<Rightarrow> None
      | Some body \<Rightarrow>
          (case (case parseCreemEnvelope body of None \<Rightarrow> None | Some es \<Rightarrow> find_event eventId es) of
             None \<Rightarrow> None
           | Some raw \<Rightarrow>
               (case normalizeCreemEvent raw of
                  Inl why \<Rightarrow> None
                | Inr (CheckoutCompleted e) \<Rightarrow> None
                | Inr e \<Rightarrow> Some e)))"

definition applied :: "WebhookOutcome \<Rightarrow> bool" where
  "applied outcome \<longleftrightarrow> outcome = Processed \<or> outcome = Deduplicated"

fun process_stored ::
    "shop_world \<Rightarrow> NormalizedCreemEvent \<Rightarrow> nat \<Rightarrow> string \<Rightarrow> shop \<Rightarrow> webhook_abort + DispatchResult \<times> shop" where
  "process_stored w (RefundCreated e) now eventId s = processCreemRefund w True e now eventId s"
| "process_stored w (DisputeCreated e) now eventId s = processCreemDispute True e s"
| "process_stored w (CheckoutCompleted e) now eventId s = Inr (NOTHING, s)"

definition update_event :: "string \<Rightarrow> (webhook_event \<Rightarrow> webhook_event) \<Rightarrow> shop \<Rightarrow> shop" where
  "update_event eventId f s = s\<lparr> deliveries := map (\<lambda>r. if we_eventId r = eventId then f r else r) (deliveries s) \<rparr>"

definition apply_result :: "WebhookOutcome \<Rightarrow> string option \<Rightarrow> string option \<Rightarrow> webhook_event \<Rightarrow> webhook_event" where
  "apply_result outcome reason account row =
     row\<lparr> we_outcome := outcome, we_reason := reason,
          we_accountId := (case account of None \<Rightarrow> we_accountId row | Some a \<Rightarrow> Some a) \<rparr>"

fun replay_rows ::
    "shop_world \<Rightarrow> nat \<Rightarrow> string \<Rightarrow> webhook_event list \<Rightarrow> shop \<Rightarrow> webhook_abort + string list \<times> shop" where
  "replay_rows w now appliedWhen [] s = Inr ([], s)"
| "replay_rows w now appliedWhen (row # rows) s =
     (case replayableEvent w (we_rawBody row) (we_eventId row) of
        None \<Rightarrow> replay_rows w now appliedWhen rows s
      | Some event \<Rightarrow>
          res_bind (process_stored w event now (we_eventId row) s)
            (\<lambda>(result, s1).
               if \<not> applied (dr_outcome result) then replay_rows w now appliedWhen rows s1
               else
                 (let s2 = update_event (we_eventId row)
                        (apply_result (dr_outcome result) (Some appliedWhen) (dr_accountId result)) s1
                  in res_bind (replay_rows w now appliedWhen rows s2)
                       (\<lambda>(types, s3). Inr (we_eventType row # types, s3)))))"

definition pending_rows :: "string \<Rightarrow> shop \<Rightarrow> webhook_event list" where
  "pending_rows orderId s =
     sort_key we_processedAt (filter (\<lambda>r. we_orderId r = Some orderId \<and> we_outcome r = Unlinked) (deliveries s))"

definition applyPendingCreemRefundEvents ::
    "shop_world \<Rightarrow> string \<Rightarrow> nat \<Rightarrow> string option \<Rightarrow> shop \<Rightarrow> webhook_abort + string list \<times> shop" where
  "applyPendingCreemRefundEvents w orderId now appliedWhen s =
     replay_rows w now
       (case appliedWhen of Some a \<Rightarrow> a | None \<Rightarrow> ''applied when order '' @ orderId @ '' arrived'')
       (pending_rows orderId s) s"

end
