(* ===== verification/Webhook.thy ===== *)
theory Webhook
  imports RefundEvents
begin

text \<open>
  The provider's webhook (\<open>apps/api/src/billing/creem/webhook-handler.ts\<close>, \<open>signature.ts\<close>) and the sweep that
  heals what it could not see (\<open>pending-refund-sweep.ts\<close>, \<open>creem/pending-refund-reconciliation.ts\<close>). A
  transaction is one step of the tables at its commit, except for the one read that decides which way it goes:
  \<open>visible\<close> says whether it saw a purchase that is there. \<open>hmac\<close> is the hex digest of \<open>node:crypto\<close>.
\<close>

section \<open>The delivery's signature\<close>

definition verifyCreemSignature :: "(string \<Rightarrow> string \<Rightarrow> string) \<Rightarrow> string \<Rightarrow> string \<Rightarrow> string \<Rightarrow> bool" where
  "verifyCreemSignature hmac rawBody signature secret =
     (if signature = [] then False
      else
        let expected = hmac secret rawBody; provided = js_lower (js_trim signature) in
        if length provided \<noteq> length expected then False else provided = expected)"

section \<open>A completed checkout\<close>

record ProcessingContext =
  expectLive :: bool
  ctx_now :: nat

definition join_and :: "string list \<Rightarrow> string" where
  "join_and parts = join_with '' and '' parts"

definition refundHealedReason :: "string list \<Rightarrow> string" where
  "refundHealedReason types =
     ''order already granted; a pending '' @ join_and types @ '' for it was applied '' @ ''on this delivery and access is suspended''"

definition refundPreemptedReason :: "string list \<Rightarrow> string option \<Rightarrow> string" where
  "refundPreemptedReason types unverified =
     (let said = join_and types @ '' for this order was delivered before it and has been '' @ ''applied; the purchase is recorded and access stays suspended''
      in case unverified of None \<Rightarrow> said | Some u \<Rightarrow> said @ ''; '' @ u)"

text \<open>A verdict stored on the session it concerns.\<close>

definition refuse_session :: "string \<Rightarrow> checkout_session \<Rightarrow> string \<Rightarrow> string \<Rightarrow> shop \<Rightarrow> DispatchResult \<times> shop" where
  "refuse_session reference session orderId problem s =
     ((rejected (Some orderId) problem)\<lparr> dr_accountId := Some (cs_accountId session) \<rparr>, markSessionRejected reference problem s)"

definition claim_session :: "string \<Rightarrow> rat \<Rightarrow> string \<Rightarrow> string option \<Rightarrow> shop \<Rightarrow> nat \<times> shop" where
  "claim_session reference settled settled_in unverified s =
     update_where claimableCheckoutSession
       (\<lambda>row. row\<lparr> cs_status := SessionCompleted, cs_statusReason := unverified, cs_settledAmount := Some settled,
                   cs_settledCurrency := Some settled_in \<rparr>) reference s"

definition link_session :: "string \<Rightarrow> string \<Rightarrow> shop \<Rightarrow> shop" where
  "link_session reference orderId s =
     snd (update_where (\<lambda>_. True) (\<lambda>row. row\<lparr> cs_purchaseId := Some orderId \<rparr>) reference s)"

text \<open>From the claim on: the purchase, the link and the replay, or nothing at all.\<close>

definition grant_order ::
    "shop_world \<Rightarrow> string \<Rightarrow> checkout_session \<Rightarrow> string \<Rightarrow> rat \<Rightarrow> rat \<Rightarrow> string \<Rightarrow> string option \<Rightarrow> ProcessingContext \<Rightarrow> shop
      \<Rightarrow> webhook_abort + DispatchResult \<times> shop" where
  "grant_order w reference session oid usd settled settled_in unverified ctx s =
     (case createPaidScan w
        \<lparr> ps_orderId = oid, ps_reference = reference, ps_amount = usd,
          ps_settled = (if settled_in = ''USD'' then None else Some (settled, settled_in)), ps_now = ctx_now ctx \<rparr> session s of
        Inl (WebhookValidation why) \<Rightarrow> Inl (ClaimedSessionRollback reference (cs_accountId session) oid why)
      | Inl e \<Rightarrow> Inl e
      | Inr s1 \<Rightarrow>
          res_bind (applyPendingCreemRefundEvents w oid (ctx_now ctx) None (link_session reference oid s1))
            (\<lambda>(types, s2).
               Inr (NOTHING\<lparr> dr_outcome := Processed,
                      dr_reason := (if types \<noteq> [] then Some (refundPreemptedReason types unverified) else unverified),
                      dr_accountId := Some (cs_accountId session), dr_orderId := Some oid, dr_purchaseId := Some oid,
                      dr_entitlementId := Some oid, dr_scanId := (if types \<noteq> [] then None else Some (new_scan_id w oid)) \<rparr>,
                    s2)))"

definition processCheckoutCompleted ::
    "shop_world \<Rightarrow> bool \<Rightarrow> CreemCheckoutCompletedEvent \<Rightarrow> ProcessingContext \<Rightarrow> shop
      \<Rightarrow> webhook_abort + DispatchResult \<times> shop" where
  "processCheckoutCompleted w visible event ctx s =
     (let oid = co_orderId event in
      case findPurchase visible oid s of
        Some (row, g) \<Rightarrow>
          res_bind (applyPendingCreemRefundEvents w oid (ctx_now ctx) (Some (''applied when order '' @ oid @ '' was redelivered'')) s)
            (\<lambda>(types, s1).
               Inr ((about_purchase oid row g)
                      \<lparr> dr_outcome := Deduplicated,
                        dr_reason := Some (if types \<noteq> [] then refundHealedReason types else ''order already granted''),
                        dr_scanId := (if types \<noteq> [] then None else purchase_scan row) \<rparr>, s1))
      | None \<Rightarrow>
          (case readCreemCheckoutReference event of
             None \<Rightarrow> Inr (rejected (Some oid) ''checkout carries no FluxRadar checkout reference'', s)
           | Some reference \<Rightarrow>
               (case sessions s reference of
                  None \<Rightarrow> Inr (rejected (Some oid) ''checkout reference does not belong to this environment'', s)
                | Some session \<Rightarrow>
                    if cs_provider session \<noteq> CREEM_PROVIDER then
                      Inr (rejected (Some oid) ''checkout reference does not belong to this environment'', s)
                    else if cs_liveMode session \<noteq> expectLive ctx then
                      Inr (refuse_session reference session oid ''checkout session was opened in the other Creem mode'' s)
                    else if \<not> isPaidPlan (cs_plan session) then
                      Inr (refuse_session reference session oid ''stored plan is not a paid plan'' s)
                    else if productId event \<noteq> Some (cs_productPath session) then
                      Inr (refuse_session reference session oid
                        (case productId event of
                           None \<Rightarrow> ''order names no product; the checkout was opened for '' @ cs_productPath session
                         | Some p \<Rightarrow> ''order is for product '' @ p @ '', not '' @ cs_productPath session) s)
                    else
                      (case resolveCreemOrderAmount (num_text w) (Num (cs_expectedAmountUsd session))
                              (checkout_event.truncate event) (if cs_plan session = plan_string Basic then Basic else Complete) of
                         Rejected why \<Rightarrow> Inr (refuse_session reference session oid why s)
                       | Accepted usd settled settled_in unverified \<Rightarrow>
                           (case claim_session reference settled settled_in unverified s of
                              (count, s1) \<Rightarrow>
                                if count \<noteq> 1 then
                                  Inr ((rejected (Some oid) ''checkout reference was already used by another order'')
                                         \<lparr> dr_accountId := Some (cs_accountId session) \<rparr>, s1)
                                else grant_order w reference session oid usd settled settled_in unverified ctx s1)))))"

section \<open>One event in its transaction\<close>

fun process_event ::
    "shop_world \<Rightarrow> bool \<Rightarrow> string \<Rightarrow> ProcessingContext \<Rightarrow> NormalizedCreemEvent \<Rightarrow> shop
      \<Rightarrow> webhook_abort + DispatchResult \<times> shop" where
  "process_event w visible eventId ctx (CheckoutCompleted e) s = processCheckoutCompleted w visible e ctx s"
| "process_event w visible eventId ctx (RefundCreated e) s = processCreemRefund w visible e (ctx_now ctx) eventId s"
| "process_event w visible eventId ctx (DisputeCreated e) s = processCreemDispute visible e s"

definition dispatch_event ::
    "shop_world \<Rightarrow> bool \<Rightarrow> RawCreemEvent \<Rightarrow> ProcessingContext \<Rightarrow> shop \<Rightarrow> webhook_abort + DispatchResult \<times> shop" where
  "dispatch_event w visible raw ctx s =
     (case normalizeCreemEvent raw of
        Inl why \<Rightarrow> Inr (NOTHING\<lparr> dr_reason := Some why \<rparr>, s)
      | Inr event \<Rightarrow>
          (case readCreemEventLiveFlag raw of
             None \<Rightarrow> process_event w visible (raw_id raw) ctx event s
           | Some live \<Rightarrow>
               if live \<noteq> expectLive ctx then
                 Inr (NOTHING\<lparr> dr_orderId := creemOrderIdOf event,
                        dr_reason := Some (''event is from the '' @ (if live then ''live'' else ''test'')
                          @ '' Creem environment, which does not match the configured mode'') \<rparr>, s)
               else process_event w visible (raw_id raw) ctx event s))"

definition dispatchSafely ::
    "shop_world \<Rightarrow> bool \<Rightarrow> RawCreemEvent \<Rightarrow> ProcessingContext \<Rightarrow> shop \<Rightarrow> webhook_abort + DispatchResult \<times> shop" where
  "dispatchSafely w visible raw ctx s =
     (case dispatch_event w visible raw ctx s of
        Inl (WebhookValidation why) \<Rightarrow> Inr (NOTHING\<lparr> dr_outcome := WRejected, dr_reason := Some why \<rparr>, s)
      | r \<Rightarrow> r)"

record CreemEventResult =
  er_eventId :: string
  er_eventType :: string
  er_outcome :: WebhookOutcome
  er_reason :: "string option"
  er_purchaseId :: "string option"
  er_entitlementId :: "string option"
  er_scanId :: "string option"

definition outcomeOnly :: "RawCreemEvent \<Rightarrow> WebhookOutcome \<Rightarrow> string \<Rightarrow> CreemEventResult" where
  "outcomeOnly raw outcome reason =
     \<lparr> er_eventId = raw_id raw, er_eventType = raw_eventType raw, er_outcome = outcome, er_reason = Some reason,
       er_purchaseId = None, er_entitlementId = None, er_scanId = None \<rparr>"

text \<open>The insert of a delivery's row; the event id is unique.\<close>

definition create_event :: "webhook_event \<Rightarrow> shop \<Rightarrow> webhook_abort + shop" where
  "create_event row s =
     (if we_eventId row \<in> we_eventId ` set (deliveries s) then Inl DuplicateEventId
      else Inr (s\<lparr> deliveries := deliveries s @ [row] \<rparr>))"

definition record_result :: "DispatchResult \<Rightarrow> webhook_event \<Rightarrow> webhook_event" where
  "record_result result row =
     (apply_result (dr_outcome result) (dr_reason result) (dr_accountId result) row)
       \<lparr> we_orderId := (case dr_orderId result of None \<Rightarrow> we_orderId row | Some oid \<Rightarrow> Some oid) \<rparr>"

definition runInTransaction ::
    "shop_world \<Rightarrow> bool \<Rightarrow> RawCreemEvent \<Rightarrow> string \<Rightarrow> ProcessingContext \<Rightarrow> shop \<Rightarrow> webhook_abort + CreemEventResult \<times> shop" where
  "runInTransaction w visible raw rawBody ctx s =
     res_bind (create_event
         \<lparr> we_eventId = raw_id raw, we_accountId = None, we_orderId = None, we_eventType = raw_eventType raw,
           we_outcome = Ignored, we_reason = None, we_rawBody = rawBody, we_processedAt = ctx_now ctx \<rparr> s)
       (\<lambda>s1. res_bind (dispatchSafely w visible raw ctx s1)
         (\<lambda>(result, s2).
            Inr (\<lparr> er_eventId = raw_id raw, er_eventType = raw_eventType raw, er_outcome = dr_outcome result,
                   er_reason = dr_reason result, er_purchaseId = dr_purchaseId result,
                   er_entitlementId = dr_entitlementId result, er_scanId = dr_scanId result \<rparr>,
                 update_event (raw_id raw) (record_result result) s2)))"

definition recordRolledBackClaim ::
    "RawCreemEvent \<Rightarrow> string \<Rightarrow> ProcessingContext \<Rightarrow> string \<Rightarrow> string \<Rightarrow> string \<Rightarrow> string \<Rightarrow> shop
      \<Rightarrow> webhook_abort + CreemEventResult \<times> shop" where
  "recordRolledBackClaim raw rawBody ctx sessionId account orderId reason s =
     (case create_event
         \<lparr> we_eventId = raw_id raw, we_accountId = Some account, we_orderId = Some orderId, we_eventType = raw_eventType raw,
           we_outcome = WRejected, we_reason = Some reason, we_rawBody = rawBody, we_processedAt = ctx_now ctx \<rparr> s of
        Inl DuplicateEventId \<Rightarrow> Inr (outcomeOnly raw Deduplicated ''event already processed'', s)
      | Inl e \<Rightarrow> Inl e
      | Inr s1 \<Rightarrow> Inr (outcomeOnly raw WRejected reason, markSessionRejected sessionId reason s1))"

text \<open>
  An attempt that lost the order to another transaction is run once more, and then sees it; the number
  of attempts left is the argument.
\<close>

fun processOne ::
    "nat \<Rightarrow> shop_world \<Rightarrow> bool \<Rightarrow> RawCreemEvent \<Rightarrow> string \<Rightarrow> ProcessingContext \<Rightarrow> shop
      \<Rightarrow> webhook_abort + CreemEventResult \<times> shop" where
  "processOne attempts_left w visible raw rawBody ctx s =
     (case runInTransaction w visible raw rawBody ctx s of
        Inr r \<Rightarrow> Inr r
      | Inl DuplicateEventId \<Rightarrow> Inr (outcomeOnly raw Deduplicated ''event already processed'', s)
      | Inl (ClaimedSessionRollback sessionId account orderId reason) \<Rightarrow>
          recordRolledBackClaim raw rawBody ctx sessionId account orderId reason s
      | Inl DuplicateTransactionId \<Rightarrow>
          (case attempts_left of
             0 \<Rightarrow> Inl DuplicateTransactionId
           | Suc n \<Rightarrow> processOne n w True raw rawBody ctx s)
      | Inl e \<Rightarrow> Inl e)"

declare processOne.simps [simp del]

section \<open>A delivery\<close>

datatype delivery_error = InvalidSignature | UnreadableBody | DeliveryFailed

text \<open>The events in order, each committed before the next; a failure ends the delivery.\<close>

fun process_all ::
    "shop_world \<Rightarrow> (string \<Rightarrow> bool) \<Rightarrow> RawCreemEvent list \<Rightarrow> string \<Rightarrow> ProcessingContext \<Rightarrow> shop
      \<Rightarrow> (delivery_error + CreemEventResult list) \<times> shop" where
  "process_all w visible [] rawBody ctx s = (Inr [], s)"
| "process_all w visible (raw # raws) rawBody ctx s =
     (case processOne 1 w (visible (raw_id raw)) raw rawBody ctx s of
        Inl e \<Rightarrow> (Inl DeliveryFailed, s)
      | Inr (result, s1) \<Rightarrow>
          (case process_all w visible raws rawBody ctx s1 of
             (Inl e, s2) \<Rightarrow> (Inl e, s2)
           | (Inr results, s2) \<Rightarrow> (Inr (result # results), s2)))"

record CreemWebhookResult =
  wr_received :: nat
  wr_results :: "CreemEventResult list"
  wr_createdScanIds :: "string list"

definition handleCreemWebhook ::
    "(string \<Rightarrow> string \<Rightarrow> string) \<Rightarrow> shop_world \<Rightarrow> (string \<Rightarrow> bool) \<Rightarrow> string \<Rightarrow> string \<Rightarrow> string \<Rightarrow> ProcessingContext \<Rightarrow> shop
      \<Rightarrow> (delivery_error + CreemWebhookResult) \<times> shop" where
  "handleCreemWebhook hmac w visible rawBody signature secret ctx s =
     (if \<not> verifyCreemSignature hmac rawBody signature secret then (Inl InvalidSignature, s)
      else case json_parse w rawBody of
        None \<Rightarrow> (Inl UnreadableBody, s)
      | Some body \<Rightarrow>
          (case parseCreemEnvelope body of
             None \<Rightarrow> (Inl UnreadableBody, s)
           | Some events \<Rightarrow>
               (case process_all w visible events rawBody ctx s of
                  (Inl e, s1) \<Rightarrow> (Inl e, s1)
                | (Inr results, s1) \<Rightarrow>
                    (Inr \<lparr> wr_received = length events, wr_results = results,
                           wr_createdScanIds = List.map_filter
                             (\<lambda>r. if er_outcome r = Processed then er_scanId r else None) results \<rparr>, s1))))"

section \<open>The pending-refund sweep\<close>

definition PENDING_REFUND_SWEEP_BATCH_LIMIT :: int where
  "PENDING_REFUND_SWEEP_BATCH_LIMIT = 500"

definition stored_pending :: "webhook_event \<Rightarrow> bool" where
  "stored_pending r \<longleftrightarrow> we_outcome r = Unlinked \<and> we_orderId r \<noteq> None"

text \<open>A pending row whose order now has a purchase.\<close>

definition applicable :: "shop \<Rightarrow> webhook_event \<Rightarrow> bool" where
  "applicable s r \<longleftrightarrow> stored_pending r \<and> findPurchase True (the (we_orderId r)) s \<noteq> None"

definition matchedPendingRows :: "nat \<Rightarrow> shop \<Rightarrow> string list" where
  "matchedPendingRows batchLimit s =
     take batchLimit (map (\<lambda>r. the (we_orderId r)) (filter (applicable s) (sort_key we_processedAt (deliveries s))))"

record PendingRefundReconciliation =
  pendingRowCount :: nat
  matchedOrderCount :: nat
  appliedEventCount :: nat
  failedOrderCount :: nat
  batchLimitReached :: bool

text \<open>Each order in a transaction of its own: one that fails leaves the tables as they were.\<close>

fun replay_orders :: "shop_world \<Rightarrow> nat \<Rightarrow> string list \<Rightarrow> nat \<Rightarrow> nat \<Rightarrow> shop \<Rightarrow> nat \<times> nat \<times> shop" where
  "replay_orders w now [] done_count failed_count s = (done_count, failed_count, s)"
| "replay_orders w now (oid # oids) done_count failed_count s =
     (case applyPendingCreemRefundEvents w oid now
             (Some (''applied by the pending-refund sweep; order '' @ oid @ '' was already granted'')) s of
        Inl e \<Rightarrow> replay_orders w now oids done_count (failed_count + 1) s
      | Inr (types, s1) \<Rightarrow> replay_orders w now oids (done_count + length types) failed_count s1)"

definition reconcileCreemPendingRefunds ::
    "shop_world \<Rightarrow> nat \<Rightarrow> int option \<Rightarrow> shop \<Rightarrow> PendingRefundReconciliation \<times> shop" where
  "reconcileCreemPendingRefunds w now limit s =
     (let batchLimit = nat (max 1 (case limit of Some n \<Rightarrow> n | None \<Rightarrow> PENDING_REFUND_SWEEP_BATCH_LIMIT));
          batch = matchedPendingRows batchLimit s;
          matched = first_by id {} batch
      in case replay_orders w now matched 0 0 s of
           (done_count, failed_count, s1) \<Rightarrow>
             (\<lparr> pendingRowCount = length (filter stored_pending (deliveries s)), matchedOrderCount = length matched,
                appliedEventCount = done_count, failedOrderCount = failed_count,
                batchLimitReached = (batchLimit \<le> length batch) \<rparr>, s1))"

section \<open>The events of the shop\<close>

text \<open>What happens to the tables, in any order: the signature of a delivery has been checked.\<close>

datatype shop_event =
    Delivered "string \<Rightarrow> bool" "RawCreemEvent list" string ProcessingContext
  | SweptPending nat "int option"
  | OpenedSession string checkout_request nat
  | ClosedUnopened string
  | ExpiredSessions nat

fun shop_step :: "shop_world \<Rightarrow> shop \<Rightarrow> shop_event \<Rightarrow> shop" where
  "shop_step w s (Delivered visible raws rawBody ctx) = snd (process_all w visible raws rawBody ctx s)"
| "shop_step w s (SweptPending now limit) = snd (reconcileCreemPendingRefunds w now limit s)"
| "shop_step w s (OpenedSession reference rq now) = openSession reference rq now s"
| "shop_step w s (ClosedUnopened reference) = closeUnopenedSession reference s"
| "shop_step w s (ExpiredSessions now) = expireAbandonedCheckouts now s"

end
