(* ===== verification/Sales.thy ===== *)
theory Sales
  imports Webhook Steps
begin

text \<open>
  What holds of a shop in every run of its events: one grant per session and per order, no way back for a
  purchase that was refunded or disputed, and no refund left waiting behind a sweep. \<open>shop_ok\<close> is the
  invariant, \<open>facts\<close> the set of things that stay true once they are; \<open>keeps\<close> says of two states what a
  step must not break, and every operation is shown to keep it.
\<close>

section \<open>The invariant\<close>

definition linked_to :: "shop \<Rightarrow> string \<Rightarrow> string \<Rightarrow> bool" where
  "linked_to s reference oid \<longleftrightarrow>
     (case sessions s reference of None \<Rightarrow> False | Some row \<Rightarrow> cs_purchaseId row = Some oid)"

text \<open>A purchase sells what its session was opened for.\<close>

definition sells :: "checkout_session \<Rightarrow> grant \<Rightarrow> bool" where
  "sells row g \<longleftrightarrow> g_accountId g = cs_accountId row \<and> g_siteProfileId g = cs_siteProfileId row
     \<and> g_plan g = cs_plan row \<and> g_priceId g = cs_productPath row"

definition session_ok :: "shop \<Rightarrow> checkout_session \<Rightarrow> bool" where
  "session_ok s row \<longleftrightarrow>
     (cs_status row = SessionCompleted \<longleftrightarrow> cs_purchaseId row \<noteq> None) \<and>
     (case cs_purchaseId row of None \<Rightarrow> True
      | Some oid \<Rightarrow> (case grants s oid of None \<Rightarrow> False | Some g \<Rightarrow> sells row g))"

text \<open>Money back in full, or a dispute: the purchase has left \<open>paid\<close> and its entitlement is suspended.\<close>

definition shut :: "grant \<Rightarrow> bool" where
  "shut g \<longleftrightarrow> g_status g \<noteq> Paid \<and> (case g_entitlement g of None \<Rightarrow> True | Some e \<Rightarrow> suspended e)"

definition fully_refunded :: "shop \<Rightarrow> string \<Rightarrow> bool" where
  "fully_refunded s oid \<longleftrightarrow>
     (case (purchases (billing s) oid, grants s oid) of
        (Some row, Some g) \<Rightarrow> refund_lines s oid \<noteq> [] \<and> isFull (refunded_total (refund_lines s oid) (purchase_basis row g))
      | _ \<Rightarrow> False)"

definition grant_ok :: "shop \<Rightarrow> string \<Rightarrow> grant \<Rightarrow> bool" where
  "grant_ok s oid g \<longleftrightarrow> (g_status g \<noteq> Paid \<longrightarrow> shut g) \<and> (fully_refunded s oid \<longrightarrow> shut g)
     \<and> (\<exists>reference. linked_to s reference oid)"

definition shop_ok :: "shop \<Rightarrow> bool" where
  "shop_ok s \<longleftrightarrow>
     (\<forall>oid. purchases (billing s) oid = None \<longleftrightarrow> grants s oid = None) \<and>
     (\<forall>oid. grants s oid = None \<longrightarrow> refund_lines s oid = []) \<and>
     (\<forall>reference row. sessions s reference = Some row \<longrightarrow> session_ok s row) \<and>
     (\<forall>a b oid. linked_to s a oid \<and> linked_to s b oid \<longrightarrow> a = b) \<and>
     (\<forall>oid g. grants s oid = Some g \<longrightarrow> grant_ok s oid g) \<and>
     distinct (map we_eventId (deliveries s))"

text \<open>What never stops being true.\<close>

datatype fact =
    OrderOf string string
  | ShutAs string PurchaseStatus
  | RefundLine string string refund_line
  | Seen string

definition facts :: "shop \<Rightarrow> fact set" where
  "facts s =
     {OrderOf reference oid | reference oid. linked_to s reference oid}
     \<union> {ShutAs oid (g_status g) | oid g. grants s oid = Some g \<and> shut g}
     \<union> {RefundLine oid rid line | oid rid line. (rid, line) \<in> set (refund_lines s oid)}
     \<union> {Seen i | i. i \<in> we_eventId ` set (deliveries s)}"

lemma facts_mono:
  assumes "\<And>a p. linked_to s a p \<Longrightarrow> linked_to s' a p"
    "\<And>p h. grants s p = Some h \<Longrightarrow> shut h \<Longrightarrow> \<exists>h'. grants s' p = Some h' \<and> shut h' \<and> g_status h' = g_status h"
    "\<And>p. set (refund_lines s p) \<subseteq> set (refund_lines s' p)"
    "we_eventId ` set (deliveries s) \<subseteq> we_eventId ` set (deliveries s')"
  shows "facts s \<subseteq> facts s'"
proof
  fix f assume "f \<in> facts s"
  then consider a p where "f = OrderOf a p" "linked_to s a p"
    | p h where "f = ShutAs p (g_status h)" "grants s p = Some h" "shut h"
    | p rid line where "f = RefundLine p rid line" "(rid, line) \<in> set (refund_lines s p)"
    | i where "f = Seen i" "i \<in> we_eventId ` set (deliveries s)"
    unfolding facts_def by blast
  then show "f \<in> facts s'"
  proof cases
    case 1
    with assms(1) show ?thesis by (simp add: facts_def)
  next
    case 2
    with assms(2) obtain h' where "grants s' p = Some h'" "shut h'" "g_status h' = g_status h" by blast
    with 2 show ?thesis unfolding facts_def by auto
  next
    case 3
    with assms(3) show ?thesis unfolding facts_def by auto
  next
    case 4
    with assms(4) show ?thesis unfolding facts_def by auto
  qed
qed

definition keeps :: "shop \<Rightarrow> shop \<Rightarrow> bool" where
  "keeps s s' \<longleftrightarrow> (shop_ok s \<longrightarrow> shop_ok s' \<and> facts s \<subseteq> facts s')"

lemma keeps_refl [simp]: "keeps s s"
  by (simp add: keeps_def)

lemma keeps_trans [trans]: "keeps s1 s2 \<Longrightarrow> keeps s2 s3 \<Longrightarrow> keeps s1 s3"
  by (auto simp: keeps_def)

lemma shop_okD:
  assumes "shop_ok s"
  shows "purchases (billing s) oid = None \<longleftrightarrow> grants s oid = None"
    "grants s oid = None \<Longrightarrow> refund_lines s oid = []"
    "sessions s reference = Some row \<Longrightarrow> session_ok s row"
    "linked_to s a oid \<Longrightarrow> linked_to s b oid \<Longrightarrow> a = b"
    "grants s oid = Some g \<Longrightarrow> grant_ok s oid g"
    "distinct (map we_eventId (deliveries s))"
  using assms unfolding shop_ok_def by blast+

lemma empty_ok [simp]: "shop_ok empty_shop"
  by (simp add: shop_ok_def empty_shop_def linked_to_def)

section \<open>Sessions and deliveries\<close>

text \<open>Rewriting session rows that stay unlinked and uncompleted.\<close>

definition unsold :: "checkout_session \<Rightarrow> bool" where
  "unsold row \<longleftrightarrow> cs_status row \<noteq> SessionCompleted \<and> cs_purchaseId row = None"

lemma sessions_keep:
  assumes "\<And>reference. sessions s reference = f reference
      \<or> ((case sessions s reference of None \<Rightarrow> True | Some row \<Rightarrow> cs_purchaseId row = None)
          \<and> (case f reference of None \<Rightarrow> True | Some row \<Rightarrow> unsold row))"
  shows "keeps s (s\<lparr> sessions := f \<rparr>)"
proof -
  have linked: "linked_to (s\<lparr> sessions := f \<rparr>) = linked_to s"
  proof (intro ext)
    fix reference oid
    show "linked_to (s\<lparr> sessions := f \<rparr>) reference oid = linked_to s reference oid"
      using assms [of reference] by (auto simp: linked_to_def unsold_def split: option.splits)
  qed
  have rows: "session_ok s row" if "shop_ok s" "f reference = Some row" for reference row
    using shop_okD(3) [OF that(1), of reference row] that(2) assms [of reference]
    by (auto simp: session_ok_def unsold_def)
  have full: "fully_refunded (s\<lparr> sessions := f \<rparr>) = fully_refunded s"
    by (simp add: fun_eq_iff fully_refunded_def cong: option.case_cong)
  have same: "session_ok (s\<lparr> sessions := f \<rparr>) = session_ok s" "grant_ok (s\<lparr> sessions := f \<rparr>) = grant_ok s"
    by (simp_all add: fun_eq_iff session_ok_def grant_ok_def linked full cong: option.case_cong)
  show ?thesis
    using rows unfolding keeps_def shop_ok_def facts_def same linked by auto
qed

lemma update_where_keeps:
  assumes "\<And>row. P row \<Longrightarrow> cs_purchaseId row = None \<and> unsold (f row)"
  shows "keeps s (snd (update_where P f reference s))"
proof (cases "\<exists>row. sessions s reference = Some row \<and> P row")
  case True
  then obtain row where row: "sessions s reference = Some row" "P row" by blast
  have "keeps s (s\<lparr> sessions := (sessions s)(reference \<mapsto> f row) \<rparr>)"
    by (rule sessions_keep) (use row assms in auto)
  with row show ?thesis by (simp add: update_where_def)
next
  case False
  then show ?thesis by (auto simp: update_where_def split: option.splits)
qed

lemma unsold_reject [simp]: "cs_purchaseId row = None \<Longrightarrow> unsold (reject_row why row)"
  by (simp add: unsold_def reject_row_def)

lemma markSessionRejected_keeps: "keeps s (markSessionRejected reference why s)"
  unfolding markSessionRejected_def by (rule update_where_keeps) (simp add: claimableCheckoutSession_def)

lemma created_unlinked: "shop_ok s \<Longrightarrow> sessions s reference = Some row \<Longrightarrow> cs_status row = SessionCreated \<Longrightarrow> cs_purchaseId row = None"
  using shop_okD(3) [of s reference row] by (simp add: session_ok_def)

lemma closeUnopenedSession_keeps: "keeps s (closeUnopenedSession reference s)"
proof (cases "shop_ok s \<and> (\<exists>row. sessions s reference = Some row \<and> cs_status row = SessionCreated)")
  case True
  then obtain row where row: "shop_ok s" "sessions s reference = Some row" "cs_status row = SessionCreated" by blast
  have "keeps s (s\<lparr> sessions := (sessions s)(reference \<mapsto> reject_row providerUnavailable row) \<rparr>)"
    by (rule sessions_keep) (use row created_unlinked [OF row] in auto)
  with row show ?thesis by (simp add: closeUnopenedSession_def update_where_def)
next
  case False
  then show ?thesis by (auto simp: closeUnopenedSession_def update_where_def keeps_def split: option.splits)
qed

lemma expire_keeps: "keeps s (expireAbandonedCheckouts now s)"
  unfolding expireAbandonedCheckouts_def
  by (rule sessions_keep) (auto simp: abandonedCheckoutSession_def split: option.splits)

lemma openSession_keeps: "keeps s (openSession reference rq now s)"
proof (cases "sessions s reference")
  case None
  have "keeps s (s\<lparr> sessions := (sessions s)(reference \<mapsto> new_session rq now) \<rparr>)"
    by (rule sessions_keep) (use None in \<open>auto simp: unsold_def new_session_def\<close>)
  with None show ?thesis by (simp add: openSession_def)
qed (simp add: openSession_def)

lemma deliveries_keep:
  assumes "distinct (map we_eventId (deliveries s)) \<Longrightarrow> distinct (map we_eventId ds)"
    "we_eventId ` set (deliveries s) \<subseteq> we_eventId ` set ds"
  shows "keeps s (s\<lparr> deliveries := ds \<rparr>)"
proof -
  have full: "fully_refunded (s\<lparr> deliveries := ds \<rparr>) = fully_refunded s"
    by (simp add: fun_eq_iff fully_refunded_def cong: option.case_cong)
  have linked: "linked_to (s\<lparr> deliveries := ds \<rparr>) = linked_to s" by (simp add: fun_eq_iff linked_to_def)
  have same: "linked_to (s\<lparr> deliveries := ds \<rparr>) = linked_to s" "session_ok (s\<lparr> deliveries := ds \<rparr>) = session_ok s"
    "grant_ok (s\<lparr> deliveries := ds \<rparr>) = grant_ok s"
    by (simp_all add: fun_eq_iff session_ok_def grant_ok_def linked full cong: option.case_cong)
  show ?thesis using assms unfolding keeps_def shop_ok_def facts_def same by auto
qed

lemma create_event_keeps: "create_event row s = Inr s' \<Longrightarrow> keeps s s'"
  by (auto simp: create_event_def split: if_splits intro!: deliveries_keep)

lemma update_event_keeps:
  assumes "\<And>row. we_eventId (f row) = we_eventId row"
  shows "keeps s (update_event eventId f s)"
proof -
  have "map we_eventId (map (\<lambda>r. if we_eventId r = eventId then f r else r) (deliveries s)) = map we_eventId (deliveries s)"
    by (simp add: assms)
  then show ?thesis unfolding update_event_def
    by (intro deliveries_keep) (simp_all only: list.set_map [symmetric] order_refl)
qed

section \<open>Refunds and disputes\<close>

text \<open>
  One order's purchase is rewritten and its lines grow; the billing tables keep their purchases. What the
  rewriting has to respect.
\<close>

definition refund_change :: "string \<Rightarrow> grant \<Rightarrow> grant \<Rightarrow> shop \<Rightarrow> shop \<Rightarrow> bool" where
  "refund_change oid g g' s s' \<longleftrightarrow>
     grants s oid = Some g \<and> grants s' = (grants s)(oid \<mapsto> g') \<and> sessions s' = sessions s \<and> deliveries s' = deliveries s
     \<and> purchases (billing s') = purchases (billing s)
     \<and> (\<forall>p. p \<noteq> oid \<longrightarrow> refund_lines s' p = refund_lines s p)
     \<and> set (refund_lines s oid) \<subseteq> set (refund_lines s' oid)
     \<and> (\<forall>row. sells row g \<longrightarrow> sells row g') \<and> (shut g \<longrightarrow> shut g' \<and> g_status g' = g_status g)
     \<and> (g_status g' \<noteq> Paid \<longrightarrow> g_status g = Paid \<longrightarrow> shut g') \<and> (g_status g' = Paid \<longrightarrow> g_status g = Paid)
     \<and> (fully_refunded s' oid \<longrightarrow> shut g')"

lemma refund_change_keeps:
  assumes "refund_change oid g g' s s'"
  shows "keeps s s'"
  unfolding keeps_def
proof
  assume ok: "shop_ok s"
  have g: "grants s oid = Some g" and gs: "grants s' = (grants s)(oid \<mapsto> g')" and ss: "sessions s' = sessions s"
    and ds: "deliveries s' = deliveries s" and ps: "purchases (billing s') = purchases (billing s)"
    and other: "\<And>p. p \<noteq> oid \<Longrightarrow> refund_lines s' p = refund_lines s p"
    and more: "set (refund_lines s oid) \<subseteq> set (refund_lines s' oid)"
    and sell: "\<And>row. sells row g \<Longrightarrow> sells row g'"
    and shut: "shut g \<Longrightarrow> shut g' \<and> g_status g' = g_status g"
    and st: "g_status g' \<noteq> Paid \<Longrightarrow> g_status g = Paid \<Longrightarrow> shut g'" "fully_refunded s' oid \<Longrightarrow> shut g'"
    using assms unfolding refund_change_def by blast+
  have linked: "linked_to s' = linked_to s" by (simp add: fun_eq_iff linked_to_def ss)
  have full: "fully_refunded s' p = fully_refunded s p" if "p \<noteq> oid" for p
    using that by (simp add: fully_refunded_def gs ps other cong: option.case_cong)
  have gok: "grant_ok s oid g" using shop_okD(5) [OF ok g] .
  have gok': "grant_ok s' oid g'"
    using gok shut st unfolding grant_ok_def linked by blast
  have "shop_ok s'"
    unfolding shop_ok_def
  proof (intro conjI allI impI)
    fix p show "(purchases (billing s') p = None) = (grants s' p = None)"
      using shop_okD(1) [OF ok, of p] shop_okD(1) [OF ok, of oid] g by (simp add: gs ps)
  next
    fix p assume "grants s' p = None"
    then show "refund_lines s' p = []" using shop_okD(2) [OF ok, of p] other [of p] by (auto simp: gs split: if_splits)
  next
    fix reference row assume "sessions s' reference = Some row"
    then have r: "session_ok s row" using shop_okD(3) [OF ok] by (simp add: ss)
    then show "session_ok s' row" using sell [of row] g
      by (auto simp: session_ok_def gs split: option.splits)
  next
    fix a b p assume "linked_to s' a p \<and> linked_to s' b p"
    then show "a = b" using shop_okD(4) [OF ok, of a p b] by (simp add: linked)
  next
    fix p h assume h: "grants s' p = Some h"
    show "grant_ok s' p h"
    proof (cases "p = oid")
      case True
      with h gok' show ?thesis by (simp add: gs)
    next
      case False
      with h have "grant_ok s p h" using shop_okD(5) [OF ok] by (simp add: gs)
      with False show ?thesis by (simp add: grant_ok_def linked full)
    qed
  next
    show "distinct (map we_eventId (deliveries s'))" using shop_okD(6) [OF ok] by (simp add: ds)
  qed
  moreover have "facts s \<subseteq> facts s'"
  proof -
    have "set (refund_lines s p) \<subseteq> set (refund_lines s' p)" for p using more other [of p] by (cases "p = oid") auto
    moreover have "\<exists>h'. grants s' p = Some h' \<and> shut h' \<and> g_status h' = g_status h" if "grants s p = Some h" "shut h" for p h
      using that shut g by (cases "p = oid") (auto simp: gs)
    ultimately show ?thesis by (intro facts_mono) (simp_all add: linked ds)
  qed
  ultimately show "shop_ok s' \<and> facts s \<subseteq> facts s'" ..
qed

lemma close_purchase_facts [simp]:
  "sells row (close_purchase st g) = sells row g"
  "st \<noteq> Paid \<Longrightarrow> shut (close_purchase st g)"
  "shut g \<Longrightarrow> g_status (close_purchase st g) = g_status g"
  "st \<noteq> Paid \<Longrightarrow> g_status (close_purchase st g) \<noteq> Paid"
  by (auto simp: sells_def close_purchase_def suspend_def shut_def split: option.splits)

lemma close_purchase_basis [simp]: "purchase_basis row (close_purchase st g) = purchase_basis row g"
  by (simp add: purchase_basis_def close_purchase_def suspend_def)

lemma insert_line_set: "insert_line rid line ls = (inserted, ls') \<Longrightarrow> set ls \<subseteq> set ls' \<and> ls' \<noteq> [] \<and> rid \<in> fst ` set ls'"
  by (auto simp: insert_line_def split: if_splits)

lemma findPurchase_Some:
  "findPurchase v oid s = Some (row, g) \<Longrightarrow> purchases (billing s) oid = Some row \<and> grants s oid = Some g"
  by (auto simp: findPurchase_def split: if_splits option.splits)

text \<open>What a refund's transaction leaves, when it does anything.\<close>

lemma processCreemRefund_cases:
  assumes "processCreemRefund w v event now i s = Inr (result, s')"
  obtains (untouched) "s' = s" "dr_outcome result = (if re_orderId event = None then Ignored else Unlinked)"
      "re_orderId event \<noteq> None \<Longrightarrow> dr_orderId result = re_orderId event \<and> findPurchase v (the (re_orderId event)) s = None"
    | (changed) oid row g where "re_orderId event = Some oid" "findPurchase v oid s = Some (row, g)"
        "dr_outcome result \<in> {Processed, Deduplicated}"
        "refund_change oid g (if fully_refunded s' oid then close_purchase Refunded g else g) s s'"
        "(case refundId event of Some r \<Rightarrow> r | None \<Rightarrow> i) \<in> fst ` set (refund_lines s' oid)"
proof (cases "re_orderId event")
  case None
  then show ?thesis using assms by (intro untouched) (auto simp: processCreemRefund_def NOTHING_def)
next
  case (Some oid)
  show ?thesis
  proof (cases "findPurchase v oid s")
    case None
    then show ?thesis using assms Some by (intro untouched) (auto simp: processCreemRefund_def unlinked_def NOTHING_def)
  next
    case p: (Some p)
    obtain row g where rg: "p = (row, g)" by (cases p)
    define basis where "basis = purchase_basis row g"
    define line where "line = resolveCreemRefundLine (refund_event.truncate event) basis"
    define rid where "rid = (case refundId event of Some r \<Rightarrow> r | None \<Rightarrow> i)"
    obtain inserted ls where ls: "insert_line rid (line\<lparr> line_reason := lineReason (line_reason line) event i \<rparr>) (refund_lines s oid) = (inserted, ls)"
      by fastforce
    define refunded where "refunded = refunded_total ls basis"
    have pg: "purchases (billing s) oid = Some row" "grants s oid = Some g"
      using findPurchase_Some p rg by blast+
    have more: "set (refund_lines s oid) \<subseteq> set ls" "ls \<noteq> []" using insert_line_set [OF ls] by auto
    define db' where "db' = (billing s)\<lparr> refunds := (refunds (billing s))(oid \<mapsto> reported_refund oid refunded (refunds (billing s) oid)) \<rparr>"
    define rep where "rep = (refund_reports s)(oid \<mapsto> \<lparr> report_status = ''paid'', report_eventId = rid, report_priceId = g_priceId g,
      report_reasonCode = ''LEGAL_SUPPORT'', report_processedAt = now \<rparr>)"
    have ps: "purchases db' = purchases (billing s)" by (simp add: db'_def)
    obtain table where
      s': "s' = s\<lparr> billing := db'\<lparr> dispatches := table \<rparr>, grants := (grants s)(oid \<mapsto> (if isFull refunded then close_purchase Refunded g else g)),
          refund_lines := (refund_lines s)(oid := ls), refund_reports := rep \<rparr>"
      and out: "dr_outcome result \<in> {Processed, Deduplicated}"
      using assms unfolding processCreemRefund_def
      by (simp add: Some p rg Let_def basis_def [symmetric] line_def [symmetric] rid_def [symmetric] ls refunded_def [symmetric]
          db'_def [symmetric] rep_def [symmetric] split: sum.splits prod.splits) (auto split: if_splits)
    have full: "fully_refunded s' oid \<longleftrightarrow> isFull refunded"
      using more(2) by (simp add: fully_refunded_def s' ps pg refunded_def basis_def)
    show ?thesis
    proof (rule changed [OF Some _ out])
      show "findPurchase v oid s = Some (row, g)" using p rg by simp
      show "refund_change oid g (if fully_refunded s' oid then close_purchase Refunded g else g) s s'"
        unfolding full refund_change_def using pg more ps by (simp add: s')
      show "(case refundId event of Some r \<Rightarrow> r | None \<Rightarrow> i) \<in> fst ` set (refund_lines s' oid)"
        using insert_line_set [OF ls] by (simp add: s' rid_def)
    qed
  qed
qed

lemma processCreemRefund_keeps: "processCreemRefund w v event now i s = Inr (result, s') \<Longrightarrow> keeps s s'"
  by (erule processCreemRefund_cases) (auto intro: refund_change_keeps)

lemma processCreemDispute_cases:
  assumes "processCreemDispute v event s = Inr (result, s')"
  obtains (untouched) "s' = s" "dr_outcome result = (if di_orderId event = None then Ignored else Unlinked)"
      "di_orderId event \<noteq> None \<Longrightarrow> dr_orderId result = di_orderId event \<and> findPurchase v (the (di_orderId event)) s = None"
    | (changed) oid row g where "di_orderId event = Some oid" "findPurchase v oid s = Some (row, g)"
        "dr_outcome result = Processed" "s' = s\<lparr> grants := (grants s)(oid \<mapsto> close_purchase Disputed g) \<rparr>"
        "refund_change oid g (close_purchase Disputed g) s s'"
proof (cases "di_orderId event")
  case None
  then show ?thesis using assms by (intro untouched) (auto simp: processCreemDispute_def NOTHING_def)
next
  case (Some oid)
  show ?thesis
  proof (cases "findPurchase v oid s")
    case None
    then show ?thesis using assms Some by (intro untouched) (auto simp: processCreemDispute_def unlinked_def NOTHING_def)
  next
    case p: (Some p)
    obtain row g where rg: "p = (row, g)" by (cases p)
    have s': "s' = s\<lparr> grants := (grants s)(oid \<mapsto> close_purchase Disputed g) \<rparr>" "dr_outcome result = Processed"
      using assms Some p rg by (auto simp: processCreemDispute_def)
    show ?thesis
    proof (rule changed [OF Some _ s'(2,1)])
      show "findPurchase v oid s = Some (row, g)" using p rg by simp
      show "refund_change oid g (close_purchase Disputed g) s s'"
        using findPurchase_Some [of v oid s row g] p rg by (simp add: refund_change_def s')
    qed
  qed
qed

lemma processCreemDispute_keeps: "processCreemDispute v event s = Inr (result, s') \<Longrightarrow> keeps s s'"
  by (erule processCreemDispute_cases) (auto intro: refund_change_keeps)

section \<open>The replay\<close>

lemma apply_result_id [simp]: "we_eventId (apply_result outcome why account row) = we_eventId row"
  by (simp add: apply_result_def)

lemma process_stored_keeps: "process_stored w e now i s = Inr (result, s') \<Longrightarrow> keeps s s'"
  by (cases e) (auto intro: processCreemRefund_keeps processCreemDispute_keeps)

lemma replay_rows_keeps: "replay_rows w now why rows s = Inr (types, s') \<Longrightarrow> keeps s s'"
proof (induction rows arbitrary: s types)
  case (Cons row rows)
  show ?case
  proof (cases "replayableEvent w (we_rawBody row) (we_eventId row)")
    case None
    with Cons show ?thesis by simp
  next
    case (Some e)
    with Cons.prems obtain result s1 where p: "process_stored w e now (we_eventId row) s = Inr (result, s1)"
      by auto
    note k = process_stored_keeps [OF p]
    show ?thesis
    proof (cases "applied (dr_outcome result)")
      case False
      with Cons.prems Some p Cons.IH [of s1 types] k show ?thesis by (auto intro: keeps_trans)
    next
      case True
      let ?s2 = "update_event (we_eventId row) (apply_result (dr_outcome result) (Some why) (dr_accountId result)) s1"
      from True Cons.prems Some p obtain types' where "replay_rows w now why rows ?s2 = Inr (types', s')"
        by (auto simp: Let_def)
      from Cons.IH [OF this] update_event_keeps [of "apply_result (dr_outcome result) (Some why) (dr_accountId result)"]
      show ?thesis using k by (meson keeps_trans apply_result_id)
    qed
  qed
qed simp

lemma apply_pending_keeps: "applyPendingCreemRefundEvents w oid now why s = Inr (types, s') \<Longrightarrow> keeps s s'"
  unfolding applyPendingCreemRefundEvents_def by (rule replay_rows_keeps)

lemma replay_orders_keeps: "replay_orders w now oids a b s = (a', b', s') \<Longrightarrow> keeps s s'"
proof (induction oids arbitrary: a b s)
  case (Cons oid oids)
  show ?case
  proof (cases "applyPendingCreemRefundEvents w oid now
      (Some (''applied by the pending-refund sweep; order '' @ oid @ '' was already granted'')) s")
    case (Inl e)
    with Cons show ?thesis by simp
  next
    case (Inr r)
    obtain types s1 where r: "r = (types, s1)" by (cases r)
    from Cons.prems Inr r have "replay_orders w now oids (a + length types) b s1 = (a', b', s')" by simp
    from Cons.IH [OF this] apply_pending_keeps [OF Inr [unfolded r]] show ?thesis by (rule keeps_trans [rotated])
  qed
qed simp

lemma sweep_keeps: "keeps s (snd (reconcileCreemPendingRefunds w now limit s))"
  unfolding reconcileCreemPendingRefunds_def Let_def
  by (auto split: prod.split intro: replay_orders_keeps)

section \<open>The grant\<close>

text \<open>A claimed session and its new purchase, seen together.\<close>

definition sold_row :: "checkout_session \<Rightarrow> rat \<Rightarrow> string \<Rightarrow> string option \<Rightarrow> string \<Rightarrow> checkout_session" where
  "sold_row row settled settled_in unverified oid =
     row\<lparr> cs_status := SessionCompleted, cs_statusReason := unverified, cs_settledAmount := Some settled,
          cs_settledCurrency := Some settled_in, cs_purchaseId := Some oid \<rparr>"

lemma sale_keeps:
  assumes "purchases (billing s) oid = None" "sessions s reference = Some row" "cs_purchaseId row = None"
    "sessions s' = (sessions s)(reference \<mapsto> sold_row row settled settled_in unverified oid)"
    "grants s' = (grants s)(oid \<mapsto> g)" "sells row g" "g_status g = Paid"
    "purchases (billing s') = (purchases (billing s))(oid \<mapsto> prow)"
    "refund_lines s' = refund_lines s" "deliveries s' = deliveries s"
  shows "keeps s s'"
  unfolding keeps_def
proof
  assume ok: "shop_ok s"
  have fresh: "grants s oid = None" using shop_okD(1) [OF ok, of oid] assms(1) by simp
  have no_lines: "refund_lines s oid = []" using shop_okD(2) [OF ok fresh] .
  have unlinked: "\<not> linked_to s a oid" for a
    using shop_okD(3) [OF ok, of a] fresh by (auto simp: linked_to_def session_ok_def split: option.splits)
  have linked: "linked_to s' a p \<longleftrightarrow> (if a = reference then p = oid else linked_to s a p)" for a p
    by (auto simp: linked_to_def assms(4) sold_row_def)
  have was: "\<not> linked_to s reference p" for p using assms(2,3) by (simp add: linked_to_def)
  have full: "fully_refunded s' p = fully_refunded s p" if "p \<noteq> oid" for p
    using that by (simp add: fully_refunded_def assms cong: option.case_cong)
  have not_full: "\<not> fully_refunded s' oid" by (simp add: fully_refunded_def assms no_lines)
  have "shop_ok s'"
    unfolding shop_ok_def
  proof (intro conjI allI impI)
    fix p show "(purchases (billing s') p = None) = (grants s' p = None)"
      using shop_okD(1) [OF ok, of p] by (simp add: assms)
  next
    fix p assume "grants s' p = None"
    then show "refund_lines s' p = []" using shop_okD(2) [OF ok, of p] by (auto simp: assms split: if_splits)
  next
    fix a r assume r: "sessions s' a = Some r"
    show "session_ok s' r"
    proof (cases "a = reference")
      case True
      with r assms(4-6) show ?thesis by (auto simp: session_ok_def sold_row_def sells_def)
    next
      case False
      with r have "sessions s a = Some r" by (simp add: assms)
      then have "session_ok s r" "cs_purchaseId r \<noteq> Some oid"
        using shop_okD(3) [OF ok] unlinked [of a] by (auto simp: linked_to_def)
      then show ?thesis by (auto simp: session_ok_def assms split: option.splits)
    qed
  next
    fix a b p assume "linked_to s' a p \<and> linked_to s' b p"
    then show "a = b" using shop_okD(4) [OF ok, of a p b] unlinked was
      by (auto simp: linked split: if_splits)
  next
    fix p h assume h: "grants s' p = Some h"
    show "grant_ok s' p h"
    proof (cases "p = oid")
      case True
      with h not_full assms(5,7) linked [of reference oid] show ?thesis by (auto simp: grant_ok_def)
    next
      case False
      with h have "grant_ok s p h" using shop_okD(5) [OF ok] by (simp add: assms)
      then obtain a where "linked_to s a p" "a \<noteq> reference" using was by (auto simp: grant_ok_def)
      then have "linked_to s' a p" by (simp add: linked)
      with \<open>grant_ok s p h\<close> False show ?thesis by (auto simp: grant_ok_def full)
    qed
  next
    show "distinct (map we_eventId (deliveries s'))" using shop_okD(6) [OF ok] by (simp add: assms)
  qed
  moreover have "facts s \<subseteq> facts s'"
  proof -
    have "linked_to s a p \<Longrightarrow> linked_to s' a p" for a p using was by (auto simp: linked)
    moreover have "grants s p = Some h \<Longrightarrow> grants s' p = Some h" for p h using fresh by (auto simp: assms)
    ultimately show ?thesis by (intro facts_mono) (auto simp: assms(9,10))
  qed
  ultimately show "shop_ok s' \<and> facts s \<subseteq> facts s'" ..
qed

lemma createPaidScan_Inr:
  assumes "createPaidScan w ps session s = Inr s'"
  shows "purchases (billing s) (ps_orderId ps) = None \<and> sessions s' = sessions s \<and> refund_lines s' = refund_lines s
    \<and> deliveries s' = deliveries s
    \<and> purchases (billing s') = (purchases (billing s))(ps_orderId ps \<mapsto> paid_row w ps)
    \<and> grants s' = (grants s)(ps_orderId ps \<mapsto> paid_grant ps session)"
  using assms by (auto simp: createPaidScan_def Let_def split: if_splits)

lemma paid_grant_facts [simp]: "sells session (paid_grant ps session)" "g_status (paid_grant ps session) = Paid"
  by (simp_all add: sells_def paid_grant_def)

lemma grant_order_keeps:
  assumes "claim_session reference settled settled_in unverified s = (count, s1)" "count = 1"
    "sessions s reference = Some session"
    "grant_order w reference session oid usd settled settled_in unverified ctx s1 = Inr (result, s')"
  shows "keeps s s'"
proof -
  let ?ps = "\<lparr> ps_orderId = oid, ps_reference = reference, ps_amount = usd,
      ps_settled = (if settled_in = ''USD'' then None else Some (settled, settled_in)), ps_now = ctx_now ctx \<rparr>"
  have c: "claimableCheckoutSession session" and s1: "s1 = s\<lparr> sessions := (sessions s)(reference \<mapsto>
      session\<lparr> cs_status := SessionCompleted, cs_statusReason := unverified, cs_settledAmount := Some settled,
        cs_settledCurrency := Some settled_in \<rparr>) \<rparr>"
    using assms(1-3) by (auto simp: claim_session_def update_where_def split: if_splits)
  obtain s2 where s2: "createPaidScan w ?ps session s1 = Inr s2"
    using assms(4) by (auto simp: grant_order_def split: sum.splits webhook_abort.splits)
  then obtain types where rest: "applyPendingCreemRefundEvents w oid (ctx_now ctx) None (link_session reference oid s2) = Inr (types, s')"
    using assms(4) by (auto simp: grant_order_def)
  note sale = createPaidScan_Inr [OF s2, simplified]
  have "sessions (link_session reference oid s2) = (sessions s)(reference \<mapsto> sold_row session settled settled_in unverified oid)"
    using sale by (simp add: link_session_def update_where_def s1 sold_row_def)
  then have "keeps s (link_session reference oid s2)"
    by (rule sale_keeps [rotated 3, where g = "paid_grant ?ps session" and prow = "paid_row w ?ps"])
      (use sale assms(3) c in \<open>simp_all add: s1 link_session_def update_where_def claimableCheckoutSession_def\<close>)
  with apply_pending_keeps [OF rest] show ?thesis by (rule keeps_trans [rotated])
qed

lemma claim_keeps_failed:
  "claim_session reference settled settled_in unverified s = (count, s1) \<Longrightarrow> count \<noteq> 1 \<Longrightarrow> s1 = s"
  by (auto simp: claim_session_def update_where_def split: option.splits if_splits)

lemma refuse_keeps: "refuse_session reference session oid why s = (result, s') \<Longrightarrow> keeps s s'"
  by (auto simp: refuse_session_def intro: markSessionRejected_keeps)

lemma processCheckoutCompleted_keeps:
  assumes "processCheckoutCompleted w v event ctx s = Inr (result, s')"
  shows "keeps s s'"
proof (cases "findPurchase v (co_orderId event) s")
  case (Some p)
  then show ?thesis using assms
    by (cases p) (auto simp: processCheckoutCompleted_def Let_def intro: apply_pending_keeps)
next
  case None
  show ?thesis
  proof (cases "\<exists>reference session. readCreemCheckoutReference event = Some reference \<and> sessions s reference = Some session")
    case False
    with None assms show ?thesis by (auto simp: processCheckoutCompleted_def Let_def split: option.splits)
  next
    case True
    then obtain reference session where
      r: "readCreemCheckoutReference event = Some reference" "sessions s reference = Some session" by blast
    show ?thesis using assms None r
      by (auto simp: processCheckoutCompleted_def Let_def refuse_keeps
          split: if_splits amount_verdict.splits prod.splits option.splits
          dest: claim_keeps_failed intro: grant_order_keeps refuse_keeps)
  qed
qed

section \<open>Whole events\<close>

lemma process_event_keeps: "process_event w v i ctx e s = Inr (result, s') \<Longrightarrow> keeps s s'"
  by (cases e) (auto intro: processCreemRefund_keeps processCreemDispute_keeps processCheckoutCompleted_keeps)

lemma dispatchSafely_keeps: "dispatchSafely w v raw ctx s = Inr (result, s') \<Longrightarrow> keeps s s'"
  by (auto simp: dispatchSafely_def dispatch_event_def intro: process_event_keeps
      split: sum.splits option.splits webhook_abort.splits if_splits)

lemma record_result_id [simp]: "we_eventId (record_result result row) = we_eventId row"
  by (simp add: record_result_def)

lemma runInTransaction_keeps: "runInTransaction w v raw body ctx s = Inr (r, s') \<Longrightarrow> keeps s s'"
  unfolding runInTransaction_def
  by (auto intro: keeps_trans [OF create_event_keeps keeps_trans [OF dispatchSafely_keeps update_event_keeps]])

lemma recordRolledBackClaim_keeps:
  "recordRolledBackClaim raw body ctx sid account oid why s = Inr (r, s') \<Longrightarrow> keeps s s'"
  by (auto simp: recordRolledBackClaim_def intro: keeps_trans [OF create_event_keeps markSessionRejected_keeps]
      split: sum.splits webhook_abort.splits)

lemma processOne_keeps: "processOne n w v raw body ctx s = Inr (r, s') \<Longrightarrow> keeps s s'"
proof (induction n arbitrary: v)
  case 0
  then show ?case
    by (subst (asm) processOne.simps)
      (auto intro: runInTransaction_keeps recordRolledBackClaim_keeps split: sum.splits webhook_abort.splits)
next
  case (Suc n)
  from Suc.prems show ?case
    by (subst (asm) processOne.simps)
      (auto intro: runInTransaction_keeps recordRolledBackClaim_keeps Suc.IH split: sum.splits webhook_abort.splits)
qed

lemma process_all_keeps: "keeps s (snd (process_all w v raws body ctx s))"
proof (induction raws arbitrary: s)
  case (Cons raw raws)
  show ?case
  proof (cases "processOne 1 w (v (raw_id raw)) raw body ctx s")
    case (Inr r)
    obtain result s1 where r: "r = (result, s1)" by (cases r)
    from processOne_keeps [OF Inr [unfolded r]] Cons.IH [of s1] have "keeps s (snd (process_all w v raws body ctx s1))"
      by (rule keeps_trans)
    with Inr r show ?thesis by (auto split: prod.split sum.split)
  qed simp
qed simp

lemma shop_step_keeps: "keeps s (shop_step w s e)"
  by (cases e) (simp_all add: process_all_keeps sweep_keeps openSession_keeps closeUnopenedSession_keeps expire_keeps)

interpretation shop_runs: growing_stepper "shop_step w" "\<lambda>_ _. True" shop_ok facts for w
  by unfold_locales (use shop_step_keeps in \<open>auto simp: keeps_def\<close>)

lemma legal_always [simp]: "legal step (\<lambda>_ _. True) s es"
  by (induction es arbitrary: s) auto

section \<open>A concrete sale\<close>

text \<open>A session, the order that pays for it, and a dispute; used to show that the hypotheses can hold.\<close>

definition sample_world :: shop_world where
  "sample_world = \<lparr> json_parse = (\<lambda>_. None), num_text = (\<lambda>_. ''n''), profile_owner = (\<lambda>_. Some ''acc''),
     execution_config = (\<lambda>_. Some ''cfg''), consent_of = (\<lambda>_. None), new_scan_id = (\<lambda>_. ''s''),
     dispatch_others = (\<lambda>_ db. db) \<rparr>"

definition sample_request :: checkout_request where
  "sample_request = \<lparr> rq_accountId = ''acc'', rq_siteProfileId = ''prof'', rq_plan = Basic, rq_productId = ''prod'', rq_liveMode = True,
     rq_scopeJson = [], rq_profileConfigVersion = 1, rq_executionConfigJson = [], rq_aiConsentJson = None \<rparr>"

definition sample_checkout :: RawCreemEvent where
  "sample_checkout = \<lparr> raw_id = ''e1'', raw_eventType = ''checkout.completed'', raw_object = Some
     [(''id'', JString ''ch''), (''request_id'', JString ''ref''), (''product'', JString ''prod''),
      (''order'', JObject [(''id'', JString ''o1''), (''amount_paid'', JNumber (Num 3900))])] \<rparr>"

definition sample_dispute :: RawCreemEvent where
  "sample_dispute = \<lparr> raw_id = ''e2'', raw_eventType = ''dispute.created'', raw_object = Some [(''order'', JString ''o1'')] \<rparr>"

definition sample_context :: ProcessingContext where
  "sample_context = \<lparr> expectLive = True, ctx_now = 1 \<rparr>"

lemma sample_trims: "js_trim ''ch'' = ''ch''" "js_trim ''ref'' = ''ref''" "js_trim ''prod'' = ''prod''" "js_trim ''o1'' = ''o1''"
  by code_simp+

lemma readString_plain [simp]: "js_trim s = t \<Longrightarrow> t \<noteq> [] \<Longrightarrow> readString (Some (JString s)) = Some s"
  by simp

definition sample_co :: CreemCheckoutCompletedEvent where
  "sample_co = \<lparr> amount = None, subTotal = None, taxAmount = None, amountDue = None, amountPaid = Some 3900, discountAmount = None,
    hasDiscount = False, event_currency = None, checkoutId = ''ch'', requestId = Some ''ref'', metadataReference = None,
    co_orderId = ''o1'', productId = Some ''prod'', taxMode = None, orderStatus = None, customerEmail = None \<rparr>"

lemma sample_checkout_event: "normalizeCreemEvent sample_checkout = Inr (CheckoutCompleted sample_co)"
  by (simp add: normalizeCreemEvent_def sample_checkout_def checkoutCompleted_def normalizeCheckoutCompleted_def Let_def
    sample_trims first_of_def field_def readTaxMode_def sample_co_def CREEM_CHECKOUT_REFERENCE_KEY_def)

lemma sample_dispute_event: "normalizeCreemEvent sample_dispute = Inr (DisputeCreated \<lparr> disputeId = None, di_orderId = Some ''o1'', di_amount = None, di_currency = None \<rparr>)"
  by (simp add: normalizeCreemEvent_def sample_dispute_def checkoutCompleted_def refundCreated_def disputeCreated_def normalizeDisputeCreated_def Let_def
    sample_trims first_of_def field_def linked_order_def)

lemma sample_live: "readCreemEventLiveFlag sample_checkout = None" "readCreemEventLiveFlag sample_dispute = None"
  by (simp_all add: readCreemEventLiveFlag_def sample_checkout_def sample_dispute_def)

lemma sample_amount: "\<exists>why. resolveCreemOrderAmount (num_text sample_world) (Num 39) (checkout_event.truncate sample_co) Basic = Accepted 39 39 ''USD'' why"
proof -
  have "js_upper ''USD'' = ''USD''" by code_simp
  then show ?thesis
  by (simp add: resolveCreemOrderAmount_def readOrderAmounts_def is_discounted_def first_of_def dollars_exact Let_def sample_co_def requiredUsd_def checkout_event.defs
     EXACT_TOLERANCE_def roundCents_def js_round_def)
qed


lemma sample_raws [simp]: "raw_id sample_checkout = ''e1''" "raw_id sample_dispute = ''e2''"
  "raw_eventType sample_checkout = ''checkout.completed''" "raw_eventType sample_dispute = ''dispute.created''"
  by (simp_all add: sample_checkout_def sample_dispute_def)

definition sample_sale :: "shop_event list" where
  "sample_sale = [OpenedSession ''ref'' sample_request 0, Delivered (\<lambda>_. True) [sample_checkout] [] sample_context]"

definition sample_run :: "shop_event list" where
  "sample_run = sample_sale @ [Delivered (\<lambda>_. True) [sample_dispute] [] sample_context]"

lemma sample_co_simps [simp]: "co_orderId sample_co = ''o1''" "readCreemCheckoutReference sample_co = Some ''ref''" "productId sample_co = Some ''prod''"
  by (simp_all add: sample_co_def readCreemCheckoutReference_def first_of_def)

lemma sample_sold:
  "\<exists>g row e. grants (run (shop_step sample_world) empty_shop sample_sale) ''o1'' = Some g \<and> g_status g = Paid
     \<and> purchases (billing (run (shop_step sample_world) empty_shop sample_sale)) ''o1'' = Some row
     \<and> deliveries (run (shop_step sample_world) empty_shop sample_sale) = [e] \<and> we_eventId e = ''e1''"
proof -
  obtain why where accepted: "resolveCreemOrderAmount (\<lambda>_. ''n'') (Num 39) (checkout_event.truncate sample_co) Basic = Accepted 39 39 ''USD'' why"
    using sample_amount by (auto simp: sample_world_def)
  show ?thesis
    by (simp add: sample_sale_def openSession_def empty_shop_def processOne.simps runInTransaction_def create_event_def
      dispatchSafely_def dispatch_event_def sample_checkout_event sample_live processCheckoutCompleted_def findPurchase_def Let_def
      new_session_def sample_request_def sample_context_def isPaidPlan_def CREEM_PROVIDER_def
      claim_session_def update_where_def claimableCheckoutSession_def sample_world_def grant_order_def createPaidScan_def
      applyPendingCreemRefundEvents_def pending_rows_def link_session_def paid_grant_def update_event_def record_result_def apply_result_def accepted
      NOTHING_def)
qed

lemma sample_disputed:
  "\<exists>g. grants (run (shop_step sample_world) empty_shop sample_run) ''o1'' = Some g \<and> g_status g = Disputed"
proof -
  let ?s = "run (shop_step sample_world) empty_shop sample_sale"
  obtain g row e where s: "grants ?s ''o1'' = Some g" "g_status g = Paid" "purchases (billing ?s) ''o1'' = Some row"
      "deliveries ?s = [e]" "we_eventId e = ''e1''"
    using sample_sold by blast
  then have "\<exists>g. grants (shop_step sample_world ?s (Delivered (\<lambda>_. True) [sample_dispute] [] sample_context)) ''o1'' = Some g
      \<and> g_status g = Disputed"
    by (simp add: processOne.simps runInTransaction_def create_event_def dispatchSafely_def dispatch_event_def
        sample_dispute_event sample_live processCreemDispute_def findPurchase_def update_event_def close_purchase_def suspend_def)
  then show ?thesis by (simp add: sample_run_def)
qed

section \<open>Properties\<close>

text \<open>
  C4: One payment, one audit. In every run of the shop's events - deliveries in any order, repeated or
  racing each other, sweeps, abandoned and reopened checkouts - every purchase was sold by exactly one
  checkout session, it sells what that session was opened for, a session is completed exactly when it
  has its purchase, and no delivery is stored twice.
\<close>

theorem sales_exact:
  assumes "s = run (shop_step w) empty_shop es"
  shows "(\<forall>oid g. grants s oid = Some g \<longrightarrow>
            (\<exists>!reference. linked_to s reference oid)
            \<and> (\<exists>reference row. sessions s reference = Some row \<and> cs_purchaseId row = Some oid
                 \<and> cs_status row = SessionCompleted \<and> sells row g))
    \<and> (\<forall>reference row. sessions s reference = Some row \<and> cs_status row = SessionCompleted \<longrightarrow>
         (\<exists>oid. cs_purchaseId row = Some oid \<and> grants s oid \<noteq> None))
    \<and> distinct (map we_eventId (deliveries s))"
proof -
  have ok: "shop_ok s" unfolding assms by (rule shop_runs.run_inv) simp_all
  have sold: "session_ok s row" if "sessions s reference = Some row" for reference row
    using shop_okD(3) [OF ok that] .
  have one: "\<exists>!reference. linked_to s reference oid" if "grants s oid = Some g" for oid g
    using shop_okD(5) [OF ok that] shop_okD(4) [OF ok] unfolding grant_ok_def by blast
  have row: "\<exists>reference row. sessions s reference = Some row \<and> cs_purchaseId row = Some oid
      \<and> cs_status row = SessionCompleted \<and> sells row g" if g: "grants s oid = Some g" for oid g
  proof -
    from one [OF g] obtain reference where "linked_to s reference oid" by blast
    then obtain row where r: "sessions s reference = Some row" "cs_purchaseId row = Some oid"
      by (auto simp: linked_to_def split: option.splits)
    with sold [OF r(1)] g show ?thesis by (auto simp: session_ok_def)
  qed
  have "\<exists>oid. cs_purchaseId row = Some oid \<and> grants s oid \<noteq> None"
    if "sessions s reference = Some row" "cs_status row = SessionCompleted" for reference row
    using sold [OF that(1)] that(2) by (auto simp: session_ok_def split: option.splits)
  with one row shop_okD(6) [OF ok] show ?thesis by blast
qed

theorem sales_exact_witness:
  "(\<exists>!reference. linked_to (run (shop_step sample_world) empty_shop sample_sale) reference ''o1'')"
  using sales_exact [OF refl, of sample_world sample_sale] sample_sold by blast

text \<open>
  C3: Money back means no report, for good. In every run, once the refunds counted for an order return
  99 percent of its charge, or a dispute or full refund closed its purchase, nobody reads the report it
  bought: not now and not after any further events, and the status that closed it is never rewritten.
\<close>

theorem closed_for_good:
  assumes "s = run (shop_step w) empty_shop es" "grants s oid = Some g" "fully_refunded s oid \<or> g_status g \<noteq> Paid"
  shows "isPaidAccessActive (order_access s oid) = False
    \<and> isPaidAccessActive (order_access (run (shop_step w) s later) oid) = False
    \<and> (\<exists>h. grants (run (shop_step w) s later) oid = Some h \<and> g_status h = g_status g)"
proof -
  have ok: "shop_ok s" unfolding assms(1) by (rule shop_runs.run_inv) simp_all
  then have ok': "shop_ok (run (shop_step w) s later)" by (rule shop_runs.run_inv) simp
  have closed: "shut g" using shop_okD(5) [OF ok assms(2)] assms(3) by (auto simp: grant_ok_def)
  have "ShutAs oid (g_status g) \<in> facts s" using assms(2) closed unfolding facts_def by blast
  then have "ShutAs oid (g_status g) \<in> facts (run (shop_step w) s later)"
    using shop_runs.run_grows [OF ok, where w = w and es = later] by auto
  then obtain h where h: "grants (run (shop_step w) s later) oid = Some h" "shut h" "g_status h = g_status g"
    by (auto simp: facts_def)
  then show ?thesis using closed assms(2)
    by (auto simp: isPaidAccessActive_def denied_iff shut_def)
qed

theorem closed_for_good_witness:
  "isPaidAccessActive (order_access (run (shop_step sample_world) empty_shop sample_run) ''o1'') = False"
proof -
  obtain g where "grants (run (shop_step sample_world) empty_shop sample_run) ''o1'' = Some g" "g_status g \<noteq> Paid"
    using sample_disputed by auto
  with closed_for_good [OF refl, of sample_world sample_run "''o1''" g] show ?thesis by blast
qed

end
