(* ===== verification/PendingRefunds.thy ===== *)
theory PendingRefunds
  imports Sales
begin

text \<open>
  Refunds and disputes that reach the shop before the order they belong to, or while it is being granted:
  their rows stay \<open>Unlinked\<close>. The rows are always replayable, a replay that sees the purchase applies them,
  and a sweep that reports no failure and no full batch leaves none of them waiting.
\<close>

section \<open>The rows that wait\<close>

definition waiting :: "shop \<Rightarrow> webhook_event set" where
  "waiting s = {r \<in> set (deliveries s). we_outcome r = Unlinked}"

definition row_replayable :: "shop_world \<Rightarrow> webhook_event \<Rightarrow> bool" where
  "row_replayable w r \<longleftrightarrow>
     (\<exists>e oid. replayableEvent w (we_rawBody r) (we_eventId r) = Some e \<and> creemOrderIdOf e = Some oid \<and> we_orderId r = Some oid)"

definition waiting_ok :: "shop_world \<Rightarrow> shop \<Rightarrow> bool" where
  "waiting_ok w s \<longleftrightarrow> (\<forall>r \<in> waiting s. row_replayable w r)"

text \<open>A delivery's events are those its own text holds.\<close>

fun readable :: "shop_world \<Rightarrow> shop_event \<Rightarrow> bool" where
  "readable w (Delivered visible raws rawBody ctx) =
     (case json_parse w rawBody of None \<Rightarrow> False | Some body \<Rightarrow> parseCreemEnvelope body = Some raws)"
| "readable w e = True"

text \<open>What a step does to the tables around the rows.\<close>

definition quiet_step :: "shop \<Rightarrow> shop \<Rightarrow> bool" where
  "quiet_step s s' \<longleftrightarrow> waiting s' \<subseteq> waiting s \<and> map we_eventId (deliveries s') = map we_eventId (deliveries s)"

lemma quiet_refl [simp]: "quiet_step s s"
  by (simp add: quiet_step_def)

lemma quiet_trans [trans]: "quiet_step s1 s2 \<Longrightarrow> quiet_step s2 s3 \<Longrightarrow> quiet_step s1 s3"
  by (auto simp: quiet_step_def)

lemma quiet_same: "deliveries s' = deliveries s \<Longrightarrow> quiet_step s s'"
  by (simp add: quiet_step_def waiting_def)

lemma quiet_ok: "quiet_step s s' \<Longrightarrow> waiting_ok w s \<Longrightarrow> waiting_ok w s'"
  by (auto simp: quiet_step_def waiting_ok_def)

lemma refund_quiet: "processCreemRefund w v event now i s = Inr (result, s') \<Longrightarrow> quiet_step s s'"
  by (erule processCreemRefund_cases) (auto simp: refund_change_def intro: quiet_same)

lemma dispute_quiet: "processCreemDispute v event s = Inr (result, s') \<Longrightarrow> quiet_step s s'"
  by (erule processCreemDispute_cases) (auto intro: quiet_same)

lemma stored_quiet: "process_stored w e now i s = Inr (result, s') \<Longrightarrow> quiet_step s s'"
  by (cases e) (auto intro: refund_quiet dispute_quiet)

lemma apply_result_outcome [simp]: "we_outcome (apply_result outcome why account row) = outcome"
  by (simp add: apply_result_def)

lemma update_quiet:
  "applied outcome \<Longrightarrow> quiet_step s (update_event i (apply_result outcome why account) s)"
proof -
  assume a: "applied outcome"
  have "map we_eventId (deliveries (update_event i (apply_result outcome why account) s)) = map we_eventId (deliveries s)"
    by (simp add: update_event_def)
  moreover have "r \<in> waiting s" if "r \<in> waiting (update_event i (apply_result outcome why account) s)" for r
    using a that by (auto simp: waiting_def update_event_def applied_def split: if_splits)
  ultimately show ?thesis unfolding quiet_step_def by blast
qed

lemma update_removes:
  "applied outcome \<Longrightarrow> r \<in> waiting (update_event i (apply_result outcome why account) s) \<Longrightarrow> we_eventId r \<noteq> i"
proof -
  assume a: "applied outcome" and r: "r \<in> waiting (update_event i (apply_result outcome why account) s)"
  from r have "r \<in> (\<lambda>x. if we_eventId x = i then apply_result outcome why account x else x) ` set (deliveries s)"
    and out: "we_outcome r = Unlinked" by (simp_all add: waiting_def update_event_def)
  then obtain x where x: "r = (if we_eventId x = i then apply_result outcome why account x else x)" by (elim imageE)
  show ?thesis
  proof (cases "we_eventId x = i")
    case True
    with a x out show ?thesis by (simp add: applied_def)
  qed (use x in simp)
qed

section \<open>The replay applies what waits\<close>

definition has_purchase :: "shop \<Rightarrow> string \<Rightarrow> bool" where
  "has_purchase s oid \<longleftrightarrow> findPurchase True oid s \<noteq> None"

lemma has_purchase_iff: "has_purchase s oid \<longleftrightarrow> purchases (billing s) oid \<noteq> None \<and> grants s oid \<noteq> None"
  by (auto simp: has_purchase_def findPurchase_def split: option.splits)

text \<open>What a stored event leaves behind once it is applied.\<close>

fun effect_of :: "string \<Rightarrow> NormalizedCreemEvent \<Rightarrow> shop \<Rightarrow> bool" where
  "effect_of i (RefundCreated e) s \<longleftrightarrow>
     (case re_orderId e of None \<Rightarrow> False
      | Some oid \<Rightarrow> \<exists>line. RefundLine oid (case refundId e of Some r \<Rightarrow> r | None \<Rightarrow> i) line \<in> facts s)"
| "effect_of i (DisputeCreated e) s \<longleftrightarrow>
     (case di_orderId e of None \<Rightarrow> False | Some oid \<Rightarrow> \<exists>st. ShutAs oid st \<in> facts s)"
| "effect_of i (CheckoutCompleted e) s = True"

lemma effect_mono: "effect_of i e s \<Longrightarrow> facts s \<subseteq> facts s' \<Longrightarrow> effect_of i e s'"
  by (cases e) (auto split: option.splits)

lemma change_has_purchase: "refund_change oid g g' s s' \<Longrightarrow> has_purchase s' p = has_purchase s p"
  by (auto simp: refund_change_def has_purchase_iff)

lemma stored_has_purchase: "process_stored w e now i s = Inr (result, s') \<Longrightarrow> has_purchase s' p = has_purchase s p"
  by (cases e) (auto elim!: processCreemRefund_cases processCreemDispute_cases dest: change_has_purchase)

lemma stored_applied:
  assumes "process_stored w e now i s = Inr (result, s')" "creemOrderIdOf e = Some oid" "has_purchase s oid"
    "\<And>c. e \<noteq> CheckoutCompleted c"
  shows "applied (dr_outcome result) \<and> effect_of i e s'"
proof (cases e)
  case (RefundCreated f)
  with assms(1) have "processCreemRefund w True f now i s = Inr (result, s')" by simp
  then show ?thesis
  proof (cases rule: processCreemRefund_cases)
    case untouched
    with assms(2,3) RefundCreated show ?thesis by (simp add: has_purchase_def)
  next
    case (changed o' row g)
    then show ?thesis using RefundCreated by (auto simp: applied_def facts_def)
  qed
next
  case (DisputeCreated f)
  with assms(1) have "processCreemDispute True f s = Inr (result, s')" by simp
  then show ?thesis
  proof (cases rule: processCreemDispute_cases)
    case untouched
    with assms(2,3) DisputeCreated show ?thesis by (simp add: has_purchase_def)
  next
    case (changed o' row g)
    then show ?thesis using DisputeCreated by (auto simp: applied_def facts_def)
  qed
qed (use assms(4) in blast)

lemma replayable_kind: "replayableEvent w body i = Some e \<Longrightarrow> e \<noteq> CheckoutCompleted c"
  by (auto simp: replayableEvent_def split: option.splits sum.splits NormalizedCreemEvent.splits)

lemma replay_rows_apply:
  assumes "replay_rows w now why rows s = Inr (types, s')" "\<And>r. r \<in> set rows \<Longrightarrow> row_replayable w r"
    "\<And>r. r \<in> set rows \<Longrightarrow> has_purchase s (the (we_orderId r))" "shop_ok s"
  shows "quiet_step s s' \<and> (\<forall>p. has_purchase s' p = has_purchase s p)
    \<and> (\<forall>r \<in> set rows. we_eventId r \<notin> we_eventId ` waiting s'
         \<and> (\<exists>e. replayableEvent w (we_rawBody r) (we_eventId r) = Some e \<and> effect_of (we_eventId r) e s'))"
  using assms
proof (induction rows arbitrary: s types)
  case (Cons row rows)
  obtain e oid where e: "replayableEvent w (we_rawBody row) (we_eventId row) = Some e" "creemOrderIdOf e = Some oid"
      "we_orderId row = Some oid"
    using Cons.prems(2) [of row] by (auto simp: row_replayable_def)
  obtain result s1 where p: "process_stored w e now (we_eventId row) s = Inr (result, s1)"
    using Cons.prems(1) e by auto
  have ap: "applied (dr_outcome result)" "effect_of (we_eventId row) e s1"
    using stored_applied [OF p e(2)] Cons.prems(3) [of row] e(3) replayable_kind [OF e(1)] by auto
  let ?f = "apply_result (dr_outcome result) (Some why) (dr_accountId result)"
  let ?s2 = "update_event (we_eventId row) ?f s1"
  have k: "keeps s ?s2" using process_stored_keeps [OF p] update_event_keeps [of ?f] by (meson keeps_trans apply_result_id)
  then have ok2: "shop_ok ?s2" "facts s1 \<subseteq> facts ?s2"
    using Cons.prems(4) process_stored_keeps [OF p] update_event_keeps [of ?f, where s = s1 and eventId = "we_eventId row"] by (auto simp: keeps_def)
  have hp: "has_purchase ?s2 q = has_purchase s q" for q
    using stored_has_purchase [OF p] by (simp add: has_purchase_iff update_event_def)
  have q: "quiet_step s ?s2" using stored_quiet [OF p] update_quiet [OF ap(1)] by (rule quiet_trans)
  from Cons.prems(1) e p ap obtain types' where rest: "replay_rows w now why rows ?s2 = Inr (types', s')"
    by (auto simp: Let_def)
  have IH: "quiet_step ?s2 s' \<and> (\<forall>p. has_purchase s' p = has_purchase ?s2 p)
    \<and> (\<forall>r \<in> set rows. we_eventId r \<notin> we_eventId ` waiting s'
         \<and> (\<exists>e. replayableEvent w (we_rawBody r) (we_eventId r) = Some e \<and> effect_of (we_eventId r) e s'))"
    using Cons.prems(2,3) ok2 hp by (intro Cons.IH [OF rest]) auto
  have gone: "we_eventId row \<notin> we_eventId ` waiting s'"
  proof
    assume "we_eventId row \<in> we_eventId ` waiting s'"
    then obtain r where r: "r \<in> waiting s'" "we_eventId r = we_eventId row" by (elim imageE) simp
    have "waiting s' \<subseteq> waiting ?s2" using IH by (simp add: quiet_step_def)
    with r(1) have "r \<in> waiting ?s2" by (rule rev_subsetD)
    from update_removes [OF ap(1) this] r(2) show False by simp
  qed
  have eff: "effect_of (we_eventId row) e s'"
    using ap(2) ok2 replay_rows_keeps [OF rest] by (auto simp: keeps_def intro: effect_mono)
  show ?case
  proof (intro conjI ballI)
    show "quiet_step s s'" using q IH by (blast intro: quiet_trans)
    have "\<forall>p. has_purchase s' p = has_purchase ?s2 p" using IH by (elim conjE)
    with hp show "\<forall>p. has_purchase s' p = has_purchase s p" by presburger
    fix r assume "r \<in> set (row # rows)"
    then consider "r = row" | "r \<in> set rows" by auto
    then show "we_eventId r \<notin> we_eventId ` waiting s'"
      "\<exists>e. replayableEvent w (we_rawBody r) (we_eventId r) = Some e \<and> effect_of (we_eventId r) e s'"
      using gone eff e(1) IH by (cases, blast, blast)+
  qed
qed simp

text \<open>Replaying whatever rows there are, nothing new waits.\<close>

lemma replay_rows_quiet: "replay_rows w now why rows s = Inr (types, s') \<Longrightarrow> quiet_step s s'"
proof (induction rows arbitrary: s types)
  case (Cons row rows)
  show ?case
  proof (cases "replayableEvent w (we_rawBody row) (we_eventId row)")
    case None
    with Cons show ?thesis by simp
  next
    case (Some e)
    with Cons.prems obtain result s1 where p: "process_stored w e now (we_eventId row) s = Inr (result, s1)"
      by auto
    note k = stored_quiet [OF p]
    show ?thesis
    proof (cases "applied (dr_outcome result)")
      case False
      with Cons.prems Some p have "replay_rows w now why rows s1 = Inr (types, s')" by simp
      from k Cons.IH [OF this] show ?thesis by (rule quiet_trans)
    next
      case True
      let ?s2 = "update_event (we_eventId row) (apply_result (dr_outcome result) (Some why) (dr_accountId result)) s1"
      from True Cons.prems Some p obtain types' where "replay_rows w now why rows ?s2 = Inr (types', s')"
        by (auto simp: Let_def)
      from quiet_trans [OF k quiet_trans [OF update_quiet [OF True] Cons.IH [OF this]]] show ?thesis .
    qed
  qed
qed simp

lemma apply_pending_quiet: "applyPendingCreemRefundEvents w oid now why s = Inr (types, s') \<Longrightarrow> quiet_step s s'"
  unfolding applyPendingCreemRefundEvents_def by (rule replay_rows_quiet)

text \<open>The rows of other deliveries stay as they are.\<close>

lemma stored_deliveries: "process_stored w e now i s = Inr (result, s') \<Longrightarrow> deliveries s' = deliveries s"
  by (cases e) (auto elim!: processCreemRefund_cases processCreemDispute_cases simp: refund_change_def)

lemma update_others: "r \<in> waiting s \<Longrightarrow> we_eventId r \<noteq> i \<Longrightarrow> r \<in> waiting (update_event i f s)"
  by (auto simp: waiting_def update_event_def intro!: image_eqI [where x = r])

lemma replay_rows_others:
  "replay_rows w now why rows s = Inr (types, s') \<Longrightarrow> r \<in> waiting s \<Longrightarrow> we_eventId r \<notin> we_eventId ` set rows
    \<Longrightarrow> r \<in> waiting s'"
proof (induction rows arbitrary: s types)
  case (Cons row rows)
  show ?case
  proof (cases "replayableEvent w (we_rawBody row) (we_eventId row)")
    case None
    with Cons show ?thesis by simp
  next
    case (Some e)
    with Cons.prems obtain result s1 where p: "process_stored w e now (we_eventId row) s = Inr (result, s1)"
      by auto
    have r1: "r \<in> waiting s1" using Cons.prems(2) stored_deliveries [OF p] by (simp add: waiting_def)
    have "r \<in> waiting (update_event (we_eventId row) f s1)" for f
      using r1 Cons.prems(3) by (intro update_others) auto
    with Cons Some p r1 show ?thesis by (auto simp: Let_def split: if_splits)
  qed
qed simp

lemma same_event:
  assumes "shop_ok s" "r \<in> waiting s" "q \<in> waiting s" "we_eventId r = we_eventId q"
  shows "r = q"
proof -
  have "inj_on we_eventId (set (deliveries s))" using shop_okD(6) [OF assms(1)] by (simp add: distinct_map)
  moreover have "r \<in> set (deliveries s)" "q \<in> set (deliveries s)" using assms(2,3) by (simp_all add: waiting_def)
  ultimately show ?thesis using assms(4) by (simp add: inj_onD)
qed

lemma pending_rows_set: "r \<in> set (pending_rows oid s) \<longleftrightarrow> r \<in> waiting s \<and> we_orderId r = Some oid"
  by (auto simp: pending_rows_def waiting_def)

lemma apply_pending_heals:
  assumes "applyPendingCreemRefundEvents w oid now why s = Inr (types, s')" "waiting_ok w s" "has_purchase s oid" "shop_ok s"
  shows "quiet_step s s' \<and> (\<forall>p. has_purchase s' p = has_purchase s p)
    \<and> waiting s' = {r \<in> waiting s. we_orderId r \<noteq> Some oid}
    \<and> (\<forall>r \<in> waiting s. we_orderId r = Some oid \<longrightarrow>
         (\<exists>e. replayableEvent w (we_rawBody r) (we_eventId r) = Some e \<and> effect_of (we_eventId r) e s'))"
proof -
  have all: "quiet_step s s' \<and> (\<forall>p. has_purchase s' p = has_purchase s p)
    \<and> (\<forall>r \<in> set (pending_rows oid s). we_eventId r \<notin> we_eventId ` waiting s'
         \<and> (\<exists>e. replayableEvent w (we_rawBody r) (we_eventId r) = Some e \<and> effect_of (we_eventId r) e s'))"
    by (rule replay_rows_apply [OF assms(1) [unfolded applyPendingCreemRefundEvents_def]])
      (use assms(2-4) in \<open>auto simp: pending_rows_set waiting_ok_def\<close>)
  have sub: "waiting s' \<subseteq> waiting s" using all by (simp add: quiet_step_def)
  have gone: "we_orderId r \<noteq> Some oid" if "r \<in> waiting s'" for r
  proof
    assume "we_orderId r = Some oid"
    with sub that have "r \<in> set (pending_rows oid s)" by (auto simp: pending_rows_set)
    with all have "we_eventId r \<notin> we_eventId ` waiting s'" by blast
    with that show False by simp
  qed
  have "r \<in> waiting s'" if r: "r \<in> waiting s" "we_orderId r \<noteq> Some oid" for r
  proof (rule replay_rows_others [OF assms(1) [unfolded applyPendingCreemRefundEvents_def] r(1)], rule)
    assume "we_eventId r \<in> we_eventId ` set (pending_rows oid s)"
    then obtain q where q: "q \<in> set (pending_rows oid s)" "we_eventId r = we_eventId q" by (elim imageE) simp
    with same_event [OF assms(4) r(1)] r(2) show False by (auto simp: pending_rows_set)
  qed
  with sub gone have "waiting s' = {r \<in> waiting s. we_orderId r \<noteq> Some oid}" by blast
  with all show ?thesis by (simp add: pending_rows_set)
qed

definition healed :: "shop_world \<Rightarrow> shop \<Rightarrow> webhook_event \<Rightarrow> bool" where
  "healed w s r \<longleftrightarrow> (\<exists>e. replayableEvent w (we_rawBody r) (we_eventId r) = Some e \<and> effect_of (we_eventId r) e s)"

lemma healed_mono: "healed w s r \<Longrightarrow> facts s \<subseteq> facts s' \<Longrightarrow> healed w s' r"
  unfolding healed_def by (blast intro: effect_mono)

lemma replay_orders_failures: "replay_orders w now os a b s = (a', b', s') \<Longrightarrow> b \<le> b'"
  by (induction os arbitrary: a b s) (fastforce split: sum.splits prod.splits)+

lemma replay_orders_heal:
  assumes "replay_orders w now oids a b s = (a', b, s')" "waiting_ok w s" "\<forall>oid \<in> set oids. has_purchase s oid" "shop_ok s"
  shows "(\<forall>p. has_purchase s' p = has_purchase s p)
    \<and> waiting s' = {r \<in> waiting s. we_orderId r \<notin> Some ` set oids}
    \<and> (\<forall>r \<in> waiting s. we_orderId r \<in> Some ` set oids \<longrightarrow> healed w s' r)"
  using assms
proof (induction oids arbitrary: a s)
  case (Cons oid oids)
  show ?case
  proof (cases "applyPendingCreemRefundEvents w oid now
      (Some (''applied by the pending-refund sweep; order '' @ oid @ '' was already granted'')) s")
    case (Inl e)
    with Cons.prems(1) replay_orders_failures [of w now oids a "b + 1" s] show ?thesis by auto
  next
    case (Inr r)
    obtain types s1 where r: "r = (types, s1)" by (cases r)
    from Cons.prems Inr r have rest: "replay_orders w now oids (a + length types) b s1 = (a', b, s')" by simp
    have h: "quiet_step s s1" "\<And>p. has_purchase s1 p = has_purchase s p"
        "waiting s1 = {r \<in> waiting s. we_orderId r \<noteq> Some oid}"
        "\<forall>r \<in> waiting s. we_orderId r = Some oid \<longrightarrow> healed w s1 r"
      using apply_pending_heals [OF Inr [unfolded r] Cons.prems(2) _ Cons.prems(4)] Cons.prems(3)
      by (auto simp: healed_def)
    have ok1: "shop_ok s1" "waiting_ok w s1"
      using apply_pending_keeps [OF Inr [unfolded r]] Cons.prems(2,4) h(1) by (auto simp: keeps_def intro: quiet_ok)
    have IH: "\<And>p. has_purchase s' p = has_purchase s1 p"
        "waiting s' = {r \<in> waiting s1. we_orderId r \<notin> Some ` set oids}"
        "\<forall>r \<in> waiting s1. we_orderId r \<in> Some ` set oids \<longrightarrow> healed w s' r"
      using Cons.IH [OF rest ok1(2) _ ok1(1)] Cons.prems(3) h(2) by auto
    have up: "facts s1 \<subseteq> facts s'" using replay_orders_keeps [OF rest] ok1(1) by (simp add: keeps_def)
    show ?thesis
    proof (intro conjI)
      show "\<forall>p. has_purchase s' p = has_purchase s p" using IH(1) h(2) by simp
      show "waiting s' = {r \<in> waiting s. we_orderId r \<notin> Some ` set (oid # oids)}" unfolding IH(2) h(3) by auto
      show "\<forall>r \<in> waiting s. we_orderId r \<in> Some ` set (oid # oids) \<longrightarrow> healed w s' r"
      proof (intro ballI impI)
        fix r assume r: "r \<in> waiting s" "we_orderId r \<in> Some ` set (oid # oids)"
        show "healed w s' r"
        proof (cases "we_orderId r = Some oid")
          case True
          with h(4) r(1) healed_mono [OF _ up] show ?thesis by blast
        next
          case False
          with r h(3) have "r \<in> waiting s1" "we_orderId r \<in> Some ` set oids" by auto
          with IH(3) show ?thesis by blast
        qed
      qed
    qed
  qed
qed simp

lemma first_by_set: "set (first_by id {} xs) = set xs"
  using first_by_keys [of id "{}" xs] by simp

lemma sweep_heals:
  assumes "reconcileCreemPendingRefunds w now limit s = (report, s')" "failedOrderCount report = 0"
    "\<not> batchLimitReached report" "waiting_ok w s" "shop_ok s"
  shows "(\<forall>r \<in> set (deliveries s'). \<not> applicable s' r) \<and> (\<forall>r \<in> set (deliveries s). applicable s r \<longrightarrow> healed w s' r)"
proof -
  let ?n = "nat (max 1 (case limit of Some n \<Rightarrow> n | None \<Rightarrow> PENDING_REFUND_SWEEP_BATCH_LIMIT))"
  let ?orders = "first_by id {} (matchedPendingRows ?n s)"
  obtain a where orders: "replay_orders w now ?orders 0 0 s = (a, 0, s')" and
      len: "length (matchedPendingRows ?n s) < ?n"
    using assms(1-3) by (auto simp: reconcileCreemPendingRefunds_def Let_def split: prod.splits)
  have app: "applicable s r \<longleftrightarrow> we_outcome r = Unlinked \<and> (\<exists>oid. we_orderId r = Some oid \<and> has_purchase s oid)" for s r
    by (auto simp: applicable_def stored_pending_def has_purchase_def)
  have batch: "set ?orders = {oid. \<exists>r \<in> waiting s. we_orderId r = Some oid \<and> has_purchase s oid}"
  proof -
    have "set ?orders = (\<lambda>r. the (we_orderId r)) ` {r \<in> set (deliveries s). applicable s r}"
      unfolding first_by_set using len by (auto simp: matchedPendingRows_def)
    also have "\<dots> = {oid. \<exists>r \<in> waiting s. we_orderId r = Some oid \<and> has_purchase s oid}"
      by (force simp: app waiting_def)
    finally show ?thesis .
  qed
  have heal: "\<forall>p. has_purchase s' p = has_purchase s p" "waiting s' = {r \<in> waiting s. we_orderId r \<notin> Some ` set ?orders}"
      "\<forall>r \<in> waiting s. we_orderId r \<in> Some ` set ?orders \<longrightarrow> healed w s' r"
    using replay_orders_heal [OF orders assms(4) _ assms(5)] batch by auto
  show ?thesis
  proof (intro conjI ballI notI impI)
    fix r assume r: "r \<in> set (deliveries s')" "applicable s' r"
    then obtain oid where "r \<in> waiting s'" "we_orderId r = Some oid" "has_purchase s oid"
      using heal(1) by (auto simp: app waiting_def)
    with heal(2) batch show False by auto
  next
    fix r assume r: "r \<in> set (deliveries s)" "applicable s r"
    then obtain oid where "r \<in> waiting s" "we_orderId r = Some oid" "has_purchase s oid"
      by (auto simp: app waiting_def)
    then show "healed w s' r" using heal(3) batch by auto
  qed
qed

section \<open>Every row that waits can be replayed\<close>

lemma process_stored_only: "processCheckoutCompleted w v event ctx s = Inr (result, s') \<Longrightarrow> dr_outcome result \<noteq> Unlinked"
  by (auto simp: processCheckoutCompleted_def grant_order_def rejected_def refuse_session_def Let_def
      split: if_splits amount_verdict.splits prod.splits option.splits sum.splits webhook_abort.splits)

lemma update_where_quiet: "quiet_step s (snd (update_where P f reference s))"
  by (auto simp: update_where_def intro: quiet_same split: option.splits)

lemma markSessionRejected_quiet [simp]: "quiet_step s (markSessionRejected reference why s)"
  unfolding markSessionRejected_def by (rule update_where_quiet)

lemma grant_order_quiet:
  assumes "grant_order w reference session oid usd settled settled_in unverified ctx s = Inr (result, s')"
  shows "quiet_step s s'"
proof -
  let ?ps = "\<lparr> ps_orderId = oid, ps_reference = reference, ps_amount = usd,
      ps_settled = (if settled_in = ''USD'' then None else Some (settled, settled_in)), ps_now = ctx_now ctx \<rparr>"
  obtain s2 where s2: "createPaidScan w ?ps session s = Inr s2"
    using assms by (auto simp: grant_order_def split: sum.splits webhook_abort.splits)
  then obtain types where rest: "applyPendingCreemRefundEvents w oid (ctx_now ctx) None (link_session reference oid s2) = Inr (types, s')"
    using assms by (auto simp: grant_order_def)
  have "quiet_step s s2" using createPaidScan_Inr [OF s2] by (simp add: quiet_same)
  also have "quiet_step s2 (link_session reference oid s2)" unfolding link_session_def by (rule update_where_quiet)
  also have "quiet_step (link_session reference oid s2) s'" using rest by (rule apply_pending_quiet)
  finally show ?thesis .
qed

lemma claim_quiet: "claim_session reference settled settled_in unverified s = (count, s1) \<Longrightarrow> quiet_step s s1"
  unfolding claim_session_def using update_where_quiet by (metis snd_conv)

lemma processCheckoutCompleted_quiet:
  assumes "processCheckoutCompleted w v event ctx s = Inr (result, s')"
  shows "quiet_step s s'"
proof (cases "findPurchase v (co_orderId event) s")
  case (Some p)
  then show ?thesis using assms
    by (cases p) (auto simp: processCheckoutCompleted_def Let_def intro: apply_pending_quiet)
next
  case None
  show ?thesis using assms None
    by (auto simp: processCheckoutCompleted_def Let_def refuse_session_def
        split: if_splits amount_verdict.splits prod.splits option.splits
        dest: claim_quiet intro: quiet_trans [OF claim_quiet grant_order_quiet])
qed

lemma process_event_quiet: "process_event w v i ctx e s = Inr (result, s') \<Longrightarrow> quiet_step s s'"
  by (cases e) (auto intro: refund_quiet dispute_quiet processCheckoutCompleted_quiet)

text \<open>The result that leaves a row waiting: the event was a refund or a dispute that names its order, and nothing was written.\<close>

lemma process_event_unlinked:
  assumes "process_event w v i ctx e s = Inr (result, s')" "dr_outcome result = Unlinked"
  shows "s' = s \<and> (\<forall>c. e \<noteq> CheckoutCompleted c) \<and> (\<exists>oid. creemOrderIdOf e = Some oid \<and> dr_orderId result = Some oid)"
proof (cases e)
  case (CheckoutCompleted c)
  with assms process_stored_only show ?thesis by auto
next
  case (RefundCreated f)
  with assms(1) have "processCreemRefund w v f (ctx_now ctx) i s = Inr (result, s')" by simp
  then show ?thesis by (cases rule: processCreemRefund_cases) (use assms(2) RefundCreated in \<open>auto split: if_splits\<close>)
next
  case (DisputeCreated f)
  with assms(1) have "processCreemDispute v f s = Inr (result, s')" by simp
  then show ?thesis by (cases rule: processCreemDispute_cases) (use assms(2) DisputeCreated in \<open>auto split: if_splits\<close>)
qed

definition reported :: "RawCreemEvent \<Rightarrow> string \<Rightarrow> bool" where
  "reported raw oid \<longleftrightarrow> (\<exists>e. normalizeCreemEvent raw = Inr e \<and> (\<forall>c. e \<noteq> CheckoutCompleted c) \<and> creemOrderIdOf e = Some oid)"

lemma dispatchSafely_waits:
  assumes "dispatchSafely w v raw ctx s = Inr (result, s')"
  shows "quiet_step s s' \<and> (dr_outcome result = Unlinked \<longrightarrow> s' = s \<and> (\<exists>oid. reported raw oid \<and> dr_orderId result = Some oid))"
proof (cases "normalizeCreemEvent raw")
  case (Inl why)
  with assms show ?thesis by (auto simp: dispatchSafely_def dispatch_event_def NOTHING_def)
next
  case (Inr e)
  show ?thesis
  proof (cases "\<exists>live. readCreemEventLiveFlag raw = Some live \<and> live \<noteq> expectLive ctx")
    case True
    with assms Inr show ?thesis by (auto simp: dispatchSafely_def dispatch_event_def NOTHING_def)
  next
    case False
    then have d: "dispatch_event w v raw ctx s = process_event w v (raw_id raw) ctx e s"
      using Inr by (auto simp: dispatch_event_def split: option.splits)
    show ?thesis
    proof (cases "process_event w v (raw_id raw) ctx e s")
      case (Inl a)
      with assms d show ?thesis by (cases a) (auto simp: dispatchSafely_def NOTHING_def)
    next
      case r: (Inr r)
      with assms d have "process_event w v (raw_id raw) ctx e s = Inr (result, s')" by (simp add: dispatchSafely_def)
      with process_event_quiet [OF this] process_event_unlinked [OF this] Inr show ?thesis
        unfolding reported_def by blast
    qed
  qed
qed

text \<open>One event of a delivery: what it leaves waiting is its own row, and its id has been seen.\<close>

definition new_waiting :: "RawCreemEvent \<Rightarrow> string \<Rightarrow> shop \<Rightarrow> webhook_event \<Rightarrow> bool" where
  "new_waiting raw body s r \<longleftrightarrow> we_eventId r = raw_id raw \<and> we_rawBody r = body \<and> raw_id raw \<notin> we_eventId ` set (deliveries s)
     \<and> (\<exists>oid. reported raw oid \<and> we_orderId r = Some oid)"

definition event_step :: "RawCreemEvent \<Rightarrow> string \<Rightarrow> shop \<Rightarrow> shop \<Rightarrow> bool" where
  "event_step raw body s s' \<longleftrightarrow> waiting s' \<subseteq> waiting s \<union> Collect (new_waiting raw body s)
     \<and> we_eventId ` set (deliveries s') = insert (raw_id raw) (we_eventId ` set (deliveries s))"

lemma quiet_ids: "quiet_step s s' \<Longrightarrow> we_eventId ` set (deliveries s') = we_eventId ` set (deliveries s)"
  unfolding quiet_step_def by (metis list.set_map)

lemma update_event_ids:
  assumes "\<And>r. we_eventId (f r) = we_eventId r"
  shows "we_eventId ` set (deliveries (update_event i f s)) = we_eventId ` set (deliveries s)"
proof -
  have "map we_eventId (deliveries (update_event i f s)) = map we_eventId (deliveries s)"
    by (simp add: update_event_def assms)
  then show ?thesis by (metis list.set_map)
qed

lemma record_waiting:
  assumes "r \<in> waiting (update_event i (record_result result) s)"
  shows "if dr_outcome result = Unlinked
    then r \<in> waiting s \<or> (\<exists>q \<in> set (deliveries s). we_eventId q = i \<and> r = record_result result q)
    else r \<in> waiting s"
  using assms by (auto simp: waiting_def update_event_def record_result_def split: if_splits)

lemma runInTransaction_event:
  assumes "runInTransaction w v raw body ctx s = Inr (res, s')"
  shows "event_step raw body s s'"
proof -
  let ?row = "\<lparr> we_eventId = raw_id raw, we_accountId = None, we_orderId = None, we_eventType = raw_eventType raw,
           we_outcome = WebhookOutcome.Ignored, we_reason = None, we_rawBody = body, we_processedAt = ctx_now ctx \<rparr>"
  obtain s1 result s2 where steps: "create_event ?row s = Inr s1" "dispatchSafely w v raw ctx s1 = Inr (result, s2)"
      "s' = update_event (raw_id raw) (record_result result) s2"
    using assms by (auto simp: runInTransaction_def)
  have s1: "s1 = s\<lparr> deliveries := deliveries s @ [?row] \<rparr>" "raw_id raw \<notin> we_eventId ` set (deliveries s)"
    using steps(1) by (auto simp: create_event_def split: if_splits)
  have w1: "waiting s1 = waiting s" by (auto simp: s1 waiting_def)
  note d = dispatchSafely_waits [OF steps(2)]
  have ids: "we_eventId ` set (deliveries s') = insert (raw_id raw) (we_eventId ` set (deliveries s))"
    unfolding steps(3) using d quiet_ids [of s1 s2] by (simp add: update_event_ids) (simp add: s1)
  have "r \<in> waiting s \<union> Collect (new_waiting raw body s)" if r: "r \<in> waiting s'" for r
  proof (cases "dr_outcome result = Unlinked")
    case False
    with record_waiting [OF r [unfolded steps(3)]] have "r \<in> waiting s2" by simp
    with d w1 show ?thesis by (auto simp: quiet_step_def)
  next
    case True
    then obtain oid where u: "s2 = s1" "reported raw oid" "dr_orderId result = Some oid" using d by blast
    from record_waiting [OF r [unfolded steps(3)]] True u(1) consider "r \<in> waiting s1"
      | q where "q \<in> set (deliveries s1)" "we_eventId q = raw_id raw" "r = record_result result q" by auto
    then show ?thesis
    proof cases
      case 1
      with w1 show ?thesis by simp
    next
      case 2
      then have "q = ?row" using s1 by (force simp: image_iff)
      with 2 u s1(2) have "new_waiting raw body s r" by (auto simp: new_waiting_def record_result_def apply_result_def)
      then show ?thesis by simp
    qed
  qed
  with ids show ?thesis unfolding event_step_def by blast
qed

lemma rolled_back_event:
  assumes "recordRolledBackClaim raw body ctx sid account oid why s = Inr (r, s')"
  shows "event_step raw body s s'"
proof (cases "raw_id raw \<in> we_eventId ` set (deliveries s)")
  case True
  with assms show ?thesis by (auto simp: recordRolledBackClaim_def create_event_def event_step_def insert_absorb)
next
  case False
  define row where "row = \<lparr> we_eventId = raw_id raw, we_accountId = Some account,
      we_orderId = Some oid, we_eventType = raw_eventType raw, we_outcome = WRejected, we_reason = Some why,
      we_rawBody = body, we_processedAt = ctx_now ctx \<rparr>"
  define s1 where "s1 = s\<lparr> deliveries := deliveries s @ [row] \<rparr>"
  have s1: "deliveries s1 = deliveries s @ [row]" "s' = markSessionRejected sid why s1"
    using assms False by (auto simp: recordRolledBackClaim_def create_event_def s1_def row_def)
  have "quiet_step s1 s'" unfolding s1(2) by simp
  then have "waiting s' \<subseteq> waiting s1" "we_eventId ` set (deliveries s') = we_eventId ` set (deliveries s1)"
    by (simp add: quiet_step_def, rule quiet_ids)
  moreover have "waiting s1 = waiting s" using s1(1) by (auto simp: waiting_def row_def)
  moreover have "we_eventId ` set (deliveries s1) = insert (raw_id raw) (we_eventId ` set (deliveries s))"
    by (simp add: s1(1)) (simp add: row_def)
  ultimately have "waiting s' \<subseteq> waiting s \<and>
      we_eventId ` set (deliveries s') = insert (raw_id raw) (we_eventId ` set (deliveries s))" by simp
  then show ?thesis unfolding event_step_def by (elim conjE, intro conjI le_supI1)
qed

text \<open>A duplicate id is reported only by the insert of the row.\<close>

lemma refund_not_duplicate: "processCreemRefund w v f now i s \<noteq> Inl DuplicateEventId"
proof (cases "\<exists>oid row g. re_orderId f = Some oid \<and> findPurchase v oid s = Some (row, g)")
  case True
  then obtain oid row g where "re_orderId f = Some oid" "findPurchase v oid s = Some (row, g)" by blast
  then show ?thesis unfolding processCreemRefund_def
    by (simp add: Let_def case_prod_unfold split: sum.split)
qed (auto simp: processCreemRefund_def split: option.splits)

lemma dispute_not_duplicate: "processCreemDispute v f s \<noteq> Inl DuplicateEventId"
  by (auto simp: processCreemDispute_def split: option.splits)

lemma stored_not_duplicate: "process_stored w e now i s \<noteq> Inl DuplicateEventId"
  by (cases e) (simp_all add: refund_not_duplicate dispute_not_duplicate)

lemma replay_not_duplicate: "replay_rows w now why rows s \<noteq> Inl DuplicateEventId"
proof (induction rows arbitrary: s)
  case (Cons row rows)
  then show ?case using stored_not_duplicate [of w _ now "we_eventId row" s]
    by (auto simp: Let_def res_bind_eq_Inl split: option.splits sum.splits prod.splits)
qed simp

lemma process_event_not_duplicate: "process_event w v i ctx e s \<noteq> Inl DuplicateEventId"
proof (cases e)
  case (CheckoutCompleted c)
  have a: "applyPendingCreemRefundEvents w oid now why s \<noteq> Inl DuplicateEventId" for oid now why s
    unfolding applyPendingCreemRefundEvents_def by (rule replay_not_duplicate)
  have g: "grant_order w reference session oid usd settled settled_in unverified ctx s \<noteq> Inl DuplicateEventId"
    for reference session oid usd settled settled_in unverified s
    using a by (auto simp: grant_order_def createPaidScan_def Let_def res_bind_eq_Inl
        split: sum.splits prod.splits webhook_abort.splits if_splits)
  show ?thesis using a g CheckoutCompleted
    by (auto simp: processCheckoutCompleted_def Let_def res_bind_eq_Inl
        split: option.splits prod.splits sum.splits amount_verdict.splits if_splits)
qed (simp_all add: refund_not_duplicate dispute_not_duplicate)

lemma dispatchSafely_not_duplicate: "dispatchSafely w v raw ctx s \<noteq> Inl DuplicateEventId"
  using process_event_not_duplicate
  by (auto simp: dispatchSafely_def dispatch_event_def split: sum.splits option.splits webhook_abort.splits if_splits)

lemma runInTransaction_duplicate:
  "runInTransaction w v raw body ctx s = Inl DuplicateEventId \<Longrightarrow> raw_id raw \<in> we_eventId ` set (deliveries s)"
  using dispatchSafely_not_duplicate
  by (auto simp: runInTransaction_def res_bind_eq_Inl create_event_def split: if_splits sum.splits prod.splits)

lemma processOne_cases:
  assumes "processOne n w v raw body ctx s = Inr (r, s')"
  obtains "runInTransaction w v raw body ctx s = Inr (r, s')"
    | "runInTransaction w v raw body ctx s = Inl DuplicateEventId" "s' = s"
    | sid account oid why where "recordRolledBackClaim raw body ctx sid account oid why s = Inr (r, s')"
    | m where "n = Suc m" "processOne m w True raw body ctx s = Inr (r, s')"
proof (cases "runInTransaction w v raw body ctx s")
  case (Inr q)
  then show ?thesis using assms by (intro that(1)) (subst (asm) processOne.simps, simp)
next
  case (Inl a)
  show ?thesis
  proof (cases a)
    case (ClaimedSessionRollback sid account oid why)
    with assms Inl show ?thesis by (intro that(3)) (subst (asm) processOne.simps, simp)
  next
    case DuplicateEventId
    with assms Inl show ?thesis by (intro that(2)) (subst (asm) processOne.simps, simp)+
  next
    case DuplicateTransactionId
    with assms Inl obtain m where "n = Suc m" "processOne m w True raw body ctx s = Inr (r, s')"
      by (subst (asm) processOne.simps) (auto split: nat.splits)
    then show ?thesis by (rule that(4))
  next
    case (WebhookValidation why)
    with assms Inl show ?thesis by (subst (asm) processOne.simps) simp
  next
    case Infrastructure
    with assms Inl show ?thesis by (subst (asm) processOne.simps) simp
  qed
qed

lemma processOne_event: "processOne n w v raw body ctx s = Inr (r, s') \<Longrightarrow> event_step raw body s s'"
proof (induction n arbitrary: v rule: less_induct)
  case (less n)
  from less.prems show ?case
  proof (cases rule: processOne_cases)
    case 1
    then show ?thesis by (rule runInTransaction_event)
  next
    case 2
    with runInTransaction_duplicate [OF 2(1)] show ?thesis by (auto simp: event_step_def insert_absorb)
  next
    case (3 sid account oid why)
    then show ?thesis by (rule rolled_back_event)
  next
    case (4 m)
    with less.IH [of m] show ?thesis by simp
  qed
qed

text \<open>A whole delivery: the ids already handled are seen, so each waiting row is found again in its text.\<close>

lemma find_event_append: "\<forall>e \<in> set before. raw_id e \<noteq> raw_id raw \<Longrightarrow> find_event (raw_id raw) (before @ raw # rest) = Some raw"
  by (induction before) auto

lemma new_row_replayable:
  assumes "json_parse w body = Some j" "parseCreemEnvelope j = Some (before @ raw # rest)"
    "raw_id ` set before \<subseteq> we_eventId ` set (deliveries s)" "new_waiting raw body s r"
  shows "row_replayable w r"
proof -
  have "\<forall>e \<in> set before. raw_id e \<noteq> raw_id raw" 
  proof (intro ballI notI)
    fix e assume e: "e \<in> set before" "raw_id e = raw_id raw"
    then have "raw_id raw \<in> raw_id ` set before" by (metis imageI)
    with assms(3) have "raw_id raw \<in> we_eventId ` set (deliveries s)" by (rule subsetD)
    with assms(4) show False by (simp add: new_waiting_def)
  qed
  then have f: "find_event (raw_id raw) (before @ raw # rest) = Some raw" by (rule find_event_append)
  obtain oid e where e: "we_orderId r = Some oid" "normalizeCreemEvent raw = Inr e" "\<forall>c. e \<noteq> CheckoutCompleted c" "creemOrderIdOf e = Some oid"
    using assms(4) by (auto simp: new_waiting_def reported_def)
  have "we_rawBody r = body" "we_eventId r = raw_id raw" using assms(4) by (simp_all add: new_waiting_def)
  moreover have "replayableEvent w body (raw_id raw) = Some e"
    using assms(1,2) f e(2,3) by (cases e) (simp_all add: replayableEvent_def)
  ultimately show ?thesis using e by (simp add: row_replayable_def)
qed

lemma process_all_waiting:
  assumes "json_parse w body = Some j" "parseCreemEnvelope j = Some (before @ raws)"
    "raw_id ` set before \<subseteq> we_eventId ` set (deliveries s)" "waiting_ok w s"
  shows "waiting_ok w (snd (process_all w v raws body ctx s))"
  using assms(2-4)
proof (induction raws arbitrary: before s)
  case (Cons raw raws)
  show ?case
  proof (cases "processOne 1 w (v (raw_id raw)) raw body ctx s")
    case (Inl e)
    with Cons.prems(3) show ?thesis by simp
  next
    case (Inr q)
    obtain result s1 where q: "q = (result, s1)" by (cases q)
    have step: "event_step raw body s s1" using processOne_event Inr q by blast
    have "row_replayable w r" if "r \<in> waiting s1" for r
    proof -
      from that step consider "r \<in> waiting s" | "new_waiting raw body s r" unfolding event_step_def by blast
      then show ?thesis
      proof cases
        case 1
        with Cons.prems(3) show ?thesis by (simp add: waiting_ok_def)
      next
        case 2
        show ?thesis by (rule new_row_replayable [OF assms(1) Cons.prems(1,2) 2])
      qed
    qed
    then have ok1: "waiting_ok w s1" by (simp add: waiting_ok_def)
    have "raw_id ` set (before @ [raw]) \<subseteq> we_eventId ` set (deliveries s1)"
      using Cons.prems(2) step unfolding event_step_def by auto
    with Cons.IH [of "before @ [raw]" s1] Cons.prems(1) ok1
    have "waiting_ok w (snd (process_all w v raws body ctx s1))" by simp
    with Inr q show ?thesis by (auto split: prod.split sum.split)
  qed
qed simp

lemma replay_orders_quiet: "replay_orders w now oids a b s = (a', b', s') \<Longrightarrow> quiet_step s s'"
proof (induction oids arbitrary: a b s)
  case (Cons oid oids)
  show ?case
  proof (cases "applyPendingCreemRefundEvents w oid now
      (Some (''applied by the pending-refund sweep; order '' @ oid @ '' was already granted'')) s")
    case (Inr r)
    obtain types s1 where r: "r = (types, s1)" by (cases r)
    from Cons.prems Inr r have "replay_orders w now oids (a + length types) b s1 = (a', b', s')" by simp
    from quiet_trans [OF apply_pending_quiet [OF Inr [unfolded r]] Cons.IH [OF this]] show ?thesis .
  qed (use Cons in simp)
qed simp

lemma sweep_quiet: "quiet_step s (snd (reconcileCreemPendingRefunds w now limit s))"
  unfolding reconcileCreemPendingRefunds_def Let_def
  by (auto split: prod.split intro: replay_orders_quiet)

lemma shop_step_waiting:
  assumes "readable w e" "waiting_ok w s"
  shows "waiting_ok w (shop_step w s e)"
proof (cases e)
  case (Delivered v raws body ctx)
  with assms(1) obtain j where "json_parse w body = Some j" "parseCreemEnvelope j = Some ([] @ raws)"
    by (auto split: option.splits)
  from process_all_waiting [OF this] assms(2) Delivered show ?thesis by simp
next
  case (SweptPending now limit)
  with quiet_ok [OF sweep_quiet assms(2)] show ?thesis by simp
next
  case (OpenedSession reference rq now)
  have "deliveries (openSession reference rq now s) = deliveries s" by (simp add: openSession_def split: option.split)
  with quiet_ok [OF quiet_same assms(2)] OpenedSession show ?thesis by simp
next
  case (ClosedUnopened reference)
  with quiet_ok [OF update_where_quiet assms(2)] show ?thesis by (simp add: closeUnopenedSession_def)
next
  case (ExpiredSessions now)
  have "deliveries (expireAbandonedCheckouts now s) = deliveries s" by (simp add: expireAbandonedCheckouts_def)
  with quiet_ok [OF quiet_same assms(2)] ExpiredSessions show ?thesis by simp
qed

interpretation waiting_runs: stepper "shop_step w" "\<lambda>_. readable w" "\<lambda>s. shop_ok s \<and> waiting_ok w s" for w
  by unfold_locales (use shop_step_keeps shop_step_waiting in \<open>auto simp: keeps_def\<close>)

lemma empty_waiting [simp]: "waiting_ok w empty_shop"
  by (simp add: waiting_ok_def waiting_def empty_shop_def)

section \<open>A dispute that races its order\<close>

definition racing_world :: shop_world where
  "racing_world = sample_world\<lparr> json_parse := (\<lambda>body. Some (JObject
     [(''id'', JString (if body = [] then ''e1'' else ''e2'')),
      (''eventType'', JString (if body = [] then ''checkout.completed'' else ''dispute.created'')),
      (''object'', JObject (the (raw_object (if body = [] then sample_checkout else sample_dispute))))])) \<rparr>"

definition racing_run :: "shop_event list" where
  "racing_run = sample_sale @ [Delivered (\<lambda>_. False) [sample_dispute] ''d'' sample_context]"

lemma racing_readable: "legal (shop_step racing_world) (\<lambda>_. readable racing_world) empty_shop racing_run"
  by (simp add: racing_run_def sample_sale_def racing_world_def parseCreemEnvelope_def sample_checkout_def sample_dispute_def)


definition waiting_dispute :: webhook_event where
  "waiting_dispute = \<lparr> we_eventId = ''e2'', we_accountId = None, we_orderId = Some ''o1'', we_eventType = ''dispute.created'',
     we_outcome = Unlinked, we_reason = Some ''no purchase for this order yet'', we_rawBody = ''d'', we_processedAt = 1 \<rparr>"

lemma racing_state:
  "\<exists>e row g. deliveries (run (shop_step racing_world) empty_shop racing_run) = [e, waiting_dispute] \<and> we_outcome e = Processed
     \<and> purchases (billing (run (shop_step racing_world) empty_shop racing_run)) ''o1'' = Some row
     \<and> grants (run (shop_step racing_world) empty_shop racing_run) ''o1'' = Some g"
proof -
  obtain why where accepted: "resolveCreemOrderAmount (\<lambda>_. ''n'') (Num 39) (checkout_event.truncate sample_co) Basic = Accepted 39 39 ''USD'' why"
    using sample_amount by (auto simp: sample_world_def)
  show ?thesis
    by (simp add: racing_run_def racing_world_def sample_sale_def openSession_def empty_shop_def processOne.simps runInTransaction_def create_event_def
      dispatchSafely_def dispatch_event_def sample_checkout_event sample_dispute_event sample_live processCheckoutCompleted_def findPurchase_def Let_def
      new_session_def sample_request_def sample_context_def isPaidPlan_def CREEM_PROVIDER_def processCreemDispute_def unlinked_def
      claim_session_def update_where_def claimableCheckoutSession_def sample_world_def grant_order_def createPaidScan_def
      applyPendingCreemRefundEvents_def pending_rows_def link_session_def paid_grant_def update_event_def record_result_def apply_result_def accepted
      NOTHING_def waiting_dispute_def)
qed

lemma racing_replay: "replayableEvent racing_world ''d'' ''e2''
    = Some (DisputeCreated \<lparr> disputeId = None, di_orderId = Some ''o1'', di_amount = None, di_currency = None \<rparr>)"
  using sample_dispute_event
  by (simp add: replayableEvent_def racing_world_def parseCreemEnvelope_def sample_dispute_def)

lemma racing_sweep:
  "\<exists>report s'. reconcileCreemPendingRefunds racing_world 2 None (run (shop_step racing_world) empty_shop racing_run) = (report, s')
     \<and> failedOrderCount report = 0 \<and> \<not> batchLimitReached report"
proof -
  let ?s = "run (shop_step racing_world) empty_shop racing_run"
  obtain e row g where s: "deliveries ?s = [e, waiting_dispute]" "we_outcome e = Processed"
      "purchases (billing ?s) ''o1'' = Some row" "grants ?s ''o1'' = Some g" using racing_state by blast
  have app: "\<not> applicable ?s e" "applicable ?s waiting_dispute"
    using s by (simp_all add: applicable_def stored_pending_def waiting_dispute_def findPurchase_def)
  have batch: "map (\<lambda>r. the (we_orderId r)) (filter (applicable ?s) (sort_key we_processedAt (deliveries ?s))) = [''o1'']"
    using app by (simp add: s(1)) (simp add: waiting_dispute_def)
  have rows: "pending_rows ''o1'' ?s = [waiting_dispute]"
    using s(2) by (simp add: pending_rows_def s(1)) (simp add: waiting_dispute_def)
  let ?why = "Some (''applied by the pending-refund sweep; order '' @ ''o1'' @ '' was already granted'')"
  have "\<exists>types s'. applyPendingCreemRefundEvents racing_world ''o1'' 2 ?why ?s = Inr (types, s')"
    unfolding applyPendingCreemRefundEvents_def rows
    by (simp add: waiting_dispute_def racing_replay processCreemDispute_def findPurchase_def s Let_def)
  then obtain types s' where p: "applyPendingCreemRefundEvents racing_world ''o1'' 2 ?why ?s = Inr (types, s')" by blast
  have "matchedPendingRows 500 ?s = [''o1'']" by (simp add: matchedPendingRows_def batch)
  moreover have "replay_orders racing_world 2 [''o1''] 0 0 ?s = (length types, 0, s')" using p by simp
  ultimately show ?thesis
    by (simp add: reconcileCreemPendingRefunds_def PENDING_REFUND_SWEEP_BATCH_LIMIT_def Let_def del: replay_orders.simps)
qed

section \<open>Properties\<close>

text \<open>
  C21: No refund is lost to timing. Whatever order the shop's events came in - a refund or dispute before its
  order, beside the transaction that grants it, several in one delivery - once the pending-refund sweep reports
  no failed order and no full batch, no stored refund or dispute of a known order waits any more, and each
  that waited has had its effect: the refund is counted in its order's lines, the dispute closed its purchase.
\<close>

theorem pending_refunds_heal:
  assumes "legal (shop_step w) (\<lambda>_. readable w) empty_shop es" "s = run (shop_step w) empty_shop es"
    "reconcileCreemPendingRefunds w now limit s = (report, s')" "failedOrderCount report = 0" "\<not> batchLimitReached report"
  shows "(\<forall>r \<in> set (deliveries s'). \<not> applicable s' r) \<and> (\<forall>r \<in> set (deliveries s). applicable s r \<longrightarrow> healed w s' r)"
proof -
  have "shop_ok s \<and> waiting_ok w s" unfolding assms(2) by (rule waiting_runs.run_inv [OF _ assms(1)]) simp
  then show ?thesis by (intro sweep_heals [OF assms(3-5)]) simp_all
qed

theorem pending_refunds_heal_witness:
  "\<exists>report s'. reconcileCreemPendingRefunds racing_world 2 None (run (shop_step racing_world) empty_shop racing_run) = (report, s')
     \<and> healed racing_world s' waiting_dispute"
proof -
  let ?s = "run (shop_step racing_world) empty_shop racing_run"
  obtain report s' where r: "reconcileCreemPendingRefunds racing_world 2 None ?s = (report, s')" "failedOrderCount report = 0"
      "\<not> batchLimitReached report" using racing_sweep by blast
  obtain e row g where s: "deliveries ?s = [e, waiting_dispute]" "purchases (billing ?s) ''o1'' = Some row" "grants ?s ''o1'' = Some g"
    using racing_state by blast
  have "waiting_dispute \<in> set (deliveries ?s)" "applicable ?s waiting_dispute"
    using s by (simp_all add: applicable_def stored_pending_def waiting_dispute_def findPurchase_def)
  with pending_refunds_heal [OF racing_readable refl r] r(1) show ?thesis by blast
qed

end
