(* ===== verification/NormalizeUrl.thy ===== *)
theory NormalizeUrl
  imports SafeFetch "HOL-Library.Multiset" "HOL-Library.List_Lexorder" "HOL-Library.Product_Lexorder"
begin

text \<open>
  The identity of an address: \<open>packages/fingerprint/src/normalize-url.ts\<close>. The URL parser of the runtime is
  an argument, as in the guarded fetch; so is \<open>nfc\<close> is \<open>String.prototype.normalize('NFC')\<close>. Decoded text is
  a list of code points, everything else a string of code units.
\<close>

section \<open>Percent sequences\<close>

definition percent_digit :: "char \<Rightarrow> nat option" where
  "percent_digit c =
     (let n = code_unit c in
      if 48 \<le> n \<and> n \<le> 57 then Some (n - 48)
      else if 65 \<le> n \<and> n \<le> 70 then Some (n - 55)
      else if 97 \<le> n \<and> n \<le> 102 then Some (n - 87) else None)"

text \<open>\<open>ComponentToken\<close>: the octet of a percent sequence, or a character of the source.\<close>

datatype ComponentToken = Octet nat | Lit char

fun hex_pair :: "char \<Rightarrow> char \<Rightarrow> nat option" where
  "hex_pair a b = (case (percent_digit a, percent_digit b) of (Some x, Some y) \<Rightarrow> Some (16 * x + y) | _ \<Rightarrow> None)"

fun tokenize :: "string \<Rightarrow> ComponentToken list" where
  "tokenize (c # a # b # rest) =
     (if c = CHR ''%'' then
        (case hex_pair a b of Some n \<Rightarrow> Octet n # tokenize rest | None \<Rightarrow> Lit c # tokenize (a # b # rest))
      else Lit c # tokenize (a # b # rest))"
| "tokenize (c # cs) = Lit c # tokenize cs"
| "tokenize [] = []"

definition upper_hex :: "nat \<Rightarrow> char" where
  "upper_hex d = (if d < 10 then char_of (48 + d) else char_of (55 + d))"

definition encodeByte :: "nat \<Rightarrow> string" where
  "encodeByte b = [CHR ''%'', upper_hex (b div 16), upper_hex (b mod 16)]"

section \<open>UTF-8\<close>

definition leadByteSpec :: "nat \<Rightarrow> (nat \<times> nat \<times> nat) option" where
  "leadByteSpec lead =
     (if 0xc2 \<le> lead \<and> lead \<le> 0xdf then Some (2, 0x80, 0xbf)
      else if lead = 0xe0 then Some (3, 0xa0, 0xbf)
      else if lead = 0xed then Some (3, 0x80, 0x9f)
      else if 0xe1 \<le> lead \<and> lead \<le> 0xef then Some (3, 0x80, 0xbf)
      else if lead = 0xf0 then Some (4, 0x90, 0xbf)
      else if lead = 0xf4 then Some (4, 0x80, 0x8f)
      else if 0xf1 \<le> lead \<and> lead \<le> 0xf3 then Some (4, 0x80, 0xbf)
      else None)"

fun read_continuations :: "nat \<Rightarrow> nat \<Rightarrow> nat \<Rightarrow> ComponentToken list \<Rightarrow> nat list option" where
  "read_continuations 0 lo hi ts = Some []"
| "read_continuations (Suc n) lo hi (Octet b # ts) =
     (if b < lo \<or> hi < b then None else map_option (Cons b) (read_continuations n 0x80 0xbf ts))"
| "read_continuations (Suc n) lo hi ts = None"

text \<open>\<open>Buffer.from(bytes).toString('utf8')\<close> of one well-formed sequence.\<close>

fun utf8_decode :: "nat list \<Rightarrow> nat" where
  "utf8_decode [a, b] = (a mod 32) * 64 + b mod 64"
| "utf8_decode [a, b, c] = (a mod 16) * 4096 + (b mod 64) * 64 + c mod 64"
| "utf8_decode [a, b, c, d] = (a mod 8) * 262144 + (b mod 64) * 4096 + (c mod 64) * 64 + d mod 64"
| "utf8_decode _ = 0"

text \<open>The code point and the number of octets of the sequence at the front.\<close>

fun readUtf8Sequence :: "ComponentToken list \<Rightarrow> (nat \<times> nat) option" where
  "readUtf8Sequence (Octet lead # ts) =
     (case leadByteSpec lead of
        None \<Rightarrow> None
      | Some (byteLength, firstMin, firstMax) \<Rightarrow>
          map_option (\<lambda>bs. (utf8_decode (lead # bs), byteLength)) (read_continuations (byteLength - 1) firstMin firstMax ts))"
| "readUtf8Sequence _ = None"

text \<open>\<open>Buffer.from(char, 'utf8')\<close>; a lone surrogate becomes U+FFFD.\<close>

definition utf8_encode :: "nat \<Rightarrow> nat list" where
  "utf8_encode p =
     (if p < 0x80 then [p]
      else if p < 0x800 then [0xc0 + p div 64, 0x80 + p mod 64]
      else if 0xd800 \<le> p \<and> p \<le> 0xdfff then [0xef, 0xbf, 0xbd]
      else if p < 0x10000 then [0xe0 + p div 4096, 0x80 + p div 64 mod 64, 0x80 + p mod 64]
      else [0xf0 + p div 262144, 0x80 + p div 4096 mod 64, 0x80 + p div 64 mod 64, 0x80 + p mod 64])"

section \<open>One component\<close>

definition UNRESERVED_ASCII :: "nat \<Rightarrow> bool" where
  "UNRESERVED_ASCII n \<longleftrightarrow> 65 \<le> n \<and> n \<le> 90 \<or> 97 \<le> n \<and> n \<le> 122 \<or> 48 \<le> n \<and> n \<le> 57 \<or> n \<in> {46, 95, 126, 45}"

datatype ComponentPart = PartText "nat list" | PartEncoded string

definition flushText :: "nat list \<Rightarrow> ComponentPart list" where
  "flushText t = (if t = [] then [] else [PartText t])"

function splitIntoParts :: "nat list \<Rightarrow> ComponentToken list \<Rightarrow> ComponentPart list" where
  "splitIntoParts t [] = flushText t"
| "splitIntoParts t (Lit c # ts) = splitIntoParts (t @ [code_unit c]) ts"
| "splitIntoParts t (Octet b # ts) =
     (if b < 0x80 then
        (if UNRESERVED_ASCII b then splitIntoParts (t @ [b]) ts
         else flushText t @ PartEncoded (encodeByte b) # splitIntoParts [] ts)
      else
        (case readUtf8Sequence (Octet b # ts) of
           None \<Rightarrow> flushText t @ PartEncoded (encodeByte b) # splitIntoParts [] ts
         | Some (p, n) \<Rightarrow> splitIntoParts (t @ [p]) (drop (n - 1) ts)))"
  by pat_completeness auto
termination by (relation "measure (\<lambda>(t, ts). length ts)") auto

definition encode_point :: "nat \<Rightarrow> string" where
  "encode_point p =
     (if p < 0x80 then (if p = 37 then ''%25'' else [char_of p]) else concat (map encodeByte (utf8_encode p)))"

definition encodeText :: "nat list \<Rightarrow> string" where
  "encodeText t = concat (map encode_point t)"

fun serializePart :: "(nat list \<Rightarrow> nat list) \<Rightarrow> ComponentPart \<Rightarrow> string" where
  "serializePart nfc (PartEncoded s) = s"
| "serializePart nfc (PartText t) = encodeText (nfc t)"

definition serializeParts :: "(nat list \<Rightarrow> nat list) \<Rightarrow> ComponentPart list \<Rightarrow> string" where
  "serializeParts nfc parts = concat (map (serializePart nfc) parts)"

definition normalizeComponent :: "(nat list \<Rightarrow> nat list) \<Rightarrow> string \<Rightarrow> string" where
  "normalizeComponent nfc raw = serializeParts nfc (splitIntoParts [] (tokenize raw))"

section \<open>The query\<close>

definition TRACKING_PARAM_NAMES :: "string list" where
  "TRACKING_PARAM_NAMES = [''gclid'', ''fbclid'', ''msclkid'', ''yclid'', ''mc_cid'', ''mc_eid'']"

definition TRACKING_PARAM_PREFIX :: string where "TRACKING_PARAM_PREFIX = ''utm_''"

definition isTrackingParam :: "string \<Rightarrow> bool" where
  "isTrackingParam name \<longleftrightarrow> name \<in> set TRACKING_PARAM_NAMES \<or> starts_with name TRACKING_PARAM_PREFIX"

definition parseQueryPair :: "(nat list \<Rightarrow> nat list) \<Rightarrow> string \<Rightarrow> string \<times> string" where
  "parseQueryPair nfc segment =
     (case index_of (CHR ''='') segment of
        None \<Rightarrow> (normalizeComponent nfc segment, normalizeComponent nfc [])
      | Some i \<Rightarrow> (normalizeComponent nfc (take i segment), normalizeComponent nfc (drop (i + 1) segment)))"

text \<open>The bytes of a string, in UTF-8; normalized names and values are ASCII.\<close>

definition utf8_bytes :: "string \<Rightarrow> nat list" where
  "utf8_bytes s = concat (map (\<lambda>c. utf8_encode (code_unit c)) s)"

definition pair_bytes :: "string \<times> string \<Rightarrow> nat list \<times> nat list" where
  "pair_bytes p = (utf8_bytes (fst p), utf8_bytes (snd p))"

definition print_pair :: "string \<times> string \<Rightarrow> string" where
  "print_pair p = fst p @ ''='' @ snd p"

definition normalizeQuery :: "(nat list \<Rightarrow> nat list) \<Rightarrow> string \<Rightarrow> string option" where
  "normalizeQuery nfc searched =
     (if searched = [] \<or> searched = ''?'' then None
      else
        let pairs = filter (\<lambda>p. \<not> isTrackingParam (fst p))
              (map (parseQueryPair nfc) (filter (\<lambda>s. s \<noteq> []) (split_on (CHR ''&'') (drop 1 searched))))
        in if pairs = [] then None
           else Some (join_with ''&'' (map print_pair (sort_key pair_bytes pairs))))"

section \<open>The address\<close>

datatype normalize_error = NotAbsolute string | UserinfoForbidden | SchemeUnsupported string

definition normalizeUrl :: "(string \<Rightarrow> url option) \<Rightarrow> (nat list \<Rightarrow> nat list) \<Rightarrow> string \<Rightarrow> normalize_error + string" where
  "normalizeUrl parse nfc input =
     (case parse input of
        None \<Rightarrow> Inl (NotAbsolute input)
      | Some u \<Rightarrow>
          if username u \<noteq> [] \<or> password u \<noteq> [] then Inl UserinfoForbidden
          else if protocol u \<noteq> ''http:'' \<and> protocol u \<noteq> ''https:'' then Inl (SchemeUnsupported (protocol u))
          else
            let path = normalizeComponent nfc (pathname u);
                query = normalizeQuery nfc (search u);
                port_part = (if port u = [] then [] else '':'' @ port u)
            in Inr (protocol u @ ''//'' @ hostname u @ port_part @ path
                 @ (case query of None \<Rightarrow> [] | Some q \<Rightarrow> ''?'' @ q)))"

section \<open>Octets and characters\<close>

lemma percent_digit_value [simp]: "d < 16 \<Longrightarrow> percent_digit (upper_hex d) = Some d"
  by (auto simp: percent_digit_def upper_hex_def Let_def)

lemma percent_digit_sign [simp]: "percent_digit (CHR ''%'') = None"
  by (simp add: percent_digit_def)

lemma tokenize_byte [simp]: "b < 256 \<Longrightarrow> tokenize (encodeByte b @ rest) = Octet b # tokenize rest"
  by (simp add: encodeByte_def)

lemma tokenize_lit [simp]: "c \<noteq> CHR ''%'' \<Longrightarrow> tokenize (c # rest) = Lit c # tokenize rest"
  by (cases rest; cases "tl rest") auto

text \<open>Unicode scalar values.\<close>

definition scalar :: "nat \<Rightarrow> bool" where
  "scalar p \<longleftrightarrow> p < 0x110000 \<and> \<not> (0xd800 \<le> p \<and> p \<le> 0xdfff)"

lemma utf8_octets: "scalar p \<Longrightarrow> b \<in> set (utf8_encode p) \<Longrightarrow> b < 256"
  by (auto simp: utf8_encode_def scalar_def split: if_splits)

text \<open>The tokens a code point is written with.\<close>

definition point_tokens :: "nat \<Rightarrow> ComponentToken list" where
  "point_tokens p = (if p < 0x80 then (if p = 37 then [Octet 37] else [Lit (char_of p)]) else map Octet (utf8_encode p))"

lemma tokenize_bytes: "\<forall>b \<in> set bs. b < 256 \<Longrightarrow> tokenize (concat (map encodeByte bs) @ rest) = map Octet bs @ tokenize rest"
  by (induction bs) auto

lemma char_of_percent: "p < 256 \<Longrightarrow> char_of p = CHR ''%'' \<longleftrightarrow> p = (37 :: nat)"
proof
  assume p: "p < 256" "char_of p = CHR ''%''"
  then have "of_char (char_of p) = (of_char (CHR ''%'') :: nat)" by simp
  with p(1) show "p = 37" by simp
next
  show "p = 37 \<Longrightarrow> char_of p = CHR ''%''" by (simp add: char_of_eq_iff)
qed

lemma tokenize_point: "scalar p \<Longrightarrow> tokenize (encode_point p @ rest) = point_tokens p @ tokenize rest"
proof -
  assume p: "scalar p"
  consider "p = 37" | "p < 128" "p \<noteq> 37" | "128 \<le> p" by linarith
  then show ?thesis
  proof cases
    case 1
    have "encodeByte 37 = ''%25''" by code_simp
    with tokenize_byte [of 37 rest] 1 show ?thesis by (simp add: encode_point_def point_tokens_def)
  next
    case 2
    then have "char_of p \<noteq> CHR ''%''" using char_of_percent [of p] by simp
    with 2 show ?thesis by (simp add: encode_point_def point_tokens_def)
  next
    case 3
    with p show ?thesis by (simp add: encode_point_def point_tokens_def tokenize_bytes utf8_octets)
  qed
qed

lemma tokenize_text: "list_all scalar t \<Longrightarrow> tokenize (encodeText t @ rest) = concat (map point_tokens t) @ tokenize rest"
  by (induction t) (simp_all add: encodeText_def tokenize_point)

text \<open>Reading back what was written.\<close>

lemma mod_shift: "x < m \<Longrightarrow> m dvd k \<Longrightarrow> (k + x) mod m = (x :: nat)"
  by (auto elim!: dvdE)

lemma read_three:
  assumes "leadByteSpec a = Some (3, lo, hi)" "lo \<le> b" "b \<le> hi" "0x80 \<le> c" "c \<le> 0xbf"
  shows "readUtf8Sequence (map Octet [a, b, c] @ ts) = Some (utf8_decode [a, b, c], 3)"
  using assms by (simp add: numeral_3_eq_3 del: utf8_decode.simps)

lemma read_four:
  assumes "leadByteSpec a = Some (4, lo, hi)" "lo \<le> b" "b \<le> hi" "0x80 \<le> c" "c \<le> 0xbf" "0x80 \<le> d" "d \<le> 0xbf"
  shows "readUtf8Sequence (map Octet [a, b, c, d] @ ts) = Some (utf8_decode [a, b, c, d], 4)"
proof -
  have "(4 :: nat) - 1 = Suc (Suc (Suc 0))" by simp
  with assms show ?thesis by (simp add: numeral_3_eq_3 del: utf8_decode.simps)
qed

lemma encode_three:
  assumes "p = 64 * (64 * r + b) + c" "b < 64" "c < 64" "r < 16" "r = 0 \<Longrightarrow> 32 \<le> b" "r = 13 \<Longrightarrow> b < 32"
  shows "readUtf8Sequence (map Octet [0xe0 + r, 0x80 + b, 0x80 + c] @ ts) = Some (p, 3)"
proof -
  have v: "utf8_decode [0xe0 + r, 0x80 + b, 0x80 + c] = p" using assms(1-4) by (simp add: mod_shift)
  have "\<exists>lo hi. leadByteSpec (0xe0 + r) = Some (3, lo, hi) \<and> lo \<le> 0x80 + b \<and> 0x80 + b \<le> hi"
  proof -
    consider "r = 0" | "r = 13" | "r \<noteq> 0" "r \<noteq> 13" by blast
    then show ?thesis by cases (use assms in \<open>simp_all add: leadByteSpec_def\<close>)
  qed
  then obtain lo hi where "leadByteSpec (0xe0 + r) = Some (3, lo, hi)" "lo \<le> 0x80 + b" "0x80 + b \<le> hi" by blast
  from read_three [OF this, of "0x80 + c" ts] assms(3) v show ?thesis by simp
qed

lemma encode_four:
  assumes "p = 64 * (64 * (64 * t + d) + b) + c" "d < 64" "b < 64" "c < 64" "t < 5" "t = 0 \<Longrightarrow> 16 \<le> d" "t = 4 \<Longrightarrow> d < 16"
  shows "readUtf8Sequence (map Octet [0xf0 + t, 0x80 + d, 0x80 + b, 0x80 + c] @ ts) = Some (p, 4)"
proof -
  have v: "utf8_decode [0xf0 + t, 0x80 + d, 0x80 + b, 0x80 + c] = p" using assms(1-5) by (simp add: mod_shift)
  have "\<exists>lo hi. leadByteSpec (0xf0 + t) = Some (4, lo, hi) \<and> lo \<le> 0x80 + d \<and> 0x80 + d \<le> hi"
  proof -
    consider "t = 0" | "t = 4" | "t \<noteq> 0" "t \<noteq> 4" by blast
    then show ?thesis by cases (use assms in \<open>simp_all add: leadByteSpec_def\<close>)
  qed
  then obtain lo hi where "leadByteSpec (0xf0 + t) = Some (4, lo, hi)" "lo \<le> 0x80 + d" "0x80 + d \<le> hi" by blast
  from read_four [OF this, of "0x80 + b" "0x80 + c" ts] assms(3,4) v show ?thesis by simp
qed

lemma read_encoded:
  assumes "scalar p" "128 \<le> p"
  shows "readUtf8Sequence (map Octet (utf8_encode p) @ ts) = Some (p, length (utf8_encode p))"
proof -
  define c where "c = p mod 64"
  define q where "q = p div 64"
  define b where "b = q mod 64"
  define r where "r = q div 64"
  have pq: "p = 64 * q + c" "c < 64" and qr: "q = 64 * r + b" "b < 64"
    by (simp_all add: c_def q_def b_def r_def)
  have divs: "p div 4096 = r" "p div 64 mod 64 = b" "p mod 64 = c" "p div 64 = q"
    by (simp_all add: c_def q_def b_def r_def div_mult2_eq [symmetric])
  consider "p < 0x800" | "0x800 \<le> p" "p < 0x10000" | "0x10000 \<le> p" by linarith
  then show ?thesis
  proof cases
    case 1
    then have "2 \<le> q" "q < 32" using assms(2) pq by auto
    with 1 assms pq show ?thesis by (simp add: utf8_encode_def leadByteSpec_def numeral_2_eq_2 divs mod_shift)
  next
    case 2
    then have r: "r < 16" "r = 0 \<Longrightarrow> 32 \<le> b" "r = 13 \<Longrightarrow> b < 32"
      using assms(1) pq qr by (auto simp: scalar_def)
    have e: "utf8_encode p = [0xe0 + r, 0x80 + b, 0x80 + c]"
      using 2 assms(1) by (auto simp: utf8_encode_def divs scalar_def b_def)
    have P: "p = 64 * (64 * r + b) + c" using pq(1) qr(1) by simp
    from encode_three [OF P qr(2) pq(2) r, of ts] show ?thesis unfolding e by simp
  next
    case 3
    define d where "d = r mod 64"
    define t where "t = r div 64"
    have rt: "r = 64 * t + d" "d < 64" by (simp_all add: d_def t_def)
    have divs': "p div 262144 = t" "p div 4096 mod 64 = d"
      by (simp_all add: divs d_def t_def) (simp add: t_def r_def q_def div_mult2_eq [symmetric])
    have t: "t < 5" "t = 0 \<Longrightarrow> 16 \<le> d" "t = 4 \<Longrightarrow> d < 16"
      using 3 assms(1) pq qr rt by (auto simp: scalar_def)
    have e: "utf8_encode p = [0xf0 + t, 0x80 + d, 0x80 + b, 0x80 + c]"
      using 3 by (simp add: utf8_encode_def divs' divs(2,3))
    have P: "p = 64 * (64 * (64 * t + d) + b) + c" using pq(1) qr(1) rt(1) by simp
    from encode_four [OF P rt(2) qr(2) pq(2) t, of ts] show ?thesis unfolding e by simp
  qed
qed

lemma utf8_lead: "128 \<le> p \<Longrightarrow> \<exists>b bs. utf8_encode p = b # bs \<and> 0xc2 \<le> b"
proof -
  assume p: "128 \<le> p"
  then have "2 \<le> p div 64" by (simp add: div_le_mono [of 128 p 64, simplified])
  with p show ?thesis by (auto simp: utf8_encode_def)
qed

section \<open>Normalizing twice\<close>

text \<open>What Unicode promises of NFC, and this module relies on.\<close>

definition nfc_laws :: "(nat list \<Rightarrow> nat list) \<Rightarrow> bool" where
  "nfc_laws nfc \<longleftrightarrow>
     (\<forall>t. nfc t = [] \<longleftrightarrow> t = []) \<and> (\<forall>t. nfc (nfc t) = nfc t)
     \<and> (\<forall>a b. nfc (a @ 37 # b) = nfc a @ 37 # nfc b)
     \<and> (\<forall>t. list_all scalar t \<longrightarrow> list_all scalar (nfc t))
     \<and> (\<forall>t p. p \<in> set (nfc t) \<longrightarrow> p \<in> {38, 61} \<longrightarrow> p \<in> set t)"

lemma nfc_lawsD:
  assumes "nfc_laws nfc"
  shows "nfc t = [] \<longleftrightarrow> t = []" "nfc (nfc t) = nfc t" "nfc (a @ 37 # b) = nfc a @ 37 # nfc b"
    "list_all scalar t \<Longrightarrow> list_all scalar (nfc t)" "p \<in> set (nfc t) \<Longrightarrow> p \<in> {38, 61} \<Longrightarrow> p \<in> set t"
  using assms unfolding nfc_laws_def by blast+

lemma ser_append [simp]: "serializeParts nfc (a @ b) = serializeParts nfc a @ serializeParts nfc b"
  by (simp add: serializeParts_def)

lemma ser_simps [simp]:
  "serializeParts nfc [] = []"
  "serializeParts nfc (p # ps) = serializePart nfc p @ serializeParts nfc ps"
  by (simp_all add: serializeParts_def)

lemma encodeText_simps [simp]:
  "encodeText [] = []" "encodeText (p # t) = encode_point p @ encodeText t" "encodeText (t @ u) = encodeText t @ encodeText u"
  by (simp_all add: encodeText_def)

lemma ser_flush: "nfc_laws nfc \<Longrightarrow> serializeParts nfc (flushText t) = encodeText (nfc t)"
  using nfc_lawsD(1) [of nfc "[]"] by (simp add: flushText_def)

text \<open>Tokens before which the running text always ends.\<close>

definition breaks :: "ComponentToken list \<Rightarrow> bool" where
  "breaks ts \<longleftrightarrow> (\<forall>t. splitIntoParts t ts = flushText t @ splitIntoParts [] ts)"

lemma breaks_Nil [simp]: "breaks []"
  by (simp add: breaks_def flushText_def)

lemma percent_byte: "encodeByte 37 = encode_point 37"
  by (simp add: encode_point_def) code_simp

lemma split_point:
  assumes "scalar p" "p \<noteq> 37"
  shows "splitIntoParts t (point_tokens p @ ts) = splitIntoParts (t @ [p]) ts"
proof (cases "p < 128")
  case True
  then have "code_unit (char_of p) = p" by simp
  with True assms(2) show ?thesis by (simp add: point_tokens_def)
next
  case False
  obtain b bs where e: "utf8_encode p = b # bs" "128 \<le> b"
    using utf8_lead [of p] False by force
  have "readUtf8Sequence (Octet b # map Octet bs @ ts) = Some (p, length (utf8_encode p))"
    using read_encoded [OF assms(1), of ts] False e(1) by simp
  with False e show ?thesis by (simp add: point_tokens_def)
qed

lemma serialize_text:
  assumes "nfc_laws nfc" "breaks ts" "list_all scalar u"
  shows "serializeParts nfc (splitIntoParts t (concat (map point_tokens u) @ ts))
    = encodeText (nfc (t @ u)) @ serializeParts nfc (splitIntoParts [] ts)"
  using assms(3)
proof (induction u arbitrary: t)
  case Nil
  have "splitIntoParts t ts = flushText t @ splitIntoParts [] ts" using assms(2) unfolding breaks_def by blast
  then show ?case by (simp add: ser_flush [OF assms(1)])
next
  case (Cons p u)
  show ?case
  proof (cases "p = 37")
    case True
    then show ?thesis
      using Cons.IH [of "[]"] Cons.prems
      by (simp add: point_tokens_def UNRESERVED_ASCII_def ser_flush [OF assms(1)] percent_byte nfc_lawsD(3) [OF assms(1)])
  next
    case False
    with Cons.IH [of "t @ [p]"] Cons.prems show ?thesis by (simp add: split_point)
  qed
qed

text \<open>The tokens of a serialized list of parts.\<close>

fun part_tokens :: "(nat list \<Rightarrow> nat list) \<Rightarrow> ComponentPart \<Rightarrow> ComponentToken list" where
  "part_tokens nfc (PartText t) = concat (map point_tokens (nfc t))"
| "part_tokens nfc (PartEncoded s) = tokenize s"

definition parts_tokens :: "(nat list \<Rightarrow> nat list) \<Rightarrow> ComponentPart list \<Rightarrow> ComponentToken list" where
  "parts_tokens nfc ps = concat (map (part_tokens nfc) ps)"

lemma parts_tokens_simps [simp]:
  "parts_tokens nfc [] = []" "parts_tokens nfc (p # ps) = part_tokens nfc p @ parts_tokens nfc ps"
  "parts_tokens nfc (ps @ qs) = parts_tokens nfc ps @ parts_tokens nfc qs"
  by (simp_all add: parts_tokens_def)

text \<open>Octets are below 256, and a part's text consists of scalar values.\<close>

definition octet_ok :: "ComponentToken \<Rightarrow> bool" where
  "octet_ok x \<longleftrightarrow> (case x of Octet b \<Rightarrow> b < 256 | Lit c \<Rightarrow> True)"

lemma tokenize_octets: "list_all octet_ok (tokenize s)"
proof (induction s rule: tokenize.induct)
  case (1 c a b rest)
  have "hex_pair a b = Some n \<Longrightarrow> n < 256" for n
    by (auto simp: percent_digit_def Let_def split: option.splits if_splits)
  with 1 show ?case by (auto simp: octet_ok_def split: option.split)
qed (simp_all add: octet_ok_def)

fun part_ok :: "ComponentPart \<Rightarrow> bool" where
  "part_ok (PartText t) = (t \<noteq> [] \<and> list_all scalar t)"
| "part_ok (PartEncoded s) = (\<exists>b < 256. s = encodeByte b)"

lemma code_unit_scalar [simp]: "scalar (code_unit c)"
proof -
  have "code_unit c < 256" using of_char_mod_256 [of c, where ?'a = nat] by (metis mod_less_divisor zero_less_numeral)
  then show ?thesis unfolding scalar_def by linarith
qed

lemma read_continuations_Some:
  "read_continuations (Suc n) lo hi ts = Some bs \<longleftrightarrow>
     (\<exists>b rest bs'. ts = Octet b # rest \<and> lo \<le> b \<and> b \<le> hi \<and> read_continuations n 0x80 0xbf rest = Some bs' \<and> bs = b # bs')"
  by (cases ts; cases "hd ts") auto

lemma three_scalar:
  assumes "leadByteSpec a = Some (3, lo, hi)" "lo \<le> b" "b \<le> hi" "0x80 \<le> c" "c \<le> 0xbf"
  shows "scalar (utf8_decode [a, b, c]) \<and> 128 \<le> utf8_decode [a, b, c]"
proof -
  have spec: "0xe0 \<le> a" "a \<le> 0xef" "a = 0xed \<Longrightarrow> hi = 0x9f" "0x80 \<le> lo" "hi \<le> 0xbf" "a = 0xe0 \<Longrightarrow> lo = 0xa0"
    using assms(1) by (auto simp: leadByteSpec_def split: if_splits)
  define r where "r = a - 0xe0"
  define b' where "b' = b - 0x80"
  define c' where "c' = c - 0x80"
  have r: "a = 0xe0 + r" "r < 16" "r = 13 \<Longrightarrow> b \<le> 0x9f" using spec(1-3) assms(3) by (auto simp: r_def)
  have d: "b = 0x80 + b'" "c = 0x80 + c'" "b' < 64" "c' < 64"
    using spec(4,5) assms(2-5) by (auto simp: b'_def c'_def)
  have "utf8_decode [a, b, c] = r * 4096 + b' * 64 + c'" using r(2) d by (simp add: r(1) mod_shift)
  moreover have "r = 13 \<Longrightarrow> b' < 32" "r = 0 \<Longrightarrow> 32 \<le> b'" using r d(1) spec(6) assms(2) by simp_all
  moreover have "r = 0 \<or> 0 < r \<and> r < 13 \<or> r = 13 \<or> 13 < r" by linarith
  ultimately show ?thesis using r(2) d(3,4) unfolding scalar_def by (elim disjE) linarith+
qed

lemma four_scalar:
  assumes "leadByteSpec a = Some (4, lo, hi)" "lo \<le> b" "b \<le> hi" "0x80 \<le> c" "c \<le> 0xbf" "0x80 \<le> d" "d \<le> 0xbf"
  shows "scalar (utf8_decode [a, b, c, d]) \<and> 128 \<le> utf8_decode [a, b, c, d]"
proof -
  have spec: "0xf0 \<le> a" "a \<le> 0xf4" "a = 0xf0 \<Longrightarrow> lo = 0x90" "a = 0xf4 \<Longrightarrow> hi = 0x8f" "0x80 \<le> lo" "hi \<le> 0xbf"
    using assms(1) by (auto simp: leadByteSpec_def split: if_splits)
  define t where "t = a - 0xf0"
  define b' where "b' = b - 0x80"
  define c' where "c' = c - 0x80"
  define d' where "d' = d - 0x80"
  have t: "a = 0xf0 + t" "t < 5" "t = 0 \<Longrightarrow> 0x90 \<le> b" "t = 4 \<Longrightarrow> b \<le> 0x8f"
    using spec(1-4) assms(2,3) by (auto simp: t_def)
  have e: "b = 0x80 + b'" "c = 0x80 + c'" "d = 0x80 + d'" "b' < 64" "c' < 64" "d' < 64"
    using spec(5,6) assms(2-7) by (auto simp: b'_def c'_def d'_def)
  have "utf8_decode [a, b, c, d] = t * 262144 + b' * 4096 + c' * 64 + d'" using t(2) e by (simp add: t(1) mod_shift)
  moreover have "t = 0 \<Longrightarrow> 16 \<le> b'" "t = 4 \<Longrightarrow> b' < 16" using t(3,4) e(1) by simp_all
  moreover have "t = 0 \<or> t = 4 \<or> 0 < t \<and> t < 4" using t(2) by linarith
  ultimately show ?thesis using e(4-6) unfolding scalar_def by (elim disjE) linarith+
qed

lemma two_scalar:
  assumes "leadByteSpec a = Some (2, lo, hi)"
  shows "scalar (utf8_decode [a, b]) \<and> 128 \<le> utf8_decode [a, b]"
proof -
  have "0xc2 \<le> a \<and> a \<le> 0xdf" using assms by (auto simp: leadByteSpec_def split: if_splits)
  then have "a = 0xc0 + (a - 0xc0)" "a - 0xc0 < 32" "2 \<le> a - 0xc0" by linarith+
  then have "2 \<le> a mod 32" using mod_shift [of "a - 0xc0" 32 "0xc0"] by simp
  moreover have "a mod 32 \<le> 31" "b mod 64 \<le> 63" by simp_all
  ultimately have "utf8_decode [a, b] < 2048" "128 \<le> utf8_decode [a, b]" by simp_all
  then show ?thesis unfolding scalar_def by linarith
qed

lemma lead_length: "leadByteSpec a = Some (n, lo, hi) \<Longrightarrow> n \<in> {2, 3, 4}"
  by (auto simp: leadByteSpec_def split: if_splits)

lemma read_scalar:
  assumes "readUtf8Sequence (Octet b # ts) = Some (p, n)"
  shows "scalar p \<and> 128 \<le> p"
proof -
  obtain lo hi bs where l: "leadByteSpec b = Some (n, lo, hi)" "read_continuations (n - 1) lo hi ts = Some bs" "p = utf8_decode (b # bs)"
    using assms by (auto split: option.splits)
  from lead_length [OF l(1)] consider "n = 2" | "n = 3" | "n = 4" by auto
  then show ?thesis
  proof cases
    case 1
    then have "read_continuations (Suc 0) lo hi ts = Some bs" using l(2) by simp
    then obtain c where "bs = [c]" unfolding read_continuations_Some by auto
    with l 1 two_scalar show ?thesis by blast
  next
    case 2
    then have "read_continuations (Suc (Suc 0)) lo hi ts = Some bs" using l(2) by (simp add: numeral_2_eq_2)
    then obtain c d where "bs = [c, d]" "lo \<le> c" "c \<le> hi" "0x80 \<le> d" "d \<le> 0xbf" unfolding read_continuations_Some by auto
    with l 2 three_scalar show ?thesis by blast
  next
    case 3
    then have "read_continuations (Suc (Suc (Suc 0))) lo hi ts = Some bs" using l(2) by (simp add: numeral_3_eq_3)
    then obtain c d e where "bs = [c, d, e]" "lo \<le> c" "c \<le> hi" "0x80 \<le> d" "d \<le> 0xbf" "0x80 \<le> e" "e \<le> 0xbf"
      unfolding read_continuations_Some by auto
    with l 3 four_scalar show ?thesis by blast
  qed
qed

lemma split_parts_ok:
  "list_all octet_ok ts \<Longrightarrow> list_all scalar t \<Longrightarrow> list_all part_ok (splitIntoParts t ts)"
proof (induction t ts rule: splitIntoParts.induct)
  case (1 t)
  then show ?case by (simp add: flushText_def)
next
  case (2 t c ts)
  then show ?case by simp
next
  case (3 t b ts)
  have b: "b < 256" using 3(5) by (simp add: octet_ok_def)
  have enc: "list_all part_ok (flushText t @ PartEncoded (encodeByte b) # splitIntoParts [] ts)"
    if "list_all part_ok (splitIntoParts [] ts)"
    using that 3(6) b by (auto simp: flushText_def)
  have bs: "b < 128 \<Longrightarrow> scalar b" by (simp add: scalar_def)
  show ?case
  proof (cases "b < 128")
    case True
    with 3 bs enc show ?thesis by simp
  next
    case False
    show ?thesis
    proof (cases "readUtf8Sequence (Octet b # ts)")
      case None
      have "list_all part_ok (splitIntoParts [] ts)" using 3(3) [of] False None 3(5) by simp
      from enc [OF this] False None show ?thesis by (simp del: readUtf8Sequence.simps)
    next
      case (Some q)
      obtain p n where q: "q = (p, n)" by (cases q)
      have "scalar p" using read_scalar Some q by blast
      moreover have "list_all octet_ok (drop (n - 1) ts)" using 3(5) by (auto simp: list_all_iff dest: in_set_dropD)
      ultimately have "list_all part_ok (splitIntoParts (t @ [p]) (drop (n - 1) ts))"
        using 3(4) [OF False Some q [symmetric]] 3(6) by simp
      with False Some q show ?thesis by (simp del: readUtf8Sequence.simps)
    qed
  qed
qed

lemma tokenize_parts:
  assumes "nfc_laws nfc" "list_all part_ok ps"
  shows "tokenize (serializeParts nfc ps) = parts_tokens nfc ps"
  using assms(2)
proof (induction ps)
  case (Cons part ps)
  show ?case
  proof (cases part)
    case (PartText t)
    then have "list_all scalar (nfc t)" using Cons.prems nfc_lawsD(4) [OF assms(1)] by simp
    with PartText Cons show ?thesis by (simp add: tokenize_text)
  next
    case (PartEncoded e)
    then obtain b where b: "b < 256" "e = encodeByte b" using Cons.prems by auto
    have "tokenize (encodeByte b @ []) = [Octet b]" using b(1) by (simp only: tokenize_byte) simp
    with b PartEncoded Cons show ?thesis by simp
  qed
qed simp

text \<open>The first octet of a text is never a continuation, so an interrupted sequence stays interrupted.\<close>

definition continuation :: "ComponentToken list \<Rightarrow> bool" where
  "continuation ts \<longleftrightarrow> (case ts of Octet b # _ \<Rightarrow> 0x80 \<le> b \<and> b \<le> 0xbf | _ \<Rightarrow> False)"

lemma point_no_continuation: "scalar p \<Longrightarrow> \<not> continuation (point_tokens p @ ts)"
proof (cases "p < 128")
  case False
  then obtain b bs where "utf8_encode p = b # bs" "0xc2 \<le> b" using utf8_lead [of p] by auto
  with False show ?thesis by (simp add: continuation_def point_tokens_def)
qed (simp add: continuation_def point_tokens_def)

lemma text_no_continuation:
  assumes "nfc_laws nfc" "t \<noteq> []" "list_all scalar t"
  shows "\<not> continuation (concat (map point_tokens (nfc t)) @ ts)"
proof -
  have "nfc t \<noteq> []" using nfc_lawsD(1) [OF assms(1)] assms(2) by simp
  moreover have "list_all scalar (nfc t)" by (rule nfc_lawsD(4) [OF assms(1,3)])
  ultimately obtain p u where "nfc t = p # u" "scalar p" by (cases "nfc t") auto
  with point_no_continuation show ?thesis by simp
qed

lemma split_first_text:
  assumes "nfc_laws nfc" "t \<noteq> []" "list_all scalar t" "list_all octet_ok ts"
  shows "\<not> continuation (parts_tokens nfc (splitIntoParts t ts))"
  using assms(2-4)
proof (induction t ts rule: splitIntoParts.induct)
  case (1 t)
  then show ?case using text_no_continuation [OF assms(1), of t "[]"] by (simp add: flushText_def)
next
  case (2 t c ts)
  then show ?case by simp
next
  case (3 t b ts)
  have enc: "\<not> continuation (parts_tokens nfc (flushText t @ PartEncoded (encodeByte b) # ps))" for ps
    using text_no_continuation [OF assms(1) 3(5,6)] 3(5) by (simp add: flushText_def)
  show ?case
  proof (cases "b < 128")
    case True
    with 3 enc show ?thesis by (simp add: scalar_def)
  next
    case False
    show ?thesis
    proof (cases "readUtf8Sequence (Octet b # ts)")
      case None
      with False enc show ?thesis by (simp del: readUtf8Sequence.simps)
    next
      case (Some q)
      obtain p n where q: "q = (p, n)" by (cases q)
      have "scalar p" using read_scalar Some q by blast
      moreover have "list_all octet_ok (drop (n - 1) ts)" using 3(7) by (auto simp: list_all_iff dest: in_set_dropD)
      ultimately have "\<not> continuation (parts_tokens nfc (splitIntoParts (t @ [p]) (drop (n - 1) ts)))"
        using 3(4) [OF False Some q [symmetric]] 3(6) by simp
      with False Some q show ?thesis by (simp del: readUtf8Sequence.simps)
    qed
  qed
qed

lemma split_continuations:
  assumes "nfc_laws nfc"
  shows "list_all octet_ok ts \<Longrightarrow> 0x80 \<le> lo \<Longrightarrow> hi \<le> 0xbf \<Longrightarrow>
    read_continuations n lo hi (parts_tokens nfc (splitIntoParts [] ts)) = Some bs \<Longrightarrow> read_continuations n lo hi ts \<noteq> None"
proof (induction n arbitrary: ts lo hi bs)
  case (Suc n)
  let ?out = "parts_tokens nfc (splitIntoParts [] ts)"
  obtain b rest where out: "?out = Octet b # rest" "lo \<le> b" "b \<le> hi"
    using Suc.prems(4) unfolding read_continuations_Some by blast
  have cont: "continuation ?out" using out Suc.prems(2,3) by (simp add: continuation_def)
  show ?case
  proof (cases ts)
    case Nil
    with out(1) show ?thesis by (simp add: flushText_def)
  next
    case (Cons x us)
    note ok = Suc.prems(1) [unfolded Cons]
    show ?thesis
    proof (cases x)
      case (Lit c)
      with Cons cont split_first_text [OF assms, of "[code_unit c]" us] ok show ?thesis by simp
    next
      case (Octet a)
      show ?thesis
      proof (cases "a < 128")
        case True
        show ?thesis
        proof (cases "UNRESERVED_ASCII a")
          case True
          with \<open>a < 128\<close> Cons Octet cont split_first_text [OF assms, of "[a]" us] ok
          show ?thesis by (simp add: scalar_def)
        next
          case False
          have "tokenize (encodeByte a @ []) = [Octet a]" using \<open>a < 128\<close> by (simp only: tokenize_byte) simp
          with False \<open>a < 128\<close> Cons Octet cont show ?thesis by (simp add: flushText_def continuation_def)
        qed
      next
        case False
        show ?thesis
        proof (cases "readUtf8Sequence (Octet a # us)")
          case (Some q)
          obtain p m where q: "q = (p, m)" by (cases q)
          have "scalar p" using read_scalar Some q by blast
          moreover have "list_all octet_ok (drop (m - 1) us)" using ok by (auto simp: list_all_iff dest: in_set_dropD)
          ultimately have "\<not> continuation (parts_tokens nfc (splitIntoParts [p] (drop (m - 1) us)))"
            using split_first_text [OF assms, of "[p]"] by simp
          with False Some q Cons Octet cont show ?thesis by (simp del: readUtf8Sequence.simps)
        next
          case None
          have "a < 256" using ok Octet by (simp add: octet_ok_def)
          then have "tokenize (encodeByte a @ []) = [Octet a]" by (simp only: tokenize_byte) simp
          then have o: "?out = Octet a # parts_tokens nfc (splitIntoParts [] us)"
            using False None Cons Octet by (simp add: flushText_def del: readUtf8Sequence.simps)
          with out have a: "lo \<le> a" "a \<le> hi" by simp_all
          obtain bs' where "read_continuations n 0x80 0xbf (parts_tokens nfc (splitIntoParts [] us)) = Some bs'"
            using Suc.prems(4) unfolding o read_continuations_Some by auto
          from Suc.IH [OF _ _ _ this] ok have "read_continuations n 0x80 0xbf us \<noteq> None" by simp
          with a Cons Octet show ?thesis by auto
        qed
      qed
    qed
  qed
qed simp

lemma lead_window: "leadByteSpec a = Some (n, lo, hi) \<Longrightarrow> 0x80 \<le> lo \<and> hi \<le> 0xbf"
  by (auto simp: leadByteSpec_def split: if_splits)

lemma unread_stays:
  assumes "nfc_laws nfc" "list_all octet_ok ts" "readUtf8Sequence (Octet b # ts) = None"
  shows "readUtf8Sequence (Octet b # parts_tokens nfc (splitIntoParts [] ts)) = None"
proof (cases "leadByteSpec b")
  case (Some spec)
  obtain n lo hi where s: "spec = (n, lo, hi)" by (cases spec)
  have "read_continuations (n - 1) lo hi ts = None" using assms(3) Some s by simp
  with split_continuations [OF assms(1,2), of lo hi "n - 1"] lead_window [of b n lo hi] Some s
  have "read_continuations (n - 1) lo hi (parts_tokens nfc (splitIntoParts [] ts)) = None"
    by (cases "read_continuations (n - 1) lo hi (parts_tokens nfc (splitIntoParts [] ts))") auto
  with Some s show ?thesis by simp
qed simp

text \<open>An octet that was kept as it stands is kept again.\<close>

definition kept :: "nat \<Rightarrow> ComponentToken list \<Rightarrow> bool" where
  "kept b ts \<longleftrightarrow> (if b < 0x80 then \<not> UNRESERVED_ASCII b else readUtf8Sequence (Octet b # ts) = None)"

lemma kept_split: "kept b ts \<Longrightarrow> splitIntoParts t (Octet b # ts) = flushText t @ PartEncoded (encodeByte b) # splitIntoParts [] ts"
  by (auto simp: kept_def split: if_splits simp del: readUtf8Sequence.simps)

lemma kept_breaks: "kept b ts \<Longrightarrow> breaks (Octet b # ts)"
  unfolding breaks_def by (simp only: kept_split) (simp add: flushText_def)

lemma resplit:
  assumes "nfc_laws nfc"
  shows "list_all octet_ok ts \<Longrightarrow> list_all scalar t \<Longrightarrow>
    serializeParts nfc (splitIntoParts [] (parts_tokens nfc (splitIntoParts t ts))) = serializeParts nfc (splitIntoParts t ts)"
proof (induction t ts rule: splitIntoParts.induct)
  case (1 t)
  then show ?case
  proof (cases "t = []")
    case False
    have "list_all scalar (nfc t)" using nfc_lawsD(4) [OF assms] 1 by simp
    from serialize_text [OF assms breaks_Nil this, of "[]"] False show ?thesis
      by (simp add: flushText_def nfc_lawsD(2) [OF assms])
  qed (simp add: flushText_def)
next
  case (2 t c ts)
  then show ?case by simp
next
  case (3 t b ts)
  have b: "b < 256" using 3(5) by (simp add: octet_ok_def)
  have enc: "serializeParts nfc (splitIntoParts [] (parts_tokens nfc (flushText t @ PartEncoded (encodeByte b) # splitIntoParts [] ts)))
      = serializeParts nfc (flushText t @ PartEncoded (encodeByte b) # splitIntoParts [] ts)"
    if k: "kept b ts" and IH: "serializeParts nfc (splitIntoParts [] (parts_tokens nfc (splitIntoParts [] ts)))
      = serializeParts nfc (splitIntoParts [] ts)"
  proof -
    let ?rest = "parts_tokens nfc (splitIntoParts [] ts)"
    have k': "kept b ?rest" using k unread_stays [OF assms, of ts b] 3(5) by (simp add: kept_def split: if_splits)
    have "tokenize (encodeByte b @ []) = [Octet b]" using b by (simp only: tokenize_byte) simp
    then have toks: "parts_tokens nfc (flushText t @ PartEncoded (encodeByte b) # splitIntoParts [] ts)
        = concat (map point_tokens (if t = [] then [] else nfc t)) @ Octet b # ?rest"
      by (simp add: flushText_def)
    have "list_all scalar (if t = [] then [] else nfc t)" using nfc_lawsD(4) [OF assms] 3(6) by simp
    from serialize_text [OF assms kept_breaks [OF k'] this, of "[]"] show ?thesis
      unfolding toks using IH kept_split [OF k', of "[]"] nfc_lawsD(1,2) [OF assms, of t] nfc_lawsD(1) [OF assms, of "[]"]
      by (simp add: flushText_def)
  qed
  show ?case
  proof (cases "b < 128")
    case True
    show ?thesis
    proof (cases "UNRESERVED_ASCII b")
      case u: True
      with True 3(1) [OF True u] 3(5,6) show ?thesis by (simp add: scalar_def)
    next
      case u: False
      with True enc 3(2) [OF True u] 3(5) show ?thesis by (simp add: kept_def)
    qed
  next
    case False
    show ?thesis
    proof (cases "readUtf8Sequence (Octet b # ts)")
      case None
      with False enc 3(3) [OF False None] 3(5) show ?thesis by (simp add: kept_def del: readUtf8Sequence.simps)
    next
      case (Some q)
      obtain p n where q: "q = (p, n)" by (cases q)
      have "scalar p" using read_scalar Some q by blast
      moreover have "list_all octet_ok (drop (n - 1) ts)" using 3(5) by (auto simp: list_all_iff dest: in_set_dropD)
      ultimately show ?thesis
        using 3(4) [OF False Some q [symmetric]] 3(6) False Some q by (simp del: readUtf8Sequence.simps)
    qed
  qed
qed

lemma component_twice:
  assumes "nfc_laws nfc"
  shows "normalizeComponent nfc (normalizeComponent nfc raw) = normalizeComponent nfc raw"
  unfolding normalizeComponent_def
  by (subst tokenize_parts [OF assms]) (simp_all add: resplit [OF assms] split_parts_ok tokenize_octets)

section \<open>The query, twice and in any order\<close>

text \<open>\<open>&\<close> and \<open>=\<close> come only from the source text.\<close>

definition no_new :: "string \<Rightarrow> ComponentPart \<Rightarrow> bool" where
  "no_new raw part \<longleftrightarrow> (case part of PartText t \<Rightarrow> (\<forall>p \<in> set t. p \<in> {38, 61} \<longrightarrow> char_of p \<in> set raw) | PartEncoded s \<Rightarrow> True)"

lemma tokenize_lits: "Lit c \<in> set (tokenize s) \<Longrightarrow> c \<in> set s"
  by (induction s rule: tokenize.induct) (auto split: if_splits option.splits)

lemma split_no_new:
  "(\<forall>c. Lit c \<in> set ts \<longrightarrow> c \<in> set raw) \<Longrightarrow> (\<forall>p \<in> set t. p \<in> {38, 61} \<longrightarrow> char_of p \<in> set raw) \<Longrightarrow>
    list_all (no_new raw) (splitIntoParts t ts)"
proof (induction t ts rule: splitIntoParts.induct)
  case (1 t)
  then show ?case by (simp add: flushText_def no_new_def)
next
  case (2 t c ts)
  have "\<forall>p \<in> set (t @ [code_unit c]). p \<in> {38, 61} \<longrightarrow> char_of p \<in> set raw"
  proof (intro ballI impI)
    fix p assume p: "p \<in> set (t @ [code_unit c])" "p \<in> {38, 61}"
    show "char_of p \<in> set raw"
    proof (cases "p = code_unit c")
      case True
      then have "char_of p = c" by simp
      with 2(2) show ?thesis by simp
    qed (use p 2(3) in auto)
  qed
  with 2 show ?case by simp
next
  case (3 t b ts)
  have enc: "list_all (no_new raw) (flushText t @ PartEncoded (encodeByte b) # splitIntoParts [] ts)"
    if "list_all (no_new raw) (splitIntoParts [] ts)"
    using that 3(6) by (simp add: flushText_def no_new_def)
  show ?case
  proof (cases "b < 128")
    case True
    have "UNRESERVED_ASCII b \<Longrightarrow> b \<notin> {38, 61}" by (auto simp: UNRESERVED_ASCII_def)
    with True 3 enc show ?thesis by simp
  next
    case False
    show ?thesis
    proof (cases "readUtf8Sequence (Octet b # ts)")
      case None
      have "list_all (no_new raw) (splitIntoParts [] ts)" using 3(3) [OF False None] 3(5) by simp
      from enc [OF this] False None show ?thesis by (simp del: readUtf8Sequence.simps)
    next
      case (Some q)
      obtain p n where q: "q = (p, n)" by (cases q)
      have "128 \<le> p" using read_scalar Some q by blast
      moreover have "\<forall>c. Lit c \<in> set (drop (n - 1) ts) \<longrightarrow> c \<in> set raw" using 3(5) by (auto dest: in_set_dropD)
      ultimately have "list_all (no_new raw) (splitIntoParts (t @ [p]) (drop (n - 1) ts))"
        using 3(4) [OF False Some q [symmetric]] 3(6) by simp
      with False Some q show ?thesis by (simp del: readUtf8Sequence.simps)
    qed
  qed
qed

lemma encodeByte_chars: "c \<in> set (encodeByte b) \<Longrightarrow> b < 256 \<Longrightarrow> c \<notin> {CHR ''&'', CHR ''=''} \<and> code_unit c < 128"
proof -
  have d: "upper_hex d \<notin> {CHR ''&'', CHR ''=''} \<and> code_unit (upper_hex d) < 128" if "d < 16" for d
  proof -
    have "d \<in> set [0..<16]" using that by simp
    moreover have "list_all (\<lambda>d. upper_hex d \<notin> {CHR ''&'', CHR ''=''} \<and> code_unit (upper_hex d) < 128) [0..<16]" by code_simp
    ultimately show ?thesis by (simp add: list_all_iff)
  qed
  assume "c \<in> set (encodeByte b)" "b < 256"
  then consider "c = CHR ''%''" | "c = upper_hex (b div 16)" | "c = upper_hex (b mod 16)" by (auto simp: encodeByte_def)
  then show ?thesis using d [of "b div 16"] d [of "b mod 16"] \<open>b < 256\<close> by cases auto
qed

lemma encode_point_chars:
  assumes "c \<in> set (encode_point p)" "scalar p"
  shows "code_unit c < 128 \<and> (c \<in> {CHR ''&'', CHR ''=''} \<longrightarrow> p = code_unit c)"
proof (cases "p < 128 \<and> p \<noteq> 37")
  case True
  with assms(1) have "c = char_of p" by (simp add: encode_point_def)
  with True show ?thesis by simp
next
  case False
  have "encode_point 37 = encodeByte 37" by (simp add: percent_byte)
  with False obtain b where "c \<in> set (encodeByte b)" "b < 256"
    using assms utf8_octets [OF assms(2)] by (cases "p = 37") (auto simp: encode_point_def split: if_splits)
  from encodeByte_chars [OF this] show ?thesis by simp
qed

lemma component_chars:
  assumes "nfc_laws nfc" "c \<in> set (normalizeComponent nfc raw)"
  shows "code_unit c < 128 \<and> (c \<in> {CHR ''&'', CHR ''=''} \<longrightarrow> c \<in> set raw)"
proof -
  let ?ps = "splitIntoParts [] (tokenize raw)"
  obtain part where part: "part \<in> set ?ps" "c \<in> set (serializePart nfc part)"
    using assms(2) by (auto simp: normalizeComponent_def serializeParts_def)
  have ok: "part_ok part" "no_new raw part"
    using part(1) split_parts_ok [OF tokenize_octets, of "[]" raw] split_no_new [of "tokenize raw" raw "[]"] tokenize_lits [of _ raw]
    by (auto simp: list_all_iff)
  show ?thesis
  proof (cases part)
    case (PartEncoded e)
    with ok(1) part(2) encodeByte_chars [of c] show ?thesis by auto
  next
    case (PartText t)
    then obtain p where p: "p \<in> set (nfc t)" "c \<in> set (encode_point p)"
      using part(2) by (auto simp: encodeText_def)
    have "scalar p" using ok(1) PartText nfc_lawsD(4) [OF assms(1), of t] p(1) by (auto simp: list_all_iff)
    note e = encode_point_chars [OF p(2) this]
    have "c \<in> set raw" if c: "c \<in> {CHR ''&'', CHR ''=''}"
    proof -
      have pc: "p = code_unit c" using e c by blast
      then have v: "p \<in> {38, 61}" "char_of p = c" using c by auto
      then have "p \<in> set t" using nfc_lawsD(5) [OF assms(1) p(1)] by simp
      with ok(2) PartText v show ?thesis by (auto simp: no_new_def)
    qed
    with e show ?thesis by blast
  qed
qed

lemma parse_print:
  assumes "CHR ''='' \<notin> set n" "normalizeComponent nfc n = n" "normalizeComponent nfc v = v"
  shows "parseQueryPair nfc (print_pair (n, v)) = (n, v)"
proof -
  have "index_of (CHR ''='') (n @ ''='' @ v) = Some (length n)" using assms(1) by (induction n) auto
  with assms show ?thesis by (simp add: parseQueryPair_def print_pair_def)
qed

lemma index_take: "index_of x xs = Some i \<Longrightarrow> x \<notin> set (take i xs)"
  by (induction xs arbitrary: i) (auto split: if_splits)

lemma component_Nil [simp]: "normalizeComponent nfc [] = []"
  by (simp add: normalizeComponent_def flushText_def)

lemma pair_ok:
  assumes "nfc_laws nfc" "CHR ''&'' \<notin> set segment" "parseQueryPair nfc segment = (n, v)"
  shows "CHR ''='' \<notin> set n \<and> CHR ''&'' \<notin> set n \<and> CHR ''&'' \<notin> set v
    \<and> normalizeComponent nfc n = n \<and> normalizeComponent nfc v = v"
proof -
  have raw: "\<exists>a b. n = normalizeComponent nfc a \<and> v = normalizeComponent nfc b \<and> CHR ''='' \<notin> set a \<and> set a \<subseteq> set segment \<and> set b \<subseteq> set segment"
  proof (cases "index_of (CHR ''='') segment")
    case None
    then have "CHR ''='' \<notin> set segment" by simp
    have "n = normalizeComponent nfc segment" "v = normalizeComponent nfc []"
      using assms(3) unfolding parseQueryPair_def None by simp_all
    with \<open>CHR ''='' \<notin> set segment\<close> show ?thesis by (metis empty_set empty_subsetI order_refl)
  next
    case (Some i)
    have "n = normalizeComponent nfc (take i segment)" "v = normalizeComponent nfc (drop (i + 1) segment)"
      using assms(3) unfolding parseQueryPair_def Some by simp_all
    with index_take [OF Some] show ?thesis by (metis set_take_subset set_drop_subset)
  qed
  then obtain a b where ab: "n = normalizeComponent nfc a" "v = normalizeComponent nfc b" "CHR ''='' \<notin> set a"
      "set a \<subseteq> set segment" "set b \<subseteq> set segment" by blast
  have "CHR ''='' \<notin> set n" "CHR ''&'' \<notin> set n" "CHR ''&'' \<notin> set v"
    using component_chars [OF assms(1), of _ a] component_chars [OF assms(1), of _ b] ab assms(2) by blast+
  then show ?thesis using component_twice [OF assms(1)] ab by simp
qed

definition query_pairs :: "(nat list \<Rightarrow> nat list) \<Rightarrow> string \<Rightarrow> (string \<times> string) list" where
  "query_pairs nfc q = filter (\<lambda>p. \<not> isTrackingParam (fst p))
     (map (parseQueryPair nfc) (filter (\<lambda>s. s \<noteq> []) (split_on (CHR ''&'') q)))"

lemma normalizeQuery_pairs:
  "q \<noteq> [] \<Longrightarrow> normalizeQuery nfc (CHR ''?'' # q) =
     (if query_pairs nfc q = [] then None
      else Some (join_with ''&'' (map print_pair (sort_key pair_bytes (query_pairs nfc q)))))"
  by (simp add: normalizeQuery_def query_pairs_def Let_def)

lemma query_pairs_ok:
  assumes "nfc_laws nfc" "p \<in> set (query_pairs nfc q)"
  shows "CHR ''='' \<notin> set (fst p) \<and> CHR ''&'' \<notin> set (fst p) \<and> CHR ''&'' \<notin> set (snd p)
    \<and> normalizeComponent nfc (fst p) = fst p \<and> normalizeComponent nfc (snd p) = snd p \<and> \<not> isTrackingParam (fst p)"
proof -
  obtain seg where "seg \<in> set (split_on (CHR ''&'') q)" "p = parseQueryPair nfc seg" "\<not> isTrackingParam (fst p)"
    using assms(2) by (auto simp: query_pairs_def)
  then show ?thesis using pair_ok [OF assms(1), of seg "fst p" "snd p"] split_on_parts by force
qed

lemma reread_pairs:
  assumes "nfc_laws nfc" "ps \<noteq> []" "set ps \<subseteq> set (query_pairs nfc q)"
  shows "query_pairs nfc (join_with ''&'' (map print_pair ps)) = ps"
proof -
  have ok: "CHR ''&'' \<notin> set (print_pair p) \<and> print_pair p \<noteq> [] \<and> parseQueryPair nfc (print_pair p) = p \<and> \<not> isTrackingParam (fst p)"
    if "p \<in> set ps" for p
    using query_pairs_ok [OF assms(1), of p q] that assms(3) parse_print [of "fst p" nfc "snd p"]
    by (auto simp: print_pair_def)
  have "split_on (CHR ''&'') (join_with ''&'' (map print_pair ps)) = map print_pair ps"
    by (rule split_join) (use ok assms(2) in auto)
  moreover have "filter (\<lambda>s. s \<noteq> []) (map print_pair ps) = map print_pair ps"
    using ok by (auto simp: filter_id_conv)
  moreover have "map (parseQueryPair nfc) (map print_pair ps) = ps" using ok by (simp add: map_idI)
  moreover have "filter (\<lambda>p. \<not> isTrackingParam (fst p)) ps = ps" using ok by (auto simp: filter_id_conv)
  ultimately show ?thesis by (simp add: query_pairs_def)
qed

lemma query_twice:
  assumes "nfc_laws nfc" "normalizeQuery nfc s = Some q"
  shows "normalizeQuery nfc (CHR ''?'' # q) = Some q"
proof -
  let ?ps = "query_pairs nfc (drop 1 s)"
  have q: "?ps \<noteq> []" "q = join_with ''&'' (map print_pair (sort_key pair_bytes ?ps))"
    using assms(2) by (auto simp: normalizeQuery_def query_pairs_def Let_def split: if_splits)
  let ?ss = "sort_key pair_bytes ?ps"
  have ss: "?ss \<noteq> []" using q(1) by (metis length_0_conv length_sort)
  then have "q \<noteq> []" unfolding q(2) by (cases ?ss; cases "tl ?ss") (auto simp: print_pair_def)
  moreover have "query_pairs nfc q = ?ss"
    unfolding q(2) by (rule reread_pairs [OF assms(1) ss, of "drop 1 s"]) simp
  moreover have "sort_key pair_bytes ?ss = ?ss" by (rule sort_key_id_if_sorted) simp
  ultimately show ?thesis using ss q(2) by (simp add: normalizeQuery_pairs)
qed

text \<open>Two queries with the same pairs are the same query.\<close>

definition ascii :: "string \<Rightarrow> bool" where
  "ascii s \<longleftrightarrow> (\<forall>c \<in> set s. code_unit c < 128)"

lemma utf8_bytes_ascii: "ascii s \<Longrightarrow> utf8_bytes s = map code_unit s"
  by (induction s) (auto simp: utf8_bytes_def ascii_def utf8_encode_def)

lemma pair_bytes_inj:
  assumes "ascii (fst p)" "ascii (snd p)" "ascii (fst q)" "ascii (snd q)" "pair_bytes p = pair_bytes q"
  shows "p = q"
proof -
  have "inj (code_unit)" by (simp add: inj_def)
  then have "fst p = fst q" "snd p = snd q"
    using assms by (simp_all add: pair_bytes_def utf8_bytes_ascii inj_map_eq_map)
  then show ?thesis by (simp add: prod_eq_iff)
qed

lemma pairs_ascii: "nfc_laws nfc \<Longrightarrow> p \<in> set (query_pairs nfc q) \<Longrightarrow> ascii (fst p) \<and> ascii (snd p)"
proof -
  assume a: "nfc_laws nfc" "p \<in> set (query_pairs nfc q)"
  have c: "ascii (normalizeComponent nfc raw)" for raw using component_chars [OF a(1), of _ raw] by (simp add: ascii_def)
  from query_pairs_ok [OF a] c [of "fst p"] c [of "snd p"] show ?thesis by simp
qed

lemma sort_key_mset:
  assumes "mset xs = mset ys" "inj_on f (set xs)"
  shows "sort_key f xs = sort_key f ys"
proof -
  have sets: "set ys = set xs" using assms(1) by (metis set_mset_mset)
  have "sort (map f zs) = map f (sort_key f zs)" for zs by (rule properties_for_sort) simp_all
  moreover have "sort (map f xs) = sort (map f ys)"
    by (rule properties_for_sort) (simp_all add: assms(1))
  ultimately have "map f (sort_key f xs) = map f (sort_key f ys)" by simp
  then show ?thesis using assms(2) sets by (simp add: inj_on_map_eq_map)
qed

text \<open>What a query means: its parameters as a multiset, the tracking ones left out.\<close>

definition meaning :: "(nat list \<Rightarrow> nat list) \<Rightarrow> string \<Rightarrow> (string \<times> string) multiset" where
  "meaning nfc q = filter_mset (\<lambda>p. \<not> isTrackingParam (fst p))
     (image_mset (parseQueryPair nfc) (filter_mset (\<lambda>s. s \<noteq> []) (mset (split_on (CHR ''&'') q))))"

lemma meaning_pairs: "meaning nfc q = mset (query_pairs nfc q)"
  by (simp add: meaning_def query_pairs_def mset_filter)

lemma same_meaning:
  assumes "nfc_laws nfc" "q \<noteq> []" "r \<noteq> []" "meaning nfc q = meaning nfc r"
  shows "normalizeQuery nfc (CHR ''?'' # q) = normalizeQuery nfc (CHR ''?'' # r)"
proof -
  have m: "mset (query_pairs nfc q) = mset (query_pairs nfc r)" using assms(4) by (simp add: meaning_pairs)
  have "inj_on pair_bytes (set (query_pairs nfc q))"
  proof (rule inj_onI)
    fix x y assume "x \<in> set (query_pairs nfc q)" "y \<in> set (query_pairs nfc q)" "pair_bytes x = pair_bytes y"
    with pairs_ascii [OF assms(1), of x q] pairs_ascii [OF assms(1), of y q] show "x = y"
      by (intro pair_bytes_inj) simp_all
  qed
  note sorted = sort_key_mset [OF m this]
  have "(query_pairs nfc q = []) = (query_pairs nfc r = [])" using m by (metis mset_zero_iff)
  then show ?thesis using assms(2,3) sorted by (simp add: normalizeQuery_pairs)
qed

lemma meaning_kept:
  assumes "nfc_laws nfc" "normalizeQuery nfc (CHR ''?'' # q) = Some r"
  shows "meaning nfc r = meaning nfc q"
proof -
  have q: "q \<noteq> []" using assms(2) by (auto simp: normalizeQuery_def)
  then have r: "query_pairs nfc q \<noteq> []" "r = join_with ''&'' (map print_pair (sort_key pair_bytes (query_pairs nfc q)))"
    using assms(2) by (auto simp: normalizeQuery_pairs split: if_splits)
  have "sort_key pair_bytes (query_pairs nfc q) \<noteq> []" using r(1) by (metis length_0_conv length_sort)
  then have "query_pairs nfc r = sort_key pair_bytes (query_pairs nfc q)"
    unfolding r(2) by (rule reread_pairs [OF assms(1), of _ q]) simp
  then show ?thesis by (simp add: meaning_pairs)
qed

section \<open>The whole address, twice\<close>

text \<open>
  The address is not always a fixed point: NFC writes U+1FEF as U+0060, which the URL standard
  percent-encodes in a path. The first pass gives a bare grave accent, the second \<open>%60\<close>.
\<close>

definition grave_url :: "string \<Rightarrow> url" where
  "grave_url path = \<lparr> href = ''http://a'' @ path, protocol = ''http:'', username = [], password = [], hostname = ''a'', port = [],
     pathname = path, search = [] \<rparr>"

lemma address_not_idempotent:
  assumes "parse ''http://a/%E1%BF%AF'' = Some (grave_url ''/%E1%BF%AF'')"
    "parse ''http://a/`'' = Some (grave_url ''/%60'')"
    "nfc [0x2f, 0x1fef] = [0x2f, 0x60]" "nfc [0x2f] = [0x2f]"
  shows "normalizeUrl parse nfc ''http://a/%E1%BF%AF'' = Inr ''http://a/`''
    \<and> normalizeUrl parse nfc ''http://a/`'' = Inr ''http://a/%60''"
proof -
  have t: "tokenize ''/%E1%BF%AF'' = [Lit (CHR ''/''), Octet 0xe1, Octet 0xbf, Octet 0xaf]"
    "tokenize ''/%60'' = [Lit (CHR ''/''), Octet 0x60]" by code_simp+
  have r: "readUtf8Sequence [Octet 0xe1, Octet 0xbf, Octet 0xaf] = Some (0x1fef, 3)" by code_simp
  have e: "encodeText [0x2f, 0x60] = ''/`''" "encodeText [0x2f] = ''/''" "encodeByte 0x60 = ''%60''" by code_simp+
  have "normalizeComponent nfc ''/%E1%BF%AF'' = ''/`''"
    unfolding normalizeComponent_def t using r
    by (simp add: flushText_def assms(3) e del: readUtf8Sequence.simps encodeText_simps)
  moreover have "normalizeComponent nfc ''/%60'' = ''/%60''"
    unfolding normalizeComponent_def t
    by (simp add: flushText_def assms(4) e UNRESERVED_ASCII_def del: encodeText_simps)
  ultimately show ?thesis
    by (simp add: normalizeUrl_def assms(1,2) grave_url_def normalizeQuery_def Let_def)
qed

text \<open>
  C39: One address, one key. The normalized form of a path or parameter is a fixed point of the normalization, all
  ASCII; the normalized query says exactly what the query said, less the tracking parameters; two queries with
  the same parameters, in any order and however percent-encoded, have the same normalized form; and
  normalizing that form again changes nothing.
\<close>

theorem address_canonical:
  assumes "nfc_laws nfc"
  shows "normalizeComponent nfc (normalizeComponent nfc raw) = normalizeComponent nfc raw
    \<and> ascii (normalizeComponent nfc raw)
    \<and> (\<forall>q r. q \<noteq> [] \<and> r \<noteq> [] \<and> meaning nfc q = meaning nfc r \<longrightarrow>
         normalizeQuery nfc (CHR ''?'' # q) = normalizeQuery nfc (CHR ''?'' # r))
    \<and> (\<forall>q r. normalizeQuery nfc (CHR ''?'' # q) = Some r \<longrightarrow>
         meaning nfc r = meaning nfc q \<and> normalizeQuery nfc (CHR ''?'' # r) = Some r)"
  using component_twice [OF assms] component_chars [OF assms] same_meaning [OF assms] meaning_kept [OF assms]
    query_twice [OF assms] unfolding ascii_def by blast

theorem address_canonical_witness:
  "normalizeQuery id ''?b=2&utm_x=1&a=%7E'' = Some ''a=~&b=2'' \<and> normalizeQuery id ''?a=~&b=2'' = Some ''a=~&b=2''"
proof -
  have l: "nfc_laws id" by (simp add: nfc_laws_def)
  have "normalizeQuery id ''?b=2&utm_x=1&a=%7E'' = Some ''a=~&b=2''" by code_simp
  with address_canonical [OF l] show ?thesis by blast
qed

end
