(* ===== verification/Fingerprint.thy ===== *)
theory Fingerprint
  imports NormalizeUrl
begin

text \<open>
  The identity of a finding: \<open>packages/fingerprint/src/fingerprint.ts\<close>. A buffer is a list of octets; \<open>sha256\<close> is
  the lowercase hex digest of \<open>node:crypto\<close>.
\<close>

definition FINGERPRINT_VERSION :: string where
  "FINGERPRINT_VERSION = ''fluxradar-fp-v1''"

record FingerprintFields =
  fp_domain :: string
  fp_ruleId :: string
  fp_targetKind :: string
  fp_normalizedUrl :: string
  fp_normalizedResource :: string
  fp_normalizedSelector :: string
  fp_normalizedParameter :: string
  fp_ruleVariant :: string

definition FIELD_ORDER :: "(FingerprintFields \<Rightarrow> string) list" where
  "FIELD_ORDER = [fp_domain, fp_ruleId, fp_targetKind, fp_normalizedUrl, fp_normalizedResource, fp_normalizedSelector,
     fp_normalizedParameter, fp_ruleVariant]"

definition framed :: "nat list \<Rightarrow> nat list" where
  "framed bytes = map code_unit (nat_to_string (length bytes) @ '':'') @ bytes @ [0]"

definition buildFingerprintPayload :: "FingerprintFields \<Rightarrow> nat list" where
  "buildFingerprintPayload ff =
     utf8_bytes FINGERPRINT_VERSION @ [0] @ concat (map (\<lambda>key. framed (utf8_bytes (key ff))) FIELD_ORDER)"

definition computeFingerprint :: "(nat list \<Rightarrow> string) \<Rightarrow> FingerprintFields \<Rightarrow> string" where
  "computeFingerprint sha256 ff = FINGERPRINT_VERSION @ '':'' @ sha256 (buildFingerprintPayload ff)"

section \<open>Nothing is lost\<close>

text \<open>A frame states where it ends, so what follows it cannot be confused with it.\<close>

lemma digits_no_colon: "CHR '':'' \<notin> set (nat_to_string n)"
  by (rule is_digits_not_mem) simp_all

lemma colon_unique:
  "x \<notin> set a \<Longrightarrow> x \<notin> set b \<Longrightarrow> a @ x # r = b @ x # s \<Longrightarrow> a = b \<and> r = s"
proof (induction a arbitrary: b)
  case Nil
  then show ?case by (cases b) auto
next
  case (Cons c a)
  then show ?case by (cases b) auto
qed

lemma framed_append_inj:
  assumes "framed a @ r = framed b @ s"
  shows "a = b \<and> r = s"
proof -
  let ?n = "\<lambda>a. map code_unit (nat_to_string (length a))"
  have e: "?n a @ code_unit (CHR '':'') # (a @ 0 # r) = ?n b @ code_unit (CHR '':'') # (b @ 0 # s)"
    using assms by (simp add: framed_def)
  have d: "code_unit (CHR '':'') \<notin> set (?n a)" for a
  proof
    assume "code_unit (CHR '':'') \<in> set (?n a)"
    then obtain x where "x \<in> set (nat_to_string (length a))" "code_unit x = code_unit (CHR '':'')" unfolding set_map by (metis imageE)
    with digits_no_colon [of "length a"] show False by (metis of_char_eq_iff)
  qed
  from colon_unique [OF d d e] have n: "?n a = ?n b" "a @ 0 # r = b @ 0 # s" by blast+
  have "inj code_unit" by (simp add: inj_def)
  with n(1) have "length a = length b" by (simp add: inj_map_eq_map del: nat_to_string.simps)
  with n(2) show ?thesis by simp
qed

lemma utf8_unit_inj:
  assumes "utf8_encode (code_unit c) @ r = utf8_encode (code_unit d) @ s"
  shows "c = d \<and> r = s"
proof -
  have small: "code_unit c < 256" for c using of_char_mod_256 [of c, where ?'a = nat] by (metis mod_less_divisor zero_less_numeral)
  have "code_unit c = code_unit d \<and> r = s"
  proof (cases "code_unit c < 128"; cases "code_unit d < 128")
    assume "\<not> code_unit c < 128" "\<not> code_unit d < 128"
    with assms small [of c] small [of d] have e: "code_unit c div 64 = code_unit d div 64" "code_unit c mod 64 = code_unit d mod 64" "r = s"
      by (auto simp: utf8_encode_def split: if_splits)
    then have "code_unit c = code_unit d" by (metis div_mult_mod_eq)
    with e show ?thesis by simp
  qed (use assms small [of c] small [of d] in \<open>auto simp: utf8_encode_def split: if_splits\<close>)
  then show ?thesis by simp
qed

lemma utf8_bytes_inj: "utf8_bytes a = utf8_bytes b \<Longrightarrow> a = b"
proof (induction a arbitrary: b)
  case Nil
  then show ?case by (cases b) (auto simp: utf8_bytes_def utf8_encode_def split: if_splits)
next
  case (Cons c a)
  show ?case
  proof (cases b)
    case Nil
    with Cons.prems show ?thesis by (auto simp: utf8_bytes_def utf8_encode_def split: if_splits)
  next
    case (Cons d b')
    with Cons.prems have "utf8_encode (code_unit c) @ utf8_bytes a = utf8_encode (code_unit d) @ utf8_bytes b'"
      by (simp add: utf8_bytes_def)
    from utf8_unit_inj [OF this] Cons.IH Cons show ?thesis by simp
  qed
qed

lemma frames_inj:
  "concat (map (\<lambda>key. framed (utf8_bytes (key f))) keys) @ r = concat (map (\<lambda>key. framed (utf8_bytes (key g))) keys) @ s
    \<Longrightarrow> (\<forall>key \<in> set keys. key f = key g) \<and> r = s"
proof (induction keys)
  case (Cons key keys)
  have "utf8_bytes (key f) = utf8_bytes (key g) \<and>
      concat (map (\<lambda>key. framed (utf8_bytes (key f))) keys) @ r = concat (map (\<lambda>key. framed (utf8_bytes (key g))) keys) @ s"
    using Cons.prems by (intro framed_append_inj) simp
  with Cons.IH utf8_bytes_inj show ?case by auto
qed simp


end
