(* ===== verification/Sitemap.thy ===== *)
theory Sitemap
  imports Robots NormalizeUrl
begin

text \<open>
  The crawler's types and its readers of small texts: \<open>packages/crawler/src/types.ts\<close>, \<open>scope.ts\<close>, the text
  half of \<open>sitemap.ts\<close>, and the cut of a fragment from \<open>crawler.ts\<close>. The limits of a scope are numbers that need not
  be whole, which \<open>validateScope\<close> rejects; a query policy outside the union, which it rejects too, is no value here.
\<close>

section \<open>The scope of a crawl\<close>

datatype QueryPolicy = IncludeQuery | IgnoreQuery

record CrawlScope =
  sc_origin :: string
  sc_includeSubdomains :: bool
  sc_includePatterns :: "string list option"
  sc_excludePatterns :: "string list option"
  sc_seedUrls :: "string list option"
  sc_renderJs :: "bool option"
  sc_maxPages :: rat
  sc_maxDepth :: "rat option"
  sc_queryPolicy :: "QueryPolicy option"
  sc_respectRobots :: "bool option"
  sc_robotsOverrideConfirmed :: "bool option"

datatype scope_error = OriginNotAbsolute string | OriginScheme string | MaxPagesInvalid rat | MaxDepthInvalid rat

definition is_integer :: "rat \<Rightarrow> bool" where
  "is_integer r \<longleftrightarrow> of_int \<lfloor>r\<rfloor> = r"

definition validateScope :: "(string \<Rightarrow> url option) \<Rightarrow> CrawlScope \<Rightarrow> scope_error + url" where
  "validateScope parse sc =
     (case parse (sc_origin sc) of
        None \<Rightarrow> Inl (OriginNotAbsolute (sc_origin sc))
      | Some origin \<Rightarrow>
          if protocol origin \<noteq> ''http:'' \<and> protocol origin \<noteq> ''https:'' then Inl (OriginScheme (protocol origin))
          else if \<not> is_integer (sc_maxPages sc) \<or> sc_maxPages sc < 1 then Inl (MaxPagesInvalid (sc_maxPages sc))
          else
            (case sc_maxDepth sc of
               Some d \<Rightarrow> if \<not> is_integer d \<or> d < 0 then Inl (MaxDepthInvalid d) else Inr origin
             | None \<Rightarrow> Inr origin))"

text \<open>\<open>url.search = ''\<close> on an address without fragment: its text ends before the first question mark.\<close>

definition applyQueryPolicy :: "url \<Rightarrow> QueryPolicy option \<Rightarrow> url" where
  "applyQueryPolicy u policy =
     (if policy \<noteq> Some IgnoreQuery then u
      else u\<lparr> href := takeWhile (\<lambda>c. c \<noteq> CHR ''?'') (href u), search := [] \<rparr>)"

definition stripFragment :: "string \<Rightarrow> string" where
  "stripFragment rawUrl =
     (case index_of (CHR ''#'') rawUrl of None \<Rightarrow> rawUrl | Some hashAt \<Rightarrow> take hashAt rawUrl)"

text \<open>\<open>url.host\<close>, and the key under which a host's robots.txt is kept.\<close>

definition url_host :: "url \<Rightarrow> string" where
  "url_host u = hostname u @ (if port u = [] then [] else '':'' @ port u)"

definition hostKey :: "url \<Rightarrow> string" where
  "hostKey u = protocol u @ ''//'' @ url_host u"

section \<open>What a crawl records\<close>

datatype RenderFailureReason = RuntimeNotInstalled | RuntimeUnavailable | RuntimeTooOld | NavigationTimeout
  | BudgetExceeded | RenderStopped | NavigationFailed

datatype BlockedRequestReason = MethodNotAllowed | UrlNotAllowed | SsrfBlocked | SubresourceDisallowed | ResourceKind
  | Budget | NavigationBlocked | RedirectNotAllowed | WebsocketBlocked | StoppedRequest | FetchFailed | EncodingNotDecodable

record BlockedRequest =
  bq_url :: string
  bq_reason :: BlockedRequestReason

text \<open>\<open>PageRendered subresourceCount subresourceBytes blocked timingMs\<close>.\<close>

datatype PageRendering = PageRendered nat nat "BlockedRequest list" nat | PageRenderUnavailable RenderFailureReason string

record PageSnapshot =
  requestedUrl :: string
  normalizedUrl :: string
  pg_depth :: nat
  finalUrl :: string
  pg_status :: nat
  pg_headers :: "(string \<times> string) list"
  redirectChain :: "RedirectHop list"
  html :: "string option"
  contentType :: "string option"
  timingMs :: nat
  truncated :: bool
  fetchError :: "string option"
  pg_rendering :: "PageRendering option"

record CrawlError =
  err_url :: string
  err_reason :: string

datatype ResourceUnverifiedReason = RobotsDisallowed | BudgetExhausted | ProbeStopped | RequestFailed

datatype probe_method = HEAD | GET

record ResourceSnapshot =
  rc_requestedUrl :: string
  rc_normalizedUrl :: string
  rc_finalUrl :: string
  rc_status :: nat
  rc_contentType :: "string option"
  rc_method :: "probe_method option"
  rc_timingMs :: nat
  rc_unverifiedReason :: "ResourceUnverifiedReason option"
  rc_fetchError :: "string option"
  rc_referencedBy :: string

record CrawlQueueEntry =
  cq_url :: string
  cq_depth :: nat

record RestoredCrawlCoverage =
  rv_skippedOverLimit :: "string list"
  rv_blockedByRobots :: "string list"
  rv_errors :: "CrawlError list"
  rv_rejectedSeeds :: "CrawlError list"
  rv_urlVariants :: "(string \<times> string list) list"

record RestoredCrawlState =
  rs_pages :: "PageSnapshot list"
  rs_coverage :: RestoredCrawlCoverage
  rs_resources :: "ResourceSnapshot list option"

text \<open>\<open>SafeFetchResult\<close>, as the transport of a crawl returns it.\<close>

record fetched =
  ft_finalUrl :: string
  ft_status :: nat
  ft_headers :: "(string \<times> string) list"
  ft_body :: string
  ft_redirectChain :: "RedirectHop list"
  ft_timingMs :: nat
  ft_truncated :: bool

section \<open>Sitemap texts\<close>

definition SITEMAP_MAX_URLS :: nat where "SITEMAP_MAX_URLS = 1000"

text \<open>\<open>/<sitemapindex[\s>]/i\<close> anywhere in the text.\<close>

fun SITEMAP_INDEX_PATTERN :: "string \<Rightarrow> bool" where
  "SITEMAP_INDEX_PATTERN [] = False"
| "SITEMAP_INDEX_PATTERN (c # cs) =
     (js_lower (take 13 (c # cs)) = ''<sitemapindex''
        \<and> (case drop 13 (c # cs) of x # _ \<Rightarrow> js_is_space x \<or> x = CHR ''>'' | [] \<Rightarrow> False)
      \<or> SITEMAP_INDEX_PATTERN cs)"

text \<open>
  \<open>/<loc>\s*([^<]+?)\s*<\/loc>/gi\<close>: the text up to the next tag, which has to close the element, without the
  blanks around it; of a text that is all blanks the last one is left.
\<close>

definition loc_group :: "string \<Rightarrow> string" where
  "loc_group inner = (if list_all js_is_space inner then [last inner] else js_trim inner)"

function match_locs :: "string \<Rightarrow> string list" where
  "match_locs [] = []"
| "match_locs (c # cs) =
     (let rest = drop 5 (c # cs); inner = takeWhile (\<lambda>x. x \<noteq> CHR ''<'') rest; after = drop (length inner) rest
      in if js_lower (take 5 (c # cs)) = ''<loc>'' \<and> inner \<noteq> [] \<and> js_lower (take 6 after) = ''</loc>''
         then loc_group inner # match_locs (drop 6 after)
         else match_locs cs)"
  by pat_completeness auto
termination by (relation "measure length") auto

definition replaceAll :: "string \<Rightarrow> string \<Rightarrow> string \<Rightarrow> string" where
  "replaceAll s old new = join_with new (split_str (hd old) (tl old) s)"

definition decodeXmlEntities :: "string \<Rightarrow> string" where
  "decodeXmlEntities s =
     replaceAll (replaceAll (replaceAll (replaceAll (replaceAll s ''&lt;'' ''<'') ''&gt;'' ''>'') ''&quot;'' [CHR 34])
       ''&apos;'' [CHR 39]) ''&amp;'' ''&''"

definition extractLocs :: "string \<Rightarrow> string list" where
  "extractLocs xml = filter (\<lambda>loc. loc \<noteq> []) (map decodeXmlEntities (match_locs xml))"

end
