(* ===== verification/CrawlRun.thy ===== *)
theory CrawlRun
  imports Sitemap Steps
begin

text \<open>
  The state of a crawl and what it asks the network and keeps in its queue: \<open>packages/crawler/src/crawler.ts\<close> (class
  \<open>CrawlRun\<close>), \<open>robots-host-cache.ts\<close>, the requests of \<open>sitemap.ts\<close> and \<open>link-extractor.ts\<close>. The fields of \<open>CrawlRun\<close> are
  the record \<open>crawl_run\<close>, with those of its robots cache; \<open>requests\<close> is the log of what went to the network and \<open>clock\<close>
  the number of requests and stop checks so far, on which the answers of the outside world depend. The waits of the host
  limiter and the log lines are not part of the state.
\<close>

section \<open>The world\<close>

text \<open>
  What the crawl is given from outside: the URL parser and resolver and Unicode NFC of the platform, the transport, the
  HTML parser's elements for a selector (as functions from attribute names), the browser, and the two stop signals.
  A render is a dialogue: the browser asks whether a subresource may be fetched and whether to stop, and ends with an outcome.
\<close>

datatype render_outcome = RenderDone string nat nat "BlockedRequest list" nat | RenderFailed RenderFailureReason string

datatype render_dialogue =
    Rendering render_outcome
  | AskAllowed url "bool \<Rightarrow> render_dialogue"
  | AskStop "bool \<Rightarrow> render_dialogue"

datatype fetch_failure = SafeFetchFailure string string | OtherFailure string

fun failure_message :: "fetch_failure \<Rightarrow> string" where
  "failure_message (SafeFetchFailure name message) = message"
| "failure_message (OtherFailure message) = message"

datatype RenderRuntimeResult = RuntimeMissing RenderFailureReason string | RuntimeReady string string

record crawl_world =
  cw_parse :: "string \<Rightarrow> url option"
  cw_resolve :: "string \<Rightarrow> string \<Rightarrow> url option"
  cw_nfc :: "nat list \<Rightarrow> nat list"
  cw_reply :: "nat \<Rightarrow> string \<Rightarrow> fetch_failure + fetched"
  cw_elements :: "string \<Rightarrow> string \<Rightarrow> (string \<Rightarrow> string option) list"
  cw_render :: "PageSnapshot \<Rightarrow> render_dialogue"
  cw_stop :: "nat \<Rightarrow> bool"
  cw_aborted :: "nat \<Rightarrow> bool"

record QueueEntry =
  q_rawUrl :: string
  q_normalized :: string
  q_parsed :: url
  q_depth :: nat

record CrawlOptions =
  op_userAgent :: string
  op_renderRuntime :: "RenderRuntimeResult option"
  op_resumeSeeds :: "CrawlQueueEntry list"
  op_restored :: "RestoredCrawlState option"
  op_probeMedia :: bool

datatype crawl_request = PageRequest QueueEntry | RobotsRequest string | SitemapRequest string
  | ProbeRequest probe_method string

record crawl_run =
  queue :: "QueueEntry list"
  seen :: "string set"
  variantsByNormalized :: "(string \<times> string list) list"
  pages :: "PageSnapshot list"
  skippedOverLimit :: "string list"
  blockedByRobots :: "string list"
  errors :: "CrawlError list"
  stoppedHosts :: "string set"
  consecutive5xx :: "string \<Rightarrow> nat"
  rejectedSeeds :: "CrawlError list"
  robotsByHost :: "string \<Rightarrow> RobotsTxt option option"
  rawByHost :: "string \<Rightarrow> string option"
  sitemapUrls :: "string list"
  resources :: "ResourceSnapshot list"
  renderedPages :: nat
  failedRenderPages :: nat
  stoppedEarly :: bool
  requests :: "crawl_request list"
  clock :: nat

definition new_run :: crawl_run where
  "new_run = \<lparr> queue = [], seen = {}, variantsByNormalized = [], pages = [], skippedOverLimit = [], blockedByRobots = [],
     errors = [], stoppedHosts = {}, consecutive5xx = (\<lambda>_. 0), rejectedSeeds = [], robotsByHost = Map.empty,
     rawByHost = Map.empty, sitemapUrls = [], resources = [], renderedPages = 0, failedRenderPages = 0, stoppedEarly = False,
     requests = [], clock = 0 \<rparr>"

text \<open>What one run is given: the world, the scope with its parsed origin, and the options.\<close>

record crawl_ctx =
  cx_world :: crawl_world
  cx_scope :: CrawlScope
  cx_origin :: url
  cx_options :: CrawlOptions

definition overrideRobots :: "CrawlScope \<Rightarrow> bool" where
  "overrideRobots sc \<longleftrightarrow> sc_respectRobots sc = Some False \<and> sc_robotsOverrideConfirmed sc = Some True"

definition normalized_of :: "crawl_ctx \<Rightarrow> string \<Rightarrow> string option" where
  "normalized_of cx s =
     (case normalizeUrl (cw_parse (cx_world cx)) (cw_nfc (cx_world cx)) s of Inl e \<Rightarrow> None | Inr n \<Rightarrow> Some n)"

definition host_in_scope :: "crawl_ctx \<Rightarrow> url \<Rightarrow> bool" where
  "host_in_scope cx u \<longleftrightarrow> isHostInScope (hostname u) (hostname (cx_origin cx)) (sc_includeSubdomains (cx_scope cx))"

definition path_in_scope :: "crawl_ctx \<Rightarrow> url \<Rightarrow> bool" where
  "path_in_scope cx u \<longleftrightarrow>
     isPathnameAllowedByPatterns (pathname u) (sc_includePatterns (cx_scope cx)) (sc_excludePatterns (cx_scope cx))"

section \<open>Requests\<close>

definition request :: "crawl_ctx \<Rightarrow> crawl_request \<Rightarrow> string \<Rightarrow> crawl_run \<Rightarrow> (fetch_failure + fetched) \<times> crawl_run" where
  "request cx r target s =
     (cw_reply (cx_world cx) (clock s) target, s\<lparr> requests := requests s @ [r], clock := clock s + 1 \<rparr>)"

text \<open>\<open>fetchThrottled\<close> parses the address for the limiter first, which throws on one that is none.\<close>

definition fetchThrottled :: "crawl_ctx \<Rightarrow> crawl_request \<Rightarrow> string \<Rightarrow> crawl_run \<Rightarrow> (fetch_failure + fetched) \<times> crawl_run" where
  "fetchThrottled cx r target s =
     (case cw_parse (cx_world cx) target of None \<Rightarrow> (Inl (OtherFailure ''Invalid URL''), s) | Some u \<Rightarrow> request cx r target s)"

definition isCancelled :: "crawl_ctx \<Rightarrow> crawl_run \<Rightarrow> bool" where
  "isCancelled cx s \<longleftrightarrow> cw_aborted (cx_world cx) (clock s)"

text \<open>A look at the stop signals; time passes until the next one.\<close>

definition shouldStop :: "crawl_ctx \<Rightarrow> crawl_run \<Rightarrow> bool \<times> crawl_run" where
  "shouldStop cx s = (cw_stop (cx_world cx) (clock s) \<or> isCancelled cx s, s\<lparr> clock := clock s + 1 \<rparr>)"

definition push_error :: "string \<Rightarrow> string \<Rightarrow> crawl_run \<Rightarrow> crawl_run" where
  "push_error address reason s = s\<lparr> errors := errors s @ [\<lparr> err_url = address, err_reason = reason \<rparr>] \<rparr>"

section \<open>robots.txt per host (robots-host-cache.ts)\<close>

definition forHost :: "crawl_ctx \<Rightarrow> string \<Rightarrow> crawl_run \<Rightarrow> RobotsTxt option \<times> crawl_run" where
  "forHost cx host s =
     (case robotsByHost s host of
        Some cached \<Rightarrow> (cached, s)
      | None \<Rightarrow>
          let robotsUrl = host @ ''/robots.txt'' in
          (case fetchThrottled cx (RobotsRequest robotsUrl) robotsUrl s of
             (Inl failure, s1) \<Rightarrow>
               (None, (push_error robotsUrl (''robots.txt fetch failed: '' @ failure_message failure) s1)\<lparr> robotsByHost := (robotsByHost s1)(host \<mapsto> None) \<rparr>)
           | (Inr response, s1) \<Rightarrow>
               if ft_status response = 200 then
                 (let robots = parseRobotsTxt (ft_body response) in
                  (Some robots, s1\<lparr> robotsByHost := (robotsByHost s1)(host \<mapsto> Some robots),
                                    rawByHost := (rawByHost s1)(host \<mapsto> ft_body response) \<rparr>))
               else (None, s1\<lparr> robotsByHost := (robotsByHost s1)(host \<mapsto> None) \<rparr>)))"

definition loaded :: "string \<Rightarrow> crawl_run \<Rightarrow> RobotsTxt option" where
  "loaded host s = (case robotsByHost s host of Some r \<Rightarrow> r | None \<Rightarrow> None)"

definition robots_allow :: "crawl_ctx \<Rightarrow> url \<Rightarrow> crawl_run \<Rightarrow> bool \<times> crawl_run" where
  "robots_allow cx u s =
     (case forHost cx (hostKey u) s of
        (None, s1) \<Rightarrow> (True, s1)
      | (Some robots, s1) \<Rightarrow> (isPathAllowed robots (op_userAgent (cx_options cx)) (pathname u @ search u), s1))"

definition isBlockedByRobots :: "crawl_ctx \<Rightarrow> QueueEntry \<Rightarrow> crawl_run \<Rightarrow> bool \<times> crawl_run" where
  "isBlockedByRobots cx entry s = (case robots_allow cx (q_parsed entry) s of (ok, s1) \<Rightarrow> (\<not> ok, s1))"

definition isSubresourceAllowed :: "crawl_ctx \<Rightarrow> url \<Rightarrow> crawl_run \<Rightarrow> bool \<times> crawl_run" where
  "isSubresourceAllowed cx u s = (if overrideRobots (cx_scope cx) then (True, s) else robots_allow cx u s)"

section \<open>Sitemaps\<close>

definition isSitemapInScope :: "crawl_ctx \<Rightarrow> string \<Rightarrow> bool" where
  "isSitemapInScope cx target =
     (case cw_parse (cx_world cx) target of None \<Rightarrow> False | Some u \<Rightarrow> host_in_scope cx u)"

definition fetchBody :: "crawl_ctx \<Rightarrow> string \<Rightarrow> crawl_run \<Rightarrow> string option \<times> crawl_run" where
  "fetchBody cx target s =
     (case fetchThrottled cx (SitemapRequest target) target s of
        (Inl failure, s1) \<Rightarrow> (None, s1)
      | (Inr response, s1) \<Rightarrow> (if ft_status response = 200 then Some (ft_body response) else None, s1))"

fun fetch_children :: "crawl_ctx \<Rightarrow> nat \<Rightarrow> string list \<Rightarrow> string list \<Rightarrow> crawl_run \<Rightarrow> string list \<times> crawl_run" where
  "fetch_children cx maxUrls [] collected s = (collected, s)"
| "fetch_children cx maxUrls (child # children) collected s =
     (if maxUrls \<le> length collected then (collected, s)
      else if \<not> isSitemapInScope cx child then fetch_children cx maxUrls children collected s
      else
        (case fetchBody cx child s of
           (None, s1) \<Rightarrow> fetch_children cx maxUrls children collected s1
         | (Some body, s1) \<Rightarrow>
             if SITEMAP_INDEX_PATTERN body then fetch_children cx maxUrls children collected s1
             else fetch_children cx maxUrls children (collected @ take (maxUrls - length collected) (extractLocs body)) s1))"

definition fetchSitemapUrls :: "crawl_ctx \<Rightarrow> string \<Rightarrow> nat \<Rightarrow> crawl_run \<Rightarrow> string list \<times> crawl_run" where
  "fetchSitemapUrls cx sitemapUrl maxUrls s =
     (if \<not> isSitemapInScope cx sitemapUrl then ([], s)
      else
        (case fetchBody cx sitemapUrl s of
           (None, s1) \<Rightarrow> ([], s1)
         | (Some body, s1) \<Rightarrow>
             if \<not> SITEMAP_INDEX_PATTERN body then (take maxUrls (extractLocs body), s1)
             else fetch_children cx maxUrls (extractLocs body) [] s1))"

fun collect_sitemaps :: "crawl_ctx \<Rightarrow> string list \<Rightarrow> string list \<Rightarrow> crawl_run \<Rightarrow> string list \<times> crawl_run" where
  "collect_sitemaps cx [] collected s = (collected, s)"
| "collect_sitemaps cx (candidate # candidates) collected s =
     (if SITEMAP_MAX_URLS \<le> length collected then (collected, s)
      else
        (case fetchSitemapUrls cx candidate (SITEMAP_MAX_URLS - length collected) s of
           (found, s1) \<Rightarrow> collect_sitemaps cx candidates (collected @ found) s1))"

definition loadSitemaps :: "crawl_ctx \<Rightarrow> crawl_run \<Rightarrow> crawl_run" where
  "loadSitemaps cx s =
     (let declared = filter (isSitemapInScope cx)
            (case loaded (hostKey (cx_origin cx)) s of None \<Rightarrow> [] | Some robots \<Rightarrow> sitemaps robots);
          candidates = (if declared \<noteq> [] then declared else [hostKey (cx_origin cx) @ ''/sitemap.xml''])
      in case collect_sitemaps cx candidates [] s of (collected, s1) \<Rightarrow> s1\<lparr> sitemapUrls := collected \<rparr>)"

section \<open>The queue\<close>

fun add_variant :: "string \<Rightarrow> string \<Rightarrow> (string \<times> string list) list \<Rightarrow> (string \<times> string list) list" where
  "add_variant n raw [] = [(n, [raw])]"
| "add_variant n raw ((m, vs) # rest) =
     (if m = n then (m, if raw \<in> set vs then vs else vs @ [raw]) # rest else (m, vs) # add_variant n raw rest)"

definition recordVariant :: "string \<Rightarrow> string \<Rightarrow> crawl_run \<Rightarrow> crawl_run" where
  "recordVariant n discoveredUrl s =
     s\<lparr> variantsByNormalized := add_variant n (stripFragment discoveredUrl) (variantsByNormalized s) \<rparr>"

text \<open>The address as the crawl keys it, or \<open>None\<close> for one that is not of the site.\<close>

definition candidate :: "crawl_ctx \<Rightarrow> string \<Rightarrow> (string \<times> string \<times> url) option" where
  "candidate cx rawUrl =
     (case cw_parse (cx_world cx) rawUrl of
        None \<Rightarrow> None
      | Some discovered \<Rightarrow>
          (case cw_parse (cx_world cx) (stripFragment (href discovered)) of
             None \<Rightarrow> None
           | Some bare \<Rightarrow>
               let parsed = applyQueryPolicy bare (sc_queryPolicy (cx_scope cx)) in
               (case normalized_of cx (href parsed) of
                  None \<Rightarrow> None
                | Some n \<Rightarrow>
                    if \<not> host_in_scope cx parsed then None
                    else if \<not> path_in_scope cx parsed then None
                    else Some (href discovered, n, parsed))))"

definition too_deep :: "crawl_ctx \<Rightarrow> nat \<Rightarrow> bool" where
  "too_deep cx depth \<longleftrightarrow> (case sc_maxDepth (cx_scope cx) of None \<Rightarrow> False | Some d \<Rightarrow> d < of_nat depth)"

definition enqueue :: "crawl_ctx \<Rightarrow> string \<Rightarrow> nat \<Rightarrow> crawl_run \<Rightarrow> crawl_run" where
  "enqueue cx rawUrl depth s =
     (case candidate cx rawUrl of
        None \<Rightarrow> s
      | Some (discovered, n, parsed) \<Rightarrow>
          let s1 = recordVariant n discovered s in
          if n \<in> seen s1 then s1
          else
            let s2 = s1\<lparr> seen := insert n (seen s1) \<rparr> in
            if too_deep cx depth then s2
            else s2\<lparr> queue := queue s2 @ [\<lparr> q_rawUrl = href parsed, q_normalized = n, q_parsed = parsed, q_depth = depth \<rparr>] \<rparr>)"

definition enqueue_all :: "crawl_ctx \<Rightarrow> nat \<Rightarrow> string list \<Rightarrow> crawl_run \<Rightarrow> crawl_run" where
  "enqueue_all cx depth links s = fold (\<lambda>link. enqueue cx link depth) links s"

definition reject_seed :: "string \<Rightarrow> string \<Rightarrow> crawl_run \<Rightarrow> crawl_run" where
  "reject_seed seed reason s = s\<lparr> rejectedSeeds := rejectedSeeds s @ [\<lparr> err_url = seed, err_reason = reason \<rparr>] \<rparr>"

definition enqueue_seed :: "crawl_ctx \<Rightarrow> string \<Rightarrow> crawl_run \<Rightarrow> crawl_run" where
  "enqueue_seed cx seed s =
     (case cw_parse (cx_world cx) seed of
        None \<Rightarrow> reject_seed seed ''seed URL is not an absolute http(s) URL'' s
      | Some parsed \<Rightarrow>
          if protocol parsed \<noteq> ''http:'' \<and> protocol parsed \<noteq> ''https:'' then
            reject_seed seed (''unsupported scheme '' @ [CHR 34] @ protocol parsed @ [CHR 34]) s
          else if \<not> host_in_scope cx parsed then
            reject_seed seed (''host '' @ [CHR 34] @ hostname parsed @ [CHR 34] @ '' is outside the scanned site'') s
          else if \<not> path_in_scope cx parsed then
            reject_seed seed ''path is excluded by the scan's include/exclude patterns'' s
          else enqueue cx seed 0 s)"

definition enqueueSeeds :: "crawl_ctx \<Rightarrow> crawl_run \<Rightarrow> crawl_run" where
  "enqueueSeeds cx s = fold (enqueue_seed cx) (case sc_seedUrls (cx_scope cx) of None \<Rightarrow> [] | Some seeds \<Rightarrow> seeds) s"

section \<open>The links of a page (link-extractor.ts)\<close>

definition url_fragment :: "url \<Rightarrow> string" where
  "url_fragment u = drop 1 (dropWhile (\<lambda>c. c \<noteq> CHR ''#'') (href u))"

definition is_hex_digit :: "char \<Rightarrow> bool" where
  "is_hex_digit c \<longleftrightarrow> c \<in> set ''0123456789abcdefABCDEF''"

definition isCloudflareEmailObfuscationUrl :: "url \<Rightarrow> bool" where
  "isCloudflareEmailObfuscationUrl u =
     (let encodedEmail = url_fragment u in
      pathname u = ''/cdn-cgi/l/email-protection'' \<and> 0 < length encodedEmail \<and> length encodedEmail mod 2 = 0
        \<and> list_all is_hex_digit encodedEmail)"

definition is_http :: "url \<Rightarrow> bool" where
  "is_http u \<longleftrightarrow> protocol u = ''http:'' \<or> protocol u = ''https:''"

definition resolve_link :: "crawl_ctx \<Rightarrow> string \<Rightarrow> string \<Rightarrow> string option" where
  "resolve_link cx base link =
     (case cw_resolve (cx_world cx) link base of
        None \<Rightarrow> None
      | Some resolved \<Rightarrow>
          if \<not> is_http resolved then None
          else if isCloudflareEmailObfuscationUrl resolved then None
          else Some (href resolved))"

definition extractLinks :: "crawl_ctx \<Rightarrow> string \<Rightarrow> string \<Rightarrow> string list" where
  "extractLinks cx body base =
     List.map_filter (\<lambda>anchor. case anchor ''href'' of
         None \<Rightarrow> None
       | Some link \<Rightarrow> if js_trim link = [] then None else resolve_link cx base (js_trim link))
       (cw_elements (cx_world cx) body ''a'')"

end
