(* ===== verification/Resources.thy ===== *)
theory Resources
  imports CrawlRun Contracts
begin

text \<open>
  The check of referenced media: \<open>packages/crawler/src/resources.ts\<close>. Candidates are collected from the pages that were read,
  and each is asked for with HEAD and, where that says nothing, with a small GET.
\<close>

definition MEDIA_SELECTOR :: string where "MEDIA_SELECTOR = ''img[src], source[src], video[src], audio[src]''"

definition RENDER_RESOURCE_SELECTOR :: string where
  "RENDER_RESOURCE_SELECTOR = ''link[rel~=stylesheet][href], script[src], link[rel=preload][as=font][href]''"

record MediaCandidate =
  mc_url :: url
  mc_normalizedUrl :: string
  mc_referencedBy :: string

definition isAnswered :: "ResourceSnapshot \<Rightarrow> bool" where
  "isAnswered r \<longleftrightarrow> rc_unverifiedReason r = None \<or> rc_unverifiedReason r = Some RobotsDisallowed"

definition unverified :: "MediaCandidate \<Rightarrow> ResourceUnverifiedReason \<Rightarrow> ResourceSnapshot" where
  "unverified c reason =
     \<lparr> rc_requestedUrl = href (mc_url c), rc_normalizedUrl = mc_normalizedUrl c, rc_finalUrl = href (mc_url c), rc_status = 0,
       rc_contentType = None, rc_method = None, rc_timingMs = 0, rc_unverifiedReason = Some reason, rc_fetchError = None,
       rc_referencedBy = mc_referencedBy c \<rparr>"

section \<open>Candidates\<close>

definition resolve_media :: "crawl_ctx \<Rightarrow> string \<Rightarrow> string \<Rightarrow> url option" where
  "resolve_media cx base raw =
     (if raw = [] then None
      else case cw_resolve (cx_world cx) raw base of
        None \<Rightarrow> None
      | Some resolved \<Rightarrow> if is_http resolved then Some resolved else None)"

definition media_source :: "(string \<Rightarrow> string option) \<Rightarrow> string" where
  "media_source element =
     (case element ''src'' of
        Some src \<Rightarrow> js_trim src
      | None \<Rightarrow> (case element ''href'' of Some target \<Rightarrow> js_trim target | None \<Rightarrow> []))"

text \<open>The candidate an element of a page stands for, before the look at what is known already.\<close>

definition element_candidate :: "crawl_ctx \<Rightarrow> PageSnapshot \<Rightarrow> (string \<Rightarrow> string option) \<Rightarrow> MediaCandidate option" where
  "element_candidate cx page element =
     (case resolve_media cx (finalUrl page) (media_source element) of
        None \<Rightarrow> None
      | Some u \<Rightarrow>
          if \<not> host_in_scope cx u then None
          else (case normalized_of cx (href u) of
                  None \<Rightarrow> None
                | Some n \<Rightarrow> Some \<lparr> mc_url = u, mc_normalizedUrl = n, mc_referencedBy = finalUrl page \<rparr>))"

definition page_elements :: "crawl_ctx \<Rightarrow> string \<Rightarrow> PageSnapshot \<Rightarrow> MediaCandidate list" where
  "page_elements cx selector page =
     (case html page of
        None \<Rightarrow> []
      | Some body \<Rightarrow>
          if fetchError page \<noteq> None then []
          else if pg_status page < 200 \<or> 300 \<le> pg_status page then []
          else List.map_filter (element_candidate cx page) (cw_elements (cx_world cx) body selector))"

definition collectCandidates :: "crawl_ctx \<Rightarrow> PageSnapshot list \<Rightarrow> string \<Rightarrow> MediaCandidate list" where
  "collectCandidates cx ps selector =
     first_by mc_normalizedUrl (set (map normalizedUrl ps)) (concat (map (page_elements cx selector) ps))"

section \<open>Probes\<close>

datatype probe_attempt = Response nat string "string option" nat | Failed string

definition attempt :: "crawl_ctx \<Rightarrow> probe_method \<Rightarrow> string \<Rightarrow> crawl_run \<Rightarrow> probe_attempt \<times> crawl_run" where
  "attempt cx method target s =
     (case request cx (ProbeRequest method target) target s of
        (Inr response, s1) \<Rightarrow>
          (Response (ft_status response) (ft_finalUrl response) (map_of (ft_headers response) ''content-type'') (ft_timingMs response), s1)
      | (Inl (SafeFetchFailure name message), s1) \<Rightarrow> (Failed (name @ '': '' @ message), s1)
      | (Inl (OtherFailure message), s1) \<Rightarrow> (Failed message, s1))"

definition usableStatus :: "nat \<Rightarrow> bool" where
  "usableStatus code \<longleftrightarrow> 0 < code \<and> code \<noteq> 405 \<and> code \<noteq> 501"

definition snapshotOf :: "MediaCandidate \<Rightarrow> probe_method \<Rightarrow> nat \<Rightarrow> string \<Rightarrow> string option \<Rightarrow> nat \<Rightarrow> ResourceSnapshot" where
  "snapshotOf c method code final ctype time =
     \<lparr> rc_requestedUrl = href (mc_url c), rc_normalizedUrl = mc_normalizedUrl c, rc_finalUrl = final, rc_status = code,
       rc_contentType = ctype, rc_method = Some method, rc_timingMs = time, rc_unverifiedReason = None, rc_fetchError = None,
       rc_referencedBy = mc_referencedBy c \<rparr>"

definition probe_get :: "crawl_ctx \<Rightarrow> MediaCandidate \<Rightarrow> nat option \<Rightarrow> crawl_run \<Rightarrow> ResourceSnapshot \<times> crawl_run" where
  "probe_get cx c headStatus s =
     (case shouldStop cx s of
        (stopped, s1) \<Rightarrow>
          if stopped then (unverified c ProbeStopped, s1)
          else
            (case attempt cx GET (href (mc_url c)) s1 of
               (Response code final ctype time, s2) \<Rightarrow> (snapshotOf c GET code final ctype time, s2)
             | (Failed message, s2) \<Rightarrow>
                 ((unverified c RequestFailed)\<lparr> rc_fetchError := Some message,
                     rc_status := (case headStatus of None \<Rightarrow> 0 | Some code \<Rightarrow> code) \<rparr>, s2)))"

definition probeOne :: "crawl_ctx \<Rightarrow> MediaCandidate \<Rightarrow> crawl_run \<Rightarrow> ResourceSnapshot \<times> crawl_run" where
  "probeOne cx c s =
     (case attempt cx HEAD (href (mc_url c)) s of
        (Response code final ctype time, s1) \<Rightarrow>
          if usableStatus code then (snapshotOf c HEAD code final ctype time, s1) else probe_get cx c (Some code) s1
      | (Failed message, s1) \<Rightarrow> probe_get cx c None s1)"

definition answered :: "ResourceSnapshot list \<Rightarrow> string \<Rightarrow> ResourceSnapshot option" where
  "answered known = map_of (rev (map (\<lambda>r. (rc_normalizedUrl r, r)) (filter isAnswered known)))"

fun probe_candidates :: "crawl_ctx \<Rightarrow> probe_limits \<Rightarrow> (string \<Rightarrow> ResourceSnapshot option) \<Rightarrow> MediaCandidate list \<Rightarrow> nat
    \<Rightarrow> ResourceSnapshot list \<Rightarrow> crawl_run \<Rightarrow> ResourceSnapshot list \<times> crawl_run" where
  "probe_candidates cx limits known [] probes results s = (results, s)"
| "probe_candidates cx limits known (c # cs) probes results s =
     (if maxRecorded limits \<le> length results then (results, s)
      else case known (mc_normalizedUrl c) of
        Some r \<Rightarrow> probe_candidates cx limits known cs probes (results @ [r]) s
      | None \<Rightarrow>
          (case shouldStop cx s of
             (stopped, s1) \<Rightarrow>
               if stopped then probe_candidates cx limits known cs probes (results @ [unverified c ProbeStopped]) s1
               else if maxProbes limits \<le> probes then
                 probe_candidates cx limits known cs probes (results @ [unverified c BudgetExhausted]) s1
               else
                 (case isSubresourceAllowed cx (mc_url c) s1 of
                    (ok, s2) \<Rightarrow>
                      if \<not> ok then probe_candidates cx limits known cs probes (results @ [unverified c RobotsDisallowed]) s2
                      else
                        (case probeOne cx c s2 of
                           (r, s3) \<Rightarrow> probe_candidates cx limits known cs (probes + 1) (results @ [r]) s3))))"

definition probeResources :: "crawl_ctx \<Rightarrow> PageSnapshot list \<Rightarrow> ResourceSnapshot list \<Rightarrow> string \<Rightarrow> probe_limits
    \<Rightarrow> crawl_run \<Rightarrow> ResourceSnapshot list \<times> crawl_run" where
  "probeResources cx ps known selector limits s =
     probe_candidates cx limits (answered known) (collectCandidates cx ps selector) 0 [] s"

text \<open>A \<open>Map\<close> keyed by the address: a later entry takes the place of an earlier one.\<close>

fun put_resource :: "ResourceSnapshot \<Rightarrow> ResourceSnapshot list \<Rightarrow> ResourceSnapshot list" where
  "put_resource r [] = [r]"
| "put_resource r (x # xs) =
     (if rc_normalizedUrl x = rc_normalizedUrl r then r # xs else x # put_resource r xs)"

definition probeMediaResources :: "crawl_ctx \<Rightarrow> PageSnapshot list \<Rightarrow> ResourceSnapshot list \<Rightarrow> crawl_run
    \<Rightarrow> ResourceSnapshot list \<times> crawl_run" where
  "probeMediaResources cx ps known s =
     (case probeResources cx ps known MEDIA_SELECTOR MEDIA_PROBE_LIMITS s of
        (media, s1) \<Rightarrow>
          (case probeResources cx ps (known @ media) RENDER_RESOURCE_SELECTOR RENDER_RESOURCE_PROBE_LIMITS s1 of
             (render, s2) \<Rightarrow> (fold put_resource (media @ render) [], s2)))"

definition checkReferencedMedia :: "crawl_ctx \<Rightarrow> crawl_run \<Rightarrow> crawl_run" where
  "checkReferencedMedia cx s =
     (if \<not> op_probeMedia (cx_options cx) \<or> stoppedEarly s then s
      else case shouldStop cx s of
        (stopped, s1) \<Rightarrow>
          if stopped then s1
          else
            (case probeMediaResources cx (pages s1)
                (case op_restored (cx_options cx) of
                   None \<Rightarrow> []
                 | Some restored \<Rightarrow> (case rs_resources restored of None \<Rightarrow> [] | Some known \<Rightarrow> known)) s1 of
               (found, s2) \<Rightarrow> s2\<lparr> resources := found \<rparr>))"

end
