(* ===== verification/Crawl.thy ===== *)
theory Crawl
  imports Resources
begin

text \<open>
  The crawl of a site, page by page: \<open>packages/crawler/src/crawler.ts\<close>, from the restored attempt to the result. The loop
  takes an entry of the queue as long as no stop signal comes; it ends because every entry is one more page within the
  page limit, or makes the queue one shorter.
\<close>

section \<open>One page\<close>

definition markFinalUrlSeen :: "crawl_ctx \<Rightarrow> string \<Rightarrow> crawl_run \<Rightarrow> crawl_run" where
  "markFinalUrlSeen cx final s =
     (case normalized_of cx final of None \<Rightarrow> s | Some n \<Rightarrow> s\<lparr> seen := insert n (seen s) \<rparr>)"

definition mayUseAsLinkSource :: "crawl_ctx \<Rightarrow> string \<Rightarrow> bool" where
  "mayUseAsLinkSource cx final =
     (case cw_parse (cx_world cx) final of None \<Rightarrow> False | Some u \<Rightarrow> host_in_scope cx u)"

definition CONSECUTIVE_5XX_HOST_STOP :: nat where "CONSECUTIVE_5XX_HOST_STOP = 5"

definition host_stopped_reason :: "string \<Rightarrow> string" where
  "host_stopped_reason host =
     ''host '' @ [CHR 34] @ host @ [CHR 34] @ '' stopped after '' @ nat_to_string CONSECUTIVE_5XX_HOST_STOP
       @ '' consecutive 5xx responses (D-030)''"

definition trackHostHealth :: "string \<Rightarrow> QueueEntry \<Rightarrow> PageSnapshot \<Rightarrow> crawl_run \<Rightarrow> crawl_run" where
  "trackHostHealth host entry snapshot s =
     (if 500 \<le> pg_status snapshot then
        (let streak = consecutive5xx s host + 1;
             s1 = s\<lparr> consecutive5xx := (consecutive5xx s)(host := streak) \<rparr>
         in if CONSECUTIVE_5XX_HOST_STOP \<le> streak then
              push_error (q_normalized entry) (host_stopped_reason host) (s1\<lparr> stoppedHosts := insert host (stoppedHosts s1) \<rparr>)
            else s1)
      else if 0 < pg_status snapshot then s\<lparr> consecutive5xx := (consecutive5xx s)(host := 0) \<rparr>
      else s)"

definition fetchPage :: "crawl_ctx \<Rightarrow> QueueEntry \<Rightarrow> crawl_run \<Rightarrow> PageSnapshot \<times> crawl_run" where
  "fetchPage cx entry s =
     (case request cx (PageRequest entry) (q_rawUrl entry) s of
        (Inl failure, s1) \<Rightarrow>
          (\<lparr> requestedUrl = q_rawUrl entry, normalizedUrl = q_normalized entry, pg_depth = q_depth entry, finalUrl = q_rawUrl entry,
             pg_status = 0, pg_headers = [], redirectChain = [], html = None, contentType = None, timingMs = 0,
             truncated = False, fetchError = Some (failure_message failure), pg_rendering = None \<rparr>, s1)
      | (Inr response, s1) \<Rightarrow>
          (let ctype = map_of (ft_headers response) ''content-type'';
               isHtml = (case ctype of None \<Rightarrow> False | Some t \<Rightarrow> js_includes (js_lower t) ''text/html'')
           in (\<lparr> requestedUrl = q_rawUrl entry, normalizedUrl = q_normalized entry, pg_depth = q_depth entry,
                 finalUrl = ft_finalUrl response, pg_status = ft_status response, pg_headers = ft_headers response,
                 redirectChain = ft_redirectChain response, html = (if isHtml then Some (ft_body response) else None),
                 contentType = ctype, timingMs = ft_timingMs response, truncated = ft_truncated response,
                 fetchError = None, pg_rendering = None \<rparr>, s1)))"

text \<open>The renders: the browser's questions go to the same robots cache and the same stop signals.\<close>

primrec run_render :: "crawl_ctx \<Rightarrow> render_dialogue \<Rightarrow> crawl_run \<Rightarrow> render_outcome \<times> crawl_run" where
  "run_render cx (Rendering outcome) s = (outcome, s)"
| "run_render cx (AskAllowed u k) s = (case isSubresourceAllowed cx u s of (ok, s1) \<Rightarrow> run_render cx (k ok) s1)"
| "run_render cx (AskStop k) s = (case shouldStop cx s of (stopped, s1) \<Rightarrow> run_render cx (k stopped) s1)"

definition withRendering :: "crawl_ctx \<Rightarrow> PageSnapshot \<Rightarrow> crawl_run \<Rightarrow> PageSnapshot \<times> crawl_run" where
  "withRendering cx page s =
     (if sc_renderJs (cx_scope cx) \<noteq> Some True then (page, s)
      else case op_renderRuntime (cx_options cx) of
        None \<Rightarrow> (page\<lparr> pg_rendering := Some (PageRenderUnavailable RuntimeNotInstalled
                  ''JS rendering was requested but no browser runtime was supplied to the crawl'') \<rparr>, s)
      | Some (RuntimeMissing reason detail) \<Rightarrow> (page\<lparr> pg_rendering := Some (PageRenderUnavailable reason detail) \<rparr>, s)
      | Some (RuntimeReady engine version) \<Rightarrow>
          if fetchError page \<noteq> None \<or> html page = None then (page, s)
          else
            (case run_render cx (cw_render (cx_world cx) page) s of
               (RenderFailed reason detail, s1) \<Rightarrow>
                 (page\<lparr> pg_rendering := Some (PageRenderUnavailable reason detail) \<rparr>,
                  s1\<lparr> failedRenderPages := failedRenderPages s1 + 1 \<rparr>)
             | (RenderDone rendered n bytes refused time, s1) \<Rightarrow>
                 (page\<lparr> html := Some rendered, pg_rendering := Some (PageRendered n bytes refused time) \<rparr>,
                  s1\<lparr> renderedPages := renderedPages s1 + 1 \<rparr>)))"

definition enqueue_links :: "crawl_ctx \<Rightarrow> PageSnapshot \<Rightarrow> nat \<Rightarrow> crawl_run \<Rightarrow> crawl_run" where
  "enqueue_links cx page depth s =
     (case html page of
        None \<Rightarrow> s
      | Some body \<Rightarrow>
          if mayUseAsLinkSource cx (finalUrl page)
          then enqueue_all cx depth (extractLinks cx body (finalUrl page)) s
          else s)"

definition read_page :: "crawl_ctx \<Rightarrow> QueueEntry \<Rightarrow> crawl_run \<Rightarrow> crawl_run" where
  "read_page cx entry s =
     (case fetchPage cx entry s of
        (fetched_page, s1) \<Rightarrow>
          if fetchError fetched_page \<noteq> None \<and> isCancelled cx s1 then s1
          else
            (case withRendering cx fetched_page s1 of
               (snapshot, s2) \<Rightarrow>
                 let s3 = trackHostHealth (hostname (q_parsed entry)) entry snapshot (s2\<lparr> pages := pages s2 @ [snapshot] \<rparr>)
                 in (case fetchError snapshot of
                       Some message \<Rightarrow> push_error (q_normalized entry) message s3
                     | None \<Rightarrow> enqueue_links cx snapshot (q_depth entry + 1) (markFinalUrlSeen cx (finalUrl snapshot) s3))))"

definition processEntry :: "crawl_ctx \<Rightarrow> QueueEntry \<Rightarrow> crawl_run \<Rightarrow> crawl_run" where
  "processEntry cx entry s =
     (case isBlockedByRobots cx entry s of
        (refused, s1) \<Rightarrow>
          if refused \<and> \<not> overrideRobots (cx_scope cx) then s1\<lparr> blockedByRobots := blockedByRobots s1 @ [q_normalized entry] \<rparr>
          else if sc_maxPages (cx_scope cx) \<le> of_nat (length (pages s1)) then
            s1\<lparr> skippedOverLimit := skippedOverLimit s1 @ [q_normalized entry] \<rparr>
          else if hostname (q_parsed entry) \<in> stoppedHosts s1 then
            push_error (q_normalized entry) (''skipped: '' @ host_stopped_reason (hostname (q_parsed entry))) s1
          else read_page cx entry s1)"

section \<open>The run\<close>

definition restore_page :: "crawl_ctx \<Rightarrow> PageSnapshot \<Rightarrow> crawl_run \<Rightarrow> crawl_run" where
  "restore_page cx page s =
     (let s1 = markFinalUrlSeen cx (finalUrl page)
            (s\<lparr> pages := pages s @ [page], seen := insert (normalizedUrl page) (seen s) \<rparr>)
      in case pg_rendering page of
           Some (PageRendered n bytes refused time) \<Rightarrow> s1\<lparr> renderedPages := renderedPages s1 + 1 \<rparr>
         | Some (PageRenderUnavailable reason detail) \<Rightarrow> s1\<lparr> failedRenderPages := failedRenderPages s1 + 1 \<rparr>
         | None \<Rightarrow> s1)"

definition restorePreviousAttempt :: "crawl_ctx \<Rightarrow> crawl_run \<Rightarrow> crawl_run" where
  "restorePreviousAttempt cx s =
     (case op_restored (cx_options cx) of
        None \<Rightarrow> s
      | Some restored \<Rightarrow>
          let s1 = fold (restore_page cx) (rs_pages restored) s;
              known = rs_coverage restored;
              s2 = s1\<lparr> resources := (case rs_resources restored of None \<Rightarrow> [] | Some rs \<Rightarrow> rs),
                       skippedOverLimit := skippedOverLimit s1 @ rv_skippedOverLimit known,
                       blockedByRobots := blockedByRobots s1 @ rv_blockedByRobots known,
                       errors := errors s1 @ rv_errors known,
                       rejectedSeeds := rejectedSeeds s1 @ rv_rejectedSeeds known \<rparr>
          in fold (\<lambda>(n, variants). fold (recordVariant n) variants) (rv_urlVariants known) s2)"

definition enqueueLinksOfRestoredPages :: "crawl_ctx \<Rightarrow> crawl_run \<Rightarrow> crawl_run" where
  "enqueueLinksOfRestoredPages cx s =
     fold (\<lambda>page. enqueue_links cx page (pg_depth page + 1))
       (case op_restored (cx_options cx) of None \<Rightarrow> [] | Some restored \<Rightarrow> rs_pages restored) s"

text \<open>What a step does to the queue and the pages, which is what ends the loop.\<close>

lemma enqueue_pages [simp]: "pages (enqueue cx rawUrl depth s) = pages s"
  by (auto simp: enqueue_def recordVariant_def Let_def split: option.split)

lemma enqueue_all_pages [simp]: "pages (enqueue_all cx depth links s) = pages s"
  unfolding enqueue_all_def by (induction links arbitrary: s) auto

lemma enqueue_links_pages [simp]: "pages (enqueue_links cx page depth s) = pages s"
  by (simp add: enqueue_links_def split: option.split)

lemma fetchThrottled_frame:
  "fetchThrottled cx r target s = (reply, s') \<Longrightarrow> pages s' = pages s \<and> queue s' = queue s"
  by (auto simp: fetchThrottled_def request_def split: option.splits)

lemma forHost_frame: "forHost cx host s = (robots, s') \<Longrightarrow> pages s' = pages s \<and> queue s' = queue s"
  by (auto simp: forHost_def push_error_def Let_def dest: fetchThrottled_frame
      split: option.splits prod.splits sum.splits if_splits)

lemma robots_allow_frame: "robots_allow cx u s = (ok, s') \<Longrightarrow> pages s' = pages s \<and> queue s' = queue s"
  by (auto simp: robots_allow_def dest: forHost_frame split: prod.splits option.splits)

lemma isSubresourceAllowed_frame: "isSubresourceAllowed cx u s = (ok, s') \<Longrightarrow> pages s' = pages s \<and> queue s' = queue s"
  by (auto simp: isSubresourceAllowed_def dest: robots_allow_frame split: if_splits)

lemma isBlockedByRobots_frame: "isBlockedByRobots cx entry s = (refused, s') \<Longrightarrow> pages s' = pages s \<and> queue s' = queue s"
  by (auto simp: isBlockedByRobots_def dest: robots_allow_frame split: prod.splits)

lemma run_render_frame: "run_render cx d s = (outcome, s') \<Longrightarrow> pages s' = pages s \<and> queue s' = queue s"
proof (induction d arbitrary: s)
  case (AskAllowed u k)
  obtain ok s1 where a: "isSubresourceAllowed cx u s = (ok, s1)" by fastforce
  with AskAllowed.prems have "run_render cx (k ok) s1 = (outcome, s')" by simp
  from AskAllowed.IH [OF rangeI this] isSubresourceAllowed_frame [OF a] show ?case by simp
next
  case (AskStop k)
  obtain stopped s1 where a: "shouldStop cx s = (stopped, s1)" by fastforce
  with AskStop.prems have "run_render cx (k stopped) s1 = (outcome, s')" by simp
  from AskStop.IH [OF rangeI this] a show ?case by (auto simp: shouldStop_def)
qed simp

lemma markFinalUrlSeen_simps [simp]: "pages (markFinalUrlSeen cx u s) = pages s" "queue (markFinalUrlSeen cx u s) = queue s"
  by (simp_all add: markFinalUrlSeen_def split: option.split)

lemma push_error_simps [simp]: "pages (push_error a b s) = pages s" "queue (push_error a b s) = queue s"
  by (simp_all add: push_error_def)

lemma trackHostHealth_simps [simp]:
  "pages (trackHostHealth host entry snapshot s) = pages s" "queue (trackHostHealth host entry snapshot s) = queue s"
  by (simp_all add: trackHostHealth_def Let_def)

lemma fetchPage_frame: "fetchPage cx entry s = (p, s') \<Longrightarrow> pages s' = pages s \<and> queue s' = queue s"
  by (auto simp: fetchPage_def request_def Let_def split: sum.splits)

lemma withRendering_frame: "withRendering cx p s = (p', s') \<Longrightarrow> pages s' = pages s \<and> queue s' = queue s"
  by (auto simp: withRendering_def dest: run_render_frame
      split: if_splits option.splits RenderRuntimeResult.splits render_outcome.splits prod.splits)

text \<open>An entry is one more page, or the queue is one shorter.\<close>

lemma processEntry_progress:
  "(length (pages (processEntry cx entry s)) = length (pages s) + 1 \<and> of_nat (length (pages s)) < sc_maxPages (cx_scope cx))
   \<or> (pages (processEntry cx entry s) = pages s \<and> queue (processEntry cx entry s) = queue s)"
proof -
  obtain refused s1 where b: "isBlockedByRobots cx entry s = (refused, s1)" by fastforce
  note f1 = isBlockedByRobots_frame [OF b]
  obtain p s2 where p: "fetchPage cx entry s1 = (p, s2)" by fastforce
  note f2 = fetchPage_frame [OF p]
  obtain p' s3 where r: "withRendering cx p s2 = (p', s3)" by fastforce
  note f3 = withRendering_frame [OF r]
  show ?thesis using f1 f2 f3
    by (auto simp: processEntry_def b read_page_def p r Let_def not_le split: option.split)
qed

function crawl_loop :: "crawl_ctx \<Rightarrow> crawl_run \<Rightarrow> crawl_run" where
  "crawl_loop cx s =
     (case shouldStop cx s of
        (stopped, s1) \<Rightarrow>
          if stopped then s1\<lparr> stoppedEarly := True \<rparr>
          else (case queue s1 of
                  [] \<Rightarrow> s1
                | entry # rest \<Rightarrow> crawl_loop cx (processEntry cx entry (s1\<lparr> queue := rest \<rparr>))))"
  by pat_completeness auto

termination
proof (relation "measures [\<lambda>(cx, s). nat \<lceil>sc_maxPages (cx_scope cx)\<rceil> - length (pages s), \<lambda>(cx, s). length (queue s)]",
    goal_cases)
  case (2 cx s stopped s1 entry rest)
  let ?m = "sc_maxPages (cx_scope cx)"
  let ?s = "s1\<lparr> queue := rest \<rparr>"
  have s1: "pages s1 = pages s" "queue s1 = queue s" using 2 by (auto simp: shouldStop_def)
  from processEntry_progress [of cx entry ?s] show ?case
  proof
    assume a: "length (pages (processEntry cx entry ?s)) = length (pages ?s) + 1 \<and> of_nat (length (pages ?s)) < ?m"
    then have "int (length (pages s)) < \<lceil>?m\<rceil>" by (simp add: s1 less_ceiling_iff)
    then have "length (pages s) < nat \<lceil>?m\<rceil>" by linarith
    with a show ?thesis using diff_less_mono2 [OF lessI] by (simp add: s1)
  next
    assume "pages (processEntry cx entry ?s) = pages ?s \<and> queue (processEntry cx entry ?s) = queue ?s"
    with 2 s1 show ?thesis by simp
  qed
qed simp

declare crawl_loop.simps [simp del]

definition origin_href :: "crawl_ctx \<Rightarrow> string" where
  "origin_href cx = href (cx_origin cx)"

text \<open>Everything before the loop, when no stop signal came first.\<close>

definition prepare :: "crawl_ctx \<Rightarrow> crawl_run \<Rightarrow> crawl_run" where
  "prepare cx s =
     (let s1 = snd (forHost cx (hostKey (cx_origin cx)) s);
          s2 = (if isCancelled cx s1 then s1 else loadSitemaps cx s1);
          s3 = enqueueSeeds cx (enqueue cx (origin_href cx) 0 s2);
          s4 = fold (\<lambda>resumed. enqueue cx (cq_url resumed) (cq_depth resumed)) (op_resumeSeeds (cx_options cx)) s3
      in enqueueLinksOfRestoredPages cx (enqueue_all cx 1 (sitemapUrls s4) s4))"

definition execute :: "crawl_ctx \<Rightarrow> crawl_run" where
  "execute cx =
     (case shouldStop cx (restorePreviousAttempt cx new_run) of
        (stopped, s) \<Rightarrow> if stopped then s\<lparr> stoppedEarly := True \<rparr> else checkReferencedMedia cx (crawl_loop cx (prepare cx s)))"

section \<open>The result\<close>

definition buildUrlVariants :: "(string \<times> string list) list \<Rightarrow> (string \<times> string list) list" where
  "buildUrlVariants byNormalized =
     map (\<lambda>(n, vs). (n, sort_key (map code_unit) vs)) (filter (\<lambda>(n, vs). 1 < length vs) byNormalized)"

datatype CrawlRendering =
    RenderingNotRequested
  | RenderingDone string string nat nat nat "BlockedRequestReason list"
  | RenderingUnavailable RenderFailureReason string

fun reason_text :: "BlockedRequestReason \<Rightarrow> string" where
  "reason_text MethodNotAllowed = ''method-not-allowed''"
| "reason_text UrlNotAllowed = ''url-not-allowed''"
| "reason_text SsrfBlocked = ''ssrf-blocked''"
| "reason_text SubresourceDisallowed = ''robots-disallowed''"
| "reason_text ResourceKind = ''resource-kind''"
| "reason_text Budget = ''budget''"
| "reason_text NavigationBlocked = ''navigation-blocked''"
| "reason_text RedirectNotAllowed = ''redirect-not-allowed''"
| "reason_text WebsocketBlocked = ''websocket-blocked''"
| "reason_text StoppedRequest = ''stopped''"
| "reason_text FetchFailed = ''fetch-failed''"
| "reason_text EncodingNotDecodable = ''encoding-not-decodable''"

definition RENDER_COVERAGE_LIMIT_REASONS :: "BlockedRequestReason list" where
  "RENDER_COVERAGE_LIMIT_REASONS = [Budget, SubresourceDisallowed, SsrfBlocked]"

definition coverage_limits :: "PageSnapshot \<Rightarrow> BlockedRequestReason list" where
  "coverage_limits page =
     (case pg_rendering page of
        Some (PageRendered n bytes refused time) \<Rightarrow> filter (\<lambda>r. r \<in> set RENDER_COVERAGE_LIMIT_REASONS) (map bq_reason refused)
      | _ \<Rightarrow> [])"

definition incompleteRenders :: "PageSnapshot list \<Rightarrow> nat \<times> BlockedRequestReason list" where
  "incompleteRenders ps =
     (length (filter (\<lambda>page. coverage_limits page \<noteq> []) ps),
      sort_key (\<lambda>r. map code_unit (reason_text r)) (remdups (concat (map coverage_limits ps))))"

definition renderingSummary :: "crawl_ctx \<Rightarrow> crawl_run \<Rightarrow> CrawlRendering" where
  "renderingSummary cx s =
     (if sc_renderJs (cx_scope cx) \<noteq> Some True then RenderingNotRequested
      else case op_renderRuntime (cx_options cx) of
        None \<Rightarrow> RenderingUnavailable RuntimeNotInstalled
                  ''JS rendering was requested but no browser runtime was supplied to the crawl''
      | Some (RuntimeMissing reason detail) \<Rightarrow> RenderingUnavailable reason detail
      | Some (RuntimeReady engine version) \<Rightarrow>
          (case incompleteRenders (pages s) of
             (n, reasons) \<Rightarrow> RenderingDone engine version (renderedPages s) (failedRenderPages s) n reasons))"

record CrawlResult =
  cr_pages :: "PageSnapshot list"
  cr_skippedOverLimit :: "string list"
  cr_blockedByRobots :: "string list"
  cr_errors :: "CrawlError list"
  cr_urlVariants :: "(string \<times> string list) list"
  cr_robotsTxt :: "string option"
  cr_sitemapUrls :: "string list"
  cr_rejectedSeeds :: "CrawlError list"
  cr_rendering :: CrawlRendering
  cr_resources :: "ResourceSnapshot list"
  cr_pendingQueue :: "CrawlQueueEntry list"
  cr_stoppedEarly :: bool
  cr_scope :: CrawlScope

definition crawl_result :: "crawl_ctx \<Rightarrow> crawl_run \<Rightarrow> CrawlResult" where
  "crawl_result cx s =
     \<lparr> cr_pages = pages s, cr_skippedOverLimit = skippedOverLimit s, cr_blockedByRobots = blockedByRobots s, cr_errors = errors s,
       cr_urlVariants = buildUrlVariants (variantsByNormalized s), cr_robotsTxt = rawByHost s (hostKey (cx_origin cx)),
       cr_sitemapUrls = sitemapUrls s, cr_rejectedSeeds = rejectedSeeds s,
       cr_rendering = renderingSummary cx s, cr_resources = resources s,
       cr_pendingQueue = map (\<lambda>e. \<lparr> cq_url = q_rawUrl e, cq_depth = q_depth e \<rparr>) (queue s),
       cr_stoppedEarly = stoppedEarly s, cr_scope = cx_scope cx \<rparr>"

definition crawl :: "crawl_world \<Rightarrow> CrawlScope \<Rightarrow> CrawlOptions \<Rightarrow> scope_error + CrawlResult" where
  "crawl w sc options =
     (case validateScope (cw_parse w) sc of
        Inl e \<Rightarrow> Inl e
      | Inr origin \<Rightarrow>
          (let cx = \<lparr> cx_world = w, cx_scope = sc, cx_origin = origin, cx_options = options \<rparr>
           in Inr (crawl_result cx (execute cx))))"

end
