(* ===== verification/CrawlSteps.thy ===== *)
theory CrawlSteps
  imports Crawl
begin

text \<open>
  What the properties of the crawl share: the parts of its state they speak about, the steps in the background (robots.txt
  being read, time passing), the outcomes of one queue entry, and the contract of an invariant of a whole run.
\<close>

section \<open>The visible state\<close>

definition visible where
  "visible s = (pages s, queue s, seen s, skippedOverLimit s, blockedByRobots s, errors s, requests s, robotsByHost s,
     stoppedHosts s, consecutive5xx s, sitemapUrls s, stoppedEarly s)"

fun asked_key :: "crawl_request \<Rightarrow> string option" where
  "asked_key (PageRequest e) = Some (q_normalized e)"
| "asked_key _ = None"

definition asked :: "crawl_run \<Rightarrow> string list" where
  "asked s = List.map_filter asked_key (requests s)"

text \<open>What the crawl is allowed to ask of a host, by the robots.txt it has read.\<close>

definition may_ask :: "crawl_ctx \<Rightarrow> (string \<Rightarrow> RobotsTxt option option) \<Rightarrow> url \<Rightarrow> bool" where
  "may_ask cx known u \<longleftrightarrow> overrideRobots (cx_scope cx) \<or>
     (\<exists>r. known (hostKey u) = Some r
        \<and> (\<forall>robots. r = Some robots \<longrightarrow> isPathAllowed robots (op_userAgent (cx_options cx)) (pathname u @ search u)))"

lemma request_simps [simp]:
  "pages (snd (request cx r t s)) = pages s" "queue (snd (request cx r t s)) = queue s" "seen (snd (request cx r t s)) = seen s"
  "skippedOverLimit (snd (request cx r t s)) = skippedOverLimit s" "blockedByRobots (snd (request cx r t s)) = blockedByRobots s"
  "errors (snd (request cx r t s)) = errors s" "requests (snd (request cx r t s)) = requests s @ [r]"
  "robotsByHost (snd (request cx r t s)) = robotsByHost s" "stoppedHosts (snd (request cx r t s)) = stoppedHosts s"
  "consecutive5xx (snd (request cx r t s)) = consecutive5xx s" "sitemapUrls (snd (request cx r t s)) = sitemapUrls s"
  "stoppedEarly (snd (request cx r t s)) = stoppedEarly s" "clock (snd (request cx r t s)) = Suc (clock s)"
  by (simp_all add: request_def)

lemma asked_append [simp]: "requests s' = requests s @ rs \<Longrightarrow> asked s' = asked s @ List.map_filter asked_key rs"
  by (simp add: asked_def map_filter_def)

lemma fetchThrottled_cases:
  assumes "fetchThrottled cx r t s = (reply, s')"
  obtains "s' = s" | "s' = snd (request cx r t s)"
  using assms by (auto simp: fetchThrottled_def split: option.splits prod.splits)

section \<open>Steps in the background\<close>

inductive background :: "crawl_ctx \<Rightarrow> crawl_run \<Rightarrow> crawl_run \<Rightarrow> bool" for cx where
  background_refl [intro, simp]: "background cx s s"
| background_quiet: "background cx s s1 \<Longrightarrow> visible s2 = visible s1 \<Longrightarrow> clock s1 \<le> clock s2 \<Longrightarrow> background cx s s2"
| background_robots: "background cx s s1 \<Longrightarrow> background cx s (snd (forHost cx host s1))"

lemma background_trans: "background cx s1 s2 \<Longrightarrow> background cx s s1 \<Longrightarrow> background cx s s2"
  by (induction rule: background.induct) (auto intro: background_quiet background_robots)

text \<open>Reading a robots.txt: what it leaves alone, and what it adds.\<close>

definition extends :: "crawl_run \<Rightarrow> crawl_run \<Rightarrow> bool" where
  "extends s s' \<longleftrightarrow> pages s' = pages s \<and> queue s' = queue s \<and> seen s' = seen s \<and> skippedOverLimit s' = skippedOverLimit s
     \<and> blockedByRobots s' = blockedByRobots s \<and> stoppedHosts s' = stoppedHosts s \<and> consecutive5xx s' = consecutive5xx s
     \<and> sitemapUrls s' = sitemapUrls s \<and> stoppedEarly s' = stoppedEarly s \<and> asked s' = asked s
     \<and> set (errors s) \<subseteq> set (errors s') \<and> robotsByHost s \<subseteq>\<^sub>m robotsByHost s' \<and> clock s \<le> clock s'"

lemma extends_refl [simp]: "extends s s"
  by (simp add: extends_def)

lemma extends_trans: "extends s s1 \<Longrightarrow> extends s1 s2 \<Longrightarrow> extends s s2"
  by (auto simp: extends_def intro: map_le_trans)

lemma map_le_upd_new: "m k = None \<Longrightarrow> m \<subseteq>\<^sub>m m(k \<mapsto> v)"
  by (auto simp: map_le_def)

lemma request_extends: "asked_key r = None \<Longrightarrow> extends s (snd (request cx r t s))"
  by (simp add: extends_def asked_def map_filter_def)

lemma forHost_extends: "extends s (snd (forHost cx host s))"
proof (cases "robotsByHost s host")
  case None
  obtain reply s1 where f: "fetchThrottled cx (RobotsRequest (host @ ''/robots.txt'')) (host @ ''/robots.txt'') s = (reply, s1)"
    by fastforce
  have e: "extends s s1"
    using f by (cases rule: fetchThrottled_cases) (auto intro: request_extends)
  have "robotsByHost s1 host = None"
    using f None by (cases rule: fetchThrottled_cases) auto
  with e f None show ?thesis
    by (cases reply) (auto simp: forHost_def extends_def push_error_def asked_def Let_def map_le_upd_new
        intro: map_le_trans [OF _ map_le_upd_new])
qed (simp add: forHost_def)

lemma visible_extends: "visible s' = visible s \<Longrightarrow> clock s \<le> clock s' \<Longrightarrow> extends s s'"
  by (simp add: visible_def extends_def asked_def)

lemma background_extends: "background cx s s' \<Longrightarrow> extends s s'"
  by (induction rule: background.induct) (auto intro: extends_trans forHost_extends visible_extends)

lemma may_ask_mono: "may_ask cx known u \<Longrightarrow> known \<subseteq>\<^sub>m known' \<Longrightarrow> may_ask cx known' u"
  by (auto simp: may_ask_def map_le_def dom_def)

text \<open>The questions to the robots cache are steps in the background.\<close>

lemma shouldStop_background: "shouldStop cx s = (stopped, s') \<Longrightarrow> background cx s s'"
  by (rule background_quiet [OF background_refl]) (auto simp: shouldStop_def visible_def)

lemma forHost_cached: "robotsByHost (snd (forHost cx host s)) host = Some (fst (forHost cx host s))"
  by (auto simp: forHost_def push_error_def Let_def split: option.split prod.split sum.split)

lemma robots_allow_background:
  assumes "robots_allow cx u s = (ok, s')"
  shows "background cx s s' \<and> (ok \<longrightarrow> may_ask cx (robotsByHost s') u)"
proof -
  obtain r s1 where f: "forHost cx (hostKey u) s = (r, s1)" by fastforce
  then have "robotsByHost s1 (hostKey u) = Some r" using forHost_cached [of cx "hostKey u" s] by simp
  moreover have "background cx s s1"
    using background_robots [OF background_refl, of cx s "hostKey u"] f by simp
  ultimately show ?thesis using assms f by (auto simp: robots_allow_def may_ask_def split: option.splits)
qed

lemma isSubresourceAllowed_background:
  "isSubresourceAllowed cx u s = (ok, s') \<Longrightarrow> background cx s s' \<and> (ok \<longrightarrow> may_ask cx (robotsByHost s') u)"
  using robots_allow_background [of cx u s ok s']
  by (auto simp: isSubresourceAllowed_def may_ask_def split: if_splits)

lemma run_render_background: "run_render cx d s = (outcome, s') \<Longrightarrow> background cx s s'"
proof (induction d arbitrary: s)
  case (AskAllowed u k)
  obtain ok s1 where a: "isSubresourceAllowed cx u s = (ok, s1)" by fastforce
  with AskAllowed.prems have "run_render cx (k ok) s1 = (outcome, s')" by simp
  from AskAllowed.IH [OF rangeI this] isSubresourceAllowed_background [OF a] show ?case
    by (auto intro: background_trans)
next
  case (AskStop k)
  obtain stopped s1 where a: "shouldStop cx s = (stopped, s1)" by fastforce
  with AskStop.prems have "run_render cx (k stopped) s1 = (outcome, s')" by simp
  from AskStop.IH [OF rangeI this] shouldStop_background [OF a] show ?case by (auto intro: background_trans)
qed simp

lemma withRendering_background:
  assumes "withRendering cx p s = (p', s')"
  shows "background cx s s' \<and> normalizedUrl p' = normalizedUrl p \<and> pg_depth p' = pg_depth p \<and> fetchError p' = fetchError p
    \<and> finalUrl p' = finalUrl p \<and> pg_status p' = pg_status p"
proof -
  have "background cx s (s1\<lparr> failedRenderPages := n \<rparr>)" "background cx s (s1\<lparr> renderedPages := n \<rparr>)"
    if "run_render cx d s = (outcome, s1)" for d outcome s1 n
    by (auto intro!: background_quiet [OF run_render_background [OF that]] simp: visible_def)
  with assms show ?thesis
    by (auto simp: withRendering_def split: if_splits option.splits RenderRuntimeResult.splits render_outcome.splits prod.splits)
qed

section \<open>One entry of the queue\<close>

definition page_of :: "QueueEntry \<Rightarrow> PageSnapshot \<Rightarrow> bool" where
  "page_of e p \<longleftrightarrow> normalizedUrl p = q_normalized e \<and> pg_depth p = q_depth e"

definition with_page :: "QueueEntry \<Rightarrow> PageSnapshot \<Rightarrow> crawl_run \<Rightarrow> crawl_run" where
  "with_page e p s = trackHostHealth (hostname (q_parsed e)) e p (s\<lparr> pages := pages s @ [p] \<rparr>)"

definition with_links :: "crawl_ctx \<Rightarrow> PageSnapshot \<Rightarrow> crawl_run \<Rightarrow> crawl_run" where
  "with_links cx p s = enqueue_links cx p (pg_depth p + 1) (markFinalUrlSeen cx (finalUrl p) s)"

text \<open>The outcomes: refused by robots.txt, over the limit, on a stopped host, cancelled, failed, read.\<close>

lemma processEntry_cases:
  obtains
    (refused) s1 where "background cx s s1" "processEntry cx e s = s1\<lparr> blockedByRobots := blockedByRobots s1 @ [q_normalized e] \<rparr>"
  | (over) s1 where "background cx s s1" "sc_maxPages (cx_scope cx) \<le> of_nat (length (pages s1))"
      "processEntry cx e s = s1\<lparr> skippedOverLimit := skippedOverLimit s1 @ [q_normalized e] \<rparr>"
  | (host_stopped) s1 reason where "background cx s s1" "hostname (q_parsed e) \<in> stoppedHosts s1"
      "processEntry cx e s = push_error (q_normalized e) reason s1"
  | (cancelled) s1 where "background cx s s1" "may_ask cx (robotsByHost s1) (q_parsed e)" "of_nat (length (pages s1)) < sc_maxPages (cx_scope cx)"
      "hostname (q_parsed e) \<notin> stoppedHosts s1" "processEntry cx e s = snd (request cx (PageRequest e) (q_rawUrl e) s1)"
      "isCancelled cx (processEntry cx e s)"
  | (failed) s1 s2 p reason where "background cx s s1" "may_ask cx (robotsByHost s1) (q_parsed e)"
      "of_nat (length (pages s1)) < sc_maxPages (cx_scope cx)" "hostname (q_parsed e) \<notin> stoppedHosts s1"
      "background cx (snd (request cx (PageRequest e) (q_rawUrl e) s1)) s2" "page_of e p" "fetchError p \<noteq> None"
      "processEntry cx e s = push_error (q_normalized e) reason (with_page e p s2)"
  | (read) s1 s2 p where "background cx s s1" "may_ask cx (robotsByHost s1) (q_parsed e)"
      "of_nat (length (pages s1)) < sc_maxPages (cx_scope cx)" "hostname (q_parsed e) \<notin> stoppedHosts s1"
      "background cx (snd (request cx (PageRequest e) (q_rawUrl e) s1)) s2" "page_of e p" "fetchError p = None"
      "processEntry cx e s = with_links cx p (with_page e p s2)"
proof -
  let ?h = "hostname (q_parsed e)" and ?m = "sc_maxPages (cx_scope cx)"
  obtain ok s1 where r: "robots_allow cx (q_parsed e) s = (ok, s1)" by fastforce
  note bg = robots_allow_background [OF r]
  have blocked_step: "isBlockedByRobots cx e s = (\<not> ok, s1)" by (simp add: isBlockedByRobots_def r)
  show thesis
  proof (cases "\<not> ok \<and> \<not> overrideRobots (cx_scope cx)")
    case True
    then show thesis using refused [of s1] bg by (simp add: processEntry_def blocked_step)
  next
    case allowed: False
    then have ask: "may_ask cx (robotsByHost s1) (q_parsed e)" using bg by (auto simp: may_ask_def)
    show thesis
    proof (cases "?m \<le> of_nat (length (pages s1))")
      case True
      then show thesis using over [of s1] bg allowed by (simp add: processEntry_def blocked_step)
    next
      case room: False
      show thesis
      proof (cases "?h \<in> stoppedHosts s1")
        case True
        then show thesis using host_stopped [of s1] bg allowed room by (simp add: processEntry_def blocked_step)
      next
        case running: False
        obtain p s2 where f: "fetchPage cx e s1 = (p, s2)" by fastforce
        have s2: "s2 = snd (request cx (PageRequest e) (q_rawUrl e) s1)"
          using f by (auto simp: fetchPage_def Let_def split: prod.splits sum.splits)
        have po: "page_of e p"
          using f by (auto simp: fetchPage_def page_of_def Let_def split: prod.splits sum.splits)
        have step: "processEntry cx e s = read_page cx e s1"
          using allowed room running by (auto simp: processEntry_def blocked_step)
        show thesis
        proof (cases "fetchError p \<noteq> None \<and> isCancelled cx s2")
          case True
          then show thesis using cancelled [of s1] bg ask room running step f s2 by (simp add: read_page_def not_le)
        next
          case False
          obtain p' s3 where w: "withRendering cx p s2 = (p', s3)" by fastforce
          note wb = withRendering_background [OF w]
          have po': "page_of e p'" using po wb by (simp add: page_of_def)
          show thesis
          proof (cases "fetchError p'")
            case None
            then show thesis using read [of s1 s3 p'] bg ask room running step f s2 w wb po' False
              by (simp add: read_page_def with_links_def with_page_def page_of_def Let_def not_le)
          next
            case (Some message)
            then show thesis using failed [of s1 s3 p' message] bg ask room running step f s2 w wb po' False
              by (simp add: read_page_def with_page_def Let_def not_le)
          qed
        qed
      qed
    qed
  qed
qed

lemma with_page_simps [simp]:
  "pages (with_page e p s) = pages s @ [p]" "queue (with_page e p s) = queue s" "seen (with_page e p s) = seen s"
  "skippedOverLimit (with_page e p s) = skippedOverLimit s" "blockedByRobots (with_page e p s) = blockedByRobots s"
  "requests (with_page e p s) = requests s" "robotsByHost (with_page e p s) = robotsByHost s" "clock (with_page e p s) = clock s"
  "asked (with_page e p s) = asked s" "sitemapUrls (with_page e p s) = sitemapUrls s" "stoppedEarly (with_page e p s) = stoppedEarly s"
  by (simp_all add: with_page_def trackHostHealth_def push_error_def asked_def Let_def)

lemma with_page_errors: "set (errors s) \<subseteq> set (errors (with_page e p s))"
  by (auto simp: with_page_def trackHostHealth_def push_error_def Let_def)

lemma push_error_all_simps [simp]:
  "seen (push_error a b s) = seen s" "skippedOverLimit (push_error a b s) = skippedOverLimit s"
  "blockedByRobots (push_error a b s) = blockedByRobots s" "requests (push_error a b s) = requests s"
  "robotsByHost (push_error a b s) = robotsByHost s" "clock (push_error a b s) = clock s" "asked (push_error a b s) = asked s"
  "errors (push_error a b s) = errors s @ [\<lparr> err_url = a, err_reason = b \<rparr>]"
  "sitemapUrls (push_error a b s) = sitemapUrls s" "stoppedEarly (push_error a b s) = stoppedEarly s"
  "stoppedHosts (push_error a b s) = stoppedHosts s" "consecutive5xx (push_error a b s) = consecutive5xx s"
  by (simp_all add: push_error_def asked_def)

section \<open>Enqueueing\<close>

text \<open>An address offered to the queue is not of the site, known, too deep, or a new entry.\<close>

lemma enqueue_cases:
  obtains
    (foreign) "candidate cx raw = None" "enqueue cx raw d s = s"
  | (known) r n u where "candidate cx raw = Some (r, n, u)" "n \<in> seen s" "enqueue cx raw d s = recordVariant n r s"
  | (deep) r n u where "candidate cx raw = Some (r, n, u)" "n \<notin> seen s" "too_deep cx d"
      "enqueue cx raw d s = (recordVariant n r s)\<lparr> seen := insert n (seen s) \<rparr>"
  | (fresh) r n u where "candidate cx raw = Some (r, n, u)" "n \<notin> seen s" "\<not> too_deep cx d"
      "enqueue cx raw d s = (recordVariant n r s)\<lparr> seen := insert n (seen s),
         queue := queue s @ [\<lparr> q_rawUrl = href u, q_normalized = n, q_parsed = u, q_depth = d \<rparr>] \<rparr>"
proof (cases "candidate cx raw")
  case None
  then show thesis using foreign by (simp add: enqueue_def)
next
  case (Some c)
  obtain r n u where c: "c = (r, n, u)" by (cases c)
  have e: "enqueue cx raw d s = (if n \<in> seen s then recordVariant n r s else if too_deep cx d
      then (recordVariant n r s)\<lparr> seen := insert n (seen s) \<rparr>
      else (recordVariant n r s)\<lparr> seen := insert n (seen s),
         queue := queue s @ [\<lparr> q_rawUrl = href u, q_normalized = n, q_parsed = u, q_depth = d \<rparr>] \<rparr>)"
    using Some c by (simp add: enqueue_def recordVariant_def Let_def)
  show thesis using Some c e known [of r n u] deep [of r n u] fresh [of r n u] by (cases "n \<in> seen s"; cases "too_deep cx d") auto
qed

lemma recordVariant_simps [simp]:
  "visible (recordVariant n r s) = visible s" "clock (recordVariant n r s) = clock s"
  "pages (recordVariant n r s) = pages s" "queue (recordVariant n r s) = queue s" "seen (recordVariant n r s) = seen s"
  "skippedOverLimit (recordVariant n r s) = skippedOverLimit s" "blockedByRobots (recordVariant n r s) = blockedByRobots s"
  "errors (recordVariant n r s) = errors s" "requests (recordVariant n r s) = requests s"
  "robotsByHost (recordVariant n r s) = robotsByHost s" "asked (recordVariant n r s) = asked s"
  "sitemapUrls (recordVariant n r s) = sitemapUrls s" "stoppedEarly (recordVariant n r s) = stoppedEarly s"
  "stoppedHosts (recordVariant n r s) = stoppedHosts s" "consecutive5xx (recordVariant n r s) = consecutive5xx s"
  by (simp_all add: recordVariant_def visible_def asked_def)

lemma candidate_in_scope: "candidate cx raw = Some (r, n, u) \<Longrightarrow> host_in_scope cx u \<and> path_in_scope cx u"
  by (auto simp: candidate_def Let_def split: option.splits if_splits)

lemma fold_inv: "P s \<Longrightarrow> (\<And>x s. x \<in> set xs \<Longrightarrow> P s \<Longrightarrow> P (f x s)) \<Longrightarrow> P (fold f xs s)"
  by (induction xs arbitrary: s) auto

section \<open>Invariants of a run\<close>

text \<open>
  Three contracts, each with more of the run in it. What is kept while time passes, robots.txt files are read and allowed
  resources are probed is kept by the check of the media; what the processing of an entry and a stop keep as well is kept
  by the loop; and what is kept too when addresses are offered to the queue and sitemaps of the site are read is an
  invariant of the whole run.
\<close>

locale crawl_asking =
  fixes cx :: crawl_ctx and P :: "crawl_run \<Rightarrow> bool"
  assumes quiet: "P s \<Longrightarrow> visible s' = visible s \<Longrightarrow> clock s \<le> clock s' \<Longrightarrow> P s'"
    and robots_read: "P s \<Longrightarrow> P (snd (forHost cx host s))"
    and probed: "P s \<Longrightarrow> host_in_scope cx u \<Longrightarrow> may_ask cx (robotsByHost s) u \<Longrightarrow> P (snd (request cx (ProbeRequest m (href u)) (href u) s))"
begin

lemma background_inv: "background cx s s' \<Longrightarrow> P s \<Longrightarrow> P s'"
  by (induction rule: background.induct) (auto intro: quiet robots_read)

lemma shouldStop_inv: "P s \<Longrightarrow> shouldStop cx s = (stopped, s') \<Longrightarrow> P s'"
  by (rule background_inv [OF shouldStop_background])

text \<open>The probes of the media.\<close>

lemma attempt_inv: "P s \<Longrightarrow> host_in_scope cx u \<Longrightarrow> may_ask cx (robotsByHost s) u \<Longrightarrow> attempt cx m (href u) s = (a, s') \<Longrightarrow> P s'"
  using probed [of s u m]
  by (auto simp: attempt_def split: prod.splits sum.splits fetch_failure.splits)

lemma attempt_may_ask: "may_ask cx (robotsByHost s) u \<Longrightarrow> attempt cx m t s = (a, s') \<Longrightarrow> may_ask cx (robotsByHost s') u"
  by (auto simp: attempt_def may_ask_def request_def split: sum.splits fetch_failure.splits)

lemma probe_get_inv:
  assumes "P s" "host_in_scope cx (mc_url c)" "may_ask cx (robotsByHost s) (mc_url c)" "probe_get cx c code s = (r, s')"
  shows "P s'"
proof -
  obtain stopped s1 where st: "shouldStop cx s = (stopped, s1)" by fastforce
  have p1: "P s1" using assms(1) st by (rule shouldStop_inv)
  have "may_ask cx (robotsByHost s1) (mc_url c)" using assms(3) st by (auto simp: shouldStop_def may_ask_def)
  with assms p1 st show ?thesis
    by (auto simp: probe_get_def split: if_splits prod.splits probe_attempt.splits intro: attempt_inv)
qed

lemma probeOne_inv:
  assumes "P s" "host_in_scope cx (mc_url c)" "may_ask cx (robotsByHost s) (mc_url c)" "probeOne cx c s = (r, s')"
  shows "P s'"
proof -
  obtain a s1 where at: "attempt cx HEAD (href (mc_url c)) s = (a, s1)" by fastforce
  have "P s1" "may_ask cx (robotsByHost s1) (mc_url c)" using assms at by (auto intro: attempt_inv attempt_may_ask)
  with assms at show ?thesis
    by (auto simp: probeOne_def split: if_splits probe_attempt.splits intro: probe_get_inv)
qed

lemma probe_candidates_inv:
  "P s \<Longrightarrow> \<forall>c \<in> set cs. host_in_scope cx (mc_url c) \<Longrightarrow> probe_candidates cx l known cs n rs s = (found, s') \<Longrightarrow> P s'"
proof (induction cs arbitrary: n rs s)
  case (Cons c cs)
  obtain stopped s1 where st: "shouldStop cx s = (stopped, s1)" by fastforce
  have p1: "P s1" using Cons.prems(1) st by (rule shouldStop_inv)
  obtain ok s2 where sub: "isSubresourceAllowed cx (mc_url c) s1 = (ok, s2)" by fastforce
  note bg = isSubresourceAllowed_background [OF sub]
  have p2: "P s2" using bg p1 by (auto intro: background_inv)
  obtain r s3 where pr: "probeOne cx c s2 = (r, s3)" by fastforce
  have p3: "P s3" if ok using probeOne_inv [OF p2 _ _ pr] bg that Cons.prems(2) by simp
  show ?case
    using Cons.prems st sub pr p1 p2 p3 Cons.IH
    by (auto split: if_splits option.splits)
qed simp

lemma collectCandidates_in_scope: "c \<in> set (collectCandidates cx ps sel) \<Longrightarrow> host_in_scope cx (mc_url c)"
  using first_by_subset [of mc_normalizedUrl "set (map normalizedUrl ps)" "concat (map (page_elements cx sel) ps)"]
  by (force simp: collectCandidates_def page_elements_def map_filter_def element_candidate_def
      split: option.splits if_splits)

lemma probeResources_inv: "P s \<Longrightarrow> probeResources cx ps known sel l s = (found, s') \<Longrightarrow> P s'"
  by (auto simp: probeResources_def intro: probe_candidates_inv collectCandidates_in_scope)

lemma probeMediaResources_inv:
  assumes "P s" "probeMediaResources cx ps known s = (found, s')"
  shows "P (s'\<lparr> resources := rs \<rparr>)"
proof (rule quiet)
  obtain media s1 where m: "probeResources cx ps known MEDIA_SELECTOR MEDIA_PROBE_LIMITS s = (media, s1)" by fastforce
  obtain render s2 where r:
    "probeResources cx ps (known @ media) RENDER_RESOURCE_SELECTOR RENDER_RESOURCE_PROBE_LIMITS s1 = (render, s2)" by fastforce
  have "s' = s2" using assms(2) m r by (simp add: probeMediaResources_def)
  then show "P s'" using probeResources_inv [OF probeResources_inv [OF assms(1) m] r] by simp
qed (simp_all add: visible_def)

lemma checkReferencedMedia_inv:
  assumes "P s"
  shows "P (checkReferencedMedia cx s)"
proof -
  obtain stopped s1 where st: "shouldStop cx s = (stopped, s1)" by fastforce
  have p1: "P s1" using assms st by (rule shouldStop_inv)
  show ?thesis
    using assms p1 st probeMediaResources_inv [OF p1]
    by (simp add: checkReferencedMedia_def Let_def split: prod.split)
qed

end

locale crawl_looping = crawl_asking +
  assumes stopped_early: "P s1 \<Longrightarrow> shouldStop cx s = (True, s1) \<Longrightarrow> P (s1\<lparr> stoppedEarly := True \<rparr>)"
    and processed: "P s \<Longrightarrow> shouldStop cx s = (False, s1) \<Longrightarrow> queue s1 = e # rest \<Longrightarrow> P (processEntry cx e (s1\<lparr> queue := rest \<rparr>))"
begin

lemma crawl_loop_inv_of: "c = cx \<Longrightarrow> P s \<Longrightarrow> P (crawl_loop c s)"
proof (induction c s rule: crawl_loop.induct)
  case (1 c s)
  obtain stopped s1 where st: "shouldStop cx s = (stopped, s1)" by fastforce
  have p1: "P s1" using 1 st by (auto intro: shouldStop_inv)
  show ?case
  proof (cases "stopped \<or> queue s1 = []")
    case True
    with 1 st p1 show ?thesis using stopped_early [OF p1, of s] by (auto simp: crawl_loop.simps [of cx s])
  next
    case False
    then obtain e rest where q: "queue s1 = e # rest" by (auto simp: neq_Nil_conv)
    have "P (crawl_loop c (processEntry c e (s1\<lparr> queue := rest \<rparr>)))"
      using 1 st q False processed [OF _ _ q] by (intro 1(1)) auto
    with 1 False st q show ?thesis by (simp add: crawl_loop.simps [of cx s])
  qed
qed

lemmas crawl_loop_inv = crawl_loop_inv_of [OF refl]

text \<open>A loop that was not stopped left at the moment it found the queue empty.\<close>

lemma crawl_loop_end_of:
  "c = cx \<Longrightarrow> P s \<Longrightarrow> \<not> stoppedEarly (crawl_loop c s) \<Longrightarrow> \<exists>s0. P s0 \<and> shouldStop cx s0 = (False, crawl_loop c s) \<and> queue (crawl_loop c s) = []"
proof (induction c s rule: crawl_loop.induct)
  case (1 c s)
  obtain stopped s1 where st: "shouldStop cx s = (stopped, s1)" by fastforce
  have running: "\<not> stopped" using 1 st by (auto simp: crawl_loop.simps [of cx s])
  show ?case
  proof (cases "queue s1")
    case Nil
    with 1 st running show ?thesis by (auto simp: crawl_loop.simps [of cx s])
  next
    case (Cons e rest)
    have eq: "crawl_loop cx s = crawl_loop cx (processEntry cx e (s1\<lparr> queue := rest \<rparr>))"
      using st running Cons by (simp add: crawl_loop.simps [of cx s])
    have p: "P (processEntry cx e (s1\<lparr> queue := rest \<rparr>))" using 1 st running Cons processed by simp
    show ?thesis using 1(1) [of stopped s1 e rest] 1(2-) st running Cons p by (simp add: eq)
  qed
qed

lemmas crawl_loop_end = crawl_loop_end_of [OF refl]

end

locale crawl_invariant = crawl_looping +
  assumes enqueued: "P s \<Longrightarrow> P (enqueue cx raw d s)"
    and sitemap_read: "P s \<Longrightarrow> isSitemapInScope cx t \<Longrightarrow> P (snd (request cx (SitemapRequest t) t s))"
    and sitemaps_set: "P s \<Longrightarrow> P (s\<lparr> sitemapUrls := us \<rparr>)"
begin

lemma fetchBody_inv:
  assumes "P s" "isSitemapInScope cx t" "fetchBody cx t s = (body, s')"
  shows "P s'"
proof -
  obtain reply s1 where f: "fetchThrottled cx (SitemapRequest t) t s = (reply, s1)" by fastforce
  then have "s' = s1" using assms(3) by (auto simp: fetchBody_def split: sum.splits)
  with f assms show ?thesis by (cases rule: fetchThrottled_cases) (auto intro: sitemap_read)
qed

lemma fetch_children_inv: "P s \<Longrightarrow> fetch_children cx n children collected s = (us, s') \<Longrightarrow> P s'"
proof (induction children arbitrary: collected s)
  case (Cons child children)
  obtain body s1 where f: "fetchBody cx child s = (body, s1)" by fastforce
  have "P s1" if "isSitemapInScope cx child" using fetchBody_inv [OF Cons.prems(1) that f] .
  with Cons f show ?case by (auto split: if_splits option.splits)
qed simp

lemma fetchSitemapUrls_inv:
  assumes "P s" "fetchSitemapUrls cx t n s = (us, s')"
  shows "P s'"
proof (cases "isSitemapInScope cx t")
  case True
  obtain body s1 where f: "fetchBody cx t s = (body, s1)" by fastforce
  note p1 = fetchBody_inv [OF assms(1) True f]
  show ?thesis using assms(2) True f p1
    by (auto simp: fetchSitemapUrls_def split: option.splits if_splits intro: fetch_children_inv)
qed (use assms in \<open>simp add: fetchSitemapUrls_def\<close>)

lemma collect_sitemaps_inv: "P s \<Longrightarrow> collect_sitemaps cx ts collected s = (us, s') \<Longrightarrow> P s'"
proof (induction ts arbitrary: collected s)
  case (Cons t ts)
  obtain found s1 where f: "fetchSitemapUrls cx t (SITEMAP_MAX_URLS - length collected) s = (found, s1)" by fastforce
  from Cons fetchSitemapUrls_inv [OF Cons.prems(1) f] f show ?case by (auto split: if_splits)
qed simp

lemma loadSitemaps_inv:
  assumes "P s"
  shows "P (loadSitemaps cx s)"
proof -
  have "P (s1\<lparr> sitemapUrls := us \<rparr>)" if "collect_sitemaps cx ts [] s = (us, s1)" for ts us s1
    by (rule sitemaps_set [OF collect_sitemaps_inv [OF assms that]])
  then show ?thesis by (auto simp: loadSitemaps_def Let_def simp del: collect_sitemaps.simps split: prod.split)
qed

lemma enqueue_links_inv: "P s \<Longrightarrow> P (enqueue_links cx page d s)"
proof -
  assume "P s"
  then have "P (enqueue_all cx d links s)" for links
    unfolding enqueue_all_def by (rule fold_inv) (rule enqueued)
  with \<open>P s\<close> show ?thesis by (simp add: enqueue_links_def split: option.split)
qed

lemma enqueue_seed_inv: "P s \<Longrightarrow> P (enqueue_seed cx seed s)"
  using quiet [of s "reject_seed seed reason s" for reason]
  by (simp add: enqueue_seed_def reject_seed_def visible_def enqueued split: option.split)

lemma prepare_inv:
  assumes "P s"
  shows "P (prepare cx s)"
proof -
  define s1 where "s1 = snd (forHost cx (hostKey (cx_origin cx)) s)"
  define s2 where "s2 = (if isCancelled cx s1 then s1 else loadSitemaps cx s1)"
  define s3 where "s3 = enqueueSeeds cx (enqueue cx (origin_href cx) 0 s2)"
  define s4 where "s4 = fold (\<lambda>resumed. enqueue cx (cq_url resumed) (cq_depth resumed)) (op_resumeSeeds (cx_options cx)) s3"
  define s5 where "s5 = enqueue_all cx 1 (sitemapUrls s4) s4"
  have "P s1" unfolding s1_def using assms by (rule robots_read)
  then have "P s2" unfolding s2_def using loadSitemaps_inv by simp
  then have "P (enqueue cx (origin_href cx) 0 s2)" by (rule enqueued)
  then have "P s3" unfolding s3_def enqueueSeeds_def by (rule fold_inv) (rule enqueue_seed_inv)
  then have "P s4" unfolding s4_def by (rule fold_inv) (rule enqueued)
  then have "P s5" unfolding s5_def enqueue_all_def by (rule fold_inv) (rule enqueued)
  then have "P (enqueueLinksOfRestoredPages cx s5)"
    unfolding enqueueLinksOfRestoredPages_def by (rule fold_inv) (rule enqueue_links_inv)
  then show ?thesis by (simp only: prepare_def Let_def s1_def s2_def s3_def s4_def s5_def)
qed

text \<open>The whole run.\<close>

lemma run_inv: "P s \<Longrightarrow> P (checkReferencedMedia cx (crawl_loop cx (prepare cx s)))"
  by (intro checkReferencedMedia_inv crawl_loop_inv prepare_inv)

lemma execute_inv: "P (restorePreviousAttempt cx new_run) \<Longrightarrow> P (execute cx)"
  by (auto simp: execute_def split: prod.split intro: run_inv stopped_early shouldStop_inv)

end

end
