(* ===== verification/CrawlOutcome.thy ===== *)
theory CrawlOutcome
  imports Crawl
begin

text \<open>
  What a finished crawl achieved: \<open>packages/crawler/src/crawl-outcome.ts\<close> (how much was read, and whether the site could
  be read at all) and \<open>apps/api/src/orchestrator/crawl-summary.ts\<close>, which turns it into the record of the report.
\<close>

definition isSuccessfulHtmlPage :: "PageSnapshot \<Rightarrow> bool" where
  "isSuccessfulHtmlPage page \<longleftrightarrow>
     fetchError page = None \<and> 200 \<le> pg_status page \<and> pg_status page < 300 \<and> html page \<noteq> None"

record CrawlCoverage =
  cc_pagesRead :: nat
  cc_pagesFetched :: nat
  cc_urlsDiscovered :: nat
  cc_urlsOverLimit :: nat
  cc_urlsBlockedByRobots :: nat

definition crawlCoverage :: "CrawlResult \<Rightarrow> CrawlCoverage" where
  "crawlCoverage r =
     \<lparr> cc_pagesRead = length (filter isSuccessfulHtmlPage (cr_pages r)), cc_pagesFetched = length (cr_pages r),
       cc_urlsDiscovered = length (cr_pages r) + length (cr_skippedOverLimit r), cc_urlsOverLimit = length (cr_skippedOverLimit r),
       cc_urlsBlockedByRobots = length (cr_blockedByRobots r) \<rparr>"

section \<open>Whether the site was read\<close>

definition ACCESS_DENIED_STATUSES :: "nat list" where
  "ACCESS_DENIED_STATUSES = [401, 403, 407, 429, 503]"

definition VENDOR_HEADERS :: "string list" where
  "VENDOR_HEADERS = [''cf-mitigated'', ''cf-ray'', ''x-sucuri-id'', ''x-iinfo'', ''x-akamai-transformed'', ''x-datadome'']"

definition VENDOR_SERVER_VALUES :: "string list" where
  "VENDOR_SERVER_VALUES = [''cloudflare'', ''sucuri'', ''incapsula'', ''imperva'', ''akamai'', ''awselb'', ''datadome'']"

definition vendorSignals :: "(string \<times> string) list \<Rightarrow> string list" where
  "vendorSignals headers =
     (let lowerCased = map_of (rev (map (\<lambda>(name, x). (js_lower name, x)) headers));
          present = List.map_filter (\<lambda>name. map_option (\<lambda>x. name @ '': '' @ x) (lowerCased name)) VENDOR_HEADERS;
          namedServer = (case lowerCased ''server'' of
              None \<Rightarrow> []
            | Some server \<Rightarrow> if list_ex (js_includes (js_lower server)) VENDOR_SERVER_VALUES then [''server: '' @ server] else [])
      in namedServer @ present)"

record SiteReach =
  sr_kind :: site_reach_kind
  sr_searchEnginesBlocked :: "bool option"
  sr_blockedSearchEngines :: "search_engine list option"
  sr_startUrl :: string
  sr_startStatus :: "int option"
  sr_startFetchError :: "string option"
  sr_accessControlSignals :: "string list"

definition safeNormalize :: "crawl_world \<Rightarrow> string \<Rightarrow> string" where
  "safeNormalize w address =
     (case normalizeUrl (cw_parse w) (cw_nfc w) address of Inl e \<Rightarrow> address | Inr n \<Rightarrow> n)"

definition findStartPage :: "crawl_world \<Rightarrow> CrawlResult \<Rightarrow> string \<Rightarrow> PageSnapshot option" where
  "findStartPage w r startUrl =
     List.find (\<lambda>page. normalizedUrl page = startUrl \<or> safeNormalize w (finalUrl page) = startUrl) (cr_pages r)"

definition engine_of :: "string \<Rightarrow> search_engine" where
  "engine_of agent = (if agent = ''Googlebot'' then Google else Bing)"

text \<open>\<open>blockedSearchEngines\<close> parses the origin, and throws on one that is no address.\<close>

definition origin_engines :: "crawl_world \<Rightarrow> string option \<Rightarrow> string \<Rightarrow> string + string list" where
  "origin_engines w robots origin =
     (case robots of
        None \<Rightarrow> Inr []
      | Some content \<Rightarrow>
          (case cw_parse w origin of
             None \<Rightarrow> Inl ''Invalid URL''
           | Some u \<Rightarrow> Inr (blockedSearchEngines content (pathname u @ search u))))"

definition assessSiteReach :: "crawl_world \<Rightarrow> CrawlResult \<Rightarrow> string \<Rightarrow> string + SiteReach" where
  "assessSiteReach w r origin =
     (let startUrl = safeNormalize w origin;
          startPage = findStartPage w r startUrl;
          verdict = (\<lambda>kind. \<lparr> sr_kind = kind, sr_searchEnginesBlocked = None, sr_blockedSearchEngines = None, sr_startUrl = startUrl,
             sr_startStatus = map_option (\<lambda>page. int (pg_status page)) startPage,
             sr_startFetchError = (case startPage of None \<Rightarrow> None | Some page \<Rightarrow> fetchError page),
             sr_accessControlSignals = (case startPage of None \<Rightarrow> [] | Some page \<Rightarrow> vendorSignals (pg_headers page)) \<rparr>)
      in if list_ex isSuccessfulHtmlPage (cr_pages r) then Inr (verdict Reachable)
         else case startPage of
           None \<Rightarrow>
             if startUrl \<in> set (cr_blockedByRobots r) then
               (case origin_engines w (cr_robotsTxt r) origin of
                  Inl e \<Rightarrow> Inl e
                | Inr agents \<Rightarrow> Inr ((verdict BlockedByRobots)\<lparr> sr_searchEnginesBlocked := Some (agents \<noteq> []),
                      sr_blockedSearchEngines := Some (map engine_of agents) \<rparr>))
             else Inr (verdict Unreachable)
         | Some page \<Rightarrow>
             if fetchError page \<noteq> None \<or> pg_status page = 0 then Inr (verdict Unreachable)
             else if pg_status page \<in> set ACCESS_DENIED_STATUSES then Inr (verdict AccessDenied)
             else Inr (verdict BadResponse))"

section \<open>The summary of the report (crawl-summary.ts)\<close>

definition MAX_ACCESS_CONTROL_SIGNALS :: nat where "MAX_ACCESS_CONTROL_SIGNALS = 10"

text \<open>\<open>ownerMaxPages\<close> is the \<open>maxPages\<close> of the owner's scan settings.\<close>

definition limited_by :: "nat \<Rightarrow> nat option \<Rightarrow> plan \<Rightarrow> crawl_limited_by option" where
  "limited_by overLimit ownerMaxPages p =
     (if overLimit = 0 then None
      else Some (case ownerMaxPages of
          None \<Rightarrow> ByPlan
        | Some n \<Rightarrow> if n < urlLimit (TARIFFS p) then ByOwner else ByPlan))"

definition buildCrawlSummary :: "crawl_world \<Rightarrow> CrawlResult \<Rightarrow> string \<Rightarrow> nat option \<Rightarrow> plan \<Rightarrow> nat \<Rightarrow> string + crawl_summary" where
  "buildCrawlSummary w r origin ownerMaxPages p limit =
     (case assessSiteReach w r origin of
        Inl e \<Rightarrow> Inl e
      | Inr site \<Rightarrow>
          (let coverage = crawlCoverage r in
           Inr \<lparr> reach = sr_kind site, searchEnginesBlocked = sr_searchEnginesBlocked site, blockedEngines = sr_blockedSearchEngines site,
                 startStatus = sr_startStatus site,
                 accessControlSignals = take MAX_ACCESS_CONTROL_SIGNALS (sr_accessControlSignals site),
                 pagesRead = cc_pagesRead coverage, pagesFetched = cc_pagesFetched coverage, urlsDiscovered = cc_urlsDiscovered coverage,
                 urlsOverLimit = cc_urlsOverLimit coverage, urlsBlockedByRobots = cc_urlsBlockedByRobots coverage,
                 limitedBy = limited_by (cc_urlsOverLimit coverage) ownerMaxPages p, maxPages = limit \<rparr>))"

end
