(* ===== verification/CrawlDemo.thy ===== *)
theory CrawlDemo
  imports CrawlOutcome
begin

text \<open>
  A site of two pages, at which the properties of the crawl are instantiated: the start page links to \<open>/b\<close>, there is no
  robots.txt and no sitemap, and nothing stops the run.
\<close>

definition demo_url :: "string \<Rightarrow> url" where
  "demo_url path = \<lparr> href = ''http://a'' @ path, protocol = ''http:'', username = [], password = [], hostname = ''a'', port = [],
     pathname = path, search = [] \<rparr>"

definition demo_parse :: "string \<Rightarrow> url option" where
  "demo_parse = map_of (map (\<lambda>path. (''http://a'' @ path, demo_url path)) [''/'', ''/b'', ''/robots.txt'', ''/sitemap.xml''])"

definition demo_fetched :: "string \<Rightarrow> nat \<Rightarrow> string \<Rightarrow> fetched" where
  "demo_fetched address code body = \<lparr> ft_finalUrl = address, ft_status = code, ft_headers = [(''content-type'', ''text/html'')],
     ft_body = body, ft_redirectChain = [], ft_timingMs = 1, ft_truncated = False \<rparr>"

definition demo_world :: crawl_world where
  "demo_world = \<lparr> cw_parse = demo_parse, cw_resolve = (\<lambda>link base. demo_parse (''http://a'' @ link)), cw_nfc = (\<lambda>cs. cs),
     cw_reply = (\<lambda>c target. if target = ''http://a/'' then Inr (demo_fetched target 200 ''home'')
        else if target = ''http://a/b'' then Inr (demo_fetched target 200 ''page'') else Inr (demo_fetched target 404 [])),
     cw_elements = (\<lambda>body selector. if body = ''home'' then [\<lambda>name. if name = ''href'' then Some ''/b'' else None] else []),
     cw_render = (\<lambda>p. Rendering (RenderFailed RuntimeNotInstalled [])), cw_stop = (\<lambda>c. False), cw_aborted = (\<lambda>c. False) \<rparr>"

definition demo_scope :: "rat \<Rightarrow> CrawlScope" where
  "demo_scope n = \<lparr> sc_origin = ''http://a/'', sc_includeSubdomains = False, sc_includePatterns = None, sc_excludePatterns = None,
     sc_seedUrls = None, sc_renderJs = None, sc_maxPages = n, sc_maxDepth = None, sc_queryPolicy = None, sc_respectRobots = None,
     sc_robotsOverrideConfirmed = None \<rparr>"

definition demo_ctx :: "rat \<Rightarrow> RestoredCrawlState option \<Rightarrow> crawl_ctx" where
  "demo_ctx n restored = \<lparr> cx_world = demo_world, cx_scope = demo_scope n, cx_origin = demo_url ''/'',
     cx_options = \<lparr> op_userAgent = ''FluxRadarBot/0.1'', op_renderRuntime = None, op_resumeSeeds = [], op_restored = restored,
       op_probeMedia = False \<rparr> \<rparr>"

definition demo_result :: "rat \<Rightarrow> RestoredCrawlState option \<Rightarrow> CrawlResult" where
  "demo_result n restored = crawl_result (demo_ctx n restored) (execute (demo_ctx n restored))"

lemma demo_ctx_simps [simp]:
  "op_restored (cx_options (demo_ctx n restored)) = restored" "sc_maxDepth (cx_scope (demo_ctx n restored)) = None"
  "cw_aborted (cx_world (demo_ctx n restored)) = (\<lambda>c. False)" "sc_maxPages (cx_scope (demo_ctx n restored)) = n"
  by (simp_all add: demo_ctx_def demo_scope_def demo_world_def)

text \<open>Both pages are read when the limit allows two, and the summary of the report says so.\<close>

definition demo_view :: "CrawlResult \<Rightarrow> string list \<times> string list \<times> bool \<times> bool" where
  "demo_view r = (map normalizedUrl (cr_pages r), cr_skippedOverLimit r, cr_stoppedEarly r,
     (case buildCrawlSummary demo_world r ''http://a/'' None Basic 2 of
        Inl e \<Rightarrow> False
      | Inr summary \<Rightarrow> isFullCrawlCoverage summary))"

lemma demo_seen: "demo_view (demo_result 2 None) = ([''http://a/'', ''http://a/b''], [], False, True)"
  by code_simp

lemma demo_run:
  "map normalizedUrl (pages (execute (demo_ctx 2 None))) = [''http://a/'', ''http://a/b'']"
  "skippedOverLimit (execute (demo_ctx 2 None)) = []" "\<not> stoppedEarly (execute (demo_ctx 2 None))"
  using demo_seen by (simp_all add: demo_view_def demo_result_def crawl_result_def)

lemma demo_summary:
  obtains summary where
    "buildCrawlSummary demo_world (demo_result 2 None) ''http://a/'' None Basic 2 = Inr summary" "isFullCrawlCoverage summary"
  using demo_seen by (auto simp: demo_view_def split: sum.splits)

section \<open>A pause after the limit was reached\<close>

text \<open>
  With a limit of one page the second address is left over. The state that is kept over a pause is the one
  \<open>crawl-resume.ts\<close> builds from the result: its pages and its lists. The resumed crawl finds the same link again,
  lists the same address a second time, and counts three addresses where there are two.
\<close>

definition restored_from :: "CrawlResult \<Rightarrow> RestoredCrawlState" where
  "restored_from r = \<lparr> rs_pages = cr_pages r,
     rs_coverage = \<lparr> rv_skippedOverLimit = cr_skippedOverLimit r, rv_blockedByRobots = cr_blockedByRobots r, rv_errors = cr_errors r,
       rv_rejectedSeeds = cr_rejectedSeeds r, rv_urlVariants = cr_urlVariants r \<rparr>,
     rs_resources = Some (cr_resources r) \<rparr>"

definition demo_counts :: "CrawlResult \<Rightarrow> string list \<times> nat" where
  "demo_counts r = (cr_skippedOverLimit r, cc_urlsDiscovered (crawlCoverage r))"

definition demo_resumed :: "CrawlResult \<Rightarrow> (string list \<times> nat) \<times> (string list \<times> nat)" where
  "demo_resumed r = (demo_counts r, demo_counts (demo_result 1 (Some (restored_from r))))"

lemma resumed_crawl_counts_twice:
  "demo_resumed (demo_result 1 None) = (([''http://a/b''], 2), ([''http://a/b'', ''http://a/b''], 3))"
  by code_simp

end
