(* ===== verification/CrawlSafe.thy ===== *)
theory CrawlSafe
  imports CrawlSteps CrawlDemo "HOL-Library.Sublist" "HOL-Library.Multiset"
begin

text \<open>
  What a crawl promises: it asks only for what the scope, the depth limit and robots.txt allow, and reads each robots.txt
  once (\<open>polite\<close>); it asks for no page twice, for none of the restored ones, and for no more than the limit (\<open>ledger\<close>).
\<close>

lemma restore_page_simps [simp]:
  "queue (restore_page cx p s) = queue s" "requests (restore_page cx p s) = requests s"
  "robotsByHost (restore_page cx p s) = robotsByHost s" "pages (restore_page cx p s) = pages s @ [p]"
  "skippedOverLimit (restore_page cx p s) = skippedOverLimit s" "blockedByRobots (restore_page cx p s) = blockedByRobots s"
  "stoppedEarly (restore_page cx p s) = stoppedEarly s" "normalizedUrl p \<in> seen (restore_page cx p s)" "x \<in> seen s \<Longrightarrow> x \<in> seen (restore_page cx p s)"
  by (auto simp: restore_page_def markFinalUrlSeen_def Let_def split: option.split PageRendering.split)

lemma restore_pages:
  "queue (fold (restore_page cx) ps s) = queue s \<and> requests (fold (restore_page cx) ps s) = requests s
   \<and> robotsByHost (fold (restore_page cx) ps s) = robotsByHost s \<and> pages (fold (restore_page cx) ps s) = pages s @ ps
   \<and> skippedOverLimit (fold (restore_page cx) ps s) = skippedOverLimit s
   \<and> blockedByRobots (fold (restore_page cx) ps s) = blockedByRobots s
   \<and> stoppedEarly (fold (restore_page cx) ps s) = stoppedEarly s
   \<and> seen s \<union> normalizedUrl ` set ps \<subseteq> seen (fold (restore_page cx) ps s)"
proof (induction ps arbitrary: s)
  case (Cons p ps)
  from Cons.IH [of "restore_page cx p s"] show ?case by (auto 0 3)
qed simp

lemma restore_variants:
  "visible (fold (\<lambda>(n, vs). fold (recordVariant n) vs) known s) = visible s"
proof -
  have "visible (fold (recordVariant n) vs s) = visible s" for n vs and s :: crawl_run
    by (induction vs arbitrary: s) auto
  then show ?thesis by (induction known arbitrary: s) auto
qed

definition restored_pages :: "crawl_ctx \<Rightarrow> PageSnapshot list" where
  "restored_pages cx = (case op_restored (cx_options cx) of None \<Rightarrow> [] | Some r \<Rightarrow> rs_pages r)"

definition restored_skipped :: "crawl_ctx \<Rightarrow> string list" where
  "restored_skipped cx = (case op_restored (cx_options cx) of None \<Rightarrow> [] | Some r \<Rightarrow> rv_skippedOverLimit (rs_coverage r))"

definition restored_refused :: "crawl_ctx \<Rightarrow> string list" where
  "restored_refused cx = (case op_restored (cx_options cx) of None \<Rightarrow> [] | Some r \<Rightarrow> rv_blockedByRobots (rs_coverage r))"

lemma restored_start:
  fixes cx
  defines "s \<equiv> restorePreviousAttempt cx new_run"
  shows "queue s = []" "requests s = []" "robotsByHost s = Map.empty" "pages s = restored_pages cx"
    "skippedOverLimit s = restored_skipped cx" "blockedByRobots s = restored_refused cx"
    "normalizedUrl ` set (restored_pages cx) \<subseteq> seen s" "\<not> stoppedEarly s"
proof -
  have "queue s = [] \<and> requests s = [] \<and> robotsByHost s = Map.empty \<and> pages s = restored_pages cx
    \<and> skippedOverLimit s = restored_skipped cx \<and> blockedByRobots s = restored_refused cx
    \<and> normalizedUrl ` set (restored_pages cx) \<subseteq> seen s \<and> \<not> stoppedEarly s"
  proof (cases "op_restored (cx_options cx)")
    case None
    then show ?thesis
      by (simp add: s_def restorePreviousAttempt_def new_run_def restored_pages_def restored_skipped_def restored_refused_def)
  next
    case (Some r)
    let ?s1 = "fold (restore_page cx) (rs_pages r) new_run"
    note f = restore_pages [of cx "rs_pages r" new_run]
    show ?thesis
      using f restore_variants [of "rv_urlVariants (rs_coverage r)"]
      by (simp add: s_def restorePreviousAttempt_def Some visible_def new_run_def restored_pages_def restored_skipped_def
          restored_refused_def Let_def)
  qed
  then show "queue s = []" "requests s = []" "robotsByHost s = Map.empty" "pages s = restored_pages cx"
    "skippedOverLimit s = restored_skipped cx" "blockedByRobots s = restored_refused cx"
    "normalizedUrl ` set (restored_pages cx) \<subseteq> seen s" "\<not> stoppedEarly s" by auto
qed

section \<open>Only what is allowed\<close>

definition entry_ok :: "crawl_ctx \<Rightarrow> QueueEntry \<Rightarrow> bool" where
  "entry_ok cx e \<longleftrightarrow> host_in_scope cx (q_parsed e) \<and> path_in_scope cx (q_parsed e) \<and> \<not> too_deep cx (q_depth e)
     \<and> q_rawUrl e = href (q_parsed e)"

fun request_ok :: "crawl_ctx \<Rightarrow> (string \<Rightarrow> RobotsTxt option option) \<Rightarrow> crawl_request \<Rightarrow> bool" where
  "request_ok cx known (PageRequest e) \<longleftrightarrow> entry_ok cx e \<and> may_ask cx known (q_parsed e)"
| "request_ok cx known (RobotsRequest t) \<longleftrightarrow> (\<exists>host. t = host @ ''/robots.txt'' \<and> known host \<noteq> None)"
| "request_ok cx known (SitemapRequest t) \<longleftrightarrow> isSitemapInScope cx t"
| "request_ok cx known (ProbeRequest m t) \<longleftrightarrow> (\<exists>u. t = href u \<and> host_in_scope cx u \<and> may_ask cx known u)"

fun robots_key :: "crawl_request \<Rightarrow> string option" where
  "robots_key (RobotsRequest t) = Some t"
| "robots_key _ = None"

definition polite :: "crawl_ctx \<Rightarrow> crawl_run \<Rightarrow> bool" where
  "polite cx s \<longleftrightarrow> list_all (entry_ok cx) (queue s) \<and> list_all (request_ok cx (robotsByHost s)) (requests s)
     \<and> distinct (List.map_filter robots_key (requests s))"

lemma request_ok_mono:
  assumes "request_ok cx known r" "known \<subseteq>\<^sub>m known'"
  shows "request_ok cx known' r"
proof (cases r)
  case (RobotsRequest t)
  with assms show ?thesis by (auto simp: map_le_def dom_def)
qed (use assms may_ask_mono [OF _ assms(2)] in auto)

lemma polite_cong:
  "queue s' = queue s \<Longrightarrow> requests s' = requests s \<Longrightarrow> robotsByHost s' = robotsByHost s \<Longrightarrow> polite cx s' = polite cx s"
  by (simp add: polite_def list_all_iff)

lemma polite_request:
  assumes "polite cx s" "request_ok cx (robotsByHost s) r" "robots_key r = None"
  shows "polite cx (snd (request cx r t s))"
  using assms by (simp add: polite_def list_all_iff map_filter_def)

lemma polite_enqueue:
  assumes "polite cx s"
  shows "polite cx (enqueue cx raw d s)"
  using assms
  by (cases rule: enqueue_cases [of cx raw d s])
    (auto simp: polite_def list_all_iff entry_ok_def dest: candidate_in_scope)

lemma polite_fetched:
  assumes "polite cx s" "robotsByHost s host = None" "s1 = s \<or> s1 = snd (request cx (RobotsRequest (host @ ''/robots.txt'')) t s)"
    "robotsByHost s2 = (robotsByHost s1)(host \<mapsto> r)" "queue s2 = queue s1" "requests s2 = requests s1"
  shows "polite cx s2"
proof -
  have r: "robotsByHost s2 = (robotsByHost s)(host \<mapsto> r)" using assms(3,4) by auto
  have le: "robotsByHost s \<subseteq>\<^sub>m robotsByHost s2" unfolding r using assms(2) by (rule map_le_upd_new)
  have old: "list_all (request_ok cx (robotsByHost s2)) (requests s)"
    using assms(1) request_ok_mono [OF _ le] by (simp add: polite_def list_all_iff)
  have new: "host @ ''/robots.txt'' \<notin> set (List.map_filter robots_key (requests s))"
  proof
    assume "host @ ''/robots.txt'' \<in> set (List.map_filter robots_key (requests s))"
    then obtain q where q: "q \<in> set (requests s)" "robots_key q = Some (host @ ''/robots.txt'')"
      by (auto simp: map_filter_def)
    have "q = RobotsRequest (host @ ''/robots.txt'')" using q(2) by (cases q rule: crawl_request.exhaust) auto
    with q assms(1,2) show False by (auto simp: polite_def list_all_iff)
  qed
  show ?thesis
    using assms old new r by (auto simp: polite_def list_all_iff map_filter_def)
qed

lemma polite_forHost:
  assumes "polite cx s"
  shows "polite cx (snd (forHost cx host s))"
proof (cases "robotsByHost s host")
  case None
  let ?t = "host @ ''/robots.txt''"
  obtain reply s1 where f: "fetchThrottled cx (RobotsRequest ?t) ?t s = (reply, s1)" by fastforce
  then have s1: "s1 = s \<or> s1 = snd (request cx (RobotsRequest ?t) ?t s)" by (cases rule: fetchThrottled_cases) auto
  note fetched = polite_fetched [OF assms None s1]
  show ?thesis
    using None f by (cases reply) (auto simp: forHost_def Let_def intro!: fetched)
qed (use assms in \<open>simp add: forHost_def\<close>)

lemma polite_background: "background cx s s' \<Longrightarrow> polite cx s \<Longrightarrow> polite cx s'"
proof (induction rule: background.induct)
  case (background_quiet s s1 s2)
  then show ?case using polite_cong [of s2 s1] by (simp add: visible_def)
qed (auto intro: polite_forHost)

lemma polite_with_links: "polite cx s \<Longrightarrow> polite cx (with_links cx p s)"
proof -
  assume "polite cx s"
  then have m: "polite cx (markFinalUrlSeen cx (finalUrl p) s)"
    using polite_cong [of "markFinalUrlSeen cx (finalUrl p) s" s] by (simp add: markFinalUrlSeen_def split: option.split)
  have "polite cx (enqueue_all cx d links (markFinalUrlSeen cx (finalUrl p) s))" for d links
    unfolding enqueue_all_def using m by (rule fold_inv) (rule polite_enqueue)
  with m show ?thesis by (simp add: with_links_def enqueue_links_def split: option.split)
qed

lemma polite_process:
  assumes "polite cx s" "queue s = e # rest"
  shows "polite cx (processEntry cx e (s\<lparr> queue := rest \<rparr>))"
proof -
  let ?s = "s\<lparr> queue := rest \<rparr>"
  have e: "entry_ok cx e" and p: "polite cx ?s"
    using assms by (auto simp: polite_def list_all_iff)
  show ?thesis
  proof (cases rule: processEntry_cases [of cx ?s e])
    case (refused s1)
    then show ?thesis using polite_background [OF refused(1) p] by (simp add: polite_def)
  next
    case (over s1)
    then show ?thesis using polite_background [OF over(1) p] by (simp add: polite_def)
  next
    case (host_stopped s1 reason)
    then show ?thesis using polite_background [OF host_stopped(1) p] by (simp add: polite_def)
  next
    case (cancelled s1)
    then show ?thesis using polite_background [OF cancelled(1) p] e by (simp add: polite_request)
  next
    case (failed s1 s2 pg reason)
    have "polite cx (snd (request cx (PageRequest e) (q_rawUrl e) s1))"
      using polite_background [OF failed(1) p] e failed(2) by (simp add: polite_request)
    from polite_background [OF failed(5) this] show ?thesis by (simp add: failed(8) polite_def)
  next
    case (read s1 s2 pg)
    have "polite cx (snd (request cx (PageRequest e) (q_rawUrl e) s1))"
      using polite_background [OF read(1) p] e read(2) by (simp add: polite_request)
    from polite_background [OF read(5) this] have "polite cx (with_page e pg s2)" by (simp add: polite_def)
    then show ?thesis by (simp add: read(8) polite_with_links)
  qed
qed

interpretation polite: crawl_invariant cx "polite cx" for cx
proof
  fix s s1 s' raw d host t u m e rest us
  show "polite cx s \<Longrightarrow> polite cx (s\<lparr> stoppedEarly := True \<rparr>)" by (simp add: polite_def)
  show "polite cx s \<Longrightarrow> polite cx (s\<lparr> sitemapUrls := us \<rparr>)" by (simp add: polite_def)
  show "polite cx s \<Longrightarrow> visible s' = visible s \<Longrightarrow> clock s \<le> clock s' \<Longrightarrow> polite cx s'"
    using polite_cong [of s' s] by (simp add: visible_def)
  show "polite cx s \<Longrightarrow> polite cx (enqueue cx raw d s)" by (rule polite_enqueue)
  show "polite cx s \<Longrightarrow> polite cx (snd (forHost cx host s))" by (rule polite_forHost)
  show "polite cx s \<Longrightarrow> isSitemapInScope cx t \<Longrightarrow> polite cx (snd (request cx (SitemapRequest t) t s))"
    by (rule polite_request) simp_all
  show "polite cx s \<Longrightarrow> host_in_scope cx u \<Longrightarrow> may_ask cx (robotsByHost s) u \<Longrightarrow> polite cx (snd (request cx (ProbeRequest m (href u)) (href u) s))"
    by (rule polite_request) auto
  assume p: "polite cx s" and st: "shouldStop cx s = (False, s1)" and q: "queue s1 = e # rest"
  have "polite cx s1" using p st by (auto simp: shouldStop_def polite_def)
  then show "polite cx (processEntry cx e (s1\<lparr> queue := rest \<rparr>))" using q by (rule polite_process)
qed

lemma polite_start: "polite cx (restorePreviousAttempt cx new_run)"
  by (simp add: polite_def restored_start map_filter_def)


section \<open>No page twice, and no more than the limit\<close>

text \<open>The addresses this run has taken up: asked for, left over the limit, refused by robots.txt, or still waiting.\<close>

definition newly_skipped :: "crawl_ctx \<Rightarrow> crawl_run \<Rightarrow> string list" where
  "newly_skipped cx s = drop (length (restored_skipped cx)) (skippedOverLimit s)"

definition newly_refused :: "crawl_ctx \<Rightarrow> crawl_run \<Rightarrow> string list" where
  "newly_refused cx s = drop (length (restored_refused cx)) (blockedByRobots s)"

definition taken :: "crawl_ctx \<Rightarrow> crawl_run \<Rightarrow> string list" where
  "taken cx s = asked s @ newly_skipped cx s @ newly_refused cx s @ map q_normalized (queue s)"

definition page_limit :: "crawl_ctx \<Rightarrow> nat" where
  "page_limit cx = nat \<lceil>sc_maxPages (cx_scope cx)\<rceil>"

text \<open>Once aborted, the signal of a crawl stays aborted.\<close>

definition steady :: "crawl_ctx \<Rightarrow> bool" where
  "steady cx \<longleftrightarrow> (\<forall>m n. m \<le> n \<longrightarrow> cw_aborted (cx_world cx) m \<longrightarrow> cw_aborted (cx_world cx) n)"

definition grown :: "crawl_ctx \<Rightarrow> crawl_run \<Rightarrow> bool" where
  "grown cx s \<longleftrightarrow> length (restored_skipped cx) \<le> length (skippedOverLimit s) \<and> length (restored_refused cx) \<le> length (blockedByRobots s)"

definition unique :: "crawl_ctx \<Rightarrow> crawl_run \<Rightarrow> bool" where
  "unique cx s \<longleftrightarrow> grown cx s \<and> distinct (taken cx s) \<and> set (taken cx s) \<subseteq> seen s
     \<and> set (taken cx s) \<inter> normalizedUrl ` set (restored_pages cx) = {} \<and> normalizedUrl ` set (restored_pages cx) \<subseteq> seen s"

text \<open>
  The pages of this run answer its requests in order; an abort may leave one request without a page.
\<close>

definition booked :: "crawl_ctx \<Rightarrow> crawl_run \<Rightarrow> bool" where
  "booked cx s \<longleftrightarrow>
     take (length (restored_pages cx)) (pages s) = restored_pages cx
     \<and> subseq (map normalizedUrl (drop (length (restored_pages cx)) (pages s))) (asked s)
     \<and> length (restored_pages cx) \<le> length (pages s) \<and> length (pages s) \<le> max (length (restored_pages cx)) (page_limit cx)
     \<and> (steady cx \<longrightarrow> asked s = [] \<or> length (restored_pages cx) + length (asked s) \<le> page_limit cx)
     \<and> (steady cx \<longrightarrow> \<not> cw_aborted (cx_world cx) (clock s) \<longrightarrow> length (restored_pages cx) + length (asked s) = length (pages s))"

lemma taken_cong:
  "asked s' = asked s \<Longrightarrow> skippedOverLimit s' = skippedOverLimit s \<Longrightarrow> blockedByRobots s' = blockedByRobots s
   \<Longrightarrow> queue s' = queue s \<Longrightarrow> taken cx s' = taken cx s"
  by (simp add: taken_def newly_skipped_def newly_refused_def)

lemma unique_extends: "unique cx s \<Longrightarrow> extends s s' \<Longrightarrow> unique cx s'"
  using taken_cong [of s' s cx] by (simp add: unique_def extends_def grown_def)

lemma booked_extends: "booked cx s \<Longrightarrow> extends s s' \<Longrightarrow> booked cx s'"
  by (auto simp: booked_def extends_def steady_def)

lemma page_limit_less: "of_nat n < sc_maxPages (cx_scope cx) \<Longrightarrow> n < page_limit cx"
  by (simp add: page_limit_def less_ceiling_iff zless_nat_eq_int_zless)

text \<open>An entry moves from the queue to one of the other lists; of the taken addresses none changes.\<close>

lemma unique_moved:
  assumes "unique cx s" "mset (taken cx s') \<subseteq># mset (taken cx s)" "seen s \<subseteq> seen s'" "grown cx s'"
  shows "unique cx s'"
proof -
  have "set (taken cx s') \<subseteq> set (taken cx s)" using set_mset_mono [OF assms(2)] by simp
  moreover have "distinct (taken cx s')"
    using assms(1,2) unfolding unique_def distinct_count_atmost_1
    by (metis count_greater_zero_iff mset_subset_eqD mset_subset_eq_count le_antisym less_one linorder_not_less set_mset_mset gr0I not_gr0)
  ultimately show ?thesis using assms by (auto simp: unique_def)
qed

lemma unique_enqueue:
  assumes "unique cx s"
  shows "unique cx (enqueue cx raw d s)"
proof (cases rule: enqueue_cases [of cx raw d s])
  case (known r n u)
  then show ?thesis using unique_extends [OF assms visible_extends [of "recordVariant n r s" s]] by simp
next
  case (deep r n u)
  then show ?thesis using assms by (auto simp: unique_def grown_def taken_def newly_skipped_def newly_refused_def asked_def)
next
  case (fresh r n u)
  then have "taken cx (enqueue cx raw d s) = taken cx s @ [n]" "seen (enqueue cx raw d s) = insert n (seen s)"
    "grown cx (enqueue cx raw d s) = grown cx s"
    by (simp_all add: taken_def newly_skipped_def newly_refused_def grown_def asked_def)
  then show ?thesis using assms fresh(2) by (auto simp: unique_def)
qed (use assms in simp)

lemma unique_with_links:
  assumes "unique cx s"
  shows "unique cx (with_links cx p s)"
proof -
  have m: "unique cx (markFinalUrlSeen cx (finalUrl p) s)"
    using assms by (auto simp: markFinalUrlSeen_def unique_def grown_def taken_def newly_skipped_def newly_refused_def asked_def
        split: option.split)
  have "unique cx (enqueue_all cx d links (markFinalUrlSeen cx (finalUrl p) s))" for d links
    unfolding enqueue_all_def using m by (rule fold_inv) (rule unique_enqueue)
  with m show ?thesis by (simp add: with_links_def enqueue_links_def split: option.split)
qed

lemma asked_request [simp]:
  "asked (snd (request cx r t s)) = asked s @ (case asked_key r of None \<Rightarrow> [] | Some n \<Rightarrow> [n])"
  by (simp add: asked_def map_filter_def split: option.split)

lemma taken_queue: "queue s = e # rest \<Longrightarrow> mset (taken cx s) = add_mset (q_normalized e) (mset (taken cx (s\<lparr> queue := rest \<rparr>)))"
  by (simp add: taken_def newly_skipped_def newly_refused_def asked_def)

lemma grown_append [simp]:
  "grown cx s \<Longrightarrow> newly_skipped cx (s\<lparr> skippedOverLimit := skippedOverLimit s @ xs \<rparr>) = newly_skipped cx s @ xs"
  "grown cx s \<Longrightarrow> newly_refused cx (s\<lparr> blockedByRobots := blockedByRobots s @ xs \<rparr>) = newly_refused cx s @ xs"
  by (simp_all add: newly_skipped_def newly_refused_def grown_def)

lemma taken_moves:
  "grown cx s \<Longrightarrow> mset (taken cx (s\<lparr> blockedByRobots := blockedByRobots s @ [n] \<rparr>)) = add_mset n (mset (taken cx s))"
  "grown cx s \<Longrightarrow> mset (taken cx (s\<lparr> skippedOverLimit := skippedOverLimit s @ [n] \<rparr>)) = add_mset n (mset (taken cx s))"
  by (simp_all add: taken_def newly_skipped_def newly_refused_def grown_def asked_def)

lemma taken_with_page: "taken cx (with_page e p s) = taken cx s"
  by (rule taken_cong) simp_all

lemma unique_process:
  assumes "unique cx s" "queue s = e # rest"
  shows "unique cx (processEntry cx e (s\<lparr> queue := rest \<rparr>))"
proof -
  let ?s = "s\<lparr> queue := rest \<rparr>" and ?r = "processEntry cx e (s\<lparr> queue := rest \<rparr>)"
  have g: "grown cx ?s" using assms(1) by (simp add: unique_def grown_def)
  have moved: "unique cx s'" if "mset (taken cx s') \<subseteq># add_mset (q_normalized e) (mset (taken cx ?s))" "seen ?s \<subseteq> seen s'" "grown cx s'" for s'
    using unique_moved [OF assms(1)] taken_queue [OF assms(2)] that by simp
  have same: "taken cx s1 = taken cx ?s \<and> seen s1 = seen ?s \<and> grown cx s1" if "background cx ?s s1" for s1
    using background_extends [OF that] g by (auto simp: extends_def grown_def intro: taken_cong)
  have asked: "mset (taken cx s2) = add_mset (q_normalized e) (mset (taken cx s1)) \<and> seen s2 = seen s1 \<and> grown cx s2 = grown cx s1"
    if "background cx (snd (request cx (PageRequest e) t s1)) s2" for t s1 s2
    using background_extends [OF that]
    by (simp add: extends_def taken_def newly_skipped_def newly_refused_def grown_def)
  show ?thesis
  proof (cases rule: processEntry_cases [of cx ?s e])
    case (refused s1)
    then show ?thesis using same [OF refused(1)]
      by (intro moved) (auto simp: taken_moves grown_def)
  next
    case (over s1)
    then show ?thesis using same [OF over(1)]
      by (intro moved) (auto simp: taken_moves grown_def)
  next
    case (host_stopped s1 reason)
    then show ?thesis using same [OF host_stopped(1)] taken_cong [of "processEntry cx e ?s" s1 cx]
      by (intro moved) (auto simp: grown_def)
  next
    case (cancelled s1)
    then show ?thesis using same [OF cancelled(1)] asked [OF background_refl, of "q_rawUrl e" s1]
      by (intro moved) auto
  next
    case (failed s1 s2 pg reason)
    have "unique cx (with_page e pg s2)"
      using same [OF failed(1)] asked [OF failed(5)]
      by (intro moved) (auto simp: taken_with_page grown_def)
    then show ?thesis unfolding failed(8) by (rule unique_extends) (auto simp: extends_def)
  next
    case (read s1 s2 pg)
    have "unique cx (with_page e pg s2)"
      using same [OF read(1)] asked [OF read(5)]
      by (intro moved) (auto simp: taken_with_page grown_def)
    then show ?thesis unfolding read(8) by (rule unique_with_links)
  qed
qed

lemma booked_enqueue: "booked cx s \<Longrightarrow> booked cx (enqueue cx raw d s)"
  by (cases rule: enqueue_cases [of cx raw d s]) (auto simp: booked_def asked_def)

lemma booked_with_links:
  assumes "booked cx s"
  shows "booked cx (with_links cx p s)"
proof -
  have m: "booked cx (markFinalUrlSeen cx (finalUrl p) s)"
    using assms by (auto simp: markFinalUrlSeen_def booked_def asked_def split: option.split)
  have "booked cx (enqueue_all cx d links (markFinalUrlSeen cx (finalUrl p) s))" for d links
    unfolding enqueue_all_def using m by (rule fold_inv) (rule booked_enqueue)
  with m show ?thesis by (simp add: with_links_def enqueue_links_def split: option.split)
qed

lemma booked_page:
  assumes "booked cx s1" "\<not> cw_aborted (cx_world cx) c" "c \<le> clock s1" "length (pages s1) < page_limit cx"
    "steady cx \<longrightarrow> length (restored_pages cx) + length (asked s1) = length (pages s1)"
    "background cx (snd (request cx (PageRequest e) t s1)) s2" "page_of e p"
  shows "booked cx (with_page e p s2)"
proof -
  have "asked s2 = asked s1 @ [q_normalized e]" "pages s2 = pages s1"
    using background_extends [OF assms(6)] by (simp_all add: extends_def)
  with assms(1,4,5,7) show ?thesis by (auto simp: booked_def page_of_def)
qed

lemma booked_process:
  assumes "booked cx s" "\<not> cw_aborted (cx_world cx) (clock s)" "queue s = e # rest"
  shows "booked cx (processEntry cx e (s\<lparr> clock := clock s + 1, queue := rest \<rparr>))"
proof -
  let ?s = "s\<lparr> clock := clock s + 1, queue := rest \<rparr>"
  have b: "booked cx ?s" using assms(1,2) by (auto simp: booked_def asked_def)
  have eq: "steady cx \<longrightarrow> length (restored_pages cx) + length (asked ?s) = length (pages ?s)"
    using assms(1,2) by (simp add: booked_def asked_def)
  have same: "booked cx s1 \<and> clock s \<le> clock s1 \<and> (steady cx \<longrightarrow> length (restored_pages cx) + length (asked s1) = length (pages s1))"
    if "background cx ?s s1" for s1
    using background_extends [OF that] booked_extends [OF b] eq by (auto simp: extends_def)
  show ?thesis
  proof (cases rule: processEntry_cases [of cx ?s e])
    case (refused s1)
    then show ?thesis using same [OF refused(1)] by (auto simp: booked_def asked_def)
  next
    case (over s1)
    then show ?thesis using same [OF over(1)] by (auto simp: booked_def asked_def)
  next
    case (host_stopped s1 reason)
    have "booked cx s1" using same [OF host_stopped(1)] by simp
    then show ?thesis unfolding host_stopped(3) by (rule booked_extends) (auto simp: extends_def)
  next
    case (cancelled s1)
    have "length (pages s1) < page_limit cx" using cancelled(3) by (rule page_limit_less)
    moreover have "cw_aborted (cx_world cx) (Suc (clock s1))"
      using cancelled(5,6) by (simp add: isCancelled_def)
    ultimately show ?thesis using same [OF cancelled(1)] unfolding cancelled(5)
      by (auto simp: booked_def intro: subseq_order.order_trans)
  next
    case (failed s1 s2 pg reason)
    have "booked cx (with_page e pg s2)"
      using same [OF failed(1)] by (intro booked_page [OF _ assms(2) _ page_limit_less [OF failed(3)] _ failed(5,6)]) auto
    then show ?thesis unfolding failed(8) by (simp add: booked_def)
  next
    case (read s1 s2 pg)
    have "booked cx (with_page e pg s2)"
      using same [OF read(1)] by (intro booked_page [OF _ assms(2) _ page_limit_less [OF read(3)] _ read(5,6)]) auto
    then show ?thesis unfolding read(8) by (rule booked_with_links)
  qed
qed

interpretation unique: crawl_invariant cx "unique cx" for cx
proof
  fix s s1 s' raw d host t u m e rest us
  show "unique cx s \<Longrightarrow> unique cx (s\<lparr> stoppedEarly := True \<rparr>)" by (simp add: unique_def grown_def taken_def newly_skipped_def newly_refused_def asked_def)
  show "unique cx s \<Longrightarrow> unique cx (s\<lparr> sitemapUrls := us \<rparr>)" by (simp add: unique_def grown_def taken_def newly_skipped_def newly_refused_def asked_def)
  show "unique cx s \<Longrightarrow> visible s' = visible s \<Longrightarrow> clock s \<le> clock s' \<Longrightarrow> unique cx s'"
    by (blast intro: unique_extends visible_extends)
  show "unique cx s \<Longrightarrow> unique cx (enqueue cx raw d s)" by (rule unique_enqueue)
  show "unique cx s \<Longrightarrow> unique cx (snd (forHost cx host s))" by (blast intro: unique_extends forHost_extends)
  show "unique cx s \<Longrightarrow> isSitemapInScope cx t \<Longrightarrow> unique cx (snd (request cx (SitemapRequest t) t s))"
    by (erule unique_extends, rule request_extends, simp)
  show "unique cx s \<Longrightarrow> host_in_scope cx u \<Longrightarrow> may_ask cx (robotsByHost s) u \<Longrightarrow> unique cx (snd (request cx (ProbeRequest m (href u)) (href u) s))"
    by (erule unique_extends, rule request_extends, simp)
  assume p: "unique cx s" and st: "shouldStop cx s = (False, s1)" and q: "queue s1 = e # rest"
  have "unique cx s1" using p background_extends [OF shouldStop_background [OF st]] by (rule unique_extends)
  then show "unique cx (processEntry cx e (s1\<lparr> queue := rest \<rparr>))" using q by (rule unique_process)
qed

interpretation booked: crawl_invariant cx "booked cx" for cx
proof
  fix s s1 s' raw d host t u m e rest us
  show "booked cx s \<Longrightarrow> booked cx (s\<lparr> stoppedEarly := True \<rparr>)" by (simp add: booked_def asked_def)
  show "booked cx s \<Longrightarrow> booked cx (s\<lparr> sitemapUrls := us \<rparr>)" by (simp add: booked_def asked_def)
  show "booked cx s \<Longrightarrow> visible s' = visible s \<Longrightarrow> clock s \<le> clock s' \<Longrightarrow> booked cx s'"
    by (blast intro: booked_extends visible_extends)
  show "booked cx s \<Longrightarrow> booked cx (enqueue cx raw d s)" by (rule booked_enqueue)
  show "booked cx s \<Longrightarrow> booked cx (snd (forHost cx host s))" by (blast intro: booked_extends forHost_extends)
  show "booked cx s \<Longrightarrow> isSitemapInScope cx t \<Longrightarrow> booked cx (snd (request cx (SitemapRequest t) t s))"
    by (erule booked_extends, rule request_extends, simp)
  show "booked cx s \<Longrightarrow> host_in_scope cx u \<Longrightarrow> may_ask cx (robotsByHost s) u \<Longrightarrow> booked cx (snd (request cx (ProbeRequest m (href u)) (href u) s))"
    by (erule booked_extends, rule request_extends, simp)
  assume p: "booked cx s" and st: "shouldStop cx s = (False, s1)" and q: "queue s1 = e # rest"
  have "s1 = s\<lparr> clock := clock s + 1 \<rparr>" "\<not> cw_aborted (cx_world cx) (clock s)"
    using st by (auto simp: shouldStop_def isCancelled_def)
  then show "booked cx (processEntry cx e (s1\<lparr> queue := rest \<rparr>))" using booked_process [OF p _, of e rest] q by simp
qed

lemma unique_start: "unique cx (restorePreviousAttempt cx new_run)"
  by (simp add: unique_def grown_def taken_def newly_skipped_def newly_refused_def restored_start asked_def map_filter_def)

lemma booked_start: "booked cx (restorePreviousAttempt cx new_run)"
  by (simp add: booked_def restored_start asked_def map_filter_def)

lemmas unique_run = unique.execute_inv [OF unique_start]
lemmas booked_run = booked.execute_inv [OF booked_start]

lemma demo_steady: "steady (demo_ctx n restored)"
  by (simp add: steady_def)

lemma subseq_set_distinct:
  assumes "subseq xs ys"
  shows "set xs \<subseteq> set ys" and "distinct ys \<Longrightarrow> distinct xs"
  using assms by (induction rule: list_emb.induct) auto

text \<open>
  C17: no address is asked for twice and none of a page of the interrupted attempt; a run asks for no more pages than the
  limit leaves after the restored ones, and ends with no more pages than the limit (or than it was given). An abort signal
  stays aborted, which is what \<open>steady\<close> says.
\<close>

theorem crawl_bounded:
  assumes "steady cx"
  shows "distinct (asked (execute cx)) \<and> set (asked (execute cx)) \<inter> normalizedUrl ` set (restored_pages cx) = {}
    \<and> length (asked (execute cx)) \<le> page_limit cx - length (restored_pages cx)
    \<and> length (pages (execute cx)) \<le> max (length (restored_pages cx)) (page_limit cx)"
proof -
  let ?s = "execute cx" and ?r = "length (restored_pages cx)"
  have "distinct (taken cx ?s)" "set (taken cx ?s) \<inter> normalizedUrl ` set (restored_pages cx) = {}"
    using unique_run [of cx] by (simp_all add: unique_def)
  then have "distinct (asked ?s)" "set (asked ?s) \<inter> normalizedUrl ` set (restored_pages cx) = {}"
    by (auto simp: taken_def)
  moreover have "length (pages ?s) \<le> max ?r (page_limit cx)" "asked ?s = [] \<or> ?r + length (asked ?s) \<le> page_limit cx"
    using booked_run [of cx] assms by (simp_all add: booked_def)
  ultimately show ?thesis by auto
qed

lemma crawl_bounded_witness:
  "length (asked (execute (demo_ctx 2 None))) \<le> 2 \<and> distinct (asked (execute (demo_ctx 2 None)))"
  using crawl_bounded [OF demo_steady [of 2 None]] by (simp add: page_limit_def restored_pages_def)

lemma distinct_lists:
  assumes "op_restored (cx_options cx) = None"
  shows "distinct (map normalizedUrl (pages (execute cx)) @ skippedOverLimit (execute cx) @ blockedByRobots (execute cx)
    @ map q_normalized (queue (execute cx)))"
proof -
  let ?s = "execute cx"
  have r: "restored_pages cx = []" "restored_skipped cx = []" "restored_refused cx = []"
    using assms by (simp_all add: restored_pages_def restored_skipped_def restored_refused_def)
  let ?rest = "skippedOverLimit ?s @ blockedByRobots ?s @ map q_normalized (queue ?s)"
  have "subseq (map normalizedUrl (pages ?s)) (asked ?s)" using booked_run [of cx] by (simp add: booked_def r)
  then have "subseq (map normalizedUrl (pages ?s) @ ?rest) (asked ?s @ ?rest)" by (rule list_emb_append_mono) simp
  moreover have "distinct (asked ?s @ ?rest)"
    using unique_run [of cx] by (simp add: unique_def taken_def newly_skipped_def newly_refused_def r)
  ultimately show ?thesis by (metis subseq_set_distinct(2) append.assoc)
qed

text \<open>
  C31: in a crawl that was not resumed, an address is listed once: as a page, as left over the limit, as refused by robots.txt
  or as still waiting, and never as two of these.
\<close>

theorem crawl_no_duplicates:
  assumes "op_restored (cx_options cx) = None"
  shows "distinct (map normalizedUrl (pages (execute cx)) @ skippedOverLimit (execute cx) @ blockedByRobots (execute cx)
    @ map q_normalized (queue (execute cx)))"
  using assms by (rule distinct_lists)

lemma crawl_no_duplicates_witness:
  "map normalizedUrl (pages (execute (demo_ctx 2 None))) = [''http://a/'', ''http://a/b'']
   \<and> distinct (skippedOverLimit (execute (demo_ctx 2 None)) @ blockedByRobots (execute (demo_ctx 2 None)))"
  using crawl_no_duplicates [of "demo_ctx 2 None"] demo_run by simp

section \<open>A host that keeps failing\<close>

definition hosts_ok :: "crawl_run \<Rightarrow> bool" where
  "hosts_ok s \<longleftrightarrow> (\<forall>host. consecutive5xx s host \<le> CONSECUTIVE_5XX_HOST_STOP
     \<and> (host \<in> stoppedHosts s \<longleftrightarrow> consecutive5xx s host = CONSECUTIVE_5XX_HOST_STOP))"

lemma hosts_ok_extends: "hosts_ok s \<Longrightarrow> extends s s' \<Longrightarrow> hosts_ok s'"
  by (simp add: hosts_ok_def extends_def)

lemma hosts_ok_cong: "hosts_ok s \<Longrightarrow> stoppedHosts s' = stoppedHosts s \<Longrightarrow> consecutive5xx s' = consecutive5xx s \<Longrightarrow> hosts_ok s'"
  by (simp add: hosts_ok_def)

lemma hosts_ok_enqueue: "hosts_ok s \<Longrightarrow> hosts_ok (enqueue cx raw d s)"
  by (cases rule: enqueue_cases [of cx raw d s]) (auto simp: hosts_ok_def)

lemma hosts_ok_with_page:
  assumes "hosts_ok s" "hostname (q_parsed e) \<notin> stoppedHosts s"
  shows "hosts_ok (with_page e p s)"
proof -
  have "consecutive5xx s (hostname (q_parsed e)) < CONSECUTIVE_5XX_HOST_STOP"
    using assms by (auto simp: hosts_ok_def le_less)
  with assms show ?thesis
    by (auto simp: with_page_def trackHostHealth_def hosts_ok_def Let_def CONSECUTIVE_5XX_HOST_STOP_def)
qed

lemma hosts_ok_with_links:
  assumes "hosts_ok s"
  shows "hosts_ok (with_links cx p s)"
proof -
  have m: "hosts_ok (markFinalUrlSeen cx (finalUrl p) s)"
    using assms by (simp add: markFinalUrlSeen_def hosts_ok_def split: option.split)
  have "hosts_ok (enqueue_all cx d links (markFinalUrlSeen cx (finalUrl p) s))" for d links
    unfolding enqueue_all_def using m by (rule fold_inv) (rule hosts_ok_enqueue)
  with m show ?thesis by (simp add: with_links_def enqueue_links_def split: option.split)
qed

lemma hosts_ok_process:
  assumes "hosts_ok s"
  shows "hosts_ok (processEntry cx e s)"
proof -
  have page: "hosts_ok (with_page e pg s2)"
    if "background cx s s1" "background cx (snd (request cx (PageRequest e) t s1)) s2" "hostname (q_parsed e) \<notin> stoppedHosts s1" for t s1 s2 pg
    using hosts_ok_with_page [of s2 e pg] assms that(3) background_extends [OF that(1)] background_extends [OF that(2)]
    by (simp add: hosts_ok_def extends_def)
  show ?thesis
  proof (cases rule: processEntry_cases [of cx s e])
    case (refused s1)
    with assms background_extends [OF refused(1)] show ?thesis by (simp add: hosts_ok_def extends_def)
  next
    case (over s1)
    with assms background_extends [OF over(1)] show ?thesis by (simp add: hosts_ok_def extends_def)
  next
    case (host_stopped s1 reason)
    with assms background_extends [OF host_stopped(1)] show ?thesis by (simp add: hosts_ok_def extends_def)
  next
    case (cancelled s1)
    with assms background_extends [OF cancelled(1)] show ?thesis by (simp add: hosts_ok_def extends_def)
  next
    case (failed s1 s2 pg reason)
    show ?thesis using page [OF failed(1,5,4)] unfolding failed(8) by (rule hosts_ok_cong) simp_all
  next
    case (read s1 s2 pg)
    show ?thesis using page [OF read(1,5,4)] unfolding read(8) by (rule hosts_ok_with_links)
  qed
qed

interpretation hosts: crawl_invariant cx hosts_ok for cx
proof
  fix s s1 s' raw d host t u m e rest us
  show "hosts_ok s \<Longrightarrow> hosts_ok (s\<lparr> stoppedEarly := True \<rparr>)" by (rule hosts_ok_cong) simp_all
  show "hosts_ok s \<Longrightarrow> hosts_ok (s\<lparr> sitemapUrls := us \<rparr>)" by (rule hosts_ok_cong) simp_all
  show "hosts_ok s \<Longrightarrow> visible s' = visible s \<Longrightarrow> clock s \<le> clock s' \<Longrightarrow> hosts_ok s'"
    by (blast intro: hosts_ok_extends visible_extends)
  show "hosts_ok s \<Longrightarrow> hosts_ok (enqueue cx raw d s)" by (rule hosts_ok_enqueue)
  show "hosts_ok s \<Longrightarrow> hosts_ok (snd (forHost cx host s))" by (blast intro: hosts_ok_extends forHost_extends)
  show "hosts_ok s \<Longrightarrow> isSitemapInScope cx t \<Longrightarrow> hosts_ok (snd (request cx (SitemapRequest t) t s))"
    by (erule hosts_ok_extends, rule request_extends, simp)
  show "hosts_ok s \<Longrightarrow> host_in_scope cx u \<Longrightarrow> may_ask cx (robotsByHost s) u \<Longrightarrow> hosts_ok (snd (request cx (ProbeRequest m (href u)) (href u) s))"
    by (erule hosts_ok_extends, rule request_extends, simp)
  assume "hosts_ok s" "shouldStop cx s = (False, s1)"
  then have "hosts_ok (s1\<lparr> queue := rest \<rparr>)" by (auto simp: shouldStop_def hosts_ok_def)
  then show "hosts_ok (processEntry cx e (s1\<lparr> queue := rest \<rparr>))" by (rule hosts_ok_process)
qed

lemma hosts_ok_start: "hosts_ok (restorePreviousAttempt cx new_run)"
proof -
  have page: "stoppedHosts (restore_page cx p s) = stoppedHosts s \<and> consecutive5xx (restore_page cx p s) = consecutive5xx s" for p s
    by (simp add: restore_page_def markFinalUrlSeen_def Let_def split: option.split PageRendering.split)
  have "stoppedHosts (fold (restore_page cx) ps s) = stoppedHosts s \<and> consecutive5xx (fold (restore_page cx) ps s) = consecutive5xx s" for ps s
    by (induction ps arbitrary: s) (simp_all add: page)
  then have "hosts_ok (restorePreviousAttempt cx new_run) = hosts_ok new_run"
    using restore_variants
    by (simp add: restorePreviousAttempt_def visible_def hosts_ok_def Let_def split: option.split)
  then show ?thesis by (simp add: hosts_ok_def new_run_def CONSECUTIVE_5XX_HOST_STOP_def)
qed


end
