(* ===== verification/CrawlComplete.thy ===== *)
theory CrawlComplete
  imports CrawlSafe
begin

text \<open>
  A crawl that ends by itself leaves no address without an answer: what it was offered at the start and every link of every
  page it read is a page, the target of a redirect, over the limit, refused by robots.txt, or among the errors.
\<close>

definition accounted :: "crawl_ctx \<Rightarrow> crawl_run \<Rightarrow> string set" where
  "accounted cx s = normalizedUrl ` set (pages s) \<union> {n. \<exists>p \<in> set (pages s). normalized_of cx (finalUrl p) = Some n}
     \<union> set (skippedOverLimit s) \<union> set (blockedByRobots s) \<union> err_url ` set (errors s)"

definition known_to :: "crawl_ctx \<Rightarrow> string set \<Rightarrow> string \<Rightarrow> bool" where
  "known_to cx known raw \<longleftrightarrow> (case candidate cx raw of None \<Rightarrow> True | Some (r, n, u) \<Rightarrow> n \<in> known)"

definition links_of :: "crawl_ctx \<Rightarrow> PageSnapshot \<Rightarrow> string list" where
  "links_of cx p =
     (case html p of None \<Rightarrow> [] | Some body \<Rightarrow> if mayUseAsLinkSource cx (finalUrl p) then extractLinks cx body (finalUrl p) else [])"

definition links_known :: "crawl_ctx \<Rightarrow> string set \<Rightarrow> PageSnapshot \<Rightarrow> bool" where
  "links_known cx known p \<longleftrightarrow> fetchError p = None \<longrightarrow> list_all (known_to cx known) (links_of cx p)"

text \<open>Every address seen is accounted for or waits in the queue, but for those of \<open>open_keys\<close>; the links of new pages are seen.\<close>

definition covered :: "crawl_ctx \<Rightarrow> string set \<Rightarrow> crawl_run \<Rightarrow> bool" where
  "covered cx open_keys s \<longleftrightarrow> seen s \<subseteq> accounted cx s \<union> q_normalized ` set (queue s) \<union> open_keys"

definition linked :: "crawl_ctx \<Rightarrow> crawl_run \<Rightarrow> bool" where
  "linked cx s \<longleftrightarrow> list_all (links_known cx (seen s)) (drop (length (restored_pages cx)) (pages s))"

text \<open>An aborted request leaves its address open; the loop ends right after.\<close>

definition complete :: "crawl_ctx \<Rightarrow> crawl_run \<Rightarrow> bool" where
  "complete cx s \<longleftrightarrow> length (restored_pages cx) \<le> length (pages s)
     \<and> (steady cx \<longrightarrow> sc_maxDepth (cx_scope cx) = None \<longrightarrow> \<not> cw_aborted (cx_world cx) (clock s) \<longrightarrow> covered cx {} s \<and> linked cx s)"

lemma known_to_mono: "known_to cx known raw \<Longrightarrow> known \<subseteq> known' \<Longrightarrow> known_to cx known' raw"
  by (auto simp: known_to_def split: option.splits)

lemma links_known_mono: "links_known cx known p \<Longrightarrow> known \<subseteq> known' \<Longrightarrow> links_known cx known' p"
  by (auto simp: links_known_def list_all_iff intro: known_to_mono)

lemma accounted_extends: "extends s s' \<Longrightarrow> accounted cx s \<subseteq> accounted cx s'"
  by (auto simp: extends_def accounted_def)

lemma covered_extends: "covered cx X s \<Longrightarrow> extends s s' \<Longrightarrow> covered cx X s'"
  using accounted_extends [of s s' cx] by (auto simp: covered_def extends_def)

lemma linked_mono: "linked cx s \<Longrightarrow> pages s' = pages s \<Longrightarrow> seen s \<subseteq> seen s' \<Longrightarrow> linked cx s'"
  by (auto simp: linked_def list_all_iff intro: links_known_mono)

lemma linked_extends: "linked cx s \<Longrightarrow> extends s s' \<Longrightarrow> linked cx s'"
  by (erule linked_mono) (simp_all add: extends_def)

lemma complete_extends: "complete cx s \<Longrightarrow> extends s s' \<Longrightarrow> complete cx s'"
  using covered_extends [of cx "{}" s s'] linked_extends [of cx s s'] by (auto simp: complete_def steady_def extends_def)

lemma enqueue_known: "known_to cx (seen (enqueue cx raw d s)) raw"
  by (cases rule: enqueue_cases [of cx raw d s]) (auto simp: known_to_def)

lemma enqueue_seen: "seen s \<subseteq> seen (enqueue cx raw d s)"
  by (cases rule: enqueue_cases [of cx raw d s]) auto

lemma enqueue_extra:
  assumes "sc_maxDepth (cx_scope cx) = None"
  shows "seen (enqueue cx raw d s) - q_normalized ` set (queue (enqueue cx raw d s)) \<subseteq> seen s - q_normalized ` set (queue s)"
  by (cases rule: enqueue_cases [of cx raw d s]) (use assms in \<open>auto simp: too_deep_def\<close>)

lemma fold_enqueue_known:
  fixes cx and depth :: "'a \<Rightarrow> nat" and raw :: "'a \<Rightarrow> string"
  defines "f \<equiv> \<lambda>x. enqueue cx (raw x) (depth x)"
  shows "seen s \<subseteq> seen (fold f xs s) \<and> (\<forall>x \<in> set xs. known_to cx (seen (fold f xs s)) (raw x))"
proof (induction xs arbitrary: s)
  case (Cons x xs)
  have "seen s \<subseteq> seen (f x s)" "known_to cx (seen (f x s)) (raw x)"
    by (simp_all add: f_def enqueue_seen enqueue_known)
  with Cons.IH [of "f x s"] show ?case by (auto intro: known_to_mono)
qed simp

lemma accounted_enqueue [simp]: "accounted cx (enqueue cx raw d s) = accounted cx s"
  by (cases rule: enqueue_cases [of cx raw d s]) (auto simp: accounted_def)

lemma covered_enqueue:
  "covered cx X s \<Longrightarrow> sc_maxDepth (cx_scope cx) = None \<Longrightarrow> covered cx X (enqueue cx raw d s)"
  using enqueue_extra [of cx raw d s] by (auto simp: covered_def)

lemma linked_enqueue: "linked cx s \<Longrightarrow> linked cx (enqueue cx raw d s)"
  by (erule linked_mono) (simp_all add: enqueue_seen)

lemma complete_enqueue: "complete cx s \<Longrightarrow> complete cx (enqueue cx raw d s)"
proof -
  assume c: "complete cx s"
  have "clock (enqueue cx raw d s) = clock s" by (cases rule: enqueue_cases [of cx raw d s]) auto
  with c show ?thesis by (simp add: complete_def covered_enqueue linked_enqueue)
qed

lemma enqueue_links_eq: "enqueue_links cx p d s = fold (\<lambda>link. enqueue cx link d) (links_of cx p) s"
  by (simp add: enqueue_links_def enqueue_all_def links_of_def split: option.split)

lemma enqueue_links_known:
  "seen s \<subseteq> seen (enqueue_links cx p d s) \<and> list_all (known_to cx (seen (enqueue_links cx p d s))) (links_of cx p)"
  using fold_enqueue_known [of s cx "\<lambda>link. link" "\<lambda>link. d" "links_of cx p"] by (simp add: enqueue_links_eq list_all_iff)

text \<open>A page that was read: its own address and its target are accounted for, its links seen.\<close>

lemma covered_with_links:
  assumes "covered cx {normalizedUrl p} s" "p \<in> set (pages s)" "sc_maxDepth (cx_scope cx) = None"
  shows "covered cx {} (with_links cx p s)"
proof -
  let ?m = "markFinalUrlSeen cx (finalUrl p) s"
  have "accounted cx ?m = accounted cx s" "queue ?m = queue s"
    by (simp_all add: markFinalUrlSeen_def accounted_def split: option.split)
  moreover have "normalizedUrl p \<in> accounted cx s" using assms(2) by (simp add: accounted_def)
  moreover have "seen ?m \<subseteq> seen s \<union> accounted cx s"
    using assms(2) by (auto simp: markFinalUrlSeen_def accounted_def split: option.splits)
  ultimately have "covered cx {} ?m" using assms(1) by (auto simp: covered_def)
  then show ?thesis unfolding with_links_def enqueue_links_eq
    by (rule fold_inv) (rule covered_enqueue [OF _ assms(3)])
qed

lemma with_links_seen: "seen s \<subseteq> seen (with_links cx p s)"
proof -
  have "seen s \<subseteq> seen (markFinalUrlSeen cx (finalUrl p) s)" by (auto simp: markFinalUrlSeen_def split: option.split)
  with enqueue_links_known show ?thesis unfolding with_links_def by blast
qed

lemma with_links_pages [simp]: "pages (with_links cx p s) = pages s"
  by (simp add: with_links_def)

lemma linked_with_page:
  assumes "linked cx s" "length (restored_pages cx) \<le> length (pages s)" "pages s' = pages s @ [p]" "seen s \<subseteq> seen s'"
    "links_known cx (seen s') p"
  shows "linked cx s'"
  using assms by (auto simp: linked_def list_all_iff intro: links_known_mono)

lemma covered_with_page:
  assumes "covered cx X s"
  shows "covered cx X (with_page e p s)"
proof -
  have "accounted cx s \<subseteq> accounted cx (with_page e p s)"
    using with_page_errors [of s e p] by (auto simp: accounted_def)
  with assms show ?thesis by (auto simp: covered_def)
qed

lemma complete_push_error:
  assumes "covered cx {n} s" "linked cx s" "length (restored_pages cx) \<le> length (pages s)"
  shows "complete cx (push_error n reason s)"
proof -
  have "extends s (push_error n reason s)" by (auto simp: extends_def)
  with assms(2) have "linked cx (push_error n reason s)" by (rule linked_extends)
  moreover have "covered cx {} (push_error n reason s)" using assms(1) by (auto simp: covered_def accounted_def)
  ultimately show ?thesis using assms(3) by (simp add: complete_def)
qed

lemma complete_process:
  assumes "complete cx s" "\<not> cw_aborted (cx_world cx) (clock s)" "queue s = e # rest"
  shows "complete cx (processEntry cx e (s\<lparr> clock := clock s + 1, queue := rest \<rparr>))"
proof (cases "steady cx \<and> sc_maxDepth (cx_scope cx) = None")
  case False
  have "length (pages s) \<le> length (pages (processEntry cx e (s\<lparr> clock := clock s + 1, queue := rest \<rparr>)))"
    using processEntry_progress [of cx e "s\<lparr> clock := clock s + 1, queue := rest \<rparr>"] by auto
  with assms(1) False show ?thesis by (auto simp: complete_def)
next
  case True
  let ?s = "s\<lparr> clock := clock s + 1, queue := rest \<rparr>" and ?n = "q_normalized e" and ?r = "length (restored_pages cx)"
  have c: "covered cx {?n} ?s" and l: "linked cx ?s" and r: "?r \<le> length (pages ?s)"
    using assms True by (auto simp: complete_def covered_def linked_def accounted_def)
  have same: "covered cx {?n} s1 \<and> linked cx s1 \<and> ?r \<le> length (pages s1)" if "background cx ?s s1" for s1
    using background_extends [OF that] covered_extends [OF c] linked_extends [OF l] r by (auto simp: extends_def)
  have page: "covered cx {?n} s2 \<and> linked cx s2 \<and> ?r \<le> length (pages s2)"
    if "background cx ?s s1" "background cx (snd (request cx (PageRequest e) t s1)) s2" for t s1 s2
  proof -
    have "covered cx {?n} (snd (request cx (PageRequest e) t s1))" "linked cx (snd (request cx (PageRequest e) t s1))"
      using same [OF that(1)] by (simp_all add: covered_def linked_def accounted_def)
    then have "covered cx {?n} s2" "linked cx s2"
      using background_extends [OF that(2)] by (auto elim: covered_extends linked_extends)
    moreover have "pages s2 = pages s1" using background_extends [OF that(2)] by (simp add: extends_def)
    ultimately show ?thesis using same [OF that(1)] by simp
  qed
  show ?thesis
  proof (cases rule: processEntry_cases [of cx ?s e])
    case (refused s1)
    then show ?thesis using same [OF refused(1)] by (auto simp: complete_def covered_def linked_def accounted_def)
  next
    case (over s1)
    then show ?thesis using same [OF over(1)] by (auto simp: complete_def covered_def linked_def accounted_def)
  next
    case (host_stopped s1 reason)
    show ?thesis using same [OF host_stopped(1)] unfolding host_stopped(3) by (auto intro: complete_push_error)
  next
    case (cancelled s1)
    then show ?thesis using same [OF cancelled(1)] by (simp add: complete_def isCancelled_def)
  next
    case (failed s1 s2 pg reason)
    have "linked cx (with_page e pg s2)"
      using page [OF failed(1,5)] failed(7) by - (rule linked_with_page [of cx s2 _ pg], auto simp: links_known_def)
    moreover have "covered cx {?n} (with_page e pg s2)" using page [OF failed(1,5)] by (simp add: covered_with_page)
    ultimately show ?thesis using page [OF failed(1,5)] unfolding failed(8) by (intro complete_push_error) simp_all
  next
    case (read s1 s2 pg)
    let ?p = "with_page e pg s2"
    have n: "normalizedUrl pg = ?n" using read(6) by (simp add: page_of_def)
    have "covered cx {normalizedUrl pg} ?p" using page [OF read(1,5)] by (simp add: covered_with_page n)
    then have "covered cx {} (with_links cx pg ?p)" using True by (intro covered_with_links) simp_all
    moreover have "links_known cx (seen (with_links cx pg ?p)) pg"
      using enqueue_links_known by (simp add: links_known_def with_links_def)
    then have "linked cx (with_links cx pg ?p)"
      using page [OF read(1,5)] with_links_seen [of ?p cx pg] by - (rule linked_with_page [of cx s2 _ pg], simp_all)
    ultimately show ?thesis using page [OF read(1,5)] unfolding read(8) by (simp add: complete_def)
  qed
qed

section \<open>The whole run\<close>

interpretation complete: crawl_invariant cx "complete cx" for cx
proof
  fix s s1 s' raw d host t u m e rest us
  show "complete cx s \<Longrightarrow> complete cx (s\<lparr> stoppedEarly := True \<rparr>)" by (simp add: complete_def covered_def linked_def accounted_def)
  show "complete cx s \<Longrightarrow> complete cx (s\<lparr> sitemapUrls := us \<rparr>)" by (simp add: complete_def covered_def linked_def accounted_def)
  show "complete cx s \<Longrightarrow> visible s' = visible s \<Longrightarrow> clock s \<le> clock s' \<Longrightarrow> complete cx s'"
    by (blast intro: complete_extends visible_extends)
  show "complete cx s \<Longrightarrow> complete cx (enqueue cx raw d s)" by (rule complete_enqueue)
  show "complete cx s \<Longrightarrow> complete cx (snd (forHost cx host s))" by (blast intro: complete_extends forHost_extends)
  show "complete cx s \<Longrightarrow> isSitemapInScope cx t \<Longrightarrow> complete cx (snd (request cx (SitemapRequest t) t s))"
    by (erule complete_extends, rule request_extends, simp)
  show "complete cx s \<Longrightarrow> host_in_scope cx u \<Longrightarrow> may_ask cx (robotsByHost s) u \<Longrightarrow> complete cx (snd (request cx (ProbeRequest m (href u)) (href u) s))"
    by (erule complete_extends, rule request_extends, simp)
  assume p: "complete cx s" and st: "shouldStop cx s = (False, s1)" and q: "queue s1 = e # rest"
  have "s1 = s\<lparr> clock := clock s + 1 \<rparr>" "\<not> cw_aborted (cx_world cx) (clock s)"
    using st by (auto simp: shouldStop_def isCancelled_def)
  then show "complete cx (processEntry cx e (s1\<lparr> queue := rest \<rparr>))" using complete_process [OF p _, of e rest] q by simp
qed

text \<open>A crawl is stopped early only when one of the two stop signals was given.\<close>

definition unprompted :: "crawl_ctx \<Rightarrow> crawl_run \<Rightarrow> bool" where
  "unprompted cx s \<longleftrightarrow> stoppedEarly s \<longrightarrow> (\<exists>c. cw_stop (cx_world cx) c \<or> cw_aborted (cx_world cx) c)"

lemma unprompted_extends: "unprompted cx s \<Longrightarrow> extends s s' \<Longrightarrow> unprompted cx s'"
  by (simp add: unprompted_def extends_def)

lemma enqueue_stoppedEarly [simp]: "stoppedEarly (enqueue cx raw d s) = stoppedEarly s"
  by (cases rule: enqueue_cases [of cx raw d s]) auto

lemma with_links_stoppedEarly [simp]: "stoppedEarly (with_links cx p s) = stoppedEarly s"
proof -
  have "stoppedEarly (markFinalUrlSeen cx (finalUrl p) s) = stoppedEarly s" by (simp add: markFinalUrlSeen_def split: option.split)
  moreover have "stoppedEarly (fold (\<lambda>link. enqueue cx link d) links s1) = stoppedEarly s1" for d links s1
    by (induction links arbitrary: s1) auto
  ultimately show ?thesis by (simp add: with_links_def enqueue_links_eq)
qed

lemma processEntry_stoppedEarly: "stoppedEarly (processEntry cx e s) = stoppedEarly s"
proof -
  have same: "stoppedEarly s1 = stoppedEarly s" if "background cx s s1" for s1
    using background_extends [OF that] by (simp add: extends_def)
  have asked: "stoppedEarly s2 = stoppedEarly s" if "background cx s s1" "background cx (snd (request cx (PageRequest e) t s1)) s2" for t s1 s2
    using same [OF that(1)] background_extends [OF that(2)] by (simp add: extends_def)
  show ?thesis
  proof (cases rule: processEntry_cases [of cx s e])
    case (refused s1)
    then show ?thesis using same [OF refused(1)] by simp
  next
    case (over s1)
    then show ?thesis using same [OF over(1)] by simp
  next
    case (host_stopped s1 reason)
    then show ?thesis using same [OF host_stopped(1)] by simp
  next
    case (cancelled s1)
    then show ?thesis using same [OF cancelled(1)] by simp
  next
    case (failed s1 s2 pg reason)
    then show ?thesis using asked [OF failed(1,5)] by simp
  next
    case (read s1 s2 pg)
    then show ?thesis using asked [OF read(1,5)] by simp
  qed
qed

interpretation unprompted: crawl_invariant cx "unprompted cx" for cx
proof
  fix s s1 s' raw d host t u m e rest us
  show "shouldStop cx s = (True, s1) \<Longrightarrow> unprompted cx (s1\<lparr> stoppedEarly := True \<rparr>)"
    by (auto simp: unprompted_def shouldStop_def isCancelled_def)
  show "unprompted cx s \<Longrightarrow> unprompted cx (s\<lparr> sitemapUrls := us \<rparr>)" by (simp add: unprompted_def)
  show "unprompted cx s \<Longrightarrow> visible s' = visible s \<Longrightarrow> clock s \<le> clock s' \<Longrightarrow> unprompted cx s'"
    by (blast intro: unprompted_extends visible_extends)
  show "unprompted cx s \<Longrightarrow> unprompted cx (enqueue cx raw d s)" by (simp add: unprompted_def)
  show "unprompted cx s \<Longrightarrow> unprompted cx (snd (forHost cx host s))" by (blast intro: unprompted_extends forHost_extends)
  show "unprompted cx s \<Longrightarrow> isSitemapInScope cx t \<Longrightarrow> unprompted cx (snd (request cx (SitemapRequest t) t s))"
    by (simp add: unprompted_def)
  show "unprompted cx s \<Longrightarrow> host_in_scope cx u \<Longrightarrow> may_ask cx (robotsByHost s) u \<Longrightarrow> unprompted cx (snd (request cx (ProbeRequest m (href u)) (href u) s))"
    by (simp add: unprompted_def)
  show "unprompted cx s \<Longrightarrow> shouldStop cx s = (False, s1) \<Longrightarrow> queue s1 = e # rest \<Longrightarrow> unprompted cx (processEntry cx e (s1\<lparr> queue := rest \<rparr>))"
    by (auto simp: unprompted_def shouldStop_def processEntry_stoppedEarly)
qed

lemma unprompted_start: "unprompted cx (restorePreviousAttempt cx new_run)"
  using restored_start(8) [of cx] by (simp add: unprompted_def)

lemmas unprompted_run = unprompted.execute_inv [OF unprompted_start]

text \<open>What the loop keeps: the addresses seen, the sitemap addresses, and the pages it has.\<close>

definition kept :: "crawl_run \<Rightarrow> crawl_run \<Rightarrow> bool" where
  "kept s0 s \<longleftrightarrow> seen s0 \<subseteq> seen s \<and> sitemapUrls s = sitemapUrls s0 \<and> (\<exists>new. pages s = pages s0 @ new)"

lemma kept_extends: "kept s0 s \<Longrightarrow> extends s s' \<Longrightarrow> kept s0 s'"
  by (auto simp: kept_def extends_def)

lemma enqueue_sitemapUrls [simp]: "sitemapUrls (enqueue cx raw d s) = sitemapUrls s"
  by (cases rule: enqueue_cases [of cx raw d s]) auto

lemma with_links_sitemapUrls [simp]: "sitemapUrls (with_links cx p s) = sitemapUrls s"
proof -
  have "sitemapUrls (markFinalUrlSeen cx (finalUrl p) s) = sitemapUrls s" by (simp add: markFinalUrlSeen_def split: option.split)
  moreover have "sitemapUrls (fold (\<lambda>link. enqueue cx link d) links s1) = sitemapUrls s1" for d links s1
    by (induction links arbitrary: s1) auto
  ultimately show ?thesis by (simp add: with_links_def enqueue_links_eq)
qed

lemma kept_process: "kept s0 s \<Longrightarrow> kept s0 (processEntry cx e s)"
proof -
  assume k: "kept s0 s"
  have same: "kept s0 s1" if "background cx s s1" for s1
    using background_extends [OF that] k by (rule kept_extends [rotated])
  have asked: "kept s0 s2" if "background cx s s1" "background cx (snd (request cx (PageRequest e) t s1)) s2" for t s1 s2
  proof (rule kept_extends [OF _ background_extends [OF that(2)]])
    show "kept s0 (snd (request cx (PageRequest e) t s1))" using same [OF that(1)] by (simp add: kept_def)
  qed
  show ?thesis
  proof (cases rule: processEntry_cases [of cx s e])
    case (refused s1)
    then show ?thesis using same [OF refused(1)] by (simp add: kept_def)
  next
    case (over s1)
    then show ?thesis using same [OF over(1)] by (simp add: kept_def)
  next
    case (host_stopped s1 reason)
    then show ?thesis using same [OF host_stopped(1)] by (simp add: kept_def)
  next
    case (cancelled s1)
    then show ?thesis using asked [OF cancelled(1) background_refl, of "q_rawUrl e"] by simp
  next
    case (failed s1 s2 pg reason)
    then show ?thesis using asked [OF failed(1,5)] by (auto simp: kept_def)
  next
    case (read s1 s2 pg)
    then show ?thesis using asked [OF read(1,5)] with_links_seen [of "with_page e pg s2" cx pg] by (auto simp: kept_def)
  qed
qed

interpretation kept: crawl_looping cx "kept s0" for cx s0
proof
  fix s s1 s' host u m e rest
  show "kept s0 s \<Longrightarrow> kept s0 (s\<lparr> stoppedEarly := True \<rparr>)" by (simp add: kept_def)
  show "kept s0 s \<Longrightarrow> visible s' = visible s \<Longrightarrow> clock s \<le> clock s' \<Longrightarrow> kept s0 s'"
    by (blast intro: kept_extends visible_extends)
  show "kept s0 s \<Longrightarrow> kept s0 (snd (forHost cx host s))" by (blast intro: kept_extends forHost_extends)
  show "kept s0 s \<Longrightarrow> host_in_scope cx u \<Longrightarrow> may_ask cx (robotsByHost s) u \<Longrightarrow> kept s0 (snd (request cx (ProbeRequest m (href u)) (href u) s))"
    by (erule kept_extends, rule request_extends, simp)
  assume "kept s0 s" "shouldStop cx s = (False, s1)"
  then have "kept s0 (s1\<lparr> queue := rest \<rparr>)" by (auto simp: shouldStop_def kept_def)
  then show "kept s0 (processEntry cx e (s1\<lparr> queue := rest \<rparr>))" by (rule kept_process)
qed

interpretation media: crawl_asking cx "extends s0" for cx s0
proof
  fix s s' host u m
  show "extends s0 s \<Longrightarrow> visible s' = visible s \<Longrightarrow> clock s \<le> clock s' \<Longrightarrow> extends s0 s'"
    by (blast intro: extends_trans visible_extends)
  show "extends s0 s \<Longrightarrow> extends s0 (snd (forHost cx host s))" by (blast intro: extends_trans forHost_extends)
  show "extends s0 s \<Longrightarrow> host_in_scope cx u \<Longrightarrow> may_ask cx (robotsByHost s) u \<Longrightarrow> extends s0 (snd (request cx (ProbeRequest m (href u)) (href u) s))"
    by (erule extends_trans, rule request_extends, simp)
qed

text \<open>What a run is offered: the origin, the accepted seeds, the frontier it resumes, the sitemaps, and the links of its pages.\<close>

definition accepts_seed :: "crawl_ctx \<Rightarrow> string \<Rightarrow> bool" where
  "accepts_seed cx seed \<longleftrightarrow>
     (case cw_parse (cx_world cx) seed of None \<Rightarrow> False | Some u \<Rightarrow> is_http u \<and> host_in_scope cx u \<and> path_in_scope cx u)"

definition accepted_seeds :: "crawl_ctx \<Rightarrow> string list" where
  "accepted_seeds cx = filter (accepts_seed cx) (case sc_seedUrls (cx_scope cx) of None \<Rightarrow> [] | Some seeds \<Rightarrow> seeds)"

definition offered :: "crawl_ctx \<Rightarrow> crawl_run \<Rightarrow> string list" where
  "offered cx s = origin_href cx # accepted_seeds cx @ map cq_url (op_resumeSeeds (cx_options cx)) @ sitemapUrls s
     @ concat (map (links_of cx) (filter (\<lambda>p. fetchError p = None) (pages s)))"

lemma enqueue_seed_seen: "seen s \<subseteq> seen (enqueue_seed cx seed s)"
  using enqueue_seen [of s cx seed 0] by (auto simp: enqueue_seed_def reject_seed_def split: option.split)

lemma enqueue_seed_sitemapUrls [simp]: "sitemapUrls (enqueue_seed cx seed s) = sitemapUrls s"
  by (simp add: enqueue_seed_def reject_seed_def split: option.split)

lemma enqueue_seed_known: "accepts_seed cx seed \<Longrightarrow> known_to cx (seen (enqueue_seed cx seed s)) seed"
  by (auto simp: enqueue_seed_def accepts_seed_def is_http_def enqueue_known split: option.splits)

lemma fold_grows:
  assumes "\<And>x s. seen s \<subseteq> seen (f x s)" "\<And>x s. sitemapUrls (f x s) = sitemapUrls s"
  shows "seen s \<subseteq> seen (fold f xs s) \<and> sitemapUrls (fold f xs s) = sitemapUrls s"
proof (induction xs arbitrary: s)
  case (Cons x xs)
  have "seen s \<subseteq> seen (f x s)" by (rule assms(1))
  with Cons.IH [of "f x s"] assms(2) [of x s] show ?case by auto
qed simp

lemma fold_known:
  assumes "\<And>x s. seen s \<subseteq> seen (f x s)" "\<And>x s. sitemapUrls (f x s) = sitemapUrls s"
    "\<And>x s. Q x \<Longrightarrow> list_all (known_to cx (seen (f x s))) (raws x)"
  shows "list_all (\<lambda>x. Q x \<longrightarrow> list_all (known_to cx (seen (fold f xs s))) (raws x)) xs"
proof (induction xs arbitrary: s)
  case (Cons x xs)
  have "seen (f x s) \<subseteq> seen (fold f xs (f x s))" using fold_grows [of f "f x s" xs] assms(1,2) by simp
  with Cons.IH [of "f x s"] assms(3) [of x s] show ?case by (auto simp: list_all_iff intro: known_to_mono)
qed simp

lemma enqueue_links_sitemapUrls [simp]: "sitemapUrls (enqueue_links cx p d s) = sitemapUrls s"
  using fold_grows [of "\<lambda>link. enqueue cx link d" s "links_of cx p"] by (simp add: enqueue_links_eq enqueue_seen)

lemma known_list_mono: "list_all (known_to cx known) raws \<Longrightarrow> known \<subseteq> known' \<Longrightarrow> list_all (known_to cx known') raws"
  by (auto simp: list_all_iff intro: known_to_mono)

text \<open>Each round of enqueueing makes its own addresses known, and keeps what was known before.\<close>

lemma prepare_offered:
  fixes cx s
  defines "p \<equiv> prepare cx s"
  shows "list_all (known_to cx (seen p)) (origin_href cx # accepted_seeds cx @ map cq_url (op_resumeSeeds (cx_options cx)) @ sitemapUrls p)"
    and "list_all (\<lambda>page. list_all (known_to cx (seen p)) (links_of cx page)) (restored_pages cx)"
proof -
  define s1 where "s1 = snd (forHost cx (hostKey (cx_origin cx)) s)"
  define s2 where "s2 = (if isCancelled cx s1 then s1 else loadSitemaps cx s1)"
  define a where "a = enqueue cx (origin_href cx) 0 s2"
  define s3 where "s3 = enqueueSeeds cx a"
  define s4 where "s4 = fold (\<lambda>resumed. enqueue cx (cq_url resumed) (cq_depth resumed)) (op_resumeSeeds (cx_options cx)) s3"
  define s5 where "s5 = enqueue_all cx 1 (sitemapUrls s4) s4"
  have p: "p = fold (\<lambda>page. enqueue_links cx page (pg_depth page + 1)) (restored_pages cx) s5"
    by (simp only: p_def prepare_def Let_def s1_def s2_def a_def s3_def s4_def s5_def enqueueLinksOfRestoredPages_def restored_pages_def)
  have g3: "seen a \<subseteq> seen s3 \<and> sitemapUrls s3 = sitemapUrls a"
    unfolding s3_def enqueueSeeds_def by (rule fold_grows) (simp_all add: enqueue_seed_seen)
  have g4: "seen s3 \<subseteq> seen s4 \<and> sitemapUrls s4 = sitemapUrls s3"
    unfolding s4_def by (rule fold_grows) (simp_all add: enqueue_seen)
  have g5: "seen s4 \<subseteq> seen s5 \<and> sitemapUrls s5 = sitemapUrls s4"
    unfolding s5_def enqueue_all_def by (rule fold_grows) (simp_all add: enqueue_seen)
  have links_seen: "seen s \<subseteq> seen (enqueue_links cx page d s)" for s page d using enqueue_links_known by blast
  have gp: "seen s5 \<subseteq> seen p \<and> sitemapUrls p = sitemapUrls s5"
    unfolding p by (rule fold_grows) (simp_all add: links_seen)
  have "known_to cx (seen a) (origin_href cx)" by (simp add: a_def enqueue_known)
  then have origin: "known_to cx (seen p) (origin_href cx)" by (rule known_to_mono) (use g3 g4 g5 gp in blast)
  have "list_all (\<lambda>x. accepts_seed cx x \<longrightarrow> list_all (known_to cx (seen s3)) [x])
      (case sc_seedUrls (cx_scope cx) of None \<Rightarrow> [] | Some seeds \<Rightarrow> seeds)"
    unfolding s3_def enqueueSeeds_def by (rule fold_known) (simp_all add: enqueue_seed_seen enqueue_seed_known)
  then have "list_all (known_to cx (seen s3)) (accepted_seeds cx)"
    by (simp add: accepted_seeds_def list_all_iff)
  then have seeds: "list_all (known_to cx (seen p)) (accepted_seeds cx)" by (rule known_list_mono) (use g4 g5 gp in blast)
  have "list_all (\<lambda>x. True \<longrightarrow> list_all (known_to cx (seen s4)) [cq_url x]) (op_resumeSeeds (cx_options cx))"
    unfolding s4_def by (rule fold_known) (simp_all add: enqueue_seen enqueue_known)
  then have "list_all (known_to cx (seen s4)) (map cq_url (op_resumeSeeds (cx_options cx)))" by (simp add: list_all_iff)
  then have resumed: "list_all (known_to cx (seen p)) (map cq_url (op_resumeSeeds (cx_options cx)))"
    by (rule known_list_mono) (use g5 gp in blast)
  have "list_all (\<lambda>x. True \<longrightarrow> list_all (known_to cx (seen s5)) [x]) (sitemapUrls s4)"
    unfolding s5_def enqueue_all_def by (rule fold_known) (simp_all add: enqueue_seen enqueue_known)
  then have "list_all (known_to cx (seen s5)) (sitemapUrls p)" using g5 gp by (simp add: list_all_iff)
  then have maps: "list_all (known_to cx (seen p)) (sitemapUrls p)" by (rule known_list_mono) (use gp in blast)
  show "list_all (known_to cx (seen p)) (origin_href cx # accepted_seeds cx @ map cq_url (op_resumeSeeds (cx_options cx)) @ sitemapUrls p)"
    using origin seeds resumed maps by simp
  have "list_all (\<lambda>page. True \<longrightarrow> list_all (known_to cx (seen p)) (links_of cx page)) (restored_pages cx)"
    unfolding p by (rule fold_known) (simp_all add: links_seen enqueue_links_known)
  then show "list_all (\<lambda>page. list_all (known_to cx (seen p)) (links_of cx page)) (restored_pages cx)" by simp
qed

lemma restore_accounted:
  "seen (fold (restore_page cx) ps s)
   \<subseteq> seen s \<union> normalizedUrl ` set ps \<union> {n. \<exists>p \<in> set ps. normalized_of cx (finalUrl p) = Some n}"
proof (induction ps arbitrary: s)
  case (Cons p ps)
  have "seen (restore_page cx p s) \<subseteq> seen s \<union> {normalizedUrl p} \<union> {n. normalized_of cx (finalUrl p) = Some n}"
    by (auto simp: restore_page_def markFinalUrlSeen_def Let_def split: option.splits PageRendering.splits)
  with Cons.IH [of "restore_page cx p s"] show ?case by auto
qed simp

lemma complete_start: "complete cx (restorePreviousAttempt cx new_run)"
proof -
  let ?s = "restorePreviousAttempt cx new_run"
  have "seen ?s \<subseteq> normalizedUrl ` set (restored_pages cx) \<union> {n. \<exists>p \<in> set (restored_pages cx). normalized_of cx (finalUrl p) = Some n}"
  proof (cases "op_restored (cx_options cx)")
    case None
    then show ?thesis by (simp add: restorePreviousAttempt_def new_run_def)
  next
    case (Some r)
    have "seen ?s = seen (fold (restore_page cx) (rs_pages r) new_run)"
      using restore_variants [of "rv_urlVariants (rs_coverage r)"]
      by (simp add: restorePreviousAttempt_def Some visible_def Let_def)
    also have "\<dots> \<subseteq> seen new_run \<union> normalizedUrl ` set (rs_pages r) \<union> {n. \<exists>p \<in> set (rs_pages r). normalized_of cx (finalUrl p) = Some n}"
      by (rule restore_accounted)
    finally show ?thesis by (simp add: new_run_def restored_pages_def Some)
  qed
  then show ?thesis by (auto simp: complete_def covered_def linked_def accounted_def restored_start)
qed

lemma complete_run:
  assumes "steady cx" "sc_maxDepth (cx_scope cx) = None" "\<not> stoppedEarly (execute cx)"
  shows "queue (execute cx) = [] \<and> list_all (known_to cx (accounted cx (execute cx))) (offered cx (execute cx))"
proof -
  let ?f = "execute cx"
  obtain stopped s0 where st: "shouldStop cx (restorePreviousAttempt cx new_run) = (stopped, s0)" by fastforce
  have running: "\<not> stopped" using assms(3) st by (auto simp: execute_def)
  define p where "p = prepare cx s0"
  define l where "l = crawl_loop cx p"
  have f: "?f = checkReferencedMedia cx l" using st running by (simp add: execute_def p_def l_def)
  have e: "extends l ?f" unfolding f by (rule media.checkReferencedMedia_inv) simp
  have "complete cx p" unfolding p_def
    using complete.prepare_inv [OF complete.shouldStop_inv [OF complete_start st]] .
  moreover have early: "\<not> stoppedEarly l" using assms(3) e by (simp add: extends_def)
  ultimately obtain s1 where s1: "complete cx s1" "shouldStop cx s1 = (False, l)" "queue l = []"
    using complete.crawl_loop_end [of cx p] by (auto simp: l_def)
  then have l: "l = s1\<lparr> clock := clock s1 + 1 \<rparr>" and run: "\<not> cw_aborted (cx_world cx) (clock s1)"
    by (auto simp: shouldStop_def isCancelled_def)
  have "covered cx {} s1" "linked cx s1" using s1(1) assms(1,2) run by (auto simp: complete_def)
  then have cov: "seen l \<subseteq> accounted cx l" and lk: "linked cx l"
    using s1(3) by (simp_all add: l covered_def linked_def accounted_def)
  have acc: "seen l \<subseteq> accounted cx ?f" using cov accounted_extends [OF e] by blast
  have kept: "kept p l" unfolding l_def by (rule kept.crawl_loop_inv) (simp add: kept_def)
  have "booked cx l" unfolding l_def p_def
    using booked.crawl_loop_inv [OF booked.prepare_inv [OF booked.shouldStop_inv [OF booked_start st]]] .
  then have split: "pages l = restored_pages cx @ drop (length (restored_pages cx)) (pages l)"
    by (metis append_take_drop_id booked_def)
  have start: "list_all (known_to cx (seen l)) (origin_href cx # accepted_seeds cx @ map cq_url (op_resumeSeeds (cx_options cx)) @ sitemapUrls l)"
    using kept known_list_mono [OF prepare_offered(1) [of cx s0, folded p_def], of "seen l"] by (simp add: kept_def)
  have restored: "list_all (\<lambda>page. list_all (known_to cx (seen l)) (links_of cx page)) (restored_pages cx)"
    using kept prepare_offered(2) [of cx s0, folded p_def] by (auto simp: list_all_iff kept_def intro: known_to_mono)
  have "list_all (known_to cx (seen l)) (links_of cx page)" if "page \<in> set (pages l)" "fetchError page = None" for page
  proof (cases "page \<in> set (restored_pages cx)")
    case True
    with restored show ?thesis by (simp add: list_all_iff)
  next
    case False
    with that(1) split have "page \<in> set (drop (length (restored_pages cx)) (pages l))" by (metis Un_iff set_append)
    with lk that(2) show ?thesis by (auto simp: linked_def list_all_iff links_known_def)
  qed
  then have "list_all (known_to cx (seen l)) (offered cx l)"
    using start by (auto simp: offered_def list_all_iff)
  moreover have "offered cx ?f = offered cx l" using e by (simp add: offered_def extends_def)
  ultimately show ?thesis using known_list_mono [OF _ acc] e s1(3) by (simp add: extends_def)
qed

text \<open>
  C7: a crawl without a depth limit that no signal stopped leaves nothing open: the queue is empty, and the origin, the
  accepted seeds, the resumed frontier, the sitemap addresses and every link of every page it read that belong to the scope
  are each a page, the target of a redirect of one, left over the limit, refused by robots.txt, or among the errors.
\<close>

theorem crawl_complete:
  assumes "steady cx" "sc_maxDepth (cx_scope cx) = None" "\<not> stoppedEarly (execute cx)"
  shows "queue (execute cx) = [] \<and> list_all (known_to cx (accounted cx (execute cx))) (offered cx (execute cx))"
  using assms by (rule complete_run)

lemma crawl_complete_witness:
  "queue (execute (demo_ctx 2 None)) = [] \<and> known_to (demo_ctx 2 None) (accounted (demo_ctx 2 None) (execute (demo_ctx 2 None))) ''http://a/''"
proof -
  have "origin_href (demo_ctx 2 None) = ''http://a/''" by (simp add: origin_href_def demo_ctx_def demo_url_def)
  then show ?thesis
    using crawl_complete [OF demo_steady [of 2 None]] demo_run by (simp add: offered_def)
qed

end
