(* ===== verification/CrawlReport.thy ===== *)
theory CrawlReport
  imports CrawlComplete
begin

text \<open>
  From the crawl to the report: what the counts of the crawl summary say about the addresses of the site.
\<close>

definition coverage_of :: "crawl_ctx \<Rightarrow> CrawlCoverage" where
  "coverage_of cx = crawlCoverage (crawl_result cx (execute cx))"

lemma coverage_simps:
  "cc_pagesRead (coverage_of cx) = length (filter isSuccessfulHtmlPage (pages (execute cx)))"
  "cc_pagesFetched (coverage_of cx) = length (pages (execute cx))"
  "cc_urlsDiscovered (coverage_of cx) = length (pages (execute cx)) + length (skippedOverLimit (execute cx))"
  "cc_urlsOverLimit (coverage_of cx) = length (skippedOverLimit (execute cx))"
  "cc_urlsBlockedByRobots (coverage_of cx) = length (blockedByRobots (execute cx))"
  by (simp_all add: coverage_of_def crawlCoverage_def crawl_result_def)

text \<open>
  the counts of a crawl that was not resumed count addresses: as many distinct ones as it says were discovered are pages
  or over the limit, as many as it says were blocked are refused by robots.txt, none is both, and the pages read are within
  the pages fetched and those within the limit.
\<close>

theorem coverage_counts_addresses:
  assumes "op_restored (cx_options cx) = None"
  shows "cc_urlsDiscovered (coverage_of cx)
      = card (normalizedUrl ` set (pages (execute cx)) \<union> set (skippedOverLimit (execute cx)))
    \<and> cc_urlsBlockedByRobots (coverage_of cx) = card (set (blockedByRobots (execute cx)))
    \<and> set (blockedByRobots (execute cx)) \<inter> (normalizedUrl ` set (pages (execute cx)) \<union> set (skippedOverLimit (execute cx))) = {}
    \<and> cc_pagesRead (coverage_of cx) \<le> cc_pagesFetched (coverage_of cx)
    \<and> cc_pagesFetched (coverage_of cx) \<le> page_limit cx"
proof -
  let ?s = "execute cx"
  let ?found = "map normalizedUrl (pages ?s) @ skippedOverLimit ?s"
  have d: "distinct (?found @ blockedByRobots ?s)" using distinct_lists [OF assms] by auto
  then have "distinct ?found" "distinct (blockedByRobots ?s)" by auto
  then have "length ?found = card (set ?found)" "length (blockedByRobots ?s) = card (set (blockedByRobots ?s))"
    by (metis distinct_card)+
  moreover have "set (blockedByRobots ?s) \<inter> set ?found = {}" using d by auto
  moreover have "length (pages ?s) \<le> page_limit cx"
    using booked_run [of cx] assms by (simp add: booked_def restored_pages_def)
  ultimately show ?thesis by (simp add: coverage_simps)
qed

lemma coverage_counts_addresses_witness:
  "cc_urlsDiscovered (coverage_of (demo_ctx 2 None)) = 2 \<and> cc_pagesFetched (coverage_of (demo_ctx 2 None)) \<le> 2"
  using coverage_counts_addresses [of "demo_ctx 2 None"] demo_run map_eq_imp_length_eq [of normalizedUrl "pages (execute (demo_ctx 2 None))" id "[''http://a/'', ''http://a/b'']"]
  by (simp add: page_limit_def coverage_simps)

text \<open>The addresses of the pages whose document was read, and the targets of their redirects.\<close>

definition read_addresses :: "crawl_ctx \<Rightarrow> crawl_run \<Rightarrow> string set" where
  "read_addresses cx s =
     (let read = set (filter isSuccessfulHtmlPage (pages s))
      in normalizedUrl ` read \<union> {n. \<exists>p \<in> read. normalized_of cx (finalUrl p) = Some n})"

lemma full_coverage_reads_all:
  assumes "buildCrawlSummary w r origin own p limit = Inr summary" "isFullCrawlCoverage summary"
  shows "cr_skippedOverLimit r = [] \<and> filter isSuccessfulHtmlPage (cr_pages r) = cr_pages r \<and> isSiteRead summary"
proof -
  obtain site where site: "assessSiteReach w r origin = Inr site" using assms(1)
    by (cases "assessSiteReach w r origin") (auto simp: buildCrawlSummary_def)
  have c: "0 < length (cr_pages r) + length (cr_skippedOverLimit r)"
    "length (filter isSuccessfulHtmlPage (cr_pages r)) = length (cr_pages r) + length (cr_skippedOverLimit r)"
    using assms site by (auto simp: buildCrawlSummary_def isFullCrawlCoverage_def crawlCoverage_def Let_def)
  have "length (filter isSuccessfulHtmlPage (cr_pages r)) \<le> length (cr_pages r)" by (rule length_filter_le)
  then have none: "cr_skippedOverLimit r = []" and all: "length (filter isSuccessfulHtmlPage (cr_pages r)) = length (cr_pages r)"
    using c by auto
  then have f: "filter isSuccessfulHtmlPage (cr_pages r) = cr_pages r"
    by (metis filter_id_conv length_filter_less less_irrefl)
  have "cr_pages r \<noteq> []" using c none by auto
  with f have "list_ex isSuccessfulHtmlPage (cr_pages r)" by (auto simp: list_ex_iff filter_id_conv neq_Nil_conv)
  then have "isSiteRead summary" using assms(1) by (auto simp: buildCrawlSummary_def assessSiteReach_def isSiteRead_def Let_def)
  with none f show ?thesis by simp
qed



end
