(* ===== verification/JobQueue.thy ===== *)
theory JobQueue
  imports Steps "HOL-Library.Product_Lexorder" "HOL-Library.List_Lexorder"
begin

text \<open>
  The queue of paid work: \<open>apps/api/src/orchestrator/claim.ts\<close> and the claim of a given scan in \<open>worker.ts\<close>. The table
  \<open>Job\<close> is a list of rows with one id each; an \<open>updateMany\<close> is one atomic step that says how many rows it changed. Times
  are milliseconds.
\<close>

datatype JOB_STATUSES = JobPending | JobClaimed | JobDone

record job =
  job_id :: string
  job_scanId :: string
  job_type :: string
  job_status :: JOB_STATUSES
  job_attempts :: nat
  job_claimedAt :: "int option"
  job_leaseUntil :: "int option"
  job_createdAt :: int

record ClaimedJob =
  cl_jobId :: string
  cl_scanId :: string
  cl_type :: string

definition JOB_LEASE_MS :: int where "JOB_LEASE_MS = 5 * 60 * 1000"

definition leaseUntil :: "int \<Rightarrow> int" where "leaseUntil now = now + JOB_LEASE_MS"

definition update_jobs :: "(job \<Rightarrow> bool) \<Rightarrow> (job \<Rightarrow> job) \<Rightarrow> job list \<Rightarrow> nat \<times> job list" where
  "update_jobs P f jobs = (length (filter P jobs), map (\<lambda>j. if P j then f j else j) jobs)"

definition claimed_row :: "int \<Rightarrow> job \<Rightarrow> job" where
  "claimed_row now j =
     j\<lparr> job_status := JobClaimed, job_claimedAt := Some now, job_leaseUntil := Some (leaseUntil now),
        job_attempts := job_attempts j + 1 \<rparr>"

definition returned_row :: "job \<Rightarrow> job" where
  "returned_row j = j\<lparr> job_status := JobPending, job_claimedAt := None, job_leaseUntil := None \<rparr>"

definition done_row :: "job \<Rightarrow> job" where
  "done_row j = j\<lparr> job_status := JobDone, job_claimedAt := None, job_leaseUntil := None \<rparr>"

section \<open>The statements\<close>

text \<open>The compare-and-set of a claim, of \<open>claimNextJob\<close> and of \<open>claimJobForScan\<close>.\<close>

definition cas_claim :: "string \<Rightarrow> int \<Rightarrow> job list \<Rightarrow> nat \<times> job list" where
  "cas_claim i now = update_jobs (\<lambda>j. job_id j = i \<and> job_status j = JobPending) (claimed_row now)"

definition lapsed :: "int \<Rightarrow> job \<Rightarrow> bool" where
  "lapsed now j \<longleftrightarrow> job_status j = JobClaimed \<and>
     (case job_leaseUntil j of
        Some l \<Rightarrow> l \<le> now
      | None \<Rightarrow> (case job_claimedAt j of None \<Rightarrow> False | Some c \<Rightarrow> c \<le> now - JOB_LEASE_MS))"

definition recoverClaimedJobs :: "int \<Rightarrow> job list \<Rightarrow> nat \<times> job list" where
  "recoverClaimedJobs now = update_jobs (lapsed now) returned_row"

definition refreshJobLease :: "string \<Rightarrow> int \<Rightarrow> job list \<Rightarrow> bool \<times> job list" where
  "refreshJobLease i now jobs =
     (case update_jobs (\<lambda>j. job_id j = i \<and> job_status j = JobClaimed) (\<lambda>j. j\<lparr> job_leaseUntil := Some (leaseUntil now) \<rparr>) jobs of
        (n, jobs1) \<Rightarrow> (n = 1, jobs1))"

text \<open>One transaction: nobody sees the row between its two statements.\<close>

definition requeueAndClaimJob :: "string \<Rightarrow> string \<Rightarrow> string \<Rightarrow> int \<Rightarrow> job list \<Rightarrow> ClaimedJob option \<times> job list" where
  "requeueAndClaimJob i scan kind now jobs =
     (case update_jobs (\<lambda>j. job_id j = i \<and> job_scanId j = scan \<and> job_status j = JobClaimed) returned_row jobs of
        (requeued, jobs1) \<Rightarrow>
          if requeued \<noteq> 1 then (None, jobs1)
          else
            (case update_jobs (\<lambda>j. job_id j = i \<and> job_scanId j = scan \<and> job_status j = JobPending) (claimed_row now) jobs1 of
               (n, jobs2) \<Rightarrow> (if n = 1 then Some \<lparr> cl_jobId = i, cl_scanId = scan, cl_type = kind \<rparr> else None, jobs2)))"

text \<open>\<open>update\<close> throws on a row that is not there.\<close>

definition update_job :: "string \<Rightarrow> (job \<Rightarrow> job) \<Rightarrow> job list \<Rightarrow> string + job list" where
  "update_job i f jobs =
     (case update_jobs (\<lambda>j. job_id j = i) f jobs of
        (n, jobs1) \<Rightarrow> if n = 0 then Inl ''Record to update not found'' else Inr jobs1)"

definition finishJob :: "string \<Rightarrow> job list \<Rightarrow> string + job list" where
  "finishJob i = update_job i done_row"

definition requeueJob :: "string \<Rightarrow> job list \<Rightarrow> string + job list" where
  "requeueJob i = update_job i returned_row"

section \<open>Claiming the oldest job\<close>

definition eligible :: "string set \<Rightarrow> job \<Rightarrow> bool" where
  "eligible excluded j \<longleftrightarrow> job_status j = JobPending \<and> job_scanId j \<notin> excluded"

definition queue_order :: "job \<Rightarrow> int \<times> nat list" where
  "queue_order j = (job_createdAt j, map of_char (job_id j))"

definition findFirst :: "string set \<Rightarrow> job list \<Rightarrow> job option" where
  "findFirst excluded jobs =
     (case sort_key queue_order (filter (eligible excluded) jobs) of [] \<Rightarrow> None | j # _ \<Rightarrow> Some j)"

text \<open>
  Between the read and the compare-and-set of a round anything may happen to the table: \<open>others\<close> is what other workers do
  in each round, and after the last of these nobody interferes. A round that is lost tries again.
\<close>

fun claimNextJob :: "int \<Rightarrow> string set \<Rightarrow> (job list \<Rightarrow> job list) list \<Rightarrow> job list \<Rightarrow> ClaimedJob option \<times> job list" where
  "claimNextJob now excluded others jobs =
     (case findFirst excluded jobs of
        None \<Rightarrow> (None, jobs)
      | Some j \<Rightarrow>
          let seen_by_cas = (case others of [] \<Rightarrow> jobs | f # _ \<Rightarrow> f jobs) in
          (case cas_claim (job_id j) now seen_by_cas of
             (n, jobs1) \<Rightarrow>
               if n = 1 then (Some \<lparr> cl_jobId = job_id j, cl_scanId = job_scanId j, cl_type = job_type j \<rparr>, jobs1)
               else (case others of [] \<Rightarrow> (None, jobs1) | _ # rest \<Rightarrow> claimNextJob now excluded rest jobs1)))"

declare claimNextJob.simps [simp del]

definition claimJobForScan :: "string \<Rightarrow> int \<Rightarrow> (job list \<Rightarrow> job list) \<Rightarrow> job list \<Rightarrow> (string + ClaimedJob option) \<times> job list" where
  "claimJobForScan scan now other jobs =
     (case find (\<lambda>j. job_scanId j = scan) jobs of
        None \<Rightarrow> (Inl ''processScan: scan has no job'', jobs)
      | Some j \<Rightarrow>
          (case cas_claim (job_id j) now (other jobs) of
             (n, jobs1) \<Rightarrow>
               (Inr (if n = 1 then Some \<lparr> cl_jobId = job_id j, cl_scanId = job_scanId j, cl_type = job_type j \<rparr> else None), jobs1)))"

section \<open>Any interleaving of statements\<close>

datatype queue_event =
    Claim string int
  | Recover int
  | Refresh string int
  | Retry string string string int
  | Finish string
  | Requeue string

text \<open>The table after a statement, and what it did to the job \<open>i\<close>: claims of it, and returns of it to the queue.\<close>

fun queue_step :: "job list \<Rightarrow> queue_event \<Rightarrow> job list" where
  "queue_step jobs (Claim i now) = snd (cas_claim i now jobs)"
| "queue_step jobs (Recover now) = snd (recoverClaimedJobs now jobs)"
| "queue_step jobs (Refresh i now) = snd (refreshJobLease i now jobs)"
| "queue_step jobs (Retry i scan kind now) = snd (requeueAndClaimJob i scan kind now jobs)"
| "queue_step jobs (Finish i) = (case finishJob i jobs of Inl e \<Rightarrow> jobs | Inr jobs1 \<Rightarrow> jobs1)"
| "queue_step jobs (Requeue i) = (case requeueJob i jobs of Inl e \<Rightarrow> jobs | Inr jobs1 \<Rightarrow> jobs1)"

fun claims_in :: "job list \<Rightarrow> queue_event \<Rightarrow> string \<Rightarrow> nat" where
  "claims_in jobs (Claim i now) k = (if i = k then fst (cas_claim i now jobs) else 0)"
| "claims_in jobs (Retry i scan kind now) k = (if i = k \<and> fst (requeueAndClaimJob i scan kind now jobs) \<noteq> None then 1 else 0)"
| "claims_in jobs _ k = 0"

fun returns_in :: "job list \<Rightarrow> queue_event \<Rightarrow> string \<Rightarrow> nat" where
  "returns_in jobs (Recover now) k = length (filter (\<lambda>j. job_id j = k \<and> lapsed now j) jobs)"
| "returns_in jobs (Retry i scan kind now) k = (if i = k \<and> fst (requeueAndClaimJob i scan kind now jobs) \<noteq> None then 1 else 0)"
| "returns_in jobs (Requeue i) k = (if i = k then 1 else 0)"
| "returns_in jobs _ k = 0"

fun total_in :: "(job list \<Rightarrow> queue_event \<Rightarrow> string \<Rightarrow> nat) \<Rightarrow> job list \<Rightarrow> queue_event list \<Rightarrow> string \<Rightarrow> nat" where
  "total_in f jobs [] k = 0"
| "total_in f jobs (e # es) k = f jobs e k + total_in f (queue_step jobs e) es k"

section \<open>One row\<close>

definition row :: "job list \<Rightarrow> string \<Rightarrow> job option" where
  "row jobs k = find (\<lambda>j. job_id j = k) jobs"

definition keyed :: "job list \<Rightarrow> bool" where
  "keyed jobs \<longleftrightarrow> distinct (map job_id jobs)"

lemma row_id: "row jobs k = Some j \<Longrightarrow> job_id j = k"
  by (auto simp: row_def find_Some_iff)

lemma row_in_set: "row jobs k = Some j \<Longrightarrow> j \<in> set jobs"
  by (auto simp: row_def find_Some_iff)

lemma row_update:
  assumes "\<And>j. job_id (f j) = job_id j"
  shows "row (snd (update_jobs P f jobs)) k = map_option (\<lambda>j. if P j then f j else j) (row jobs k)"
  unfolding row_def update_jobs_def by (induction jobs) (auto simp: assms)

lemma keyed_update:
  assumes "\<And>j. job_id (f j) = job_id j"
  shows "keyed (snd (update_jobs P f jobs)) = keyed jobs"
proof -
  have "map job_id (snd (update_jobs P f jobs)) = map job_id jobs"
    by (simp add: update_jobs_def assms)
  then show ?thesis by (simp add: keyed_def)
qed

lemma count_keyed:
  assumes "keyed jobs"
  shows "length (filter (\<lambda>j. job_id j = k \<and> P j) jobs) = (case row jobs k of None \<Rightarrow> 0 | Some j \<Rightarrow> if P j then 1 else 0)"
  using assms unfolding keyed_def row_def
proof (induction jobs)
  case (Cons j jobs)
  have "filter (\<lambda>x. job_id x = job_id j \<and> P x) jobs = []" using Cons.prems by (fastforce simp: filter_empty_conv image_iff)
  with Cons show ?case by (auto split: option.splits)
qed simp

lemma fst_update_jobs: "fst (update_jobs P f jobs) = length (filter P jobs)"
  by (simp add: update_jobs_def)

lemma rows_id [simp]: "job_id (claimed_row now j) = job_id j" "job_id (returned_row j) = job_id j" "job_id (done_row j) = job_id j"
  by (simp_all add: claimed_row_def returned_row_def done_row_def)

text \<open>Each statement, seen from the row of one job.\<close>

lemma cas_claim_row:
  "row (snd (cas_claim i now jobs)) k
   = map_option (\<lambda>j. if job_id j = i \<and> job_status j = JobPending then claimed_row now j else j) (row jobs k)"
  unfolding cas_claim_def by (rule row_update) simp

lemma cas_claim_count:
  "keyed jobs \<Longrightarrow> fst (cas_claim i now jobs) = (case row jobs i of None \<Rightarrow> 0 | Some j \<Rightarrow> if job_status j = JobPending then 1 else 0)"
  by (simp add: cas_claim_def fst_update_jobs count_keyed)

lemma recover_row:
  "row (snd (recoverClaimedJobs now jobs)) k = map_option (\<lambda>j. if lapsed now j then returned_row j else j) (row jobs k)"
  unfolding recoverClaimedJobs_def by (rule row_update) simp

lemma refresh_row:
  "row (snd (refreshJobLease i now jobs)) k
   = map_option (\<lambda>j. if job_id j = i \<and> job_status j = JobClaimed then j\<lparr> job_leaseUntil := Some (leaseUntil now) \<rparr> else j) (row jobs k)"
proof -
  have "snd (refreshJobLease i now jobs)
      = snd (update_jobs (\<lambda>j. job_id j = i \<and> job_status j = JobClaimed) (\<lambda>j. j\<lparr> job_leaseUntil := Some (leaseUntil now) \<rparr>) jobs)"
    by (simp add: refreshJobLease_def split: prod.split)
  then show ?thesis by (simp add: row_update)
qed

definition holds :: "job list \<Rightarrow> string \<Rightarrow> string \<Rightarrow> bool" where
  "holds jobs i scan \<longleftrightarrow> (\<exists>j. row jobs i = Some j \<and> job_scanId j = scan \<and> job_status j = JobClaimed)"

lemma retry_row:
  assumes "keyed jobs"
  shows "fst (requeueAndClaimJob i scan kind now jobs) = (if holds jobs i scan then Some \<lparr> cl_jobId = i, cl_scanId = scan, cl_type = kind \<rparr> else None)
    \<and> row (snd (requeueAndClaimJob i scan kind now jobs)) k
      = (if holds jobs i scan then map_option (\<lambda>j. if job_id j = i then claimed_row now (returned_row j) else j) (row jobs k) else row jobs k)"
proof -
  let ?P = "\<lambda>j. job_id j = i \<and> job_scanId j = scan \<and> job_status j = JobClaimed"
  let ?Q = "\<lambda>j. job_id j = i \<and> job_scanId j = scan \<and> job_status j = JobPending"
  let ?jobs1 = "snd (update_jobs ?P returned_row jobs)" and ?jobs2 = "snd (update_jobs ?Q (claimed_row now) (snd (update_jobs ?P returned_row jobs)))"
  have k1: "keyed ?jobs1" using assms by (simp add: keyed_update)
  have n1: "fst (update_jobs ?P returned_row jobs) = (if holds jobs i scan then 1 else 0)"
    by (auto simp: fst_update_jobs count_keyed [OF assms] holds_def split: option.split)
  have r1: "row ?jobs1 x = map_option (\<lambda>j. if ?P j then returned_row j else j) (row jobs x)" for x
    by (rule row_update) simp
  have n2: "fst (update_jobs ?Q (claimed_row now) ?jobs1) = 1" if "holds jobs i scan"
    using that by (auto simp: fst_update_jobs count_keyed [OF k1] r1 holds_def returned_row_def dest: row_id)
  have r2: "row ?jobs2 x = map_option (\<lambda>j. if ?Q j then claimed_row now j else j) (row ?jobs1 x)" for x
    by (rule row_update) simp
  have u: "update_jobs ?P returned_row jobs = (fst (update_jobs ?P returned_row jobs), ?jobs1)"
    "update_jobs ?Q (claimed_row now) ?jobs1 = (fst (update_jobs ?Q (claimed_row now) ?jobs1), ?jobs2)" by simp_all
  show ?thesis
  proof (cases "holds jobs i scan")
    case True
    then have e: "requeueAndClaimJob i scan kind now jobs = (Some \<lparr> cl_jobId = i, cl_scanId = scan, cl_type = kind \<rparr>, ?jobs2)"
      unfolding requeueAndClaimJob_def by (subst u(1), simp only: prod.case n1, subst u(2)) (simp add: n2)
    show ?thesis
    proof (cases "row jobs k")
      case (Some j)
      then have "job_id j = k" by (rule row_id)
      moreover have "job_scanId j = scan \<and> job_status j = JobClaimed" if "k = i" using True Some that by (simp add: holds_def)
      ultimately show ?thesis unfolding e using True Some
        by (cases "k = i") (simp_all add: r2 r1 returned_row_def claimed_row_def)
    qed (use True in \<open>simp add: e r2 r1\<close>)
  next
    case False
    then have e: "requeueAndClaimJob i scan kind now jobs = (None, ?jobs1)"
      unfolding requeueAndClaimJob_def by (subst u(1), simp only: prod.case n1) simp
    have "row ?jobs1 k = row jobs k"
    proof (cases "row jobs k")
      case (Some j)
      with False show ?thesis by (auto simp: r1 holds_def dest: row_id)
    qed (simp add: r1)
    with False show ?thesis by (simp add: e)
  qed
qed

lemma update_job_row:
  assumes "\<And>j. job_id (f j) = job_id j"
  shows "row (case update_job i f jobs of Inl e \<Rightarrow> jobs | Inr jobs1 \<Rightarrow> jobs1) k
    = map_option (\<lambda>j. if job_id j = i then f j else j) (row jobs k)"
proof -
  have "row (snd (update_jobs (\<lambda>j. job_id j = i) f jobs)) k = map_option (\<lambda>j. if job_id j = i then f j else j) (row jobs k)"
    by (rule row_update) (rule assms)
  moreover have "map_option (\<lambda>j. if job_id j = i then f j else j) (row jobs k) = row jobs k" if "\<forall>j \<in> set jobs. job_id j \<noteq> i"
    using that row_in_set [of jobs k] by (cases "row jobs k") auto
  ultimately show ?thesis by (auto simp: update_job_def update_jobs_def filter_empty_conv split: option.split)
qed

lemma ids_update: "(\<And>j. job_id (f j) = job_id j) \<Longrightarrow> map job_id (snd (update_jobs P f jobs)) = map job_id jobs"
  by (simp add: update_jobs_def)

lemma ids_retry: "map job_id (snd (requeueAndClaimJob i scan kind now jobs)) = map job_id jobs"
  by (auto simp: requeueAndClaimJob_def update_jobs_def)

lemma keyed_step: "keyed (queue_step jobs e) = keyed jobs"
proof -
  have "map job_id (queue_step jobs e) = map job_id jobs"
    by (cases e) (auto simp: cas_claim_def recoverClaimedJobs_def refreshJobLease_def finishJob_def requeueJob_def update_job_def
        ids_retry update_jobs_def)
  then show ?thesis by (simp add: keyed_def)
qed

section \<open>What the queue promises\<close>

definition waiting :: "job \<Rightarrow> nat" where
  "waiting j = (if job_status j = JobPending then 1 else 0)"

text \<open>One statement: the attempts of a job count its claims, and a claim uses up the place it has in the queue.\<close>

lemma queue_step_accounts:
  assumes "keyed jobs" "row jobs k = Some j"
  shows "\<exists>j'. row (queue_step jobs e) k = Some j' \<and> job_attempts j' = job_attempts j + claims_in jobs e k
    \<and> claims_in jobs e k + waiting j' \<le> waiting j + returns_in jobs e k"
proof -
  have k: "job_id j = k" using assms(2) by (rule row_id)
  show ?thesis
  proof (cases e)
    case (Claim i now)
    then show ?thesis using assms k
      by (cases "i = k") (auto simp: cas_claim_row cas_claim_count waiting_def claimed_row_def)
  next
    case (Recover now)
    then show ?thesis using assms k
      by (auto simp: recover_row count_keyed [OF assms(1)] waiting_def returned_row_def)
  next
    case (Refresh i now)
    then show ?thesis using assms k by (auto simp: refresh_row waiting_def)
  next
    case (Retry i scan kind now)
    note r = retry_row [OF assms(1), of i scan kind now k]
    show ?thesis
    proof (cases "holds jobs i scan \<and> i = k")
      case True
      then have h: "holds jobs k scan" "i = k" by auto
      then have "row (queue_step jobs e) k = Some (claimed_row now (returned_row j))" using r assms(2) k Retry by simp
      then show ?thesis using h r Retry assms(2) k by (simp add: claimed_row_def returned_row_def waiting_def)
    next
      case False
      then have "row (queue_step jobs e) k = Some j" using r assms(2) k Retry by auto
      then show ?thesis using False r Retry by auto
    qed
  next
    case (Finish i)
    then show ?thesis using assms(2) k
      by (auto simp: finishJob_def update_job_row waiting_def done_row_def)
  next
    case (Requeue i)
    then show ?thesis using assms(2) k
      by (auto simp: requeueJob_def update_job_row waiting_def returned_row_def)
  qed
qed

text \<open>
  C11: whatever the workers, the recovery and the retries do in whatever order, the attempts of a job grow by one with every
  claim of it, and its claims are never more than its place in the queue at the start and the times it was put back since:
  between two claims of a job it was returned.
\<close>

theorem job_claims_accounted:
  assumes "keyed jobs" "row jobs k = Some j"
  shows "\<exists>j'. row (run queue_step jobs es) k = Some j'
    \<and> job_attempts j' = job_attempts j + total_in claims_in jobs es k
    \<and> total_in claims_in jobs es k + waiting j' \<le> waiting j + total_in returns_in jobs es k"
  using assms
proof (induction es arbitrary: jobs j)
  case (Cons e es)
  obtain j1 where j1: "row (queue_step jobs e) k = Some j1" "job_attempts j1 = job_attempts j + claims_in jobs e k"
    "claims_in jobs e k + waiting j1 \<le> waiting j + returns_in jobs e k"
    using queue_step_accounts [OF Cons.prems] by blast
  from Cons.IH [OF _ j1(1)] Cons.prems(1) obtain j2 where
    "row (run queue_step (queue_step jobs e) es) k = Some j2"
    "job_attempts j2 = job_attempts j1 + total_in claims_in (queue_step jobs e) es k"
    "total_in claims_in (queue_step jobs e) es k + waiting j2 \<le> waiting j1 + total_in returns_in (queue_step jobs e) es k"
    by (auto simp: keyed_step)
  with j1 show ?case by auto
qed auto

text \<open>
  Events that leave a live claim alone: nobody finishes, returns or retries the job itself, the recovery runs before the
  lease ends, and the holder's refreshes do not shorten the lease.
\<close>

fun spares :: "string \<Rightarrow> int \<Rightarrow> queue_event \<Rightarrow> bool" where
  "spares k l (Claim i now) = True"
| "spares k l (Recover now) = (now < l)"
| "spares k l (Refresh i now) = (i = k \<longrightarrow> l \<le> leaseUntil now)"
| "spares k l (Retry i scan kind now) = (i \<noteq> k)"
| "spares k l (Finish i) = (i \<noteq> k)"
| "spares k l (Requeue i) = (i \<noteq> k)"

definition leased :: "job list \<Rightarrow> string \<Rightarrow> int \<Rightarrow> bool" where
  "leased jobs k l \<longleftrightarrow> (\<exists>j l'. row jobs k = Some j \<and> job_status j = JobClaimed \<and> job_leaseUntil j = Some l' \<and> l \<le> l')"

lemma leased_step:
  assumes "keyed jobs" "leased jobs k l" "spares k l e"
  shows "leased (queue_step jobs e) k l \<and> claims_in jobs e k = 0"
proof -
  obtain j l' where j: "row jobs k = Some j" "job_status j = JobClaimed" "job_leaseUntil j = Some l'" "l \<le> l'"
    using assms(2) by (auto simp: leased_def)
  have k: "job_id j = k" using j(1) by (rule row_id)
  show ?thesis
  proof (cases e)
    case (Claim i now)
    then show ?thesis using assms(1) j k by (auto simp: cas_claim_row cas_claim_count leased_def)
  next
    case (Recover now)
    then show ?thesis using assms(3) j k by (auto simp: recover_row leased_def lapsed_def)
  next
    case (Refresh i now)
    then show ?thesis using assms(3) j k by (auto simp: refresh_row leased_def)
  next
    case (Retry i scan kind now)
    then show ?thesis using assms(3) j k retry_row [OF assms(1), of i scan kind now k] by (auto simp: leased_def)
  next
    case (Finish i)
    then show ?thesis using assms(3) j k by (auto simp: finishJob_def update_job_row leased_def)
  next
    case (Requeue i)
    then show ?thesis using assms(3) j k by (auto simp: requeueJob_def update_job_row leased_def)
  qed
qed

interpretation leases: stepper queue_step "\<lambda>jobs. spares k l" "\<lambda>jobs. keyed jobs \<and> leased jobs k l" for k l
  by unfold_locales (simp add: leased_step keyed_step)


section \<open>The claim of the oldest job\<close>

lemma findFirst_Some:
  assumes "findFirst excluded jobs = Some j"
  shows "j \<in> set jobs \<and> eligible excluded j \<and> (\<forall>x \<in> set jobs. eligible excluded x \<longrightarrow> queue_order j \<le> queue_order x)"
proof -
  let ?xs = "sort_key queue_order (filter (eligible excluded) jobs)"
  obtain rest where xs: "?xs = j # rest" using assms by (auto simp: findFirst_def split: list.splits)
  then have set: "set (j # rest) = set (filter (eligible excluded) jobs)" by (metis set_sort)
  have "sorted (map queue_order ?xs)" by simp
  then have "\<forall>x \<in> set rest. queue_order j \<le> queue_order x" by (simp add: xs)
  then have "\<forall>x \<in> set (j # rest). queue_order j \<le> queue_order x" by simp
  with set have "\<forall>x \<in> set (filter (eligible excluded) jobs). queue_order j \<le> queue_order x" by simp
  moreover have "j \<in> set (filter (eligible excluded) jobs)" using set by auto
  ultimately show ?thesis by auto
qed

lemma findFirst_None: "findFirst excluded jobs = None \<longleftrightarrow> (\<forall>x \<in> set jobs. \<not> eligible excluded x)"
proof -
  have "findFirst excluded jobs = None \<longleftrightarrow> sort_key queue_order (filter (eligible excluded) jobs) = []"
    by (simp add: findFirst_def split: list.split)
  also have "\<dots> \<longleftrightarrow> filter (eligible excluded) jobs = []" by (metis set_empty set_sort)
  finally show ?thesis by (auto simp: filter_empty_conv)
qed

lemma row_of_member: "keyed jobs \<Longrightarrow> j \<in> set jobs \<Longrightarrow> row jobs (job_id j) = Some j"
  unfolding keyed_def row_def by (induction jobs) (auto simp: image_iff)

text \<open>The tables the rounds of a claim may read: the one at its start, and those after what others did in lost rounds.\<close>

fun tables :: "(job list \<Rightarrow> job list) list \<Rightarrow> job list \<Rightarrow> job list list" where
  "tables [] jobs = [jobs]"
| "tables (f # fs) jobs = jobs # tables fs (f jobs)"

lemma cas_claim_lost: "keyed jobs \<Longrightarrow> fst (cas_claim i now jobs) \<noteq> 1 \<Longrightarrow> snd (cas_claim i now jobs) = jobs"
proof -
  assume "keyed jobs" "fst (cas_claim i now jobs) \<noteq> 1"
  then have "filter (\<lambda>j. job_id j = i \<and> job_status j = JobPending) jobs = []"
    using count_keyed [of jobs i "\<lambda>j. job_status j = JobPending"]
    by (auto simp: cas_claim_def fst_update_jobs split: option.splits if_splits)
  then have "map (\<lambda>j. if job_id j = i \<and> job_status j = JobPending then claimed_row now j else j) jobs = jobs"
    by (intro map_idI) (auto simp: filter_empty_conv)
  then show ?thesis by (simp add: cas_claim_def update_jobs_def)
qed

definition oldest :: "string set \<Rightarrow> job list \<Rightarrow> job \<Rightarrow> bool" where
  "oldest excluded jobs j \<longleftrightarrow> j \<in> set jobs \<and> eligible excluded j
     \<and> list_all (\<lambda>x. eligible excluded x \<longrightarrow> queue_order j \<le> queue_order x) jobs"

lemma cas_claim_won:
  assumes "keyed jobs" "fst (cas_claim i now jobs) = 1"
  shows "\<exists>j. job_status j = JobPending \<and> row (snd (cas_claim i now jobs)) i = Some (claimed_row now j)"
  using assms by (auto simp: cas_claim_count cas_claim_row split: option.splits if_splits dest: row_id)

lemma oldest_first: "findFirst excluded jobs = Some j \<Longrightarrow> oldest excluded jobs j"
  using findFirst_Some [of excluded jobs j] by (simp add: oldest_def list_all_iff)

definition won_or_lost :: "int \<Rightarrow> string set \<Rightarrow> (job list \<Rightarrow> job list) list \<Rightarrow> job \<Rightarrow> nat \<times> job list \<Rightarrow> ClaimedJob option \<times> job list" where
  "won_or_lost now excluded others j r =
     (if fst r = 1 then (Some \<lparr> cl_jobId = job_id j, cl_scanId = job_scanId j, cl_type = job_type j \<rparr>, snd r)
      else case others of [] \<Rightarrow> (None, snd r) | _ # rest \<Rightarrow> claimNextJob now excluded rest (snd r))"

lemma claimNextJob_first:
  assumes "findFirst excluded jobs = Some j"
  shows "claimNextJob now excluded others jobs
    = won_or_lost now excluded others j (cas_claim (job_id j) now (case others of [] \<Rightarrow> jobs | f # _ \<Rightarrow> f jobs))"
  using assms by (simp add: claimNextJob.simps [of now excluded others jobs] won_or_lost_def split_beta split: list.split)

text \<open>
  a worker that asks for work gets the oldest eligible job of the table it read, which then is claimed for it with a fresh
  lease; it goes away without one only when the table it read last has no eligible job. Losing a round to others never
  blocks it.
\<close>

theorem claim_next_oldest:
  assumes "keyed jobs" "list_all (\<lambda>f. \<forall>js. keyed js \<longrightarrow> keyed (f js)) others" "claimNextJob now excluded others jobs = (claimed, jobs')"
  shows "case claimed of
      None \<Rightarrow> jobs' \<in> set (tables others jobs) \<and> findFirst excluded jobs' = None
    | Some c \<Rightarrow> (\<exists>t \<in> set (tables others jobs). \<exists>j j'. oldest excluded t j
        \<and> c = \<lparr> cl_jobId = job_id j, cl_scanId = job_scanId j, cl_type = job_type j \<rparr>
        \<and> job_status j' = JobPending \<and> row jobs' (job_id j) = Some (claimed_row now j'))"
  using assms
proof (induction others arbitrary: jobs)
  case Nil
  show ?case
  proof (cases "findFirst excluded jobs")
    case None
    with Nil(3) show ?thesis by (simp add: claimNextJob.simps)
  next
    case (Some j)
    have j: "row jobs (job_id j) = Some j" "job_status j = JobPending"
      using row_of_member Nil(1) findFirst_Some [OF Some] by (auto simp: eligible_def)
    have n: "fst (cas_claim (job_id j) now jobs) = 1" using cas_claim_count [OF Nil(1)] j by simp
    have r: "claimed = Some \<lparr> cl_jobId = job_id j, cl_scanId = job_scanId j, cl_type = job_type j \<rparr>"
      "jobs' = snd (cas_claim (job_id j) now jobs)"
      using claimNextJob_first [OF Some, of now "[]"] n Nil(3) by (simp_all add: won_or_lost_def)
    show ?thesis using oldest_first [OF Some] cas_claim_won [OF Nil(1) n] r by auto
  qed
next
  case (Cons f fs)
  have keyed: "keyed (f jobs)" using Cons.prems(1,2) by simp
  show ?case
  proof (cases "findFirst excluded jobs")
    case None
    with Cons.prems(3) show ?thesis by (simp add: claimNextJob.simps)
  next
    case (Some j)
    note step = claimNextJob_first [OF Some, of now "f # fs"]
    show ?thesis
    proof (cases "fst (cas_claim (job_id j) now (f jobs)) = 1")
      case True
      then have r: "claimed = Some \<lparr> cl_jobId = job_id j, cl_scanId = job_scanId j, cl_type = job_type j \<rparr>"
        "jobs' = snd (cas_claim (job_id j) now (f jobs))"
        using step Cons.prems(3) by (simp_all add: won_or_lost_def)
      show ?thesis using oldest_first [OF Some] cas_claim_won [OF keyed True] r by auto
    next
      case False
      then have "claimNextJob now excluded fs (f jobs) = (claimed, jobs')"
        using step Cons.prems(3) cas_claim_lost [OF keyed False] by (simp add: won_or_lost_def)
      from Cons.IH [OF keyed _ this] Cons.prems(2) show ?thesis by (auto split: option.splits)
    qed
  qed
qed

section \<open>On a small queue\<close>

definition demo_job :: "string \<Rightarrow> JOB_STATUSES \<Rightarrow> int \<Rightarrow> job" where
  "demo_job i s created = \<lparr> job_id = i, job_scanId = ''scan-'' @ i, job_type = ''Full'', job_status = s, job_attempts = 0,
     job_claimedAt = None, job_leaseUntil = None, job_createdAt = created \<rparr>"

definition demo_queue :: "job list" where
  "demo_queue = [demo_job ''b'' JobPending 20, demo_job ''a'' JobPending 10]"

text \<open>Two workers race for the same job, the lease of the winner ends, and a third claims it again.\<close>

definition demo_race :: "queue_event list" where
  "demo_race = [Claim ''a'' 100, Claim ''a'' 101, Refresh ''a'' 200, Recover 300000, Recover 300200, Claim ''a'' 300300]"

theorem job_claims_accounted_witness:
  "(\<exists>j'. row (run queue_step demo_queue demo_race) ''a'' = Some j'
    \<and> job_attempts j' = job_attempts (demo_job ''a'' JobPending 10) + total_in claims_in demo_queue demo_race ''a''
    \<and> total_in claims_in demo_queue demo_race ''a'' + waiting j'
      \<le> waiting (demo_job ''a'' JobPending 10) + total_in returns_in demo_queue demo_race ''a'')
    \<and> total_in claims_in demo_queue demo_race ''a'' = 2"
proof
  show "\<exists>j'. row (run queue_step demo_queue demo_race) ''a'' = Some j'
    \<and> job_attempts j' = job_attempts (demo_job ''a'' JobPending 10) + total_in claims_in demo_queue demo_race ''a''
    \<and> total_in claims_in demo_queue demo_race ''a'' + waiting j'
      \<le> waiting (demo_job ''a'' JobPending 10) + total_in returns_in demo_queue demo_race ''a''"
    by (rule job_claims_accounted) code_simp+
  show "total_in claims_in demo_queue demo_race ''a'' = 2" by code_simp
qed

definition demo_claimed :: "job list" where
  "demo_claimed = snd (cas_claim ''a'' 100 demo_queue)"

definition demo_spared :: "queue_event list" where
  "demo_spared = [Claim ''a'' 101, Recover 300000, Refresh ''a'' 5000, Finish ''b'', Claim ''a'' 6000]"


text \<open>The worker that read \<open>a\<close> as the oldest loses it to another and takes \<open>b\<close> in its second round.\<close>

definition demo_others :: "(job list \<Rightarrow> job list) list" where
  "demo_others = [\<lambda>js. snd (cas_claim ''a'' 100 js)]"

theorem claim_next_oldest_witness:
  "\<exists>t \<in> set (tables demo_others demo_queue). \<exists>j j'. oldest {} t j
     \<and> \<lparr> cl_jobId = ''b'', cl_scanId = ''scan-b'', cl_type = ''Full'' \<rparr> = \<lparr> cl_jobId = job_id j, cl_scanId = job_scanId j, cl_type = job_type j \<rparr>
     \<and> job_status j' = JobPending \<and> row (snd (claimNextJob 101 {} demo_others demo_queue)) (job_id j) = Some (claimed_row 101 j')"
proof -
  have k: "keyed demo_queue" by code_simp
  have o: "list_all (\<lambda>f. \<forall>js. keyed js \<longrightarrow> keyed (f js)) demo_others"
    by (simp add: demo_others_def cas_claim_def keyed_update)
  have "fst (claimNextJob 101 {} demo_others demo_queue) = Some \<lparr> cl_jobId = ''b'', cl_scanId = ''scan-b'', cl_type = ''Full'' \<rparr>"
    by code_simp
  then have r: "claimNextJob 101 {} demo_others demo_queue
      = (Some \<lparr> cl_jobId = ''b'', cl_scanId = ''scan-b'', cl_type = ''Full'' \<rparr>, snd (claimNextJob 101 {} demo_others demo_queue))"
    by (metis prod.collapse)
  show ?thesis using claim_next_oldest [OF k o r] by simp
qed

text \<open>
  A claim has no holder: a worker whose lease ended, and whose job another worker has claimed since, still ends or returns the
  claim of the other.
\<close>

lemma stale_worker_ends_live_claim:
  "row (run queue_step demo_queue [Claim ''a'' 100, Recover 300100, Claim ''a'' 300200]) ''a''
     = Some (demo_job ''a'' JobClaimed 10 \<lparr> job_attempts := 2, job_claimedAt := Some 300200, job_leaseUntil := Some 600200 \<rparr>)"
  "row (run queue_step demo_queue [Claim ''a'' 100, Recover 300100, Claim ''a'' 300200, Requeue ''a'', Claim ''a'' 300300]) ''a''
     = Some (demo_job ''a'' JobClaimed 10 \<lparr> job_attempts := 3, job_claimedAt := Some 300300, job_leaseUntil := Some 600300 \<rparr>)"
  "map_option job_status (row (run queue_step demo_queue [Claim ''a'' 100, Recover 300100, Claim ''a'' 300200, Finish ''a'']) ''a'')
     = Some JobDone"
  by code_simp+

end
