(* ===== verification/Coverage.thy ===== *)
theory Coverage
  imports Prelude "HOL-Library.AList"
begin

text \<open>
  The proof of what a scan really looked at: \<open>apps/api/src/orchestrator/run-coverage.ts\<close>, with the request context of
  \<open>run-context.ts\<close>. A module's rules and the dependencies of its findings are written as a table of addresses and
  deduplicated sets of indices into it, zipped, and read back by the next scan. Compression, JSON and schema are the
  parameters \<open>codec\<close>. An object keyed by rule or fingerprint is an association list in insertion order.
\<close>

section \<open>What a run records\<close>

record RunRequestContext =
  cx_userAgent :: "string option"
  cx_ga4PropertyId :: "string option"
  cx_searchConsoleSiteUrl :: "string option"
  cx_crawlScope :: "string option"
  cx_bingSiteUrl :: "string option"

definition UNKNOWN_RUN_CONTEXT :: RunRequestContext where
  "UNKNOWN_RUN_CONTEXT = \<lparr> cx_userAgent = None, cx_ga4PropertyId = None, cx_searchConsoleSiteUrl = None,
     cx_crawlScope = None, cx_bingSiteUrl = None \<rparr>"

record RuleCoverage =
  rc_ruleId :: string
  rc_checkedTargets :: "string list"
  rc_inputTargets :: "string list option"
  rc_requestedInputs :: "string list option"

record ModuleCoverage =
  mc_rules :: "RuleCoverage list"
  mc_issueDependencies :: "(string \<times> string list) list option"
  mc_context :: RunRequestContext

record RuleCoverageEntry =
  ce_checkedTargets :: "string set"
  ce_inputTargets :: "string set"
  ce_requestedInputs :: "string set option"
  ce_context :: RunRequestContext

record ScanCoverage =
  sv_byRule :: "string \<rightharpoonup> RuleCoverageEntry"
  sv_issueDependencies :: "string \<rightharpoonup> string list"

definition EMPTY_SCAN_COVERAGE :: ScanCoverage where
  "EMPTY_SCAN_COVERAGE = \<lparr> sv_byRule = Map.empty, sv_issueDependencies = Map.empty \<rparr>"

definition MAX_COVERAGE_PROOF_TARGETS :: nat where "MAX_COVERAGE_PROOF_TARGETS = 250000"

definition MAX_REQUESTED_INPUT_TARGETS :: nat where "MAX_REQUESTED_INPUT_TARGETS = 150000"

section \<open>Encoding\<close>

record ruleEntry =
  en_checked :: nat
  en_inputs :: "nat option"
  en_requested :: "nat option"

record EncodedRuleCoverage =
  ec_urls :: "string list"
  ec_targetSets :: "nat list list"
  ec_rules :: "(string \<times> ruleEntry) list"
  ec_issues :: "(string \<times> nat) list option"
  ec_context :: "RunRequestContext option"
  ec_truncated :: bool

text \<open>
  The two maps of the encoder and its sets: \<open>urlIds\<close> holds its keys in insertion order, so that the identifier of an
  address, the size of the map when it came in, is its position.
\<close>

record encoder =
  urlIds :: "string list"
  setIds :: "string \<rightharpoonup> nat"
  targetSets :: "nat list list"

definition new_encoder :: encoder where
  "new_encoder = \<lparr> urlIds = [], setIds = Map.empty, targetSets = [] \<rparr>"

definition urlId :: "string list \<Rightarrow> string \<Rightarrow> nat \<times> string list" where
  "urlId ids url = (case index_of url ids of Some existing \<Rightarrow> (existing, ids) | None \<Rightarrow> (length ids, ids @ [url]))"

fun urls_ids :: "string list \<Rightarrow> string list \<Rightarrow> nat list \<times> string list" where
  "urls_ids ids [] = ([], ids)"
| "urls_ids ids (url # urls) =
     (case urlId ids url of (i, ids1) \<Rightarrow> (case urls_ids ids1 urls of (is, ids2) \<Rightarrow> (i # is, ids2)))"

definition set_key :: "nat list \<Rightarrow> string" where
  "set_key indices = join_with '','' (map nat_to_string indices)"

definition setId :: "string list \<Rightarrow> encoder \<Rightarrow> nat \<times> encoder" where
  "setId targets st =
     (case urls_ids (urlIds st) targets of
        (raw, ids) \<Rightarrow>
          let indices = sort (remdups raw); key = set_key indices; st1 = st\<lparr> urlIds := ids \<rparr> in
          (case setIds st key of
             Some existing \<Rightarrow> (existing, st1)
           | None \<Rightarrow> (length (targetSets st), st1\<lparr> setIds := (setIds st)(key \<mapsto> length (targetSets st)),
                                                 targetSets := targetSets st @ [indices] \<rparr>)))"

definition kept_requested :: "RuleCoverage \<Rightarrow> string list option" where
  "kept_requested rule =
     (case rc_requestedInputs rule of
        Some requested \<Rightarrow> if length requested \<le> MAX_REQUESTED_INPUT_TARGETS then Some requested else None
      | None \<Rightarrow> None)"

definition optional_set :: "string list option \<Rightarrow> encoder \<Rightarrow> nat option \<times> encoder" where
  "optional_set targets st = (case targets of None \<Rightarrow> (None, st) | Some ts \<Rightarrow> (case setId ts st of (i, st1) \<Rightarrow> (Some i, st1)))"

definition rule_inputs :: "RuleCoverage \<Rightarrow> string list" where
  "rule_inputs rule = (case rc_inputTargets rule of None \<Rightarrow> [] | Some inputs \<Rightarrow> inputs)"

definition encode_rule :: "RuleCoverage \<Rightarrow> encoder \<Rightarrow> ruleEntry \<times> encoder" where
  "encode_rule rule st =
     (case setId (rc_checkedTargets rule) st of (checked, st1) \<Rightarrow>
      (case optional_set (if rule_inputs rule = [] then None else Some (rule_inputs rule)) st1 of (inputs, st2) \<Rightarrow>
       (case optional_set (kept_requested rule) st2 of (requested, st3) \<Rightarrow>
          (\<lparr> en_checked = checked, en_inputs = inputs, en_requested = requested \<rparr>, st3))))"

fun encode_rules :: "RuleCoverage list \<Rightarrow> (string \<times> ruleEntry) list \<Rightarrow> encoder \<Rightarrow> (string \<times> ruleEntry) list \<times> encoder" where
  "encode_rules [] rules st = (rules, st)"
| "encode_rules (r # rs) rules st =
     (case encode_rule r st of (entry, st1) \<Rightarrow> encode_rules rs (AList.update (rc_ruleId r) entry rules) st1)"

fun encode_issues :: "(string \<times> string list) list \<Rightarrow> (string \<times> nat) list \<Rightarrow> encoder \<Rightarrow> (string \<times> nat) list \<times> encoder" where
  "encode_issues [] issues st = (issues, st)"
| "encode_issues ((fingerprint, targets) # ds) issues st =
     (if targets = [] then encode_issues ds issues st
      else (case setId targets st of (i, st1) \<Rightarrow> encode_issues ds (AList.update fingerprint i issues) st1))"

definition issue_dependencies :: "ModuleCoverage \<Rightarrow> (string \<times> string list) list" where
  "issue_dependencies coverage = (case mc_issueDependencies coverage of None \<Rightarrow> [] | Some ds \<Rightarrow> ds)"

definition encodeRuleCoverage :: "ModuleCoverage \<Rightarrow> EncodedRuleCoverage" where
  "encodeRuleCoverage coverage =
     (case encode_rules (mc_rules coverage) [] new_encoder of (rules, st1) \<Rightarrow>
      (case encode_issues (issue_dependencies coverage) [] st1 of (issues, st) \<Rightarrow>
         if MAX_COVERAGE_PROOF_TARGETS < length (urlIds st) then
           \<lparr> ec_urls = [], ec_targetSets = [], ec_rules = [], ec_issues = None,
             ec_context = Some (mc_context coverage), ec_truncated = True \<rparr>
         else
           \<lparr> ec_urls = urlIds st, ec_targetSets = targetSets st, ec_rules = rules,
             ec_issues = (if issues = [] then None else Some issues),
             ec_context = Some (mc_context coverage), ec_truncated = False \<rparr>))"

section \<open>Reading\<close>

record CoverageRead =
  cr_coverage :: "string \<rightharpoonup> RuleCoverageEntry"
  cr_issueDependencies :: "string \<rightharpoonup> string list"
  cr_problem :: "string option"

definition unusable :: "string \<Rightarrow> CoverageRead" where
  "unusable p = \<lparr> cr_coverage = Map.empty, cr_issueDependencies = Map.empty, cr_problem = Some p \<rparr>"

definition targetsOf :: "EncodedRuleCoverage \<Rightarrow> nat \<Rightarrow> string list option" where
  "targetsOf encoded i =
     (if i < length (ec_targetSets encoded) then
        let indices = ec_targetSets encoded ! i in
        if list_all (\<lambda>k. k < length (ec_urls encoded)) indices then Some (map ((!) (ec_urls encoded)) indices) else None
      else None)"

definition optional_targets :: "EncodedRuleCoverage \<Rightarrow> nat option \<Rightarrow> string list option option" where
  "optional_targets encoded i = (case i of None \<Rightarrow> Some None | Some k \<Rightarrow> map_option Some (targetsOf encoded k))"

definition read_rule :: "EncodedRuleCoverage \<Rightarrow> ruleEntry \<Rightarrow> RuleCoverageEntry option" where
  "read_rule encoded entry =
     (case targetsOf encoded (en_checked entry) of
        None \<Rightarrow> None
      | Some checked \<Rightarrow>
          (case optional_targets encoded (en_inputs entry) of
             None \<Rightarrow> None
           | Some inputs \<Rightarrow>
               (case optional_targets encoded (en_requested entry) of
                  None \<Rightarrow> None
                | Some requested \<Rightarrow>
                    Some \<lparr> ce_checkedTargets = set checked, ce_inputTargets = (case inputs of None \<Rightarrow> {} | Some ts \<Rightarrow> set ts),
                           ce_requestedInputs = map_option set requested,
                           ce_context = (case ec_context encoded of None \<Rightarrow> UNKNOWN_RUN_CONTEXT | Some c \<Rightarrow> c) \<rparr>)))"

fun index_rules :: "EncodedRuleCoverage \<Rightarrow> (string \<times> ruleEntry) list \<Rightarrow> (string \<rightharpoonup> RuleCoverageEntry)
    \<Rightarrow> string + (string \<rightharpoonup> RuleCoverageEntry)" where
  "index_rules encoded [] coverage = Inr coverage"
| "index_rules encoded ((ruleId, entry) # es) coverage =
     (case read_rule encoded entry of
        None \<Rightarrow> Inl (''coverage proof of '' @ ruleId @ '' references an unknown target set or URL'')
      | Some e \<Rightarrow> index_rules encoded es (coverage(ruleId \<mapsto> e)))"

fun index_issues :: "EncodedRuleCoverage \<Rightarrow> (string \<times> nat) list \<Rightarrow> (string \<rightharpoonup> string list)
    \<Rightarrow> string + (string \<rightharpoonup> string list)" where
  "index_issues encoded [] deps = Inr deps"
| "index_issues encoded ((fingerprint, i) # is) deps =
     (case targetsOf encoded i of
        None \<Rightarrow> Inl (''coverage proof of finding '' @ fingerprint @ '' references an unknown target set'')
      | Some targets \<Rightarrow> index_issues encoded is (deps(fingerprint \<mapsto> targets)))"

definition indexOf :: "EncodedRuleCoverage \<Rightarrow> CoverageRead" where
  "indexOf encoded =
     (case index_rules encoded (ec_rules encoded) Map.empty of
        Inl p \<Rightarrow> unusable p
      | Inr coverage \<Rightarrow>
          (case index_issues encoded (case ec_issues encoded of None \<Rightarrow> [] | Some issues \<Rightarrow> issues) Map.empty of
             Inl p \<Rightarrow> unusable p
           | Inr deps \<Rightarrow> \<lparr> cr_coverage = coverage, cr_issueDependencies = deps, cr_problem = None \<rparr>))"

text \<open>Compression, JSON and the schema; \<open>Inl\<close> is the message of an error.\<close>

record ('b, 't, 'j) codec =
  cd_gzip :: "'t \<Rightarrow> 'b"
  cd_gunzip :: "'b \<Rightarrow> string + 't"
  cd_stringify :: "EncodedRuleCoverage \<Rightarrow> 't"
  cd_parse :: "'t \<Rightarrow> 'j option"
  cd_validate :: "'j \<Rightarrow> string + EncodedRuleCoverage"

definition serializeCoverageProof :: "('b, 't, 'j) codec \<Rightarrow> ModuleCoverage \<Rightarrow> 'b" where
  "serializeCoverageProof cd coverage = cd_gzip cd (cd_stringify cd (encodeRuleCoverage coverage))"

definition decodeEncodedProof :: "('b, 't, 'j) codec \<Rightarrow> 'b \<Rightarrow> string + EncodedRuleCoverage" where
  "decodeEncodedProof cd stored =
     (case cd_gunzip cd stored of
        Inl e \<Rightarrow> Inl (''coverage proof could not be decompressed: '' @ e)
      | Inr json \<Rightarrow>
          (case cd_parse cd json of
             None \<Rightarrow> Inl ''coverage proof is not valid JSON''
           | Some parsed \<Rightarrow>
               (case cd_validate cd parsed of
                  Inl e \<Rightarrow> Inl (''coverage proof is malformed: '' @ e)
                | Inr encoded \<Rightarrow>
                    if ec_truncated encoded then
                      Inl (''run exceeded the '' @ nat_to_string MAX_COVERAGE_PROOF_TARGETS @ ''-target coverage proof limit; ''
                           @ ''findings of this module stay open'')
                    else Inr encoded)))"

definition decodeCoverageProof :: "('b, 't, 'j) codec \<Rightarrow> 'b \<Rightarrow> CoverageRead" where
  "decodeCoverageProof cd stored = (case decodeEncodedProof cd stored of Inl p \<Rightarrow> unusable p | Inr encoded \<Rightarrow> indexOf encoded)"

text \<open>What is written can be read back as it was.\<close>

definition faithful :: "('b, 't, 'j) codec \<Rightarrow> bool" where
  "faithful cd \<longleftrightarrow> (\<forall>t. cd_gunzip cd (cd_gzip cd t) = Inr t)
     \<and> (\<forall>e. map_option (cd_validate cd) (cd_parse cd (cd_stringify cd e)) = Some (Inr e))"

section \<open>A scan\<close>

definition mergeEntries :: "RuleCoverageEntry \<Rightarrow> RuleCoverageEntry \<Rightarrow> RuleCoverageEntry" where
  "mergeEntries left right =
     \<lparr> ce_checkedTargets = ce_checkedTargets left \<union> ce_checkedTargets right,
       ce_inputTargets = ce_inputTargets left \<union> ce_inputTargets right,
       ce_requestedInputs =
         (case (ce_requestedInputs left, ce_requestedInputs right) of (Some l, Some r) \<Rightarrow> Some (l \<union> r) | _ \<Rightarrow> None),
       ce_context = ce_context left \<rparr>"

definition merge_read :: "CoverageRead \<Rightarrow> ScanCoverage \<Rightarrow> ScanCoverage" where
  "merge_read r acc =
     \<lparr> sv_byRule = (\<lambda>ruleId. case cr_coverage r ruleId of
         None \<Rightarrow> sv_byRule acc ruleId
       | Some entry \<Rightarrow> (case sv_byRule acc ruleId of None \<Rightarrow> Some entry | Some existing \<Rightarrow> Some (mergeEntries existing entry))),
       sv_issueDependencies = sv_issueDependencies acc ++ cr_issueDependencies r \<rparr>"

record 'b proof_row =
  pf_scanId :: string
  pf_module :: string
  pf_proof :: 'b

text \<open>The coverage and the problems reported to \<open>onUnreadable\<close>, by module.\<close>

definition loadScanCoverage :: "('b, 't, 'j) codec \<Rightarrow> string \<Rightarrow> 'b proof_row list \<Rightarrow> ScanCoverage \<times> (string \<times> string) list" where
  "loadScanCoverage cd scanId rows =
     (let proofs = filter (\<lambda>r. pf_scanId r = scanId) rows;
          reads = map (\<lambda>r. (pf_module r, decodeCoverageProof cd (pf_proof r))) proofs in
      (fold merge_read (map snd reads) EMPTY_SCAN_COVERAGE,
       concat (map (\<lambda>(m, r). case cr_problem r of None \<Rightarrow> [] | Some p \<Rightarrow> [(m, p)]) reads)))"

text \<open>
  The questions of the comparison of scans, answered in one pass: the rules that ran, and per named group of rules the
  addresses they judged.
\<close>

record ProofFacts =
  fa_ruleIds :: "string list"
  fa_targets :: "(string \<times> string list) list"
  fa_problem :: "string option"

fun collect :: "EncodedRuleCoverage \<Rightarrow> (string \<times> string set) list \<Rightarrow> (string \<times> ruleEntry) list \<Rightarrow> string list
    \<Rightarrow> (string \<Rightarrow> string list) \<Rightarrow> ProofFacts" where
  "collect encoded groups [] ruleIds into =
     \<lparr> fa_ruleIds = ruleIds, fa_targets = map (\<lambda>(name, _). (name, into name)) groups, fa_problem = None \<rparr>"
| "collect encoded groups ((ruleId, entry) # es) ruleIds into =
     (let wanted = map fst (filter (\<lambda>(name, rules). ruleId \<in> rules) groups) in
      if wanted = [] then collect encoded groups es (ruleIds @ [ruleId]) into
      else (case targetsOf encoded (en_checked entry) of
              None \<Rightarrow> \<lparr> fa_ruleIds = [], fa_targets = [],
                         fa_problem = Some (''coverage proof of '' @ ruleId @ '' references an unknown target set or URL'') \<rparr>
            | Some checked \<Rightarrow>
                collect encoded groups es (ruleIds @ [ruleId])
                  (\<lambda>name. if name \<in> set wanted then first_by id {} (into name @ checked) else into name)))"

definition readProofFacts :: "('b, 't, 'j) codec \<Rightarrow> 'b \<Rightarrow> (string \<times> string set) list \<Rightarrow> ProofFacts" where
  "readProofFacts cd stored groups =
     (case decodeEncodedProof cd stored of
        Inl p \<Rightarrow> \<lparr> fa_ruleIds = [], fa_targets = [], fa_problem = Some p \<rparr>
      | Inr encoded \<Rightarrow> collect encoded groups (ec_rules encoded) [] (\<lambda>_. []))"

section \<open>The encoder\<close>

lemma set_key_inj: "set_key a = set_key b \<Longrightarrow> a = b"
proof -
  have no_comma: "CHR '','' \<notin> set (nat_to_string n)" for n
    by (rule is_digits_not_mem) simp_all
  have split: "split_on (CHR '','') (set_key xs) = map nat_to_string xs" if "xs \<noteq> []" for xs
    unfolding set_key_def using that no_comma by (intro split_join) auto
  have nonempty: "set_key xs \<noteq> []" if "xs \<noteq> []" for xs
    unfolding set_key_def using that by (intro join_nonempty) auto
  have empty: "set_key [] = []" by (simp add: set_key_def)
  assume eq: "set_key a = set_key b"
  show "a = b"
  proof (cases "a = [] \<or> b = []")
    case True
    with eq nonempty empty show ?thesis by metis
  next
    case False
    with split eq have "map nat_to_string a = map nat_to_string b" by metis
    then show ?thesis by (simp add: inj_map_eq_map inj_def)
  qed
qed

definition good :: "encoder \<Rightarrow> bool" where
  "good st \<longleftrightarrow> distinct (urlIds st)
     \<and> (\<forall>is \<in> set (targetSets st). \<forall>i \<in> set is. i < length (urlIds st))
     \<and> (\<forall>key i. setIds st key = Some i \<longrightarrow> i < length (targetSets st) \<and> set_key (targetSets st ! i) = key)"

definition grown :: "encoder \<Rightarrow> encoder \<Rightarrow> bool" where
  "grown st st' \<longleftrightarrow> (\<exists>us. urlIds st' = urlIds st @ us) \<and> (\<exists>ts. targetSets st' = targetSets st @ ts)"

lemma grown_refl [simp]: "grown st st"
  by (simp add: grown_def)

lemma grown_trans: "grown a b \<Longrightarrow> grown b c \<Longrightarrow> grown a c"
  by (auto simp: grown_def)

definition denotes :: "encoder \<Rightarrow> nat \<Rightarrow> string list \<Rightarrow> bool" where
  "denotes st i targets \<longleftrightarrow> i < length (targetSets st) \<and> (\<forall>k \<in> set (targetSets st ! i). k < length (urlIds st))
     \<and> (!) (urlIds st) ` set (targetSets st ! i) = set targets"

lemma denotes_grown:
  assumes "denotes st i targets" "grown st st'"
  shows "denotes st' i targets"
proof -
  obtain us ts where g: "urlIds st' = urlIds st @ us" "targetSets st' = targetSets st @ ts" using assms(2) by (auto simp: grown_def)
  have d: "i < length (targetSets st)" "\<forall>k \<in> set (targetSets st ! i). k < length (urlIds st)"
    "(!) (urlIds st) ` set (targetSets st ! i) = set targets" using assms(1) by (auto simp: denotes_def)
  have "(!) (urlIds st') ` set (targetSets st ! i) = (!) (urlIds st) ` set (targetSets st ! i)"
    using d(2) by (intro image_cong) (auto simp: g nth_append)
  with d show ?thesis by (auto simp: denotes_def g nth_append)
qed

lemma urls_ids:
  assumes "distinct ids"
  shows "distinct (snd (urls_ids ids urls)) \<and> (\<exists>us. snd (urls_ids ids urls) = ids @ us)
    \<and> set (snd (urls_ids ids urls)) = set ids \<union> set urls
    \<and> (\<forall>i \<in> set (fst (urls_ids ids urls)). i < length (snd (urls_ids ids urls)))
    \<and> (!) (snd (urls_ids ids urls)) ` set (fst (urls_ids ids urls)) = set urls"
  using assms
proof (induction urls arbitrary: ids)
  case (Cons url urls)
  obtain i ids1 where u: "urlId ids url = (i, ids1)" by fastforce
  have d1: "distinct ids1" and p1: "\<exists>us. ids1 = ids @ us" and s1: "set ids1 = insert url (set ids)" and i: "i < length ids1" "ids1 ! i = url"
    using u Cons.prems index_of_Some [of url ids] by (auto simp: urlId_def split: option.splits)
  obtain rest ids2 where r: "urls_ids ids1 urls = (rest, ids2)" by fastforce
  note IH = Cons.IH [OF d1, unfolded r fst_conv snd_conv]
  obtain us where us: "ids2 = ids1 @ us" using IH by blast
  have "ids2 ! i = url" "i < length ids2" using i by (simp_all add: us nth_append)
  then show ?case using IH p1 s1 by (auto simp: u r us)
qed simp

lemma setId_correct:
  assumes "good st" "setId targets st = (i, st')"
  shows "good st' \<and> grown st st' \<and> denotes st' i targets \<and> set (urlIds st') = set (urlIds st) \<union> set targets"
proof -
  obtain raw ids where u: "urls_ids (urlIds st) targets = (raw, ids)" by fastforce
  have d: "distinct (urlIds st)" using assms(1) by (simp add: good_def)
  note facts = urls_ids [OF d, of targets, unfolded u fst_conv snd_conv]
  obtain us where us: "ids = urlIds st @ us" using facts by blast
  define indices where "indices = sort (remdups raw)"
  have ind: "set indices = set raw" by (simp add: indices_def)
  have old: "\<forall>is \<in> set (targetSets st). \<forall>i \<in> set is. i < length ids" using assms(1) by (auto simp: good_def us intro: trans_less_add1)
  show ?thesis
  proof (cases "setIds st (set_key indices)")
    case None
    then have st': "i = length (targetSets st)" "st' = st\<lparr> urlIds := ids, setIds := (setIds st)(set_key indices \<mapsto> length (targetSets st)),
        targetSets := targetSets st @ [indices] \<rparr>"
      using assms(2) None by (auto simp: setId_def u indices_def Let_def)
    have "good st'" using assms(1) facts old ind by (auto simp: good_def st' nth_append intro: less_SucI)
    moreover have "denotes st' i targets" using facts ind by (simp add: denotes_def st')
    ultimately show ?thesis using facts us by (simp add: st' grown_def)
  next
    case (Some k)
    then have st': "i = k" "st' = st\<lparr> urlIds := ids \<rparr>" using assms(2) Some by (auto simp: setId_def u indices_def Let_def)
    have k: "k < length (targetSets st)" "targetSets st ! k = indices"
      using assms(1) Some set_key_inj by (auto simp: good_def)
    have "good st'" using assms(1) facts old by (auto simp: good_def st')
    moreover have "denotes st' i targets" using facts ind k by (simp add: denotes_def st')
    ultimately show ?thesis using facts us by (simp add: st' grown_def)
  qed
qed

definition entry_denotes :: "encoder \<Rightarrow> RuleCoverage \<Rightarrow> ruleEntry \<Rightarrow> bool" where
  "entry_denotes st rule entry \<longleftrightarrow> denotes st (en_checked entry) (rc_checkedTargets rule)
     \<and> (case en_inputs entry of None \<Rightarrow> rule_inputs rule = [] | Some i \<Rightarrow> denotes st i (rule_inputs rule))
     \<and> rel_option (denotes st) (en_requested entry) (kept_requested rule)"

lemma entry_denotes_grown: "entry_denotes st rule entry \<Longrightarrow> grown st st' \<Longrightarrow> entry_denotes st' rule entry"
  by (auto simp: entry_denotes_def option_rel_Some1 option_rel_Some2 split: option.splits intro: denotes_grown elim!: option.rel_cases)

definition rule_addresses :: "RuleCoverage \<Rightarrow> string set" where
  "rule_addresses rule = set (rc_checkedTargets rule) \<union> set (rule_inputs rule)
     \<union> (case kept_requested rule of None \<Rightarrow> {} | Some ts \<Rightarrow> set ts)"

lemma optional_set_correct:
  assumes "good st" "optional_set targets st = (i, st')"
  shows "good st' \<and> grown st st' \<and> rel_option (denotes st') i targets
    \<and> set (urlIds st') = set (urlIds st) \<union> (case targets of None \<Rightarrow> {} | Some ts \<Rightarrow> set ts)"
  using assms setId_correct [OF assms(1)] by (auto simp: optional_set_def split: option.splits prod.splits)

lemma encode_rule_correct:
  assumes "good st" "encode_rule rule st = (entry, st')"
  shows "good st' \<and> grown st st' \<and> entry_denotes st' rule entry \<and> set (urlIds st') = set (urlIds st) \<union> rule_addresses rule"
proof -
  obtain c st1 where s1: "setId (rc_checkedTargets rule) st = (c, st1)" by fastforce
  obtain i st2 where s2: "optional_set (if rule_inputs rule = [] then None else Some (rule_inputs rule)) st1 = (i, st2)" by fastforce
  obtain q st3 where s3: "optional_set (kept_requested rule) st2 = (q, st3)" by fastforce
  have e: "entry = \<lparr> en_checked = c, en_inputs = i, en_requested = q \<rparr>" "st' = st3"
    using assms(2) by (simp_all add: encode_rule_def s1 s2 s3)
  note f1 = setId_correct [OF assms(1) s1]
  note f2 = optional_set_correct [OF conjunct1 [OF f1] s2]
  note f3 = optional_set_correct [OF conjunct1 [OF f2] s3]
  have g: "grown st1 st3" "grown st2 st3" using f2 f3 grown_trans by blast+
  have "denotes st3 c (rc_checkedTargets rule)" using f1 g(1) denotes_grown by blast
  moreover have "case i of None \<Rightarrow> rule_inputs rule = [] | Some k \<Rightarrow> denotes st3 k (rule_inputs rule)"
    using f2 denotes_grown [OF _ g(2)] by (auto simp: option_rel_Some2 split: if_splits option.splits)
  moreover have "grown st st3" using f1 f2 f3 grown_trans by blast
  ultimately show ?thesis using f1 f2 f3 by (auto simp: e entry_denotes_def rule_addresses_def)
qed

text \<open>Of the entries of one key the last counts.\<close>

definition last_of :: "('a \<Rightarrow> 'k) \<Rightarrow> 'a list \<Rightarrow> 'k \<Rightarrow> 'a option" where
  "last_of key xs k = find (\<lambda>x. key x = k) (rev xs)"

lemma last_of_Nil [simp]: "last_of key [] = Map.empty"
  by (simp add: last_of_def fun_eq_iff)

lemma find_append: "find P (xs @ ys) = (case find P xs of None \<Rightarrow> find P ys | Some x \<Rightarrow> Some x)"
  by (induction xs) auto

lemma last_of_Cons: "last_of key (x # xs) k = (case last_of key xs k of None \<Rightarrow> if key x = k then Some x else None | Some y \<Rightarrow> Some y)"
  by (simp add: last_of_def find_append split: option.split)

lemma encode_rules_correct:
  assumes "good st" "encode_rules rs rules st = (rules', st')" "distinct (map fst rules)"
  shows "good st' \<and> grown st st' \<and> set (urlIds st') = set (urlIds st) \<union> (\<Union>r \<in> set rs. rule_addresses r)
    \<and> distinct (map fst rules')
    \<and> (\<forall>k. case last_of rc_ruleId rs k of
          None \<Rightarrow> map_of rules' k = map_of rules k
        | Some r \<Rightarrow> \<exists>e. map_of rules' k = Some e \<and> entry_denotes st' r e)"
  using assms
proof (induction rs arbitrary: rules st)
  case (Cons r rs)
  obtain e st1 where r: "encode_rule r st = (e, st1)" by fastforce
  note f1 = encode_rule_correct [OF Cons.prems(1) r]
  have rest: "encode_rules rs (AList.update (rc_ruleId r) e rules) st1 = (rules', st')" using Cons.prems(2) by (simp add: r)
  have "distinct (map fst (AList.update (rc_ruleId r) e rules))" using Cons.prems(3) by (rule distinct_update)
  note IH = Cons.IH [OF conjunct1 [OF f1] rest this]
  have "case last_of rc_ruleId (r # rs) k of
          None \<Rightarrow> map_of rules' k = map_of rules k
        | Some x \<Rightarrow> \<exists>e. map_of rules' k = Some e \<and> entry_denotes st' x e" for k
  proof (cases "last_of rc_ruleId rs k")
    case None
    then have m: "map_of rules' k = map_of (AList.update (rc_ruleId r) e rules) k" using IH by (auto dest: spec [of _ k])
    show ?thesis
    proof (cases "rc_ruleId r = k")
      case True
      have "entry_denotes st' r e" by (rule entry_denotes_grown [of st1]) (use f1 IH in simp_all)
      then show ?thesis using None m True by (simp add: last_of_Cons update_conv')
    next
      case False
      then show ?thesis using None m by (simp add: last_of_Cons update_conv')
    qed
  next
    case (Some x)
    have "case last_of rc_ruleId rs k of None \<Rightarrow> map_of rules' k = map_of (AList.update (rc_ruleId r) e rules) k
        | Some r \<Rightarrow> \<exists>e. map_of rules' k = Some e \<and> entry_denotes st' r e" using IH by blast
    with Some show ?thesis by (simp add: last_of_Cons)
  qed
  moreover have "grown st st'" using f1 IH grown_trans by blast
  ultimately show ?case using f1 IH by auto
qed auto

definition named_dependencies :: "(string \<times> string list) list \<Rightarrow> (string \<times> string list) list" where
  "named_dependencies = filter (\<lambda>d. snd d \<noteq> [])"

lemma encode_issues_correct:
  assumes "good st" "encode_issues ds issues st = (issues', st')" "distinct (map fst issues)"
  shows "good st' \<and> grown st st' \<and> set (urlIds st') = set (urlIds st) \<union> (\<Union>d \<in> set ds. set (snd d))
    \<and> distinct (map fst issues')
    \<and> (\<forall>k. case last_of fst (named_dependencies ds) k of
          None \<Rightarrow> map_of issues' k = map_of issues k
        | Some d \<Rightarrow> \<exists>i. map_of issues' k = Some i \<and> denotes st' i (snd d))"
  using assms
proof (induction ds issues st rule: encode_issues.induct)
  case (2 fingerprint targets ds issues st)
  show ?case
  proof (cases "targets = []")
    case True
    then show ?thesis using 2 by (simp add: named_dependencies_def)
  next
    case False
    obtain i st1 where s: "setId targets st = (i, st1)" by fastforce
    note f1 = setId_correct [OF 2(3) s]
    have rest: "encode_issues ds (AList.update fingerprint i issues) st1 = (issues', st')" using 2(4) False by (simp add: s)
    have d: "distinct (map fst (AList.update fingerprint i issues))" using 2(5) by (rule distinct_update)
    note IH = 2(2) [OF False s [symmetric] conjunct1 [OF f1] rest d]
    have "case last_of fst (named_dependencies ((fingerprint, targets) # ds)) k of
          None \<Rightarrow> map_of issues' k = map_of issues k
        | Some d \<Rightarrow> \<exists>i. map_of issues' k = Some i \<and> denotes st' i (snd d)" for k
    proof -
      have IHk: "case last_of fst (named_dependencies ds) k of
          None \<Rightarrow> map_of issues' k = map_of (AList.update fingerprint i issues) k
        | Some d \<Rightarrow> \<exists>i. map_of issues' k = Some i \<and> denotes st' i (snd d)" using IH by blast
      have dn: "denotes st' i targets" using f1 IH denotes_grown by blast
      have nd: "named_dependencies ((fingerprint, targets) # ds) = (fingerprint, targets) # named_dependencies ds"
        using False by (simp add: named_dependencies_def)
      show ?thesis using IHk dn unfolding nd last_of_Cons
        by (cases "last_of fst (named_dependencies ds) k"; cases "fingerprint = k") (simp_all add: update_conv')
    qed
    moreover have "grown st st'" using f1 IH grown_trans by blast
    ultimately show ?thesis using f1 IH by auto
  qed
qed (auto simp: named_dependencies_def)

section \<open>What is read back\<close>

definition encoded_of :: "encoder \<Rightarrow> EncodedRuleCoverage \<Rightarrow> bool" where
  "encoded_of st encoded \<longleftrightarrow> ec_urls encoded = urlIds st \<and> ec_targetSets encoded = targetSets st"

lemma targets_read:
  assumes "denotes st i targets" "encoded_of st encoded"
  shows "\<exists>l. targetsOf encoded i = Some l \<and> set l = set targets"
  using assms by (auto simp: denotes_def encoded_of_def targetsOf_def list_all_iff Let_def)

definition exact_entry :: "RunRequestContext \<Rightarrow> RuleCoverage \<Rightarrow> RuleCoverageEntry" where
  "exact_entry context rule = \<lparr> ce_checkedTargets = set (rc_checkedTargets rule), ce_inputTargets = set (rule_inputs rule),
     ce_requestedInputs = map_option set (kept_requested rule), ce_context = context \<rparr>"

lemma rule_read:
  assumes "entry_denotes st rule entry" "encoded_of st encoded" "ec_context encoded = Some context"
  shows "read_rule encoded entry = Some (exact_entry context rule)"
proof -
  obtain c where c: "targetsOf encoded (en_checked entry) = Some c" "set c = set (rc_checkedTargets rule)"
    using targets_read [OF conjunct1 [OF assms(1) [unfolded entry_denotes_def]] assms(2)] by auto
  have i: "\<exists>x. optional_targets encoded (en_inputs entry) = Some x \<and> (case x of None \<Rightarrow> {} | Some ts \<Rightarrow> set ts) = set (rule_inputs rule)"
  proof (cases "en_inputs entry")
    case None
    then show ?thesis using assms(1) by (simp add: entry_denotes_def optional_targets_def)
  next
    case (Some k)
    then have "denotes st k (rule_inputs rule)" using assms(1) by (simp add: entry_denotes_def)
    from targets_read [OF this assms(2)] show ?thesis using Some by (auto simp: optional_targets_def)
  qed
  have q: "\<exists>x. optional_targets encoded (en_requested entry) = Some x \<and> map_option set x = map_option set (kept_requested rule)"
  proof (cases "en_requested entry")
    case None
    then show ?thesis using assms(1) by (auto simp: entry_denotes_def optional_targets_def)
  next
    case (Some k)
    then obtain ts where "kept_requested rule = Some ts" "denotes st k ts" using assms(1) by (auto simp: entry_denotes_def option_rel_Some1)
    from targets_read [OF this(2) assms(2)] this(1) show ?thesis using Some by (auto simp: optional_targets_def)
  qed
  show ?thesis using c i q assms(3) by (auto simp: read_rule_def exact_entry_def)
qed

lemma index_rules_all:
  assumes "\<forall>e \<in> snd ` set es. read_rule encoded e \<noteq> None" "distinct (map fst es)"
  shows "index_rules encoded es cov = Inr (\<lambda>k. case map_of es k of None \<Rightarrow> cov k | Some e \<Rightarrow> read_rule encoded e)"
  using assms
proof (induction es arbitrary: cov)
  case (Cons x es)
  obtain k e where x: "x = (k, e)" by fastforce
  obtain v where v: "read_rule encoded e = Some v" using Cons.prems(1) x by auto
  have k: "map_of es k = None" using Cons.prems(2) x by (auto simp: map_of_eq_None_iff)
  have "index_rules encoded (x # es) cov = Inr (\<lambda>i. case map_of es i of None \<Rightarrow> (cov(k \<mapsto> v)) i | Some e \<Rightarrow> read_rule encoded e)"
    using Cons by (simp add: x v)
  also have "(\<lambda>i. case map_of es i of None \<Rightarrow> (cov(k \<mapsto> v)) i | Some e \<Rightarrow> read_rule encoded e)
      = (\<lambda>i. case map_of (x # es) i of None \<Rightarrow> cov i | Some e \<Rightarrow> read_rule encoded e)"
    using k v by (auto simp: x fun_eq_iff split: option.split)
  finally show ?case .
qed simp

lemma index_issues_all:
  assumes "\<forall>i \<in> snd ` set is. targetsOf encoded i \<noteq> None" "distinct (map fst is)"
  shows "index_issues encoded is deps = Inr (\<lambda>k. case map_of is k of None \<Rightarrow> deps k | Some i \<Rightarrow> targetsOf encoded i)"
  using assms
proof (induction "is" arbitrary: deps)
  case (Cons x xs)
  obtain k i where x: "x = (k, i)" by fastforce
  obtain v where v: "targetsOf encoded i = Some v" using Cons.prems(1) x by auto
  have k: "map_of xs k = None" using Cons.prems(2) x by (auto simp: map_of_eq_None_iff)
  have "index_issues encoded (x # xs) deps = Inr (\<lambda>j. case map_of xs j of None \<Rightarrow> (deps(k \<mapsto> v)) j | Some i \<Rightarrow> targetsOf encoded i)"
    using Cons by (simp add: x v)
  also have "(\<lambda>j. case map_of xs j of None \<Rightarrow> (deps(k \<mapsto> v)) j | Some i \<Rightarrow> targetsOf encoded i)
      = (\<lambda>j. case map_of (x # xs) j of None \<Rightarrow> deps j | Some i \<Rightarrow> targetsOf encoded i)"
    using k v by (auto simp: x fun_eq_iff split: option.split)
  finally show ?case .
qed simp

text \<open>What a proof says, without its encoding: rules with the same name count once, as the last of them.\<close>

definition exact_rules :: "ModuleCoverage \<Rightarrow> string \<rightharpoonup> RuleCoverageEntry" where
  "exact_rules c = (\<lambda>k. map_option (exact_entry (mc_context c)) (last_of rc_ruleId (mc_rules c) k))"

definition exact_dependencies :: "ModuleCoverage \<Rightarrow> string \<rightharpoonup> string list" where
  "exact_dependencies c = (\<lambda>k. map_option snd (last_of fst (named_dependencies (issue_dependencies c)) k))"

definition proof_addresses :: "ModuleCoverage \<Rightarrow> string set" where
  "proof_addresses c = (\<Union>r \<in> set (mc_rules c). rule_addresses r) \<union> (\<Union>d \<in> set (issue_dependencies c). set (snd d))"

definition same_targets :: "string list option \<Rightarrow> string list option \<Rightarrow> bool" where
  "same_targets = rel_option (\<lambda>a b. set a = set b)"

lemma index_of_encoded:
  assumes "card (proof_addresses c) \<le> MAX_COVERAGE_PROOF_TARGETS"
  shows "\<not> ec_truncated (encodeRuleCoverage c) \<and> cr_problem (indexOf (encodeRuleCoverage c)) = None
    \<and> cr_coverage (indexOf (encodeRuleCoverage c)) = exact_rules c
    \<and> (\<forall>k. same_targets (cr_issueDependencies (indexOf (encodeRuleCoverage c)) k) (exact_dependencies c k))
    \<and> distinct (map fst (ec_rules (encodeRuleCoverage c)))
    \<and> (\<forall>k. case map_of (ec_rules (encodeRuleCoverage c)) k of
          None \<Rightarrow> exact_rules c k = None
        | Some e \<Rightarrow> exact_rules c k \<noteq> None \<and> read_rule (encodeRuleCoverage c) e = exact_rules c k)"
proof -
  obtain rules st1 where e1: "encode_rules (mc_rules c) [] new_encoder = (rules, st1)" by fastforce
  obtain issues st where e2: "encode_issues (issue_dependencies c) [] st1 = (issues, st)" by fastforce
  have "good new_encoder" by (simp add: good_def new_encoder_def)
  note f1 = encode_rules_correct [OF this e1, simplified]
  note f2 = encode_issues_correct [OF conjunct1 [OF f1] e2, simplified]
  have "set (urlIds st) = proof_addresses c" using f1 f2 by (auto simp: proof_addresses_def new_encoder_def)
  moreover have "distinct (urlIds st)" using f2 by (simp add: good_def)
  ultimately have fits: "\<not> MAX_COVERAGE_PROOF_TARGETS < length (urlIds st)" using assms by (metis distinct_card not_le)
  let ?ec = "encodeRuleCoverage c"
  have ec: "encoded_of st ?ec" "ec_context ?ec = Some (mc_context c)" "ec_rules ?ec = rules"
    "(case ec_issues ?ec of None \<Rightarrow> [] | Some issues \<Rightarrow> issues) = issues" "\<not> ec_truncated ?ec"
    using fits by (simp_all add: encodeRuleCoverage_def e1 e2 encoded_of_def)
  have rule: "(case map_of rules k of None \<Rightarrow> None | Some e \<Rightarrow> read_rule ?ec e) = exact_rules c k
      \<and> (\<forall>e. map_of rules k = Some e \<longrightarrow> read_rule ?ec e \<noteq> None)" for k
  proof -
    have "\<forall>k. case last_of rc_ruleId (mc_rules c) k of None \<Rightarrow> map_of rules k = map_of [] k
      | Some r \<Rightarrow> \<exists>e. map_of rules k = Some e \<and> entry_denotes st1 r e" using f1 by blast
    from spec [OF this, of k] have rule_k: "case last_of rc_ruleId (mc_rules c) k of None \<Rightarrow> map_of rules k = None
      | Some r \<Rightarrow> \<exists>e. map_of rules k = Some e \<and> entry_denotes st1 r e" by (simp split: option.splits)
    show ?thesis
  proof (cases "last_of rc_ruleId (mc_rules c) k")
    case None
    with rule_k have "map_of rules k = None" by simp
    then show ?thesis by (simp add: exact_rules_def None)
  next
    case (Some r)
    with rule_k obtain e where e: "map_of rules k = Some e" "entry_denotes st1 r e" by auto
    then have "entry_denotes st r e" using f2 entry_denotes_grown by blast
    from rule_read [OF this ec(1,2)] show ?thesis by (simp add: exact_rules_def Some e)
  qed
  qed
  have issue: "same_targets (case map_of issues k of None \<Rightarrow> None | Some i \<Rightarrow> targetsOf ?ec i) (exact_dependencies c k)
      \<and> (\<forall>i. map_of issues k = Some i \<longrightarrow> targetsOf ?ec i \<noteq> None)" for k
  proof -
    have "\<forall>k. case last_of fst (named_dependencies (issue_dependencies c)) k of None \<Rightarrow> map_of issues k = map_of [] k
      | Some d \<Rightarrow> \<exists>i. map_of issues k = Some i \<and> denotes st i (snd d)" using f2 by blast
    from spec [OF this, of k] have issue_k: "case last_of fst (named_dependencies (issue_dependencies c)) k of None \<Rightarrow> map_of issues k = None
      | Some d \<Rightarrow> \<exists>i. map_of issues k = Some i \<and> denotes st i (snd d)" by (cases "last_of fst (named_dependencies (issue_dependencies c)) k") simp_all
    show ?thesis
  proof (cases "last_of fst (named_dependencies (issue_dependencies c)) k")
    case None
    with issue_k have "map_of issues k = None" by simp
    then show ?thesis by (simp add: exact_dependencies_def same_targets_def None)
  next
    case (Some d)
    with issue_k obtain i where i: "map_of issues k = Some i" "denotes st i (snd d)" by auto
    from targets_read [OF i(2) ec(1)] show ?thesis using i(1) by (auto simp: exact_dependencies_def same_targets_def Some)
  qed
  qed
  have all_rules: "\<forall>e \<in> snd ` set rules. read_rule ?ec e \<noteq> None"
  proof
    fix e assume "e \<in> snd ` set rules"
    then obtain k where "(k, e) \<in> set rules" by auto
    with f1 have "map_of rules k = Some e" by simp
    then show "read_rule ?ec e \<noteq> None" using rule [of k] by blast
  qed
  have all_issues: "\<forall>i \<in> snd ` set issues. targetsOf ?ec i \<noteq> None"
  proof
    fix i assume "i \<in> snd ` set issues"
    then obtain k where "(k, i) \<in> set issues" by auto
    with f2 have "map_of issues k = Some i" by simp
    then show "targetsOf ?ec i \<noteq> None" using issue [of k] by blast
  qed
  have ix: "indexOf ?ec = \<lparr> cr_coverage = \<lambda>k. case map_of rules k of None \<Rightarrow> None | Some e \<Rightarrow> read_rule ?ec e,
      cr_issueDependencies = \<lambda>k. case map_of issues k of None \<Rightarrow> None | Some i \<Rightarrow> targetsOf ?ec i, cr_problem = None \<rparr>"
    using index_rules_all [OF all_rules, of Map.empty] index_issues_all [OF all_issues, of Map.empty] f1 f2
    by (simp add: indexOf_def ec(3,4))
  have "case map_of rules k of None \<Rightarrow> exact_rules c k = None
      | Some e \<Rightarrow> exact_rules c k \<noteq> None \<and> read_rule ?ec e = exact_rules c k" for k
    using rule [of k] by (cases "map_of rules k"; cases "exact_rules c k") auto
  then show ?thesis using ix ec(3,5) rule issue f1 by (simp add: fun_eq_iff)
qed

lemma over_limit_truncated:
  assumes "MAX_COVERAGE_PROOF_TARGETS < card (proof_addresses c)"
  shows "ec_truncated (encodeRuleCoverage c)"
proof -
  obtain rules st1 where e1: "encode_rules (mc_rules c) [] new_encoder = (rules, st1)" by fastforce
  obtain issues st where e2: "encode_issues (issue_dependencies c) [] st1 = (issues, st)" by fastforce
  have "good new_encoder" by (simp add: good_def new_encoder_def)
  note f1 = encode_rules_correct [OF this e1, simplified]
  note f2 = encode_issues_correct [OF conjunct1 [OF f1] e2, simplified]
  have "set (urlIds st) = proof_addresses c" using f1 f2 by (auto simp: proof_addresses_def new_encoder_def)
  moreover have "distinct (urlIds st)" using f2 by (simp add: good_def)
  ultimately show ?thesis using assms by (simp add: encodeRuleCoverage_def e1 e2 flip: distinct_card)
qed

lemma faithful_read:
  assumes "faithful cd"
  shows "\<exists>j. cd_parse cd (cd_stringify cd e) = Some j \<and> cd_validate cd j = Inr e
    \<and> cd_gunzip cd (cd_gzip cd (cd_stringify cd e)) = Inr (cd_stringify cd e)"
proof -
  have "map_option (cd_validate cd) (cd_parse cd (cd_stringify cd e)) = Some (Inr e)" using assms by (simp add: faithful_def)
  then show ?thesis using assms by (auto simp: faithful_def)
qed

lemma decode_stored:
  assumes "faithful cd"
  shows "decodeCoverageProof cd (serializeCoverageProof cd c) =
    (if ec_truncated (encodeRuleCoverage c) then
       unusable (''run exceeded the '' @ nat_to_string MAX_COVERAGE_PROOF_TARGETS @ ''-target coverage proof limit; ''
         @ ''findings of this module stay open'')
     else indexOf (encodeRuleCoverage c))"
proof -
  obtain j where "cd_parse cd (cd_stringify cd (encodeRuleCoverage c)) = Some j" "cd_validate cd j = Inr (encodeRuleCoverage c)"
    and "cd_gunzip cd (cd_gzip cd (cd_stringify cd (encodeRuleCoverage c))) = Inr (cd_stringify cd (encodeRuleCoverage c))"
    using faithful_read [OF assms] by blast
  then show ?thesis by (simp add: decodeCoverageProof_def decodeEncodedProof_def serializeCoverageProof_def)
qed

text \<open>The stored proof of a module, read back: exact up to the limit, nothing above it.\<close>

lemma stored_proof:
  fixes cd :: "('b, 't, 'j) codec" and c
  assumes "faithful cd"
  defines "r \<equiv> decodeCoverageProof cd (serializeCoverageProof cd c)"
  shows "if card (proof_addresses c) \<le> MAX_COVERAGE_PROOF_TARGETS
     then cr_problem r = None \<and> cr_coverage r = exact_rules c \<and> (\<forall>k. same_targets (cr_issueDependencies r k) (exact_dependencies c k))
     else cr_problem r \<noteq> None \<and> cr_coverage r = Map.empty \<and> cr_issueDependencies r = Map.empty"
proof (cases "card (proof_addresses c) \<le> MAX_COVERAGE_PROOF_TARGETS")
  case True
  from index_of_encoded [OF this] True show ?thesis by (simp add: r_def decode_stored [OF assms(1)])
next
  case False
  then have "ec_truncated (encodeRuleCoverage c)" by (intro over_limit_truncated) simp
  with False show ?thesis by (simp add: r_def decode_stored [OF assms(1)] unusable_def)
qed


text \<open>One pass over the proof answers what indexing it would.\<close>

definition judged :: "(string \<rightharpoonup> RuleCoverageEntry) \<Rightarrow> string set \<Rightarrow> string set" where
  "judged coverage rules = {t. \<exists>k e. k \<in> rules \<and> coverage k = Some e \<and> t \<in> ce_checkedTargets e}"

lemma first_by_id_set: "set (first_by id {} xs) = set xs"
  using first_by_keys [of id "{}" xs] by simp

lemma first_by_id_distinct: "distinct (first_by id {} xs)"
  using first_by_distinct [of id "{}" xs] by simp

lemma wanted_iff: "distinct (map fst groups) \<Longrightarrow> (name, rules) \<in> set groups \<Longrightarrow>
    name \<in> set (map fst (filter (\<lambda>(name, rules). k \<in> rules) groups)) \<longleftrightarrow> k \<in> rules"
  by (force simp: distinct_map inj_on_def)

lemma collect_all:
  assumes "distinct (map fst groups)" "\<forall>(k, e) \<in> set es. \<exists>l. targetsOf encoded (en_checked e) = Some l \<and> set l = checked k"
    "\<forall>name. distinct (into name)"
  shows "\<exists>into'. collect encoded groups es ids into
      = \<lparr> fa_ruleIds = ids @ map fst es, fa_targets = map (\<lambda>(name, _). (name, into' name)) groups, fa_problem = None \<rparr>
    \<and> (\<forall>name. distinct (into' name))
    \<and> (\<forall>(name, rules) \<in> set groups. set (into' name) = set (into name) \<union> (\<Union>k \<in> rules \<inter> fst ` set es. checked k))"
  using assms(2,3)
proof (induction es arbitrary: ids into)
  case Nil
  then show ?case by (intro exI [of _ into]) auto
next
  case (Cons x es)
  obtain k e where x: "x = (k, e)" by fastforce
  obtain l where l: "targetsOf encoded (en_checked e) = Some l" "set l = checked k" using Cons.prems(1) x by auto
  let ?wanted = "map fst (filter (\<lambda>(name, rules). k \<in> rules) groups)"
  define into1 where "into1 = (\<lambda>name. if name \<in> set ?wanted then first_by id {} (into name @ l) else into name)"
  have step: "collect encoded groups (x # es) ids into = collect encoded groups es (ids @ [k]) into1"
  proof (cases "?wanted = []")
    case True
    then have "into1 = into" by (simp add: into1_def)
    with True show ?thesis by (simp add: x)
  next
    case False
    then show ?thesis by (simp add: x l(1) into1_def Let_def del: set_map)
  qed
  have "\<forall>name. distinct (into1 name)" using Cons.prems(2) by (simp add: into1_def first_by_id_distinct)
  from Cons.IH [OF _ this, of "ids @ [k]"] Cons.prems(1) obtain into' where
    c: "collect encoded groups es (ids @ [k]) into1
        = \<lparr> fa_ruleIds = (ids @ [k]) @ map fst es, fa_targets = map (\<lambda>(name, _). (name, into' name)) groups, fa_problem = None \<rparr>"
    and d: "\<forall>name. distinct (into' name)"
    and u: "\<forall>(name, rules) \<in> set groups. set (into' name) = set (into1 name) \<union> (\<Union>k \<in> rules \<inter> fst ` set es. checked k)"
    by auto
  have "set (into' name) = set (into name) \<union> (\<Union>k \<in> rules \<inter> fst ` set (x # es). checked k)" if g: "(name, rules) \<in> set groups" for name rules
  proof -
    have "set (into1 name) = set (into name) \<union> (if k \<in> rules then checked k else {})"
      using wanted_iff [OF assms(1) g, of k] l(2) by (simp only: into1_def first_by_id_set set_append split: if_split) simp
    moreover have "set (into' name) = set (into1 name) \<union> (\<Union>k \<in> rules \<inter> fst ` set es. checked k)" using bspec [OF u g] by simp
    moreover have "(\<Union>k \<in> rules \<inter> fst ` set (x # es). checked k)
        = (if k \<in> rules then checked k else {}) \<union> (\<Union>k \<in> rules \<inter> fst ` set es. checked k)" by (simp add: x Int_insert_right)
    ultimately show ?thesis by (simp only: Un_assoc)
  qed
  then have "\<forall>(name, rules) \<in> set groups. set (into' name) = set (into name) \<union> (\<Union>k \<in> rules \<inter> fst ` set (x # es). checked k)"
    by blast
  moreover have "collect encoded groups (x # es) ids into
      = \<lparr> fa_ruleIds = ids @ map fst (x # es), fa_targets = map (\<lambda>(name, _). (name, into' name)) groups, fa_problem = None \<rparr>"
    unfolding step c by (simp add: x)
  ultimately show ?case using d by blast
qed

text \<open>
  the comparison of scans reads from a stored proof the rules that ran and, for each group of rules, exactly the
  addresses these judged, each once: what the index of the proof would say, without building it.
\<close>

theorem proof_facts_exact:
  assumes "faithful cd" "card (proof_addresses c) \<le> MAX_COVERAGE_PROOF_TARGETS" "distinct (map fst groups)"
  shows "fa_problem (readProofFacts cd (serializeCoverageProof cd c) groups) = None
    \<and> distinct (fa_ruleIds (readProofFacts cd (serializeCoverageProof cd c) groups))
    \<and> set (fa_ruleIds (readProofFacts cd (serializeCoverageProof cd c) groups)) = dom (exact_rules c)
    \<and> list_all2 (\<lambda>(name, rules) (name', targets). name' = name \<and> distinct targets \<and> set targets = judged (exact_rules c) rules)
        groups (fa_targets (readProofFacts cd (serializeCoverageProof cd c) groups))"
proof -
  let ?ec = "encodeRuleCoverage c"
  have ix: "\<not> ec_truncated ?ec"
    and ixd: "distinct (map fst (ec_rules ?ec))"
    and ixr: "\<forall>k. case map_of (ec_rules ?ec) k of None \<Rightarrow> exact_rules c k = None
        | Some e \<Rightarrow> exact_rules c k \<noteq> None \<and> read_rule ?ec e = exact_rules c k"
    using index_of_encoded [OF assms(2)] by blast+
  obtain j where "cd_parse cd (cd_stringify cd ?ec) = Some j" "cd_validate cd j = Inr ?ec"
    and "cd_gunzip cd (cd_gzip cd (cd_stringify cd ?ec)) = Inr (cd_stringify cd ?ec)"
    using faithful_read [OF assms(1)] by blast
  then have facts: "readProofFacts cd (serializeCoverageProof cd c) groups = collect ?ec groups (ec_rules ?ec) [] (\<lambda>_. [])"
    using ix by (simp add: readProofFacts_def decodeEncodedProof_def serializeCoverageProof_def)
  let ?checked = "\<lambda>k. case exact_rules c k of None \<Rightarrow> {} | Some e \<Rightarrow> ce_checkedTargets e"
  have entry: "read_rule ?ec e = exact_rules c k \<and> exact_rules c k \<noteq> None" if "(k, e) \<in> set (ec_rules ?ec)" for k e
  proof -
    have "map_of (ec_rules ?ec) k = Some e" using ixd that by simp
    with spec [OF ixr, of k] show ?thesis by simp
  qed
  have "\<exists>l. targetsOf ?ec (en_checked e) = Some l \<and> set l = ?checked k" if "(k, e) \<in> set (ec_rules ?ec)" for k e
    using entry [OF that] by (auto simp: read_rule_def split: option.splits)
  then have es: "\<forall>(k, e) \<in> set (ec_rules ?ec). \<exists>l. targetsOf ?ec (en_checked e) = Some l \<and> set l = ?checked k" by blast
  have keys: "fst ` set (ec_rules ?ec) = dom (exact_rules c)"
  proof (intro set_eqI iffI)
    fix k assume "k \<in> fst ` set (ec_rules ?ec)"
    then show "k \<in> dom (exact_rules c)" using entry by force
  next
    fix k assume "k \<in> dom (exact_rules c)"
    then have "map_of (ec_rules ?ec) k \<noteq> None" using spec [OF ixr, of k] by (auto split: option.splits)
    then show "k \<in> fst ` set (ec_rules ?ec)" by (simp add: map_of_eq_None_iff)
  qed
  obtain into' where into: "collect ?ec groups (ec_rules ?ec) [] (\<lambda>_. [])
      = \<lparr> fa_ruleIds = [] @ map fst (ec_rules ?ec), fa_targets = map (\<lambda>(name, _). (name, into' name)) groups, fa_problem = None \<rparr>"
    "\<forall>name. distinct (into' name)"
    "\<forall>(name, rules) \<in> set groups. set (into' name) = set [] \<union> (\<Union>k \<in> rules \<inter> fst ` set (ec_rules ?ec). ?checked k)"
    using collect_all [OF assms(3) es, of "\<lambda>_. []" "[]"] by auto
  have j: "judged (exact_rules c) rules = (\<Union>k \<in> rules \<inter> dom (exact_rules c). ?checked k)" for rules
    by (auto simp: judged_def split: option.splits)
  have g: "distinct (into' name) \<and> set (into' name) = judged (exact_rules c) rules" if "(name, rules) \<in> set groups" for name rules
    using into(2,3) that unfolding keys j by fastforce
  have "list_all2 (\<lambda>(name, rules) (name', targets). name' = name \<and> distinct targets \<and> set targets = judged (exact_rules c) rules)
      groups (map (\<lambda>(name, _). (name, into' name)) groups)"
    unfolding list_all2_map2 by (rule list.rel_refl_strong) (use g in auto)
  then show ?thesis using keys ixd unfolding facts into(1) by simp
qed

section \<open>A small proof\<close>

definition plain_codec :: "(EncodedRuleCoverage, EncodedRuleCoverage, EncodedRuleCoverage) codec" where
  "plain_codec = \<lparr> cd_gzip = id, cd_gunzip = Inr, cd_stringify = id, cd_parse = Some, cd_validate = Inr \<rparr>"

lemma plain_faithful: "faithful plain_codec"
  by (simp add: faithful_def plain_codec_def)

text \<open>Two rules over the same pages, one of which also asked for the target of a link; a finding that rests on that link.\<close>

definition demo_context :: RunRequestContext where
  "demo_context = UNKNOWN_RUN_CONTEXT\<lparr> cx_userAgent := Some ''desktop'', cx_crawlScope := Some ''scope-v3:0'' \<rparr>"

definition demo_coverage :: ModuleCoverage where
  "demo_coverage = \<lparr>
     mc_rules =
       [\<lparr> rc_ruleId = ''SEO-TECH-002'', rc_checkedTargets = [''/a'', ''/b''], rc_inputTargets = None, rc_requestedInputs = None \<rparr>,
        \<lparr> rc_ruleId = ''SEO-TECH-006'', rc_checkedTargets = [''/b'', ''/a''], rc_inputTargets = Some [''/c''],
          rc_requestedInputs = Some [''/c'', ''/d''] \<rparr>],
     mc_issueDependencies = Some [(''f1'', [''/c'']), (''f2'', [])],
     mc_context = demo_context \<rparr>"

lemma demo_coverage_small: "card (proof_addresses demo_coverage) \<le> MAX_COVERAGE_PROOF_TARGETS"
proof -
  have "proof_addresses demo_coverage = {''/a'', ''/b'', ''/c'', ''/d''}"
    by (auto simp: proof_addresses_def demo_coverage_def rule_addresses_def rule_inputs_def kept_requested_def
        MAX_REQUESTED_INPUT_TARGETS_def issue_dependencies_def)
  then show ?thesis by (simp add: MAX_COVERAGE_PROOF_TARGETS_def)
qed


theorem proof_facts_exact_witness:
  "list_all2 (\<lambda>(name, rules) (name', targets). name' = name \<and> distinct targets \<and> set targets = judged (exact_rules demo_coverage) rules)
     [(''pages'', {''SEO-TECH-002'', ''SEO-TECH-006''})]
     (fa_targets (readProofFacts plain_codec (serializeCoverageProof plain_codec demo_coverage) [(''pages'', {''SEO-TECH-002'', ''SEO-TECH-006''})]))"
  using proof_facts_exact [OF plain_faithful demo_coverage_small, of "[(''pages'', {''SEO-TECH-002'', ''SEO-TECH-006''})]"] by simp

end
