(* ===== verification/Resolution.thy ===== *)
theory Resolution
  imports Coverage Contracts "HOL-Library.Product_Lexorder" "HOL-Library.List_Lexorder" "HOL-Library.Option_ord" "HOL-Library.Multiset"
begin

text \<open>
  When a scan may close a finding of the one before: \<open>apps/api/src/orchestrator/resolution-policy.ts\<close>, \<open>issue-sync.ts\<close>,
  \<open>sameRequestContext\<close> of \<open>run-context.ts\<close>, \<open>runCoverageOf\<close> of \<open>worker.ts\<close>, the pruning of \<open>run-coverage.ts\<close> and the
  choice of the previous scan of \<open>scans/previous-scan.ts\<close>. Statuses, plans and kinds are the stored strings.
\<close>

section \<open>The policy\<close>

record RunCoverage =
  rn_coverageByRule :: "string \<rightharpoonup> RuleCoverageEntry"
  rn_completedModules :: "string set"
  rn_rulesetVersion :: string

record PreviousRunCoverage =
  pv_coverageByRule :: "string \<rightharpoonup> RuleCoverageEntry"
  pv_issueDependencies :: "string \<rightharpoonup> string list"
  pv_rulesetVersion :: string

record issue_row =
  is_id :: string
  is_scanId :: string
  is_module :: string
  is_fingerprint :: string
  is_ruleId :: string
  is_targetKind :: string
  is_normalizedUrl :: string
  is_status :: string

definition SITE_LEVEL_TARGET_KINDS :: "string list" where
  "SITE_LEVEL_TARGET_KINDS = [''site'', ''environment'']"

definition previousRunCoverage :: "ScanCoverage \<Rightarrow> string \<Rightarrow> PreviousRunCoverage" where
  "previousRunCoverage coverage rulesetVersion =
     \<lparr> pv_coverageByRule = sv_byRule coverage, pv_issueDependencies = sv_issueDependencies coverage,
       pv_rulesetVersion = rulesetVersion \<rparr>"

definition sameRequestContext :: "RunRequestContext \<Rightarrow> RunRequestContext option \<Rightarrow> bool" where
  "sameRequestContext now before =
     (case before of
        None \<Rightarrow> False
      | Some b \<Rightarrow>
          cx_userAgent now \<noteq> None \<and> cx_userAgent now = cx_userAgent b \<and>
          cx_crawlScope now \<noteq> None \<and> cx_crawlScope now = cx_crawlScope b \<and>
          cx_ga4PropertyId now = cx_ga4PropertyId b \<and>
          cx_searchConsoleSiteUrl now = cx_searchConsoleSiteUrl b \<and>
          cx_bingSiteUrl now = cx_bingSiteUrl b)"

definition noLongerRequested :: "RuleCoverageEntry \<Rightarrow> string \<Rightarrow> bool" where
  "noLongerRequested now target = (case ce_requestedInputs now of None \<Rightarrow> False | Some requested \<Rightarrow> target \<notin> requested)"

definition coversPreviousTargets :: "RuleCoverageEntry \<Rightarrow> string set option \<Rightarrow> bool" where
  "coversPreviousTargets now checkedBefore =
     (case checkedBefore of
        None \<Rightarrow> False
      | Some before \<Rightarrow>
          if before = {} then False
          else (\<forall>target \<in> before. target \<in> ce_checkedTargets now \<or> noLongerRequested now target))"

definition coversFindingDependencies :: "issue_row \<Rightarrow> RuleCoverageEntry \<Rightarrow> RuleCoverageEntry option \<Rightarrow> (string \<rightharpoonup> string list) \<Rightarrow> bool" where
  "coversFindingDependencies issue now before issueDependencies =
     (\<forall>target \<in> (case issueDependencies (is_fingerprint issue) of
                     Some perIssue \<Rightarrow> set perIssue
                   | None \<Rightarrow> (case before of None \<Rightarrow> {} | Some b \<Rightarrow> ce_inputTargets b)).
        target \<in> ce_inputTargets now \<or> noLongerRequested now target)"

definition provesRepeatCheck :: "issue_row \<Rightarrow> RunCoverage \<Rightarrow> PreviousRunCoverage \<Rightarrow> bool" where
  "provesRepeatCheck issue run previous =
     (if rn_rulesetVersion run \<noteq> pv_rulesetVersion previous then False
      else if is_module issue \<notin> rn_completedModules run then False
      else
        (case rn_coverageByRule run (is_ruleId issue) of
           None \<Rightarrow> False
         | Some checkedNow \<Rightarrow>
             if ce_checkedTargets checkedNow = {} then False
             else
               (let checkedBefore = pv_coverageByRule previous (is_ruleId issue) in
                if \<not> sameRequestContext (ce_context checkedNow) (map_option ce_context checkedBefore) then False
                else if is_targetKind issue \<in> set SITE_LEVEL_TARGET_KINDS then
                  coversPreviousTargets checkedNow (map_option ce_checkedTargets checkedBefore)
                else if is_normalizedUrl issue \<notin> ce_checkedTargets checkedNow then False
                else coversFindingDependencies issue checkedNow checkedBefore (pv_issueDependencies previous))))"

definition resolvableIssues :: "issue_row list \<Rightarrow> string set \<Rightarrow> RunCoverage \<Rightarrow> PreviousRunCoverage \<Rightarrow> issue_row list" where
  "resolvableIssues previousIssues currentFingerprints run previous =
     filter (\<lambda>issue. is_fingerprint issue \<notin> currentFingerprints \<and> provesRepeatCheck issue run previous) previousIssues"

section \<open>The previous scan\<close>

record scan_facts =
  sf_id :: string
  sf_accountId :: string
  sf_siteProfileId :: string
  sf_plan :: string
  sf_status :: string
  sf_completedAt :: "int option"
  sf_rulesetVersion :: string

text \<open>Latest completion first, a row without one last, then by id; here the same order upwards.\<close>

definition PREVIOUS_SCAN_ORDER :: "scan_facts \<Rightarrow> int option \<times> nat list" where
  "PREVIOUS_SCAN_ORDER s = (sf_completedAt s, map of_char (sf_id s))"

definition latest_first :: "scan_facts list \<Rightarrow> scan_facts list" where
  "latest_first scans = rev (sort_key PREVIOUS_SCAN_ORDER scans)"

definition completedBefore :: "scan_facts \<Rightarrow> scan_facts \<Rightarrow> bool" where
  "completedBefore scan s =
     (case sf_completedAt scan of
        None \<Rightarrow> True
      | Some t \<Rightarrow> (case sf_completedAt s of
          None \<Rightarrow> False
        | Some u \<Rightarrow> u < t \<or> u = t \<and> map of_char (sf_id s) < (map of_char (sf_id scan) :: nat list)))"

definition previousScanWhere :: "scan_facts \<Rightarrow> scan_facts \<Rightarrow> bool" where
  "previousScanWhere scan s \<longleftrightarrow> sf_accountId s = sf_accountId scan \<and> sf_siteProfileId s = sf_siteProfileId scan
     \<and> sf_plan s = sf_plan scan \<and> sf_status s = ''Completed'' \<and> sf_id s \<noteq> sf_id scan \<and> completedBefore scan s"

definition findPreviousScan :: "scan_facts \<Rightarrow> scan_facts list \<Rightarrow> scan_facts option" where
  "findPreviousScan scan scans = (case latest_first (filter (previousScanWhere scan) scans) of [] \<Rightarrow> None | s # _ \<Rightarrow> Some s)"

definition earlierScanOfAnotherPlanWhere :: "scan_facts \<Rightarrow> scan_facts \<Rightarrow> bool" where
  "earlierScanOfAnotherPlanWhere scan s \<longleftrightarrow> sf_accountId s = sf_accountId scan \<and> sf_siteProfileId s = sf_siteProfileId scan
     \<and> sf_plan s \<noteq> sf_plan scan \<and> sf_status s = ''Completed'' \<and> sf_id s \<noteq> sf_id scan \<and> completedBefore scan s"

definition hasEarlierScanOfAnotherPlan :: "scan_facts \<Rightarrow> scan_facts list \<Rightarrow> bool" where
  "hasEarlierScanOfAnotherPlan scan scans = list_ex (earlierScanOfAnotherPlanWhere scan) scans"

definition COVERAGE_PROOF_HISTORY :: nat where "COVERAGE_PROOF_HISTORY = 2"

definition pruneCoverageProofs :: "scan_facts \<Rightarrow> nat \<Rightarrow> scan_facts list \<Rightarrow> 'b proof_row list \<Rightarrow> nat \<times> 'b proof_row list" where
  "pruneCoverageProofs scan keep scans proofs =
     (let recent = take keep (latest_first (filter (\<lambda>s. sf_siteProfileId s = sf_siteProfileId scan \<and> sf_plan s = sf_plan scan
                                                        \<and> sf_status s = ''Completed'') scans));
          keepIds = insert (sf_id scan) (sf_id ` set recent);
          gone = (\<lambda>r. (\<exists>s \<in> set scans. sf_id s = pf_scanId r \<and> sf_siteProfileId s = sf_siteProfileId scan \<and> sf_plan s = sf_plan scan)
                      \<and> pf_scanId r \<notin> keepIds) in
      (length (filter gone proofs), filter (\<lambda>r. \<not> gone r) proofs))"

section \<open>The statuses of issues\<close>

definition CARRIED_USER_STATUSES :: "string list" where
  "CARRIED_USER_STATUSES = [''Acknowledged'', ''Ignored'', ''False Positive'']"

definition inheritedStatus :: "string \<Rightarrow> string" where
  "inheritedStatus previous =
     (if previous = ''Resolved'' then ''Reopened''
      else if previous \<in> set CARRIED_USER_STATUSES then previous
      else ''New'')"

text \<open>
  \<open>orderBy: [{ scan: { completedAt: 'desc' } }, { scanId: 'desc' }]\<close>: without \<open>nulls: 'last'\<close> the database puts a missing
  time first.
\<close>

definition inherited_order :: "scan_facts list \<Rightarrow> issue_row \<Rightarrow> (bool \<times> int option) \<times> nat list" where
  "inherited_order scans i =
     (case find (\<lambda>s. sf_id s = is_scanId i) scans of
        None \<Rightarrow> ((False, None), map of_char (is_scanId i))
      | Some s \<Rightarrow> ((sf_completedAt s = None, sf_completedAt s), map of_char (is_scanId i)))"

fun first_statuses :: "issue_row list \<Rightarrow> (string \<rightharpoonup> string) \<Rightarrow> (string \<rightharpoonup> string)" where
  "first_statuses [] statuses = statuses"
| "first_statuses (i # is) statuses =
     first_statuses is (if statuses (is_fingerprint i) = None
       then statuses(is_fingerprint i \<mapsto> inheritedStatus (is_status i)) else statuses)"

definition initialIssueStatuses :: "scan_facts \<Rightarrow> string list \<Rightarrow> scan_facts list \<Rightarrow> issue_row list \<Rightarrow> js_exception + (string \<rightharpoonup> string)" where
  "initialIssueStatuses scan fingerprints scans issues =
     res_bind (planSupports (sf_plan scan) IssueHistory)
       (\<lambda>supported.
          if \<not> supported \<or> fingerprints = [] then Inr Map.empty
          else
            Inr (first_statuses
              (rev (sort_key (inherited_order scans)
                (filter (\<lambda>i. is_fingerprint i \<in> set fingerprints
                   \<and> list_ex (\<lambda>s. sf_id s = is_scanId i \<and> previousScanWhere scan s) scans) issues)))
              Map.empty))"

definition issueStatusesForModule :: "scan_facts \<Rightarrow> string \<Rightarrow> string list \<Rightarrow> scan_facts list \<Rightarrow> issue_row list \<Rightarrow> js_exception + (string \<rightharpoonup> string)" where
  "issueStatusesForModule scan sect fingerprints scans issues =
     (if fingerprints = [] then Inr Map.empty
      else
        res_bind (initialIssueStatuses scan fingerprints scans issues)
          (\<lambda>inherited.
             let current = filter (\<lambda>i. is_scanId i = sf_id scan \<and> is_module i = sect \<and> is_fingerprint i \<in> set fingerprints) issues in
             Inr (fold (\<lambda>i statuses. if is_status i \<in> set CARRIED_USER_STATUSES
                    then statuses(is_fingerprint i \<mapsto> is_status i) else statuses) current inherited)))"

definition RESOLVE_CHUNK_SIZE :: nat where "RESOLVE_CHUNK_SIZE = 500"

definition resolve_chunk :: "string list \<Rightarrow> nat \<times> issue_row list \<Rightarrow> nat \<times> issue_row list" where
  "resolve_chunk ids acc =
     (let hit = (\<lambda>i. is_id i \<in> set ids \<and> is_status i \<noteq> ''Resolved'') in
      (fst acc + length (filter hit (snd acc)), map (\<lambda>i. if hit i then i\<lparr> is_status := ''Resolved'' \<rparr> else i) (snd acc)))"

record 'b audit_db =
  db_scans :: "scan_facts list"
  db_issues :: "issue_row list"
  db_proofs :: "'b proof_row list"

definition markResolvedAgainstPrevious :: "('b, 't, 'j) codec \<Rightarrow> scan_facts \<Rightarrow> RunCoverage \<Rightarrow> 'b audit_db \<Rightarrow> js_exception + (nat \<times> 'b audit_db)" where
  "markResolvedAgainstPrevious cd scan run db =
     res_bind (planSupports (sf_plan scan) IssueHistory)
       (\<lambda>supported.
          if \<not> supported then Inr (0, db)
          else
            (case findPreviousScan scan (db_scans db) of
               None \<Rightarrow> Inr (0, db)
             | Some previousScan \<Rightarrow>
                 let currentFingerprints = is_fingerprint ` set (filter (\<lambda>i. is_scanId i = sf_id scan) (db_issues db));
                     previousIssues = filter (\<lambda>i. is_scanId i = sf_id previousScan \<and> is_status i \<noteq> ''Resolved'') (db_issues db);
                     resolvable = resolvableIssues previousIssues currentFingerprints run
                       (previousRunCoverage (fst (loadScanCoverage cd (sf_id previousScan) (db_proofs db))) (sf_rulesetVersion previousScan));
                     (n, issues) = fold resolve_chunk (chunked (map is_id resolvable) RESOLVE_CHUNK_SIZE) (0, db_issues db) in
                 Inr (n, db\<lparr> db_issues := issues \<rparr>)))"

text \<open>What the run itself checked, read from its own rows.\<close>

definition runCoverageOf :: "('b, 't, 'j) codec \<Rightarrow> scan_facts \<Rightarrow> string set \<Rightarrow> 'b audit_db \<Rightarrow> RunCoverage" where
  "runCoverageOf cd scan completed db =
     \<lparr> rn_coverageByRule = sv_byRule (fst (loadScanCoverage cd (sf_id scan) (db_proofs db))), rn_completedModules = completed,
       rn_rulesetVersion = sf_rulesetVersion scan \<rparr>"

section \<open>The choice of the previous scan\<close>

lemma latest_first_set [simp]: "set (latest_first scans) = set scans"
  by (simp add: latest_first_def)

lemma latest_first_empty [simp]: "latest_first scans = [] \<longleftrightarrow> scans = []"
  by (metis latest_first_set set_empty)

lemma findPreviousScan_Some:
  assumes "findPreviousScan scan scans = Some p"
  shows "p \<in> set scans \<and> previousScanWhere scan p
    \<and> (\<forall>s \<in> set scans. previousScanWhere scan s \<longrightarrow> PREVIOUS_SCAN_ORDER s \<le> PREVIOUS_SCAN_ORDER p)"
proof -
  let ?L = "latest_first (filter (previousScanWhere scan) scans)"
  obtain rest where L: "?L = p # rest" using assms by (auto simp: findPreviousScan_def split: list.splits)
  then have "sort_key PREVIOUS_SCAN_ORDER (filter (previousScanWhere scan) scans) = rev rest @ [p]"
    by (simp add: latest_first_def rev_eq_Cons_iff)
  then have "sorted (map PREVIOUS_SCAN_ORDER (rev rest @ [p]))" by (metis sorted_sort_key)
  then have "\<forall>s \<in> set (p # rest). PREVIOUS_SCAN_ORDER s \<le> PREVIOUS_SCAN_ORDER p" by (auto simp: sorted_append)
  moreover have "set (p # rest) = set (filter (previousScanWhere scan) scans)" unfolding L [symmetric] by simp
  ultimately show ?thesis by auto
qed

lemma findPreviousScan_None: "findPreviousScan scan scans = None \<longleftrightarrow> (\<forall>s \<in> set scans. \<not> previousScanWhere scan s)"
proof -
  have "findPreviousScan scan scans = None \<longleftrightarrow> latest_first (filter (previousScanWhere scan) scans) = []"
    by (cases "latest_first (filter (previousScanWhere scan) scans)") (simp_all add: findPreviousScan_def del: latest_first_empty)
  then show ?thesis by (simp add: filter_empty_conv)
qed

lemma completedBefore_order:
  "completedBefore scan s \<longleftrightarrow> sf_completedAt scan = None \<or> sf_completedAt s \<noteq> None \<and> PREVIOUS_SCAN_ORDER s < PREVIOUS_SCAN_ORDER scan"
  by (auto simp: completedBefore_def PREVIOUS_SCAN_ORDER_def less_prod_simp split: option.split)

text \<open>
  the scan a report is compared with is the latest in the order of completion of the other finished scans of the account,
  profile and plan that completed before it, and there is none exactly when no such scan exists; a scan that completed is
  later than its baseline, so following baselines never returns.
\<close>

theorem previous_scan_latest:
  "case findPreviousScan scan scans of
     None \<Rightarrow> \<not> list_ex (previousScanWhere scan) scans
   | Some p \<Rightarrow> p \<in> set scans \<and> previousScanWhere scan p
       \<and> list_all (\<lambda>s. PREVIOUS_SCAN_ORDER s \<le> PREVIOUS_SCAN_ORDER p) (filter (previousScanWhere scan) scans)
       \<and> (sf_completedAt scan = None \<or> PREVIOUS_SCAN_ORDER p < PREVIOUS_SCAN_ORDER scan)"
proof (cases "findPreviousScan scan scans")
  case None
  then show ?thesis using findPreviousScan_None [of scan scans] by (auto simp: list_ex_iff)
next
  case (Some p)
  from findPreviousScan_Some [OF this] show ?thesis using Some
    by (auto simp: list_all_iff previousScanWhere_def completedBefore_order)
qed

section \<open>Pruning\<close>

lemma order_id: "PREVIOUS_SCAN_ORDER a = PREVIOUS_SCAN_ORDER b \<Longrightarrow> sf_id a = sf_id b"
  by (simp add: PREVIOUS_SCAN_ORDER_def inj_map_eq_map inj_def)

lemma among_latest:
  assumes "distinct (map sf_id xs)" "p \<in> set xs"
    "\<forall>x \<in> set xs. sf_id x \<noteq> i \<longrightarrow> PREVIOUS_SCAN_ORDER x \<le> PREVIOUS_SCAN_ORDER p" "2 \<le> keep"
  shows "p \<in> set (take keep (latest_first xs))"
proof -
  have "p \<in> set (latest_first xs)" using assms(2) by simp
  then obtain us vs where L: "latest_first xs = us @ p # vs" by (meson split_list)
  have "mset (latest_first xs) = mset xs" by (simp add: latest_first_def)
  then have "mset (map sf_id (latest_first xs)) = mset (map sf_id xs)" by simp
  then have d: "distinct (map sf_id (latest_first xs))" using assms(1) by (metis mset_eq_imp_distinct_iff)
  have "sort_key PREVIOUS_SCAN_ORDER xs = rev vs @ p # rev us" using L by (simp add: latest_first_def rev_eq_append_conv)
  then have sorted: "sorted (map PREVIOUS_SCAN_ORDER (rev vs @ p # rev us))" by (metis sorted_sort_key)
  have "sf_id u = i" if u: "u \<in> set us" for u
  proof (rule ccontr)
    assume "sf_id u \<noteq> i"
    moreover have "u \<in> set xs" using u L by (metis Un_iff latest_first_set set_append)
    ultimately have "PREVIOUS_SCAN_ORDER u \<le> PREVIOUS_SCAN_ORDER p" using assms(3) by blast
    moreover have "PREVIOUS_SCAN_ORDER p \<le> PREVIOUS_SCAN_ORDER u" using sorted u by (auto simp: sorted_append)
    ultimately have "sf_id u = sf_id p" by (intro order_id) simp
    then have "sf_id p \<in> sf_id ` set us" using u by (metis imageI)
    then show False using d by (simp add: L)
  qed
  then have "set (map sf_id us) \<subseteq> {i}" by auto
  then have "card (set (map sf_id us)) \<le> 1" using card_mono [of "{i}" "set (map sf_id us)"] by simp
  then have "length us \<le> 1" using d distinct_card [of "map sf_id us"] by (simp add: L)
  with assms(4) show ?thesis by (auto simp: L take_Cons' Suc_le_eq)
qed

text \<open>
  C33: pruning never takes what the next comparison reads: the proofs of the scan that just finished and those of the scan that
  is the baseline of the latest run of its profile and plan all stay.
\<close>

theorem prune_keeps_baselines:
  assumes "distinct (map sf_id scans)" "findPreviousScan n scans = Some p"
    "sf_siteProfileId scan = sf_siteProfileId n" "sf_plan scan = sf_plan n"
    "list_all (\<lambda>s. sf_siteProfileId s = sf_siteProfileId n \<longrightarrow> sf_accountId s = sf_accountId n) scans"
    "list_all (\<lambda>s. sf_siteProfileId s = sf_siteProfileId n \<and> sf_plan s = sf_plan n \<and> sf_status s = ''Completed'' \<and> sf_id s \<noteq> sf_id n
       \<longrightarrow> completedBefore n s) scans"
  shows "filter (\<lambda>r. pf_scanId r = sf_id p \<or> pf_scanId r = sf_id scan)
           (snd (pruneCoverageProofs scan COVERAGE_PROOF_HISTORY scans proofs))
       = filter (\<lambda>r. pf_scanId r = sf_id p \<or> pf_scanId r = sf_id scan) proofs"
proof -
  note p = findPreviousScan_Some [OF assms(2)]
  let ?xs = "filter (\<lambda>s. sf_siteProfileId s = sf_siteProfileId scan \<and> sf_plan s = sf_plan scan \<and> sf_status s = ''Completed'') scans"
  have "p \<in> set (take COVERAGE_PROOF_HISTORY (latest_first ?xs))"
  proof (rule among_latest)
    show "distinct (map sf_id ?xs)" using assms(1) by (rule distinct_map_filter)
    show "p \<in> set ?xs" using p assms(3,4) by (auto simp: previousScanWhere_def)
    show "\<forall>x \<in> set ?xs. sf_id x \<noteq> sf_id n \<longrightarrow> PREVIOUS_SCAN_ORDER x \<le> PREVIOUS_SCAN_ORDER p"
      using p assms(3-6) by (auto simp: previousScanWhere_def list_all_iff)
  qed (simp add: COVERAGE_PROOF_HISTORY_def)
  then show ?thesis by (auto simp: pruneCoverageProofs_def Let_def intro!: filter_cong)
qed

section \<open>Marking\<close>

lemma resolve_chunks:
  "fold resolve_chunk chunks (n, issues)
   = (n + length (filter (\<lambda>i. is_id i \<in> set (concat chunks) \<and> is_status i \<noteq> ''Resolved'') issues),
      map (\<lambda>i. if is_id i \<in> set (concat chunks) \<and> is_status i \<noteq> ''Resolved'' then i\<lparr> is_status := ''Resolved'' \<rparr> else i) issues)"
proof (induction chunks arbitrary: n issues)
  case (Cons ids chunks)
  let ?f = "\<lambda>i. if is_id i \<in> set ids \<and> is_status i \<noteq> ''Resolved'' then i\<lparr> is_status := ''Resolved'' \<rparr> else i"
  have "length (filter (\<lambda>i. is_id i \<in> set ids \<and> is_status i \<noteq> ''Resolved'') issues)
      + length (filter (\<lambda>i. is_id i \<in> set (concat chunks) \<and> is_status i \<noteq> ''Resolved'') (map ?f issues))
      = length (filter (\<lambda>i. is_id i \<in> set (concat (ids # chunks)) \<and> is_status i \<noteq> ''Resolved'') issues)"
    by (induction issues) auto
  moreover have "map (\<lambda>i. if is_id i \<in> set (concat chunks) \<and> is_status i \<noteq> ''Resolved'' then i\<lparr> is_status := ''Resolved'' \<rparr> else i) (map ?f issues)
      = map (\<lambda>i. if is_id i \<in> set (concat (ids # chunks)) \<and> is_status i \<noteq> ''Resolved'' then i\<lparr> is_status := ''Resolved'' \<rparr> else i) issues"
    by (induction issues) auto
  moreover have "fold resolve_chunk (ids # chunks) (n, issues)
      = fold resolve_chunk chunks (n + length (filter (\<lambda>i. is_id i \<in> set ids \<and> is_status i \<noteq> ''Resolved'') issues), map ?f issues)"
    by (simp add: resolve_chunk_def Let_def)
  ultimately show ?case by (simp only: Cons.IH add.assoc)
qed (simp add: resolve_chunk_def)

text \<open>The issues the pass may close, and what closing them gives.\<close>

definition closes :: "('b, 't, 'j) codec \<Rightarrow> scan_facts \<Rightarrow> RunCoverage \<Rightarrow> 'b audit_db \<Rightarrow> scan_facts \<Rightarrow> issue_row \<Rightarrow> bool" where
  "closes cd scan run db p i \<longleftrightarrow> is_scanId i = sf_id p \<and> is_status i \<noteq> ''Resolved''
     \<and> is_fingerprint i \<notin> is_fingerprint ` set (filter (\<lambda>i. is_scanId i = sf_id scan) (db_issues db))
     \<and> provesRepeatCheck i run (previousRunCoverage (fst (loadScanCoverage cd (sf_id p) (db_proofs db))) (sf_rulesetVersion p))"

lemma marked_issues:
  assumes "distinct (map is_id (db_issues db))" "planSupports (sf_plan scan) IssueHistory = Inr True"
    "findPreviousScan scan (db_scans db) = Some p"
  shows "markResolvedAgainstPrevious cd scan run db =
    Inr (length (filter (closes cd scan run db p) (db_issues db)),
         db\<lparr> db_issues := map (\<lambda>i. if closes cd scan run db p i then i\<lparr> is_status := ''Resolved'' \<rparr> else i) (db_issues db) \<rparr>)"
proof -
  let ?ids = "map is_id (filter (closes cd scan run db p) (db_issues db))"
  have r: "resolvableIssues (filter (\<lambda>i. is_scanId i = sf_id p \<and> is_status i \<noteq> ''Resolved'') (db_issues db))
      (is_fingerprint ` set (filter (\<lambda>i. is_scanId i = sf_id scan) (db_issues db))) run
      (previousRunCoverage (fst (loadScanCoverage cd (sf_id p) (db_proofs db))) (sf_rulesetVersion p))
    = filter (closes cd scan run db p) (db_issues db)"
    unfolding resolvableIssues_def filter_filter by (rule filter_cong) (auto simp: closes_def)
  have c: "concat (chunked ?ids RESOLVE_CHUNK_SIZE) = ?ids" by (rule chunked_concat) (simp add: RESOLVE_CHUNK_SIZE_def)
  have hit: "is_id i \<in> set ?ids \<and> is_status i \<noteq> ''Resolved'' \<longleftrightarrow> closes cd scan run db p i" if "i \<in> set (db_issues db)" for i
  proof
    assume "is_id i \<in> set ?ids \<and> is_status i \<noteq> ''Resolved''"
    then obtain k where k: "k \<in> set (db_issues db)" "closes cd scan run db p k" "is_id k = is_id i" by auto
    then have "k = i" using that assms(1) by (auto simp: distinct_map inj_on_def)
    with k show "closes cd scan run db p i" by simp
  next
    assume "closes cd scan run db p i"
    moreover from this that have "is_id i \<in> set ?ids" by auto
    ultimately show "is_id i \<in> set ?ids \<and> is_status i \<noteq> ''Resolved''" unfolding closes_def by blast
  qed
  have n: "length (filter (\<lambda>i. is_id i \<in> set ?ids \<and> is_status i \<noteq> ''Resolved'') (db_issues db)) = length (filter (closes cd scan run db p) (db_issues db))"
    by (intro arg_cong [where f = length] filter_cong refl hit)
  have m: "map (\<lambda>i. if is_id i \<in> set ?ids \<and> is_status i \<noteq> ''Resolved'' then i\<lparr> is_status := ''Resolved'' \<rparr> else i) (db_issues db)
      = map (\<lambda>i. if closes cd scan run db p i then i\<lparr> is_status := ''Resolved'' \<rparr> else i) (db_issues db)"
    by (intro map_cong refl) (simp only: hit)
  have "fold resolve_chunk (chunked ?ids RESOLVE_CHUNK_SIZE) (0, db_issues db)
      = (length (filter (closes cd scan run db p) (db_issues db)), map (\<lambda>i. if closes cd scan run db p i then i\<lparr> is_status := ''Resolved'' \<rparr> else i) (db_issues db))"
    unfolding resolve_chunks c n m by simp
  then show ?thesis
    by (simp only: markResolvedAgainstPrevious_def assms(2,3) res_bind.simps Let_def r option.case prod.case not_True_eq_False if_False)
qed

section \<open>What storage may lose\<close>

text \<open>What the modules recorded, before any limit.\<close>

definition recorded_entry :: "RunRequestContext \<Rightarrow> RuleCoverage \<Rightarrow> RuleCoverageEntry" where
  "recorded_entry context rule = \<lparr> ce_checkedTargets = set (rc_checkedTargets rule), ce_inputTargets = set (rule_inputs rule),
     ce_requestedInputs = map_option set (rc_requestedInputs rule), ce_context = context \<rparr>"

definition recorded :: "ModuleCoverage \<Rightarrow> CoverageRead" where
  "recorded c =
     \<lparr> cr_coverage = (\<lambda>k. map_option (recorded_entry (mc_context c)) (last_of rc_ruleId (mc_rules c) k)),
       cr_issueDependencies = (\<lambda>k. map_option snd (last_of fst (issue_dependencies c) k)), cr_problem = None \<rparr>"

definition recorded_coverage :: "ModuleCoverage list \<Rightarrow> ScanCoverage" where
  "recorded_coverage cs = fold merge_read (map recorded cs) EMPTY_SCAN_COVERAGE"

definition weaker_entry :: "RuleCoverageEntry \<Rightarrow> RuleCoverageEntry \<Rightarrow> bool" where
  "weaker_entry e e' \<longleftrightarrow> ce_checkedTargets e = ce_checkedTargets e' \<and> ce_inputTargets e = ce_inputTargets e' \<and> ce_context e = ce_context e'
     \<and> (ce_requestedInputs e = None \<or> ce_requestedInputs e = ce_requestedInputs e')"

text \<open>A read that lost everything, or kept every rule and the material of every finding that named any.\<close>

definition weaker_read :: "CoverageRead \<Rightarrow> CoverageRead \<Rightarrow> bool" where
  "weaker_read r r' \<longleftrightarrow>
     (cr_coverage r = Map.empty \<and> cr_issueDependencies r = Map.empty)
     \<or> ((\<forall>k. rel_option weaker_entry (cr_coverage r k) (cr_coverage r' k))
        \<and> (\<forall>k. same_targets (cr_issueDependencies r k)
             (case cr_issueDependencies r' k of None \<Rightarrow> None | Some ts \<Rightarrow> if ts = [] then None else Some ts)))"

lemma problem_empty: "cr_problem (decodeCoverageProof cd b) \<noteq> None \<Longrightarrow>
    cr_coverage (decodeCoverageProof cd b) = Map.empty \<and> cr_issueDependencies (decodeCoverageProof cd b) = Map.empty"
  by (auto simp: decodeCoverageProof_def indexOf_def unusable_def split: sum.splits)

definition stored_as :: "('b, 't, 'j) codec \<Rightarrow> ModuleCoverage \<Rightarrow> 'b \<Rightarrow> bool" where
  "stored_as cd c b \<longleftrightarrow> b = serializeCoverageProof cd c \<or> cr_problem (decodeCoverageProof cd b) \<noteq> None"

lemma last_of_key: "last_of key xs k = Some x \<Longrightarrow> x \<in> set xs \<and> key x = k"
  by (auto simp: last_of_def find_Some_iff rev_nth)

lemma last_of_distinct:
  assumes "distinct (map key xs)"
  shows "last_of key (filter P xs) k = (case last_of key xs k of None \<Rightarrow> None | Some x \<Rightarrow> if P x then Some x else None)"
  using assms
proof (induction xs)
  case (Cons x xs)
  have "last_of key xs k = None" if "key x = k"
  proof (cases "last_of key xs k")
    case (Some y)
    from last_of_key [OF this] that Cons.prems show ?thesis by (auto simp: image_iff)
  qed simp
  then show ?case using Cons by (auto simp: last_of_Cons split: option.splits)
qed simp

lemma stored_weaker:
  assumes "faithful cd" "stored_as cd c b" "distinct (map fst (issue_dependencies c))"
  shows "weaker_read (decodeCoverageProof cd b) (recorded c)"
proof (cases "b = serializeCoverageProof cd c \<and> card (proof_addresses c) \<le> MAX_COVERAGE_PROOF_TARGETS")
  case True
  then have r: "cr_coverage (decodeCoverageProof cd b) = exact_rules c"
    "\<forall>k. same_targets (cr_issueDependencies (decodeCoverageProof cd b) k) (exact_dependencies c k)"
    using stored_proof [OF assms(1), of c] by simp_all
  have "weaker_entry (exact_entry ctx rule) (recorded_entry ctx rule)" for ctx rule
    by (auto simp: weaker_entry_def exact_entry_def recorded_entry_def kept_requested_def split: option.split)
  then have "rel_option weaker_entry (exact_rules c k) (cr_coverage (recorded c) k)" for k
    by (cases "last_of rc_ruleId (mc_rules c) k") (simp_all add: exact_rules_def recorded_def)
  moreover have "exact_dependencies c k = (case cr_issueDependencies (recorded c) k of None \<Rightarrow> None | Some ts \<Rightarrow> if ts = [] then None else Some ts)" for k
    unfolding exact_dependencies_def named_dependencies_def last_of_distinct [OF assms(3)]
    by (simp add: recorded_def split: option.split)
  ultimately show ?thesis using r by (simp add: weaker_read_def)
next
  case False
  then have "cr_problem (decodeCoverageProof cd b) \<noteq> None"
    using assms(2) stored_proof [OF assms(1), of c] by (auto simp: stored_as_def split: if_splits)
  from problem_empty [OF this] show ?thesis by (simp add: weaker_read_def)
qed

lemma skip_rule: "\<forall>r \<in> set rs. cr_coverage r k = None \<Longrightarrow> sv_byRule (fold merge_read rs acc) k = sv_byRule acc k"
  by (induction rs arbitrary: acc) (simp_all add: merge_read_def)

lemma skip_issue: "\<forall>r \<in> set rs. cr_issueDependencies r k = None \<Longrightarrow>
    sv_issueDependencies (fold merge_read rs acc) k = sv_issueDependencies acc k"
  by (induction rs arbitrary: acc) (simp_all add: merge_read_def map_add_def)

definition once :: "string \<Rightarrow> CoverageRead list \<Rightarrow> bool" where
  "once k rs \<longleftrightarrow> length (filter (\<lambda>r. cr_coverage r k \<noteq> None) rs) \<le> 1"

lemma once_split:
  assumes "once k rs" "r \<in> set rs" "cr_coverage r k \<noteq> None"
  shows "\<exists>us vs. rs = us @ r # vs \<and> (\<forall>x \<in> set (us @ vs). cr_coverage x k = None)"
proof -
  obtain us vs where s: "rs = us @ r # vs" using assms(2) by (meson split_list)
  then have "filter (\<lambda>r. cr_coverage r k \<noteq> None) (us @ vs) = []" using assms(1,3) by (simp add: once_def)
  then show ?thesis using s by (auto simp: filter_empty_conv)
qed

text \<open>The rule of a finding belongs to one module, which also names the material of the finding.\<close>

lemma load_weaker:
  assumes "list_all2 weaker_read rs rs'" "once k rs'" "\<forall>r \<in> set rs'. cr_issueDependencies r fp \<noteq> None \<longrightarrow> cr_coverage r k \<noteq> None"
    "sv_byRule (fold merge_read rs EMPTY_SCAN_COVERAGE) k = Some e"
  shows "\<exists>e'. sv_byRule (fold merge_read rs' EMPTY_SCAN_COVERAGE) k = Some e' \<and> weaker_entry e e'
    \<and> same_targets (sv_issueDependencies (fold merge_read rs EMPTY_SCAN_COVERAGE) fp)
        (case sv_issueDependencies (fold merge_read rs' EMPTY_SCAN_COVERAGE) fp of None \<Rightarrow> None | Some ts \<Rightarrow> if ts = [] then None else Some ts)"
proof -
  have "\<exists>r \<in> set rs. cr_coverage r k \<noteq> None"
  proof (rule ccontr)
    assume "\<not> ?thesis"
    then have "\<forall>r \<in> set rs. cr_coverage r k = None" by blast
    from skip_rule [OF this, of EMPTY_SCAN_COVERAGE] assms(4) show False by (simp add: EMPTY_SCAN_COVERAGE_def)
  qed
  then obtain r where r: "r \<in> set rs" "cr_coverage r k \<noteq> None" by blast
  then obtain us vs where rs: "rs = us @ r # vs" by (meson split_list)
  then obtain us' r' vs' where rs': "rs' = us' @ r' # vs'" "list_all2 weaker_read us us'" "weaker_read r r'" "list_all2 weaker_read vs vs'"
    using assms(1) by (auto simp: list_all2_append1 list_all2_Cons1)
  have rr: "\<forall>k. rel_option weaker_entry (cr_coverage r k) (cr_coverage r' k)"
    "\<forall>k. same_targets (cr_issueDependencies r k) (case cr_issueDependencies r' k of None \<Rightarrow> None | Some ts \<Rightarrow> if ts = [] then None else Some ts)"
    using rs'(3) r(2) by (auto simp: weaker_read_def)
  have r': "cr_coverage r' k \<noteq> None" using rr(1) r(2) by (metis option.rel_distinct(2) option.exhaust_sel)
  have "filter (\<lambda>r. cr_coverage r k \<noteq> None) (us' @ vs') = []" using assms(2) r' by (simp add: once_def rs'(1))
  then have n': "\<forall>x \<in> set us'. cr_coverage x k = None" "\<forall>x \<in> set vs'. cr_coverage x k = None" by (auto simp: filter_empty_conv)
  have d': "\<forall>x \<in> set us'. cr_issueDependencies x fp = None" "\<forall>x \<in> set vs'. cr_issueDependencies x fp = None"
    using assms(3) n' by (auto simp: rs'(1))
  have weak: "\<forall>x \<in> set xs. cr_coverage x k = None \<and> cr_issueDependencies x fp = None"
    if "list_all2 weaker_read xs ys" "\<forall>y \<in> set ys. cr_coverage y k = None" "\<forall>y \<in> set ys. cr_issueDependencies y fp = None" for xs ys
    using that
  proof (induction rule: list_all2_induct)
    case (Cons x xs y ys)
    have "cr_coverage x k = None \<and> cr_issueDependencies x fp = None"
    proof (cases "cr_coverage x = Map.empty \<and> cr_issueDependencies x = Map.empty")
      case False
      with Cons.hyps(1) have "rel_option weaker_entry (cr_coverage x k) (cr_coverage y k)"
        "same_targets (cr_issueDependencies x fp) (case cr_issueDependencies y fp of None \<Rightarrow> None | Some ts \<Rightarrow> if ts = [] then None else Some ts)"
        by (auto simp: weaker_read_def)
      then show ?thesis using Cons.prems by (simp add: same_targets_def)
    qed simp
    with Cons show ?case by auto
  qed simp
  have nu: "\<forall>x \<in> set us. cr_coverage x k = None" "\<forall>x \<in> set us. cr_issueDependencies x fp = None"
    using weak [OF rs'(2) n'(1) d'(1)] by auto
  have nv: "\<forall>x \<in> set vs. cr_coverage x k = None" "\<forall>x \<in> set vs. cr_issueDependencies x fp = None"
    using weak [OF rs'(4) n'(2) d'(2)] by auto
  have l: "sv_byRule (fold merge_read (ws @ x # zs) EMPTY_SCAN_COVERAGE) k = cr_coverage x k
      \<and> sv_issueDependencies (fold merge_read (ws @ x # zs) EMPTY_SCAN_COVERAGE) fp = cr_issueDependencies x fp"
    if "\<forall>x \<in> set ws. cr_coverage x k = None" "\<forall>x \<in> set ws. cr_issueDependencies x fp = None"
      "\<forall>x \<in> set zs. cr_coverage x k = None" "\<forall>x \<in> set zs. cr_issueDependencies x fp = None" for ws x zs
    using that by (simp add: skip_rule skip_issue merge_read_def EMPTY_SCAN_COVERAGE_def map_add_def split: option.split)
  show ?thesis using l [OF nu nv, of r] l [OF n'(1) d'(1) n'(2) d'(2), of r'] spec [OF rr(1), of k] spec [OF rr(2), of fp] assms(4)
    by (auto simp: rs rs'(1) option_rel_Some1)
qed

section \<open>Closing rests on what was recorded\<close>

lemma prove_more:
  assumes "provesRepeatCheck i run prev"
    "rn_rulesetVersion run' = rn_rulesetVersion run" "rn_completedModules run' = rn_completedModules run"
    "pv_rulesetVersion prev' = pv_rulesetVersion prev"
    "\<And>e. rn_coverageByRule run (is_ruleId i) = Some e \<Longrightarrow> \<exists>e'. rn_coverageByRule run' (is_ruleId i) = Some e' \<and> weaker_entry e e'"
    "\<And>b. pv_coverageByRule prev (is_ruleId i) = Some b \<Longrightarrow> \<exists>b'. pv_coverageByRule prev' (is_ruleId i) = Some b' \<and> weaker_entry b b'
       \<and> same_targets (pv_issueDependencies prev (is_fingerprint i))
           (case pv_issueDependencies prev' (is_fingerprint i) of None \<Rightarrow> None | Some ts \<Rightarrow> if ts = [] then None else Some ts)"
  shows "provesRepeatCheck i run' prev'"
proof -
  obtain e where e: "rn_coverageByRule run (is_ruleId i) = Some e"
    using assms(1) by (auto simp: provesRepeatCheck_def split: if_splits option.splits)
  obtain b where b: "pv_coverageByRule prev (is_ruleId i) = Some b"
    using assms(1) by (auto simp: provesRepeatCheck_def e sameRequestContext_def Let_def split: if_splits option.splits)
  obtain e' where e': "rn_coverageByRule run' (is_ruleId i) = Some e'" "weaker_entry e e'" using assms(5) e by blast
  obtain b' where b': "pv_coverageByRule prev' (is_ruleId i) = Some b'" "weaker_entry b b'"
    and d: "same_targets (pv_issueDependencies prev (is_fingerprint i))
      (case pv_issueDependencies prev' (is_fingerprint i) of None \<Rightarrow> None | Some ts \<Rightarrow> if ts = [] then None else Some ts)"
    using assms(6) b by blast
  have gone: "noLongerRequested e t \<Longrightarrow> noLongerRequested e' t" for t
    using e'(2) by (cases "ce_requestedInputs e"; cases "ce_requestedInputs e'") (simp_all add: noLongerRequested_def weaker_entry_def)
  have site: "coversPreviousTargets e (Some (ce_checkedTargets b)) \<Longrightarrow> coversPreviousTargets e' (Some (ce_checkedTargets b'))"
    using gone e'(2) b'(2) by (auto simp: coversPreviousTargets_def weaker_entry_def split: if_splits)
  have page: "coversFindingDependencies i e' (Some b') (pv_issueDependencies prev')"
    if "coversFindingDependencies i e (Some b) (pv_issueDependencies prev)"
  proof (cases "pv_issueDependencies prev' (is_fingerprint i)")
    case None
    with d have "pv_issueDependencies prev (is_fingerprint i) = None" by (simp add: same_targets_def)
    with None that gone e'(2) b'(2) show ?thesis by (simp add: coversFindingDependencies_def weaker_entry_def) blast
  next
    case (Some ts)
    show ?thesis
    proof (cases "ts = []")
      case True
      with Some show ?thesis by (simp add: coversFindingDependencies_def)
    next
      case False
      with d Some obtain us where "pv_issueDependencies prev (is_fingerprint i) = Some us" "set us = set ts"
        by (auto simp: same_targets_def option_rel_Some2)
      with Some that gone e'(2) show ?thesis by (simp add: coversFindingDependencies_def weaker_entry_def) blast
    qed
  qed
  show ?thesis using assms(1-4) e'(2) b'(2) site page
    by (auto simp: provesRepeatCheck_def e b e'(1) b'(1) Let_def weaker_entry_def split: if_splits)
qed

definition proofs_of :: "string \<Rightarrow> 'b proof_row list \<Rightarrow> 'b list" where
  "proofs_of scanId rows = map pf_proof (filter (\<lambda>r. pf_scanId r = scanId) rows)"

text \<open>
  The proofs of a scan hold what its modules recorded, or cannot be read; the rule of the issue is one module's, which names
  the material of its findings once each.
\<close>

definition keeps_proofs :: "('b, 't, 'j) codec \<Rightarrow> ModuleCoverage list \<Rightarrow> 'b list \<Rightarrow> issue_row \<Rightarrow> bool" where
  "keeps_proofs cd cs bytes i \<longleftrightarrow> list_all2 (stored_as cd) cs bytes
     \<and> list_all (\<lambda>c. distinct (map fst (issue_dependencies c))
         \<and> (cr_issueDependencies (recorded c) (is_fingerprint i) \<noteq> None \<longrightarrow> cr_coverage (recorded c) (is_ruleId i) \<noteq> None)) cs
     \<and> once (is_ruleId i) (map recorded cs)"

lemma load_kept:
  assumes "faithful cd" "keeps_proofs cd cs (proofs_of scanId rows) i"
    "sv_byRule (fst (loadScanCoverage cd scanId rows)) (is_ruleId i) = Some e"
  shows "\<exists>e'. sv_byRule (recorded_coverage cs) (is_ruleId i) = Some e' \<and> weaker_entry e e'
    \<and> same_targets (sv_issueDependencies (fst (loadScanCoverage cd scanId rows)) (is_fingerprint i))
        (case sv_issueDependencies (recorded_coverage cs) (is_fingerprint i) of None \<Rightarrow> None | Some ts \<Rightarrow> if ts = [] then None else Some ts)"
proof -
  have l: "fst (loadScanCoverage cd scanId rows) = fold merge_read (map (decodeCoverageProof cd) (proofs_of scanId rows)) EMPTY_SCAN_COVERAGE"
    by (simp add: loadScanCoverage_def proofs_of_def Let_def comp_def)
  have "list_all2 weaker_read (map (decodeCoverageProof cd) (proofs_of scanId rows)) (map recorded cs)"
    using assms(2) stored_weaker [OF assms(1)]
    by (auto simp: keeps_proofs_def list_all2_conv_all_nth list_all_length)
  moreover have "\<forall>r \<in> set (map recorded cs). cr_issueDependencies r (is_fingerprint i) \<noteq> None \<longrightarrow> cr_coverage r (is_ruleId i) \<noteq> None"
    using assms(2) by (auto simp: keeps_proofs_def list_all_iff)
  moreover have "once (is_ruleId i) (map recorded cs)" using assms(2) by (simp add: keeps_proofs_def)
  ultimately show ?thesis using load_weaker assms(3) unfolding l recorded_coverage_def by blast
qed

text \<open>
  C5: a finding is closed only by proof. Whatever was lost in storage, be it rows that cannot be read, modules beyond the
  limit of a proof or requests beyond theirs, an issue the pass closes belongs to the previous scan, is not found again, and
  was really rechecked according to what the modules of both scans recorded: its module is complete, the ruleset and the
  request context are the same, and its target and all the material it rested on were read again or are no longer asked for.
\<close>

theorem closed_only_by_proof:
  assumes "faithful cd" "distinct (map is_id (db_issues db))" "i \<in> set (db_issues db)"
    "list_all (\<lambda>s. keeps_proofs cd (mods (sf_id s)) (proofs_of (sf_id s) (db_proofs db)) i) (scan # db_scans db)"
    "markResolvedAgainstPrevious cd scan (runCoverageOf cd scan completed db) db = Inr (n, db')" "i \<notin> set (db_issues db')"
  shows "\<exists>p. findPreviousScan scan (db_scans db) = Some p \<and> is_scanId i = sf_id p
    \<and> is_fingerprint i \<notin> is_fingerprint ` set (filter (\<lambda>i. is_scanId i = sf_id scan) (db_issues db))
    \<and> provesRepeatCheck i
        \<lparr> rn_coverageByRule = sv_byRule (recorded_coverage (mods (sf_id scan))), rn_completedModules = completed,
          rn_rulesetVersion = sf_rulesetVersion scan \<rparr>
        (previousRunCoverage (recorded_coverage (mods (sf_id p))) (sf_rulesetVersion p))"
proof -
  let ?run = "runCoverageOf cd scan completed db"
  have changed: "db' \<noteq> db" using assms(3,6) by auto
  obtain supported where s: "planSupports (sf_plan scan) IssueHistory = Inr supported"
    using assms(5) by (auto simp: markResolvedAgainstPrevious_def)
  have "supported" using assms(5) changed s by (auto simp: markResolvedAgainstPrevious_def split: if_splits)
  with s have s: "planSupports (sf_plan scan) IssueHistory = Inr True" by simp
  obtain p where p: "findPreviousScan scan (db_scans db) = Some p"
    using assms(5) changed s by (cases "findPreviousScan scan (db_scans db)") (auto simp: markResolvedAgainstPrevious_def)
  have "db_issues db' = map (\<lambda>i. if closes cd scan ?run db p i then i\<lparr> is_status := ''Resolved'' \<rparr> else i) (db_issues db)"
    using assms(5) marked_issues [OF assms(2) s p, of cd ?run] by auto
  then have c: "closes cd scan ?run db p i" using assms(3,6) by (auto simp: image_iff)
  have k: "keeps_proofs cd (mods (sf_id scan)) (proofs_of (sf_id scan) (db_proofs db)) i"
    "keeps_proofs cd (mods (sf_id p)) (proofs_of (sf_id p) (db_proofs db)) i"
    using assms(4) findPreviousScan_Some [OF p] by (auto simp: list_all_iff)
  have "provesRepeatCheck i
        \<lparr> rn_coverageByRule = sv_byRule (recorded_coverage (mods (sf_id scan))), rn_completedModules = completed,
          rn_rulesetVersion = sf_rulesetVersion scan \<rparr>
        (previousRunCoverage (recorded_coverage (mods (sf_id p))) (sf_rulesetVersion p))"
  proof (rule prove_more)
    show "provesRepeatCheck i ?run (previousRunCoverage (fst (loadScanCoverage cd (sf_id p) (db_proofs db))) (sf_rulesetVersion p))"
      using c by (simp add: closes_def)
  next
    fix e assume "rn_coverageByRule ?run (is_ruleId i) = Some e"
    then show "\<exists>e'. rn_coverageByRule \<lparr> rn_coverageByRule = sv_byRule (recorded_coverage (mods (sf_id scan))), rn_completedModules = completed,
          rn_rulesetVersion = sf_rulesetVersion scan \<rparr> (is_ruleId i) = Some e' \<and> weaker_entry e e'"
      using load_kept [OF assms(1) k(1)] by (auto simp: runCoverageOf_def)
  next
    fix b assume "pv_coverageByRule (previousRunCoverage (fst (loadScanCoverage cd (sf_id p) (db_proofs db))) (sf_rulesetVersion p)) (is_ruleId i) = Some b"
    then show "\<exists>b'. pv_coverageByRule (previousRunCoverage (recorded_coverage (mods (sf_id p))) (sf_rulesetVersion p)) (is_ruleId i) = Some b' \<and> weaker_entry b b'
       \<and> same_targets (pv_issueDependencies (previousRunCoverage (fst (loadScanCoverage cd (sf_id p) (db_proofs db))) (sf_rulesetVersion p)) (is_fingerprint i))
           (case pv_issueDependencies (previousRunCoverage (recorded_coverage (mods (sf_id p))) (sf_rulesetVersion p)) (is_fingerprint i) of
              None \<Rightarrow> None | Some ts \<Rightarrow> if ts = [] then None else Some ts)"
      using load_kept [OF assms(1) k(2)] by (simp add: previousRunCoverage_def)
  qed (simp_all add: runCoverageOf_def previousRunCoverage_def)
  with p c show ?thesis by (auto simp: closes_def)
qed

section \<open>The history of a finding\<close>

lemma first_statuses_find:
  "first_statuses xs st fp = (case st fp of Some s \<Rightarrow> Some s
     | None \<Rightarrow> map_option (\<lambda>i. inheritedStatus (is_status i)) (find (\<lambda>i. is_fingerprint i = fp) xs))"
  by (induction xs arbitrary: st) (auto split: option.splits)

lemma find_split: "find P xs = Some j \<Longrightarrow> \<exists>us vs. xs = us @ j # vs \<and> P j \<and> (\<forall>u \<in> set us. \<not> P u)"
proof (induction xs)
  case (Cons x xs)
  show ?case
  proof (cases "P x")
    case True
    with Cons.prems have "x # xs = [] @ j # xs" "P j" by auto
    then show ?thesis by fastforce
  next
    case False
    with Cons obtain us vs where "xs = us @ j # vs" "P j" "\<forall>u \<in> set us. \<not> P u" by auto
    then have "x # xs = (x # us) @ j # vs \<and> P j \<and> (\<forall>u \<in> set (x # us). \<not> P u)" using False by simp
    then show ?thesis by blast
  qed
qed simp

lemma find_greatest:
  assumes "find P (rev (sort_key key xs)) = Some j"
  shows "j \<in> set xs \<and> P j \<and> (\<forall>k \<in> set xs. P k \<longrightarrow> key k \<le> key j)"
proof -
  obtain us vs where L: "rev (sort_key key xs) = us @ j # vs" "P j" "\<forall>u \<in> set us. \<not> P u"
    using find_split [OF assms] by blast
  then have "sort_key key xs = rev vs @ j # rev us" by (simp add: rev_eq_append_conv)
  then have "sorted (map key (rev vs @ j # rev us))" by (metis sorted_sort_key)
  then have le: "\<forall>v \<in> set vs. key v \<le> key j" by (auto simp: sorted_append)
  have "set xs = set (us @ j # vs)" using L(1) by (metis set_rev set_sort)
  with L le show ?thesis by auto
qed

definition earlier_issue :: "scan_facts \<Rightarrow> scan_facts list \<Rightarrow> string \<Rightarrow> issue_row \<Rightarrow> scan_facts \<Rightarrow> bool" where
  "earlier_issue scan scans fp i s \<longleftrightarrow> is_fingerprint i = fp \<and> s \<in> set scans \<and> sf_id s = is_scanId i \<and> previousScanWhere scan s"

lemma order_of_earlier:
  assumes "distinct (map sf_id scans)" "earlier_issue scan scans fp i s" "sf_completedAt s \<noteq> None"
  shows "inherited_order scans i = ((False, sf_completedAt s), map of_char (sf_id s))"
proof -
  have "find (\<lambda>q. sf_id q = is_scanId i) scans = Some s"
    using assms(1,2) unfolding earlier_issue_def by (induction scans) (auto simp: image_iff)
  then show ?thesis using assms(2,3) by (simp add: inherited_order_def earlier_issue_def)
qed

lemma fold_carried:
  "fold (\<lambda>i st. if is_status i \<in> set CARRIED_USER_STATUSES then st(is_fingerprint i \<mapsto> is_status i) else st) xs st fp
   = (case find (\<lambda>i. is_fingerprint i = fp \<and> is_status i \<in> set CARRIED_USER_STATUSES) (rev xs) of
        Some i \<Rightarrow> Some (is_status i) | None \<Rightarrow> st fp)"
  by (induction xs arbitrary: st) (auto simp: find_append split: option.splits)

lemma inherited_from_latest:
  assumes "planSupports (sf_plan scan) IssueHistory = Inr True" "fp \<in> set fingerprints" "distinct (map sf_id scans)"
    "list_all (\<lambda>s. sf_status s = ''Completed'' \<longrightarrow> sf_completedAt s \<noteq> None) scans"
  shows "\<exists>st. initialIssueStatuses scan fingerprints scans issues = Inr st \<and>
    (case st fp of
       None \<Rightarrow> \<not> (\<exists>i \<in> set issues. \<exists>s. earlier_issue scan scans fp i s)
     | Some x \<Rightarrow> (\<exists>i \<in> set issues. \<exists>s. earlier_issue scan scans fp i s \<and> x = inheritedStatus (is_status i)
         \<and> (\<forall>k \<in> set issues. \<forall>q. earlier_issue scan scans fp k q \<longrightarrow> PREVIOUS_SCAN_ORDER q \<le> PREVIOUS_SCAN_ORDER s)))"
proof -
  let ?P = "\<lambda>i. is_fingerprint i \<in> set fingerprints \<and> list_ex (\<lambda>s. sf_id s = is_scanId i \<and> previousScanWhere scan s) scans"
  let ?L = "rev (sort_key (inherited_order scans) (filter ?P issues))"
  have P: "?P i \<longleftrightarrow> (\<exists>s. earlier_issue scan scans fp i s)" if "is_fingerprint i = fp" for i
    using that assms(2) by (auto simp: earlier_issue_def list_ex_iff)
  have i: "initialIssueStatuses scan fingerprints scans issues = Inr (first_statuses ?L Map.empty)"
    using assms(2) by (auto simp: initialIssueStatuses_def assms(1))
  show ?thesis
  proof (intro exI conjI, rule i)
    show "case first_statuses ?L Map.empty fp of
       None \<Rightarrow> \<not> (\<exists>i \<in> set issues. \<exists>s. earlier_issue scan scans fp i s)
     | Some x \<Rightarrow> (\<exists>i \<in> set issues. \<exists>s. earlier_issue scan scans fp i s \<and> x = inheritedStatus (is_status i)
         \<and> (\<forall>k \<in> set issues. \<forall>q. earlier_issue scan scans fp k q \<longrightarrow> PREVIOUS_SCAN_ORDER q \<le> PREVIOUS_SCAN_ORDER s))"
    proof (cases "find (\<lambda>i. is_fingerprint i = fp) ?L")
      case None
      then have "\<forall>i \<in> set ?L. is_fingerprint i \<noteq> fp" by (simp add: find_None_iff)
      then have "\<forall>i \<in> set issues. is_fingerprint i = fp \<longrightarrow> \<not> ?P i" by auto
      then have "\<not> (\<exists>i \<in> set issues. \<exists>s. earlier_issue scan scans fp i s)" using P by (auto simp: earlier_issue_def)
      then show ?thesis using None by (simp add: first_statuses_find)
    next
      case (Some j)
      note g = find_greatest [OF Some]
      then obtain s where s: "earlier_issue scan scans fp j s" using P by auto
      have done_at: "sf_completedAt q \<noteq> None" if "earlier_issue scan scans fp k q" for k q
        using that assms(4) by (auto simp: earlier_issue_def previousScanWhere_def list_all_iff)
      have "PREVIOUS_SCAN_ORDER q \<le> PREVIOUS_SCAN_ORDER s" if k: "k \<in> set issues" "earlier_issue scan scans fp k q" for k q
      proof -
        have "is_fingerprint k = fp" using k(2) by (simp add: earlier_issue_def)
        then have "inherited_order scans k \<le> inherited_order scans j" using g P [of k] k by auto
        then show ?thesis
          unfolding order_of_earlier [OF assms(3) k(2) done_at [OF k(2)]] order_of_earlier [OF assms(3) s done_at [OF s]]
          by (auto simp: PREVIOUS_SCAN_ORDER_def less_eq_prod_def)
      qed
      then show ?thesis using g s Some by (auto simp: first_statuses_find)
    qed
  qed
qed

text \<open>
  the status a finding starts with: a decision of the owner on this very scan survives a rerun of the module; otherwise
  the finding carries on from the latest earlier scan of the plan that had it, where a closed one is reopened and a decision
  is kept; and only a finding no earlier scan had is new without a history.
\<close>

theorem finding_history:
  assumes "planSupports (sf_plan scan) IssueHistory = Inr True" "fp \<in> set fingerprints" "distinct (map sf_id scans)"
    "list_all (\<lambda>s. sf_status s = ''Completed'' \<longrightarrow> sf_completedAt s \<noteq> None) scans"
    "issueStatusesForModule scan sect fingerprints scans issues = Inr st"
  shows "if list_ex (\<lambda>i. is_scanId i = sf_id scan \<and> is_module i = sect \<and> is_fingerprint i = fp \<and> is_status i \<in> set CARRIED_USER_STATUSES) issues
    then \<exists>i \<in> set issues. is_scanId i = sf_id scan \<and> is_module i = sect \<and> is_fingerprint i = fp
           \<and> is_status i \<in> set CARRIED_USER_STATUSES \<and> st fp = Some (is_status i)
    else case st fp of
       None \<Rightarrow> \<not> (\<exists>i \<in> set issues. \<exists>s. earlier_issue scan scans fp i s)
     | Some x \<Rightarrow> (\<exists>i \<in> set issues. \<exists>s. earlier_issue scan scans fp i s \<and> x = inheritedStatus (is_status i)
         \<and> (\<forall>k \<in> set issues. \<forall>q. earlier_issue scan scans fp k q \<longrightarrow> PREVIOUS_SCAN_ORDER q \<le> PREVIOUS_SCAN_ORDER s))"
proof -
  obtain ini where ini: "initialIssueStatuses scan fingerprints scans issues = Inr ini"
    and late: "case ini fp of
       None \<Rightarrow> \<not> (\<exists>i \<in> set issues. \<exists>s. earlier_issue scan scans fp i s)
     | Some x \<Rightarrow> (\<exists>i \<in> set issues. \<exists>s. earlier_issue scan scans fp i s \<and> x = inheritedStatus (is_status i)
         \<and> (\<forall>k \<in> set issues. \<forall>q. earlier_issue scan scans fp k q \<longrightarrow> PREVIOUS_SCAN_ORDER q \<le> PREVIOUS_SCAN_ORDER s))"
    using inherited_from_latest [OF assms(1-4), of issues] by blast
  let ?cur = "filter (\<lambda>i. is_scanId i = sf_id scan \<and> is_module i = sect \<and> is_fingerprint i \<in> set fingerprints) issues"
  let ?own = "find (\<lambda>i. is_fingerprint i = fp \<and> is_status i \<in> set CARRIED_USER_STATUSES) (rev ?cur)"
  have st: "st fp = (case ?own of Some i \<Rightarrow> Some (is_status i) | None \<Rightarrow> ini fp)"
    using assms(2,5) by (auto simp: issueStatusesForModule_def ini Let_def fold_carried split: if_splits)
  show ?thesis
  proof (cases ?own)
    case None
    then have "\<not> list_ex (\<lambda>i. is_scanId i = sf_id scan \<and> is_module i = sect \<and> is_fingerprint i = fp \<and> is_status i \<in> set CARRIED_USER_STATUSES) issues"
      using assms(2) by (auto simp: find_None_iff list_ex_iff)
    then show ?thesis using late st None by simp
  next
    case (Some i)
    obtain us vs where e: "rev ?cur = us @ i # vs" and i: "is_fingerprint i = fp \<and> is_status i \<in> set CARRIED_USER_STATUSES"
      using find_split [OF Some] by blast
    have "i \<in> set (rev ?cur)" unfolding e by simp
    then have "i \<in> set ?cur" by simp
    with i have "i \<in> set issues \<and> is_scanId i = sf_id scan \<and> is_module i = sect \<and> is_fingerprint i = fp \<and> is_status i \<in> set CARRIED_USER_STATUSES"
      by simp
    then show ?thesis using st Some by (auto simp: list_ex_iff)
  qed
qed

section \<open>Three scans of a profile\<close>

definition demo_scan :: "string \<Rightarrow> int option \<Rightarrow> scan_facts" where
  "demo_scan i completed = \<lparr> sf_id = i, sf_accountId = ''acc'', sf_siteProfileId = ''site'', sf_plan = ''Complete'', sf_status = ''Completed'',
     sf_completedAt = completed, sf_rulesetVersion = ''r1'' \<rparr>"

definition demo_scans :: "scan_facts list" where
  "demo_scans = [demo_scan ''c'' (Some 30), demo_scan ''a'' (Some 10), demo_scan ''b'' (Some 20)]"

definition demo_issue :: "string \<Rightarrow> string \<Rightarrow> string \<Rightarrow> issue_row" where
  "demo_issue i scan st = \<lparr> is_id = i, is_scanId = scan, is_module = ''SEO'', is_fingerprint = ''f1'', is_ruleId = ''SEO-TECH-002'',
     is_targetKind = ''site'', is_normalizedUrl = '''', is_status = st \<rparr>"

definition demo_proofs :: "EncodedRuleCoverage proof_row list" where
  "demo_proofs = map (\<lambda>i. \<lparr> pf_scanId = i, pf_module = ''SEO'', pf_proof = serializeCoverageProof plain_codec demo_coverage \<rparr>) [''a'', ''b'', ''c'']"

lemma demo_supports: "planSupports (sf_plan (demo_scan i t)) IssueHistory = Inr True"
  using tariff_lookup_plan [of Complete] by (simp add: planSupports_def demo_scan_def FULL_REPORT_CAPABILITIES_def)

theorem prune_keeps_baselines_witness:
  "filter (\<lambda>r. pf_scanId r = ''b'' \<or> pf_scanId r = ''c'') (snd (pruneCoverageProofs (demo_scan ''c'' (Some 30)) COVERAGE_PROOF_HISTORY demo_scans demo_proofs))
   = filter (\<lambda>r. pf_scanId r = ''b'' \<or> pf_scanId r = ''c'') demo_proofs"
proof -
  have p: "findPreviousScan (demo_scan ''c'' (Some 30)) demo_scans = Some (demo_scan ''b'' (Some 20))" by code_simp
  have d: "distinct (map sf_id demo_scans)" by code_simp
  show ?thesis using prune_keeps_baselines [OF d p refl refl, of demo_proofs]
    by (simp add: demo_scans_def demo_scan_def completedBefore_def)
qed

theorem finding_history_witness:
  "\<exists>st. issueStatusesForModule (demo_scan ''c'' (Some 30)) ''SEO'' [''f1''] demo_scans
      [demo_issue ''1'' ''a'' ''Ignored'', demo_issue ''2'' ''b'' ''Resolved''] = Inr st \<and> st ''f1'' = Some ''Reopened''"
proof -
  let ?issues = "[demo_issue ''1'' ''a'' ''Ignored'', demo_issue ''2'' ''b'' ''Resolved'']"
  note sup = demo_supports [of "''c''" "Some 30"]
  have d: "distinct (map sf_id demo_scans)" by code_simp
  have t: "list_all (\<lambda>s. sf_status s = ''Completed'' \<longrightarrow> sf_completedAt s \<noteq> None) demo_scans" by (simp add: demo_scans_def demo_scan_def)
  obtain st where st: "issueStatusesForModule (demo_scan ''c'' (Some 30)) ''SEO'' [''f1''] demo_scans ?issues = Inr st"
    using inherited_from_latest [OF sup, of "''f1''" "[''f1'']" demo_scans ?issues] d t by (auto simp: issueStatusesForModule_def)
  have f: "''f1'' \<in> set [''f1'']" by simp
  have b: "earlier_issue (demo_scan ''c'' (Some 30)) demo_scans ''f1'' (demo_issue ''2'' ''b'' ''Resolved'') (demo_scan ''b'' (Some 20))"
    by (simp add: earlier_issue_def demo_issue_def demo_scans_def demo_scan_def previousScanWhere_def completedBefore_def)
  have a: "earlier_issue (demo_scan ''c'' (Some 30)) demo_scans ''f1'' (demo_issue ''1'' ''a'' ''Ignored'') s \<Longrightarrow> s = demo_scan ''a'' (Some 10)" for s
    by (auto simp: earlier_issue_def demo_issue_def demo_scans_def demo_scan_def)
  have o: "\<not> PREVIOUS_SCAN_ORDER (demo_scan ''b'' (Some 20)) \<le> PREVIOUS_SCAN_ORDER (demo_scan ''a'' (Some 10))"
    by (simp add: PREVIOUS_SCAN_ORDER_def demo_scan_def less_eq_prod_def)
  have "\<not> list_ex (\<lambda>i. is_scanId i = sf_id (demo_scan ''c'' (Some 30)) \<and> is_module i = ''SEO'' \<and> is_fingerprint i = ''f1'' \<and> is_status i \<in> set CARRIED_USER_STATUSES) ?issues"
    by (simp add: demo_issue_def demo_scan_def)
  with finding_history [OF sup f d t st] have h: "case st ''f1'' of
       None \<Rightarrow> \<not> (\<exists>i \<in> set ?issues. \<exists>s. earlier_issue (demo_scan ''c'' (Some 30)) demo_scans ''f1'' i s)
     | Some x \<Rightarrow> (\<exists>i \<in> set ?issues. \<exists>s. earlier_issue (demo_scan ''c'' (Some 30)) demo_scans ''f1'' i s \<and> x = inheritedStatus (is_status i)
         \<and> (\<forall>k \<in> set ?issues. \<forall>q. earlier_issue (demo_scan ''c'' (Some 30)) demo_scans ''f1'' k q \<longrightarrow> PREVIOUS_SCAN_ORDER q \<le> PREVIOUS_SCAN_ORDER s))" by simp
  have "st ''f1'' = Some (inheritedStatus (is_status (demo_issue ''2'' ''b'' ''Resolved'')))"
  proof (cases "st ''f1''")
    case None
    with h b show ?thesis by auto
  next
    case (Some x)
    with h obtain i s where i: "i \<in> set ?issues" "earlier_issue (demo_scan ''c'' (Some 30)) demo_scans ''f1'' i s" "x = inheritedStatus (is_status i)"
      "PREVIOUS_SCAN_ORDER (demo_scan ''b'' (Some 20)) \<le> PREVIOUS_SCAN_ORDER s" using b by auto
    then have "i \<noteq> demo_issue ''1'' ''a'' ''Ignored''" using a o by auto
    with i Some show ?thesis by auto
  qed
  then have "st ''f1'' = Some ''Reopened''" by (simp add: inheritedStatus_def demo_issue_def)
  with st show ?thesis by blast
qed

text \<open>
  Nothing was found again in \<open>b\<close>, which read the pages \<open>a\<close> had read, so the site-level finding of \<open>a\<close> is closed; its proof
  says why.
\<close>

definition demo_db :: "EncodedRuleCoverage audit_db" where
  "demo_db = \<lparr> db_scans = demo_scans, db_issues = [demo_issue ''1'' ''a'' ''New''], db_proofs = demo_proofs \<rparr>"

lemma demo_load: "x \<in> {''a'', ''b'', ''c''} \<Longrightarrow> sv_byRule (fst (loadScanCoverage plain_codec x demo_proofs)) = exact_rules demo_coverage"
proof -
  assume x: "x \<in> {''a'', ''b'', ''c''}"
  have "cr_coverage (decodeCoverageProof plain_codec (serializeCoverageProof plain_codec demo_coverage)) = exact_rules demo_coverage"
    using stored_proof [OF plain_faithful, of demo_coverage] demo_coverage_small by simp
  with x show ?thesis
    by (auto simp: loadScanCoverage_def demo_proofs_def merge_read_def EMPTY_SCAN_COVERAGE_def fun_eq_iff split: option.split)
qed

lemma demo_kept: "x \<in> {''a'', ''b'', ''c''} \<Longrightarrow> keeps_proofs plain_codec [demo_coverage] (proofs_of x demo_proofs) (demo_issue ''1'' ''a'' ''New'')"
  by (auto simp: keeps_proofs_def proofs_of_def demo_proofs_def stored_as_def once_def issue_dependencies_def demo_coverage_def
      recorded_def last_of_def demo_issue_def)

lemma demo_closes: "closes plain_codec (demo_scan ''b'' (Some 20)) (runCoverageOf plain_codec (demo_scan ''b'' (Some 20)) {''SEO''} demo_db) demo_db
   (demo_scan ''a'' (Some 10)) (demo_issue ''1'' ''a'' ''New'')"
  using demo_load
  by (simp add: closes_def demo_db_def demo_issue_def demo_scan_def provesRepeatCheck_def runCoverageOf_def previousRunCoverage_def
      exact_rules_def last_of_def demo_coverage_def exact_entry_def sameRequestContext_def demo_context_def UNKNOWN_RUN_CONTEXT_def
      SITE_LEVEL_TARGET_KINDS_def coversPreviousTargets_def)

theorem closed_only_by_proof_witness:
  "\<exists>n db'. markResolvedAgainstPrevious plain_codec (demo_scan ''b'' (Some 20)) (runCoverageOf plain_codec (demo_scan ''b'' (Some 20)) {''SEO''} demo_db) demo_db = Inr (n, db')
     \<and> demo_issue ''1'' ''a'' ''New'' \<notin> set (db_issues db')
     \<and> provesRepeatCheck (demo_issue ''1'' ''a'' ''New'')
        \<lparr> rn_coverageByRule = sv_byRule (recorded_coverage [demo_coverage]), rn_completedModules = {''SEO''}, rn_rulesetVersion = ''r1'' \<rparr>
        (previousRunCoverage (recorded_coverage [demo_coverage]) ''r1'')"
proof -
  have d: "distinct (map is_id (db_issues demo_db))" and i: "demo_issue ''1'' ''a'' ''New'' \<in> set (db_issues demo_db)"
    by (simp_all add: demo_db_def demo_issue_def)
  note sup = demo_supports [of "''b''" "Some 20"]
  have "findPreviousScan (demo_scan ''b'' (Some 20)) demo_scans = Some (demo_scan ''a'' (Some 10))" by code_simp
  then have p: "findPreviousScan (demo_scan ''b'' (Some 20)) (db_scans demo_db) = Some (demo_scan ''a'' (Some 10))" by (simp add: demo_db_def)
  obtain n db' where m: "markResolvedAgainstPrevious plain_codec (demo_scan ''b'' (Some 20)) (runCoverageOf plain_codec (demo_scan ''b'' (Some 20)) {''SEO''} demo_db) demo_db = Inr (n, db')"
    and db': "db_issues db' = [demo_issue ''1'' ''a'' ''New''\<lparr> is_status := ''Resolved'' \<rparr>]"
    using marked_issues [OF d sup p, of plain_codec "runCoverageOf plain_codec (demo_scan ''b'' (Some 20)) {''SEO''} demo_db"] demo_closes
    by (simp add: demo_db_def)
  have gone: "demo_issue ''1'' ''a'' ''New'' \<notin> set (db_issues db')" by (simp add: db' demo_issue_def)
  have k: "list_all (\<lambda>s. keeps_proofs plain_codec ((\<lambda>_. [demo_coverage]) (sf_id s)) (proofs_of (sf_id s) (db_proofs demo_db)) (demo_issue ''1'' ''a'' ''New''))
      (demo_scan ''b'' (Some 20) # db_scans demo_db)"
    using demo_kept by (simp add: demo_db_def demo_scans_def demo_scan_def)
  show ?thesis using closed_only_by_proof [OF plain_faithful d i k m gone] m gone p by (auto simp: demo_scan_def)
qed

text \<open>
  A finished row without a completion time, which nothing here writes, would be the last to be chosen as the previous scan but
  the first to hand down its statuses: the two orders differ there.
\<close>

lemma orders_differ_without_time:
  "findPreviousScan (demo_scan ''c'' None) [demo_scan ''a'' (Some 10), demo_scan ''b'' None] = Some (demo_scan ''a'' (Some 10))"
  "\<exists>st. initialIssueStatuses (demo_scan ''c'' None) [''f1''] [demo_scan ''a'' (Some 10), demo_scan ''b'' None]
      [demo_issue ''1'' ''a'' ''Resolved'', demo_issue ''2'' ''b'' ''Ignored''] = Inr st \<and> st ''f1'' = Some ''Ignored''"
proof -
  show "findPreviousScan (demo_scan ''c'' None) [demo_scan ''a'' (Some 10), demo_scan ''b'' None] = Some (demo_scan ''a'' (Some 10))"
    by code_simp
  note sup = demo_supports [of "''c''" None]
  have "rev (sort_key (inherited_order [demo_scan ''a'' (Some 10), demo_scan ''b'' None])
      (filter (\<lambda>i. is_fingerprint i \<in> set [''f1''] \<and> list_ex (\<lambda>s. sf_id s = is_scanId i \<and> previousScanWhere (demo_scan ''c'' None) s)
          [demo_scan ''a'' (Some 10), demo_scan ''b'' None]) [demo_issue ''1'' ''a'' ''Resolved'', demo_issue ''2'' ''b'' ''Ignored'']))
      = [demo_issue ''2'' ''b'' ''Ignored'', demo_issue ''1'' ''a'' ''Resolved'']"
    by code_simp
  then show "\<exists>st. initialIssueStatuses (demo_scan ''c'' None) [''f1''] [demo_scan ''a'' (Some 10), demo_scan ''b'' None]
      [demo_issue ''1'' ''a'' ''Resolved'', demo_issue ''2'' ''b'' ''Ignored''] = Inr st \<and> st ''f1'' = Some ''Ignored''"
    by (simp add: initialIssueStatuses_def sup demo_issue_def inheritedStatus_def CARRIED_USER_STATUSES_def)
qed

end
