(* ===== verification/Resume.thy ===== *)
theory Resume
  imports CrawlComplete "HOL-Library.AList"
begin

text \<open>
  What an interrupted run leaves behind and a resumed one picks up: \<open>apps/api/src/orchestrator/checkpoint.ts\<close>, the pages of
  \<open>crawl-store.ts\<close>, \<open>crawl-resume.ts\<close>, \<open>crawl-egress-bytes.ts\<close>, and the crawl phase of \<open>run-attempt.ts\<close> that joins them to
  the crawl. JSON, schema and compression are the parameters \<open>resume_world\<close>; times are milliseconds; a checkpoint keeps the
  version 2, the only one its schema accepts.
\<close>

section \<open>Limits\<close>

record checkpoint_limits =
  maxFrontierUrls :: nat
  maxUnretainedUrls :: nat
  maxUrlVariantGroups :: nat
  maxCoverageEntries :: nat
  maxBytes :: nat
  ck_expiryDays :: int

definition SCAN_CHECKPOINT_LIMITS :: checkpoint_limits where
  "SCAN_CHECKPOINT_LIMITS = \<lparr> maxFrontierUrls = 2000, maxUnretainedUrls = 2000, maxUrlVariantGroups = 500,
     maxCoverageEntries = 1000, maxBytes = 1024 * 1024, ck_expiryDays = 14 \<rparr>"

record evidence_limits =
  ev_maxPages :: nat
  maxPageBytes :: nat
  maxTotalBytes :: nat
  maxResourceBytes :: nat
  writeBatchSize :: nat
  ev_expiryDays :: int

definition SCAN_EVIDENCE_LIMITS :: evidence_limits where
  "SCAN_EVIDENCE_LIMITS = \<lparr> ev_maxPages = 1000, maxPageBytes = 512 * 1024, maxTotalBytes = 32 * 1024 * 1024,
     maxResourceBytes = 2 * 1024 * 1024, writeBatchSize = 50, ev_expiryDays = 14 \<rparr>"

definition DAY_MS :: int where "DAY_MS = 24 * 60 * 60 * 1000"

section \<open>The checkpoint\<close>

record CrawlCheckpoint =
  ck_frontier :: "CrawlQueueEntry list"
  ck_unretained :: "CrawlQueueEntry list"
  ck_scannedUrlCount :: nat
  ck_discoveredUrlCount :: nat
  ck_coverage :: RestoredCrawlCoverage
  ck_truncated :: bool
  ck_egressRecorded :: bool

record ScanCheckpointState =
  cs_stage :: string
  cs_completedStages :: "string list"
  cs_crawl :: CrawlCheckpoint

definition EMPTY_CRAWL_COVERAGE :: RestoredCrawlCoverage where
  "EMPTY_CRAWL_COVERAGE = \<lparr> rv_skippedOverLimit = [], rv_blockedByRobots = [], rv_errors = [], rv_rejectedSeeds = [], rv_urlVariants = [] \<rparr>"

definition EMPTY_CRAWL_CHECKPOINT :: CrawlCheckpoint where
  "EMPTY_CRAWL_CHECKPOINT = \<lparr> ck_frontier = [], ck_unretained = [], ck_scannedUrlCount = 0, ck_discoveredUrlCount = 0,
     ck_coverage = EMPTY_CRAWL_COVERAGE, ck_truncated = False, ck_egressRecorded = False \<rparr>"

text \<open>
  \<open>JSON.stringify\<close> and its length in bytes, \<open>JSON.parse\<close> and the schema (\<open>None\<close> when either refuses); the same of a zipped
  page and of the zipped media probes.
\<close>

record ('t, 'b, 'r) resume_world =
  rw_stringify :: "ScanCheckpointState \<Rightarrow> 't"
  rw_byteLength :: "'t \<Rightarrow> nat"
  rw_parse :: "'t \<Rightarrow> ScanCheckpointState option"
  rw_zip :: "PageSnapshot \<Rightarrow> 'b"
  rw_zipLength :: "'b \<Rightarrow> nat"
  rw_decodePage :: "'b \<Rightarrow> PageSnapshot option"
  rw_zipResources :: "ResourceSnapshot list \<Rightarrow> 'r"
  rw_resourcesLength :: "'r \<Rightarrow> nat"
  rw_decodeResources :: "'r \<Rightarrow> ResourceSnapshot list option"

record 't checkpoint_row =
  cp_accountId :: string
  cp_stage :: string
  cp_payloadJson :: 't
  cp_sizeBytes :: nat
  cp_expiresAt :: int

definition boundedCoverage :: "RestoredCrawlCoverage \<Rightarrow> RestoredCrawlCoverage \<times> bool" where
  "boundedCoverage coverage =
     (let cap = maxCoverageEntries SCAN_CHECKPOINT_LIMITS;
          variantEntries = take (maxUrlVariantGroups SCAN_CHECKPOINT_LIMITS) (rv_urlVariants coverage);
          bounded = \<lparr> rv_skippedOverLimit = take cap (rv_skippedOverLimit coverage),
                      rv_blockedByRobots = take cap (rv_blockedByRobots coverage),
                      rv_errors = take cap (rv_errors coverage),
                      rv_rejectedSeeds = take cap (rv_rejectedSeeds coverage),
                      rv_urlVariants = variantEntries \<rparr> in
      (bounded,
       length (rv_skippedOverLimit bounded) < length (rv_skippedOverLimit coverage) \<or>
       length (rv_blockedByRobots bounded) < length (rv_blockedByRobots coverage) \<or>
       length (rv_errors bounded) < length (rv_errors coverage) \<or>
       length (rv_rejectedSeeds bounded) < length (rv_rejectedSeeds coverage) \<or>
       length variantEntries < length (rv_urlVariants coverage)))"

definition boundedState :: "ScanCheckpointState \<Rightarrow> ScanCheckpointState" where
  "boundedState state =
     (let crawl = cs_crawl state;
          frontier = take (maxFrontierUrls SCAN_CHECKPOINT_LIMITS) (ck_frontier crawl);
          unretained = take (maxUnretainedUrls SCAN_CHECKPOINT_LIMITS) (ck_unretained crawl) in
      (case boundedCoverage (ck_coverage crawl) of
         (coverage, lost) \<Rightarrow>
           state\<lparr> cs_crawl := crawl\<lparr> ck_frontier := frontier, ck_unretained := unretained, ck_coverage := coverage,
             ck_truncated := ck_truncated crawl \<or> lost \<or> length frontier < length (ck_frontier crawl)
               \<or> length unretained < length (ck_unretained crawl) \<rparr> \<rparr>))"

definition withoutCoverage :: "ScanCheckpointState \<Rightarrow> ScanCheckpointState" where
  "withoutCoverage state = state\<lparr> cs_crawl := (cs_crawl state)\<lparr> ck_coverage := EMPTY_CRAWL_COVERAGE, ck_truncated := True \<rparr> \<rparr>"

definition indexOnly :: "ScanCheckpointState \<Rightarrow> ScanCheckpointState" where
  "indexOnly state = state\<lparr> cs_crawl := EMPTY_CRAWL_CHECKPOINT
     \<lparr> ck_scannedUrlCount := ck_scannedUrlCount (cs_crawl state), ck_discoveredUrlCount := ck_discoveredUrlCount (cs_crawl state),
       ck_truncated := True, ck_egressRecorded := ck_egressRecorded (cs_crawl state) \<rparr> \<rparr>"

definition serializeWithinLimit :: "('t, 'b, 'r) resume_world \<Rightarrow> ScanCheckpointState \<Rightarrow> 't" where
  "serializeWithinLimit w state =
     (let full = rw_stringify w state in
      if rw_byteLength w full \<le> maxBytes SCAN_CHECKPOINT_LIMITS then full
      else (let trimmed = rw_stringify w (withoutCoverage state) in
            if rw_byteLength w trimmed \<le> maxBytes SCAN_CHECKPOINT_LIMITS then trimmed
            else rw_stringify w (indexOnly state)))"

definition saveScanCheckpoint :: "('t, 'b, 'r) resume_world \<Rightarrow> string \<Rightarrow> string \<Rightarrow> ScanCheckpointState \<Rightarrow> int
    \<Rightarrow> (string \<times> 't checkpoint_row) list \<Rightarrow> (string \<times> 't checkpoint_row) list" where
  "saveScanCheckpoint w scanId accountId state now rows =
     (let bounded = boundedState state; payloadJson = serializeWithinLimit w bounded in
      AList.update scanId \<lparr> cp_accountId = accountId, cp_stage = cs_stage bounded, cp_payloadJson = payloadJson,
        cp_sizeBytes = rw_byteLength w payloadJson,
        cp_expiresAt = now + ck_expiryDays SCAN_CHECKPOINT_LIMITS * 24 * 60 * 60 * 1000 \<rparr> rows)"

definition loadScanCheckpoint :: "('t, 'b, 'r) resume_world \<Rightarrow> string \<Rightarrow> int \<Rightarrow> (string \<times> 't checkpoint_row) list \<Rightarrow> ScanCheckpointState option" where
  "loadScanCheckpoint w scanId now rows =
     (case map_of rows scanId of
        None \<Rightarrow> None
      | Some row \<Rightarrow> if cp_expiresAt row \<le> now then None else rw_parse w (cp_payloadJson row))"

definition clearScanCheckpoint :: "string \<Rightarrow> (string \<times> 't checkpoint_row) list \<Rightarrow> (string \<times> 't checkpoint_row) list" where
  "clearScanCheckpoint scanId = filter (\<lambda>(i, _). i \<noteq> scanId)"

definition sweepExpiredCheckpoints :: "int \<Rightarrow> (string \<times> 't checkpoint_row) list \<Rightarrow> nat \<times> (string \<times> 't checkpoint_row) list" where
  "sweepExpiredCheckpoints now rows =
     (length (filter (\<lambda>(_, row). cp_expiresAt row \<le> now) rows), filter (\<lambda>(_, row). \<not> cp_expiresAt row \<le> now) rows)"

section \<open>The pages\<close>

record 'b evidence_row =
  ev_scanId :: string
  ev_accountId :: string
  ev_normalizedUrl :: string
  ev_ordinal :: nat
  ev_payload :: 'b
  ev_sizeBytes :: nat
  ev_expiresAt :: int

record 'b evidence_plan =
  ep_rows :: "'b evidence_row list"
  ep_unretained :: "CrawlQueueEntry list"
  ep_claimed :: "string set"
  ep_totalBytes :: nat

definition plan_page :: "('t, 'b, 'r) resume_world \<Rightarrow> string \<Rightarrow> string \<Rightarrow> int \<Rightarrow> PageSnapshot \<Rightarrow> 'b evidence_plan \<Rightarrow> 'b evidence_plan" where
  "plan_page w scanId accountId expiresAt page st =
     (let payload = rw_zip w page;
          overPageCap = maxPageBytes SCAN_EVIDENCE_LIMITS < rw_zipLength w payload;
          overTotalCap = maxTotalBytes SCAN_EVIDENCE_LIMITS < ep_totalBytes st + rw_zipLength w payload;
          overCountCap = ev_maxPages SCAN_EVIDENCE_LIMITS \<le> length (ep_rows st) in
      if overPageCap \<or> overTotalCap \<or> overCountCap \<or> normalizedUrl page \<in> ep_claimed st then
        st\<lparr> ep_unretained := ep_unretained st @ [\<lparr> cq_url = requestedUrl page, cq_depth = pg_depth page \<rparr>] \<rparr>
      else
        st\<lparr> ep_claimed := insert (normalizedUrl page) (ep_claimed st), ep_totalBytes := ep_totalBytes st + rw_zipLength w payload,
            ep_rows := ep_rows st @ [\<lparr> ev_scanId = scanId, ev_accountId = accountId, ev_normalizedUrl = normalizedUrl page,
              ev_ordinal = length (ep_rows st), ev_payload = payload, ev_sizeBytes = rw_zipLength w payload,
              ev_expiresAt = expiresAt \<rparr>] \<rparr>)"

definition evidence_plan_of :: "('t, 'b, 'r) resume_world \<Rightarrow> string \<Rightarrow> string \<Rightarrow> int \<Rightarrow> PageSnapshot list \<Rightarrow> 'b evidence_plan" where
  "evidence_plan_of w scanId accountId expiresAt ps =
     fold (plan_page w scanId accountId expiresAt) ps \<lparr> ep_rows = [], ep_unretained = [], ep_claimed = {}, ep_totalBytes = 0 \<rparr>"

text \<open>\<open>createMany\<close> throws when a row repeats the key (scanId, normalizedUrl) of another; the transaction is then undone.\<close>

definition row_key :: "'b evidence_row \<Rightarrow> string \<times> string" where
  "row_key r = (ev_scanId r, ev_normalizedUrl r)"

definition createMany :: "'b evidence_row list \<Rightarrow> 'b evidence_row list \<Rightarrow> string + (nat \<times> 'b evidence_row list)" where
  "createMany batch rows =
     (if distinct (map row_key (rows @ batch)) then Inr (length batch, rows @ batch) else Inl ''Unique constraint failed'')"

fun write_batches :: "'b evidence_row list list \<Rightarrow> nat \<Rightarrow> 'b evidence_row list \<Rightarrow> string + (nat \<times> 'b evidence_row list)" where
  "write_batches [] written rows = Inr (written, rows)"
| "write_batches (batch # batches) written rows =
     res_bind (createMany batch rows) (\<lambda>(n, rows1). write_batches batches (written + n) rows1)"

record SaveEvidenceResult =
  se_retained :: nat
  se_unretained :: "CrawlQueueEntry list"
  se_totalBytes :: nat

definition saveCrawlEvidence :: "('t, 'b, 'r) resume_world \<Rightarrow> string \<Rightarrow> string \<Rightarrow> PageSnapshot list \<Rightarrow> int \<Rightarrow> 'b evidence_row list
    \<Rightarrow> string + (SaveEvidenceResult \<times> 'b evidence_row list)" where
  "saveCrawlEvidence w scanId accountId ps now rows =
     (let plan = evidence_plan_of w scanId accountId (now + ev_expiryDays SCAN_EVIDENCE_LIMITS * DAY_MS) ps in
      res_bind (write_batches (chunked (ep_rows plan) (writeBatchSize SCAN_EVIDENCE_LIMITS)) 0 (filter (\<lambda>r. ev_scanId r \<noteq> scanId) rows))
        (\<lambda>(written, rows1). Inr (\<lparr> se_retained = written, se_unretained = ep_unretained plan, se_totalBytes = ep_totalBytes plan \<rparr>, rows1)))"

definition loadCrawlEvidence :: "('t, 'b, 'r) resume_world \<Rightarrow> string \<Rightarrow> int \<Rightarrow> 'b evidence_row list \<Rightarrow> PageSnapshot list" where
  "loadCrawlEvidence w scanId now rows =
     List.map_filter (\<lambda>row. rw_decodePage w (ev_payload row))
       (sort_key ev_ordinal (filter (\<lambda>r. ev_scanId r = scanId \<and> now < ev_expiresAt r) rows))"

text \<open>The media probes, one row per scan.\<close>

record 'r resource_row =
  rr_accountId :: string
  rr_payload :: 'r
  rr_count :: nat
  rr_expiresAt :: int

definition saveCrawlResources :: "('t, 'b, 'r) resume_world \<Rightarrow> string \<Rightarrow> string \<Rightarrow> ResourceSnapshot list \<Rightarrow> int
    \<Rightarrow> (string \<times> 'r resource_row) list \<Rightarrow> nat \<times> (string \<times> 'r resource_row) list" where
  "saveCrawlResources w scanId accountId rs now rows =
     (if rs = [] then (0, filter (\<lambda>(i, _). i \<noteq> scanId) rows)
      else (let payload = rw_zipResources w rs in
            if maxResourceBytes SCAN_EVIDENCE_LIMITS < rw_resourcesLength w payload then (0, filter (\<lambda>(i, _). i \<noteq> scanId) rows)
            else (length rs, AList.update scanId \<lparr> rr_accountId = accountId, rr_payload = payload, rr_count = length rs,
                    rr_expiresAt = now + ev_expiryDays SCAN_EVIDENCE_LIMITS * DAY_MS \<rparr> rows)))"

definition loadCrawlResources :: "('t, 'b, 'r) resume_world \<Rightarrow> string \<Rightarrow> int \<Rightarrow> (string \<times> 'r resource_row) list \<Rightarrow> ResourceSnapshot list" where
  "loadCrawlResources w scanId now rows =
     (case map_of rows scanId of
        None \<Rightarrow> []
      | Some row \<Rightarrow> if rr_expiresAt row \<le> now then []
                     else (case rw_decodeResources w (rr_payload row) of None \<Rightarrow> [] | Some rs \<Rightarrow> rs))"

record ('t, 'b, 'r) resume_db =
  rd_checkpoints :: "(string \<times> 't checkpoint_row) list"
  rd_pages :: "'b evidence_row list"
  rd_resources :: "(string \<times> 'r resource_row) list"

definition clearCrawlEvidence :: "string \<Rightarrow> ('t, 'b, 'r) resume_db \<Rightarrow> ('t, 'b, 'r) resume_db" where
  "clearCrawlEvidence scanId db = db\<lparr> rd_pages := filter (\<lambda>r. ev_scanId r \<noteq> scanId) (rd_pages db),
     rd_resources := filter (\<lambda>(i, _). i \<noteq> scanId) (rd_resources db) \<rparr>"

definition sweepExpiredCrawlEvidence :: "int \<Rightarrow> ('t, 'b, 'r) resume_db \<Rightarrow> nat \<times> ('t, 'b, 'r) resume_db" where
  "sweepExpiredCrawlEvidence now db =
     (length (filter (\<lambda>r. ev_expiresAt r \<le> now) (rd_pages db)) + length (filter (\<lambda>(_, r). rr_expiresAt r \<le> now) (rd_resources db)),
      db\<lparr> rd_pages := filter (\<lambda>r. \<not> ev_expiresAt r \<le> now) (rd_pages db),
          rd_resources := filter (\<lambda>(_, r). \<not> rr_expiresAt r \<le> now) (rd_resources db) \<rparr>)"

section \<open>Between two attempts\<close>

definition coverageOf :: "CrawlResult \<Rightarrow> RestoredCrawlCoverage" where
  "coverageOf r = \<lparr> rv_skippedOverLimit = cr_skippedOverLimit r, rv_blockedByRobots = cr_blockedByRobots r, rv_errors = cr_errors r,
     rv_rejectedSeeds = cr_rejectedSeeds r, rv_urlVariants = cr_urlVariants r \<rparr>"

text \<open>\<open>fails\<close>: whether the database refuses the pages, or the probes after them.\<close>

definition persistCrawlEvidence :: "('t, 'b, 'r) resume_world \<Rightarrow> bool \<times> bool \<Rightarrow> string \<Rightarrow> string \<Rightarrow> CrawlResult \<Rightarrow> nat \<times> nat \<Rightarrow> int
    \<Rightarrow> ('t, 'b, 'r) resume_db \<Rightarrow> CrawlCheckpoint \<times> ('t, 'b, 'r) resume_db" where
  "persistCrawlEvidence w fails scanId accountId r counts now db =
     (let lost = EMPTY_CRAWL_CHECKPOINT\<lparr> ck_truncated := True \<rparr> in
      if fst fails then (lost, db)
      else
        (case saveCrawlEvidence w scanId accountId (cr_pages r) now (rd_pages db) of
           Inl e \<Rightarrow> (lost, db)
         | Inr (saved, stored) \<Rightarrow>
             let db1 = db\<lparr> rd_pages := stored \<rparr> in
             if snd fails then (lost, db1)
             else
               (\<lparr> ck_frontier = cr_pendingQueue r, ck_unretained = se_unretained saved, ck_scannedUrlCount = fst counts,
                  ck_discoveredUrlCount = snd counts, ck_coverage = coverageOf r, ck_truncated = False, ck_egressRecorded = False \<rparr>,
                db1\<lparr> rd_resources := snd (saveCrawlResources w scanId accountId (cr_resources r) now (rd_resources db1)) \<rparr>)))"

definition restoreCrawl :: "('t, 'b, 'r) resume_world \<Rightarrow> string \<Rightarrow> CrawlCheckpoint \<Rightarrow> int \<Rightarrow> ('t, 'b, 'r) resume_db \<Rightarrow> RestoredCrawlState" where
  "restoreCrawl w scanId checkpoint now db =
     \<lparr> rs_pages = loadCrawlEvidence w scanId now (rd_pages db), rs_coverage = ck_coverage checkpoint,
       rs_resources = Some (loadCrawlResources w scanId now (rd_resources db)) \<rparr>"

definition releaseResumeState :: "string \<Rightarrow> ('t, 'b, 'r) resume_db \<Rightarrow> ('t, 'b, 'r) resume_db" where
  "releaseResumeState scanId db =
     (let db1 = clearCrawlEvidence scanId db in db1\<lparr> rd_checkpoints := clearScanCheckpoint scanId (rd_checkpoints db1) \<rparr>)"

text \<open>The crawl phase of an attempt: what it hands to the crawl, and what it keeps of the result before anything else runs.\<close>

definition resumed_options :: "CrawlOptions \<Rightarrow> (CrawlCheckpoint \<times> RestoredCrawlState) option \<Rightarrow> CrawlOptions" where
  "resumed_options options resumed =
     (case resumed of
        None \<Rightarrow> options\<lparr> op_resumeSeeds := [], op_restored := None \<rparr>
      | Some (checkpoint, restored) \<Rightarrow>
          options\<lparr> op_resumeSeeds := ck_frontier checkpoint @ ck_unretained checkpoint, op_restored := Some restored \<rparr>)"

definition resumed_crawl :: "('t, 'b, 'r) resume_world \<Rightarrow> string \<Rightarrow> ScanCheckpointState option \<Rightarrow> int \<Rightarrow> ('t, 'b, 'r) resume_db
    \<Rightarrow> (CrawlCheckpoint \<times> RestoredCrawlState) option" where
  "resumed_crawl w scanId resumeFrom now db =
     (case resumeFrom of None \<Rightarrow> None | Some st \<Rightarrow> Some (cs_crawl st, restoreCrawl w scanId (cs_crawl st) now db))"

definition keep_crawl :: "('t, 'b, 'r) resume_world \<Rightarrow> bool \<times> bool \<Rightarrow> string \<Rightarrow> string \<Rightarrow> string list \<Rightarrow> bool \<Rightarrow> bool \<Rightarrow> CrawlResult \<Rightarrow> nat \<times> nat
    \<Rightarrow> int \<Rightarrow> ('t, 'b, 'r) resume_db \<Rightarrow> ('t, 'b, 'r) resume_db" where
  "keep_crawl w fails scanId accountId completedStages countedBefore overProxy r counts now db =
     (case persistCrawlEvidence w fails scanId accountId r counts now db of
        (checkpoint, db1) \<Rightarrow>
          db1\<lparr> rd_checkpoints := saveScanCheckpoint w scanId accountId
            \<lparr> cs_stage = ''crawl'', cs_completedStages = completedStages,
              cs_crawl = checkpoint\<lparr> ck_egressRecorded := countedBefore \<or> overProxy \<rparr> \<rparr> now (rd_checkpoints db1) \<rparr>)"

text \<open>\<open>new Map(entries)\<close> keeps the last entry of a key; \<open>Buffer.byteLength\<close> of a string of code units below 256.\<close>

definition pageBytes :: "PageSnapshot \<Rightarrow> nat" where
  "pageBytes page = (case html page of None \<Rightarrow> 0 | Some body \<Rightarrow> sum_list (map (\<lambda>c. if code_unit c < 128 then 1 else 2) body))"

definition uncountedCrawlBytes :: "CrawlResult \<Rightarrow> PageSnapshot list \<Rightarrow> nat" where
  "uncountedCrawlBytes r alreadyCounted =
     (let counted = map_of (rev (map (\<lambda>page. (normalizedUrl page, pageBytes page)) alreadyCounted)) in
      foldl (\<lambda>total page. total + nat (max 0 (int (pageBytes page) - int (case counted (normalizedUrl page) of None \<Rightarrow> 0 | Some n \<Rightarrow> n))))
        0 (cr_pages r))"

section \<open>What a checkpoint keeps\<close>

definition storable :: "ScanCheckpointState \<Rightarrow> bool" where
  "storable st \<longleftrightarrow> cs_stage st \<noteq> [] \<and> list_all (\<lambda>s. s \<noteq> []) (cs_completedStages st)
     \<and> list_all (\<lambda>e. cq_url e \<noteq> []) (ck_frontier (cs_crawl st) @ ck_unretained (cs_crawl st))"

text \<open>A state the schema accepts is read back as it was written, and so are a page and the probes.\<close>

definition faithful_store :: "('t, 'b, 'r) resume_world \<Rightarrow> bool" where
  "faithful_store w \<longleftrightarrow> (\<forall>st. storable st \<longrightarrow> rw_parse w (rw_stringify w st) = Some st)
     \<and> (\<forall>p. rw_decodePage w (rw_zip w p) = Some p) \<and> (\<forall>rs. rw_decodeResources w (rw_zipResources w rs) = Some rs)"

lemma min_below [simp]: "min a b < a \<longleftrightarrow> b < (a :: nat)"
  by auto

lemma boundedCoverage_same: "\<not> snd (boundedCoverage c) \<Longrightarrow> fst (boundedCoverage c) = c"
  by (cases c) (simp add: boundedCoverage_def Let_def)

lemma bounded_keeps:
  "cs_stage (boundedState st) = cs_stage st \<and> cs_completedStages (boundedState st) = cs_completedStages st
   \<and> ck_scannedUrlCount (cs_crawl (boundedState st)) = ck_scannedUrlCount (cs_crawl st)
   \<and> ck_discoveredUrlCount (cs_crawl (boundedState st)) = ck_discoveredUrlCount (cs_crawl st)
   \<and> ck_egressRecorded (cs_crawl (boundedState st)) = ck_egressRecorded (cs_crawl st)
   \<and> (ck_truncated (cs_crawl st) \<longrightarrow> ck_truncated (cs_crawl (boundedState st)))
   \<and> (\<not> ck_truncated (cs_crawl (boundedState st)) \<longrightarrow> boundedState st = st)"
  using boundedCoverage_same [of "ck_coverage (cs_crawl st)"]
  by (auto simp: boundedState_def Let_def split: prod.split)

lemma storable_bounded: "storable st \<Longrightarrow> storable (boundedState st)"
  by (auto simp: storable_def boundedState_def Let_def list_all_iff split: prod.split dest: in_set_takeD)

lemma written_states:
  "serializeWithinLimit w state = rw_stringify w state \<and> rw_byteLength w (serializeWithinLimit w state) \<le> maxBytes SCAN_CHECKPOINT_LIMITS
   \<or> serializeWithinLimit w state = rw_stringify w (withoutCoverage state) \<and> rw_byteLength w (serializeWithinLimit w state) \<le> maxBytes SCAN_CHECKPOINT_LIMITS
   \<or> serializeWithinLimit w state = rw_stringify w (indexOnly state)"
  by (simp add: serializeWithinLimit_def Let_def)

lemma loaded_state:
  assumes "faithful_store w" "storable st" "now1 < now + 14 * DAY_MS"
  shows "\<exists>st'. loadScanCheckpoint w i now1 (saveScanCheckpoint w i acc st now rows) = Some st'
    \<and> (st' = boundedState st \<or> st' = withoutCoverage (boundedState st) \<or> st' = indexOnly (boundedState st))"
proof -
  have s: "storable (boundedState st)" "storable (withoutCoverage (boundedState st))" "storable (indexOnly (boundedState st))"
    using storable_bounded [OF assms(2)] by (auto simp: storable_def withoutCoverage_def indexOnly_def EMPTY_CRAWL_CHECKPOINT_def)
  have "loadScanCheckpoint w i now1 (saveScanCheckpoint w i acc st now rows) = rw_parse w (serializeWithinLimit w (boundedState st))"
    using assms(3) by (simp add: loadScanCheckpoint_def saveScanCheckpoint_def Let_def update_conv' SCAN_CHECKPOINT_LIMITS_def DAY_MS_def)
  then show ?thesis using written_states [of w "boundedState st"] s assms(1) by (auto simp: faithful_store_def)
qed

text \<open>
  C34: a checkpoint read back in time has the stages, the counts and the egress mark that were written, whatever did not fit;
  when it does not say that something was dropped it is the state that was written, and a state that says so keeps saying
  it. A row is within its limit unless only the stages are left of it, and after the time it is not read at all.
\<close>

theorem checkpoint_round_trip:
  assumes "faithful_store w" "storable st"
  shows "if now1 < now + 14 * DAY_MS
    then \<exists>st' row. loadScanCheckpoint w i now1 (saveScanCheckpoint w i acc st now rows) = Some st'
      \<and> cs_stage st' = cs_stage st \<and> cs_completedStages st' = cs_completedStages st
      \<and> ck_scannedUrlCount (cs_crawl st') = ck_scannedUrlCount (cs_crawl st)
      \<and> ck_discoveredUrlCount (cs_crawl st') = ck_discoveredUrlCount (cs_crawl st)
      \<and> ck_egressRecorded (cs_crawl st') = ck_egressRecorded (cs_crawl st)
      \<and> (ck_truncated (cs_crawl st) \<longrightarrow> ck_truncated (cs_crawl st')) \<and> (\<not> ck_truncated (cs_crawl st') \<longrightarrow> st' = st)
      \<and> map_of (saveScanCheckpoint w i acc st now rows) i = Some row
      \<and> (cp_sizeBytes row \<le> 1024 * 1024 \<or> ck_frontier (cs_crawl st') = [] \<and> ck_unretained (cs_crawl st') = []
           \<and> ck_coverage (cs_crawl st') = EMPTY_CRAWL_COVERAGE)
    else loadScanCheckpoint w i now1 (saveScanCheckpoint w i acc st now rows) = None"
proof (cases "now1 < now + 14 * DAY_MS")
  case False
  then show ?thesis
    by (simp add: loadScanCheckpoint_def saveScanCheckpoint_def Let_def update_conv' SCAN_CHECKPOINT_LIMITS_def DAY_MS_def)
next
  case True
  let ?b = "boundedState st"
  have load: "loadScanCheckpoint w i now1 (saveScanCheckpoint w i acc st now rows) = rw_parse w (serializeWithinLimit w ?b)"
    using True by (simp add: loadScanCheckpoint_def saveScanCheckpoint_def Let_def update_conv' SCAN_CHECKPOINT_LIMITS_def DAY_MS_def)
  obtain row where row: "map_of (saveScanCheckpoint w i acc st now rows) i = Some row" "cp_sizeBytes row = rw_byteLength w (serializeWithinLimit w ?b)"
    by (simp add: saveScanCheckpoint_def Let_def update_conv')
  have s: "storable ?b" "storable (withoutCoverage ?b)" "storable (indexOnly ?b)"
    using storable_bounded [OF assms(2)] by (auto simp: storable_def withoutCoverage_def indexOnly_def EMPTY_CRAWL_CHECKPOINT_def)
  then have p: "rw_parse w (rw_stringify w ?b) = Some ?b" "rw_parse w (rw_stringify w (withoutCoverage ?b)) = Some (withoutCoverage ?b)"
    "rw_parse w (rw_stringify w (indexOnly ?b)) = Some (indexOnly ?b)" using assms(1) by (auto simp: faithful_store_def)
  have max: "maxBytes SCAN_CHECKPOINT_LIMITS = 1024 * 1024" by (simp add: SCAN_CHECKPOINT_LIMITS_def)
  note k = bounded_keeps [of st]
  consider "serializeWithinLimit w ?b = rw_stringify w ?b" "cp_sizeBytes row \<le> 1024 * 1024"
    | "serializeWithinLimit w ?b = rw_stringify w (withoutCoverage ?b)" "cp_sizeBytes row \<le> 1024 * 1024"
    | "serializeWithinLimit w ?b = rw_stringify w (indexOnly ?b)"
    using written_states [of w ?b] unfolding row(2) max by blast
  then have "\<exists>st'. loadScanCheckpoint w i now1 (saveScanCheckpoint w i acc st now rows) = Some st'
      \<and> cs_stage st' = cs_stage st \<and> cs_completedStages st' = cs_completedStages st
      \<and> ck_scannedUrlCount (cs_crawl st') = ck_scannedUrlCount (cs_crawl st)
      \<and> ck_discoveredUrlCount (cs_crawl st') = ck_discoveredUrlCount (cs_crawl st)
      \<and> ck_egressRecorded (cs_crawl st') = ck_egressRecorded (cs_crawl st)
      \<and> (ck_truncated (cs_crawl st) \<longrightarrow> ck_truncated (cs_crawl st')) \<and> (\<not> ck_truncated (cs_crawl st') \<longrightarrow> st' = st)
      \<and> (cp_sizeBytes row \<le> 1024 * 1024 \<or> ck_frontier (cs_crawl st') = [] \<and> ck_unretained (cs_crawl st') = []
           \<and> ck_coverage (cs_crawl st') = EMPTY_CRAWL_COVERAGE)"
  proof cases
    case 1
    then show ?thesis using load p k by (intro exI [of _ ?b]) simp
  next
    case 2
    then show ?thesis using load p k by (intro exI [of _ "withoutCoverage ?b"]) (simp add: withoutCoverage_def)
  next
    case 3
    then show ?thesis using load p k by (intro exI [of _ "indexOnly ?b"]) (simp add: indexOnly_def EMPTY_CRAWL_CHECKPOINT_def)
  qed
  then show ?thesis using row(1) True by auto
qed

section \<open>Which pages are kept\<close>

definition kept_row :: "('t, 'b, 'r) resume_world \<Rightarrow> string \<Rightarrow> string \<Rightarrow> int \<Rightarrow> nat \<Rightarrow> PageSnapshot \<Rightarrow> 'b evidence_row" where
  "kept_row w scanId accountId expiresAt n p = \<lparr> ev_scanId = scanId, ev_accountId = accountId, ev_normalizedUrl = normalizedUrl p,
     ev_ordinal = n, ev_payload = rw_zip w p, ev_sizeBytes = rw_zipLength w (rw_zip w p), ev_expiresAt = expiresAt \<rparr>"

definition entry_of :: "PageSnapshot \<Rightarrow> CrawlQueueEntry" where
  "entry_of p = \<lparr> cq_url = requestedUrl p, cq_depth = pg_depth p \<rparr>"

definition zipped :: "('t, 'b, 'r) resume_world \<Rightarrow> PageSnapshot list \<Rightarrow> nat" where
  "zipped w ps = sum_list (map (\<lambda>p. rw_zipLength w (rw_zip w p)) ps)"

definition within_store :: "('t, 'b, 'r) resume_world \<Rightarrow> PageSnapshot list \<Rightarrow> bool" where
  "within_store w keep \<longleftrightarrow> distinct (map normalizedUrl keep) \<and> length keep \<le> 1000 \<and> zipped w keep \<le> 32 * 1024 * 1024
     \<and> list_all (\<lambda>p. rw_zipLength w (rw_zip w p) \<le> 512 * 1024) keep"

text \<open>The pages are parted into those kept, in their order, and those that come back as addresses.\<close>

definition parted :: "PageSnapshot list \<Rightarrow> PageSnapshot list \<Rightarrow> CrawlQueueEntry list \<Rightarrow> bool" where
  "parted ps keep unretained \<longleftrightarrow> subseq keep ps \<and> length keep + length unretained = length ps
     \<and> list_all (\<lambda>p. p \<in> set keep \<or> entry_of p \<in> set unretained) ps \<and> set unretained \<subseteq> entry_of ` set ps"

lemma plan_parts:
  "\<exists>keep. parted ps keep (ep_unretained (evidence_plan_of w scanId accountId expiresAt ps)) \<and> within_store w keep
    \<and> ep_rows (evidence_plan_of w scanId accountId expiresAt ps) = map (\<lambda>(n, p). kept_row w scanId accountId expiresAt n p) (enumerate 0 keep)
    \<and> ep_claimed (evidence_plan_of w scanId accountId expiresAt ps) = normalizedUrl ` set keep
    \<and> ep_totalBytes (evidence_plan_of w scanId accountId expiresAt ps) = zipped w keep"
proof (induction ps rule: rev_induct)
  case Nil
  show ?case by (rule exI [of _ "[]"]) (simp add: evidence_plan_of_def parted_def within_store_def zipped_def)
next
  case (snoc p ps)
  let ?st = "evidence_plan_of w scanId accountId expiresAt ps"
  have step: "evidence_plan_of w scanId accountId expiresAt (ps @ [p]) = plan_page w scanId accountId expiresAt p ?st"
    by (simp add: evidence_plan_of_def)
  obtain keep where k: "parted ps keep (ep_unretained ?st)" "within_store w keep"
    "ep_rows ?st = map (\<lambda>(n, p). kept_row w scanId accountId expiresAt n p) (enumerate 0 keep)"
    "ep_claimed ?st = normalizedUrl ` set keep" "ep_totalBytes ?st = zipped w keep"
    using snoc.IH by blast
  have len: "length (ep_rows ?st) = length keep" by (simp add: k(3))
  let ?over = "maxPageBytes SCAN_EVIDENCE_LIMITS < rw_zipLength w (rw_zip w p)
    \<or> maxTotalBytes SCAN_EVIDENCE_LIMITS < ep_totalBytes ?st + rw_zipLength w (rw_zip w p)
    \<or> ev_maxPages SCAN_EVIDENCE_LIMITS \<le> length (ep_rows ?st) \<or> normalizedUrl p \<in> ep_claimed ?st"
  show ?case
  proof (cases ?over)
    case True
    then have pl: "plan_page w scanId accountId expiresAt p ?st = ?st\<lparr> ep_unretained := ep_unretained ?st @ [entry_of p] \<rparr>"
      by (auto simp: plan_page_def entry_of_def Let_def)
    have "subseq keep (ps @ [p])" using k(1) by (auto simp: parted_def intro: subseq_order.order_trans)
    then have "parted (ps @ [p]) keep (ep_unretained ?st @ [entry_of p])" using k(1) by (auto simp: parted_def list_all_iff)
    then show ?thesis unfolding step pl using k(2-5) by (intro exI [of _ keep]) simp
  next
    case False
    then have pl: "plan_page w scanId accountId expiresAt p ?st = ?st\<lparr> ep_claimed := insert (normalizedUrl p) (ep_claimed ?st),
        ep_totalBytes := ep_totalBytes ?st + rw_zipLength w (rw_zip w p),
        ep_rows := ep_rows ?st @ [kept_row w scanId accountId expiresAt (length keep) p] \<rparr>"
      by (simp add: plan_page_def kept_row_def Let_def len)
    have "subseq (keep @ [p]) (ps @ [p])" using k(1) by (auto simp: parted_def intro: list_emb_append_mono)
    then have "parted (ps @ [p]) (keep @ [p]) (ep_unretained ?st)" using k(1) by (auto simp: parted_def list_all_iff)
    moreover have "within_store w (keep @ [p])"
      using False k(2,4,5) len by (auto simp: within_store_def zipped_def SCAN_EVIDENCE_LIMITS_def)
    ultimately show ?thesis unfolding step pl using k(3-5)
      by (intro exI [of _ "keep @ [p]"]) (simp add: zipped_def enumerate_append_eq)
  qed
qed

lemma write_batches_all:
  "distinct (map row_key (rows @ concat bs)) \<Longrightarrow> write_batches bs n rows = Inr (n + length (concat bs), rows @ concat bs)"
proof (induction bs arbitrary: n rows)
  case (Cons b bs)
  then have "distinct (map row_key ((rows @ b) @ concat bs))" "distinct (map row_key (rows @ b))" by auto
  with Cons.IH [of "rows @ b" "n + length b"] show ?case by (simp add: createMany_def)
qed simp

lemma write_batches_Inr: "write_batches bs n rows = Inr (m, rows') \<Longrightarrow> m = n + length (concat bs) \<and> rows' = rows @ concat bs"
proof (induction bs arbitrary: n rows)
  case (Cons b bs)
  from Cons.prems have "write_batches bs (n + length b) (rows @ b) = Inr (m, rows')"
    by (simp add: createMany_def split: if_splits)
  from Cons.IH [OF this] show ?case by simp
qed simp

lemma batches_of_rows: "concat (chunked rows (writeBatchSize SCAN_EVIDENCE_LIMITS)) = rows"
  by (rule chunked_concat) (simp add: SCAN_EVIDENCE_LIMITS_def)

lemma load_kept_rows:
  assumes "faithful_store w" "list_all (\<lambda>r. ev_scanId r \<noteq> scanId) base" "now1 < expiresAt"
  shows "loadCrawlEvidence w scanId now1 (base @ map (\<lambda>(n, p). kept_row w scanId accountId expiresAt n p) (enumerate 0 keep)) = keep"
proof -
  let ?rows = "map (\<lambda>(n, p). kept_row w scanId accountId expiresAt n p) (enumerate 0 keep)"
  have "filter (\<lambda>r. ev_scanId r = scanId \<and> now1 < ev_expiresAt r) (base @ ?rows) = ?rows"
    using assms(2,3) by (auto simp: filter_empty_conv list_all_iff kept_row_def intro!: filter_True)
  moreover have "sorted (map ev_ordinal ?rows)"
    by (simp add: comp_def split_def kept_row_def map_fst_enumerate [unfolded comp_def])
  moreover have "List.map_filter (\<lambda>row. rw_decodePage w (ev_payload row)) ?rows = keep"
    using assms(1) by (simp add: map_filter_def comp_def split_def kept_row_def faithful_store_def)
  ultimately show ?thesis unfolding loadCrawlEvidence_def by (simp only: sort_key_id_if_sorted)
qed

text \<open>The pages and entries a save leaves, whatever the table held.\<close>

lemma saved_parts:
  assumes "saveCrawlEvidence w scanId accountId ps now rows = Inr (saved, rows')"
  shows "\<exists>keep. parted ps keep (se_unretained saved) \<and> within_store w keep \<and> se_retained saved = length keep
    \<and> se_totalBytes saved = zipped w keep
    \<and> rows' = filter (\<lambda>r. ev_scanId r \<noteq> scanId) rows
        @ map (\<lambda>(n, p). kept_row w scanId accountId (now + 14 * DAY_MS) n p) (enumerate 0 keep)"
proof -
  let ?plan = "evidence_plan_of w scanId accountId (now + 14 * DAY_MS) ps"
  obtain keep where k: "parted ps keep (ep_unretained ?plan)" "within_store w keep"
    "ep_rows ?plan = map (\<lambda>(n, p). kept_row w scanId accountId (now + 14 * DAY_MS) n p) (enumerate 0 keep)"
    "ep_totalBytes ?plan = zipped w keep"
    using plan_parts [of ps w scanId accountId "now + 14 * DAY_MS"] by blast
  have days: "ev_expiryDays SCAN_EVIDENCE_LIMITS = 14" by (simp add: SCAN_EVIDENCE_LIMITS_def)
  obtain written where wr: "write_batches (chunked (ep_rows ?plan) (writeBatchSize SCAN_EVIDENCE_LIMITS)) 0 (filter (\<lambda>r. ev_scanId r \<noteq> scanId) rows)
      = Inr (written, rows')"
    and s: "saved = \<lparr> se_retained = written, se_unretained = ep_unretained ?plan, se_totalBytes = ep_totalBytes ?plan \<rparr>"
    using assms by (auto simp: saveCrawlEvidence_def Let_def days split: prod.splits)
  have "written = length keep \<and> rows' = filter (\<lambda>r. ev_scanId r \<noteq> scanId) rows @ ep_rows ?plan"
    using write_batches_Inr [OF wr] by (simp add: batches_of_rows k(3))
  then show ?thesis using k s by (intro exI [of _ keep]) simp
qed

lemma save_succeeds:
  assumes "distinct (map row_key rows)"
  shows "\<exists>saved rows'. saveCrawlEvidence w scanId accountId ps now rows = Inr (saved, rows')"
proof -
  let ?plan = "evidence_plan_of w scanId accountId (now + 14 * DAY_MS) ps"
  let ?base = "filter (\<lambda>r. ev_scanId r \<noteq> scanId) rows"
  obtain keep where k: "within_store w keep"
    "ep_rows ?plan = map (\<lambda>(n, p). kept_row w scanId accountId (now + 14 * DAY_MS) n p) (enumerate 0 keep)"
    using plan_parts [of ps w scanId accountId "now + 14 * DAY_MS"] by blast
  have "map row_key (ep_rows ?plan) = map (\<lambda>p. (scanId, normalizedUrl p)) (map snd (enumerate 0 keep))"
    by (simp add: k(2) row_key_def kept_row_def split_def del: map_snd_enumerate)
  then have keys: "map row_key (ep_rows ?plan) = map (\<lambda>p. (scanId, normalizedUrl p)) keep" by simp
  have "distinct (map (\<lambda>p. (scanId, normalizedUrl p)) keep)"
    using k(1) by (auto simp: within_store_def distinct_map inj_on_def)
  moreover have "distinct (map row_key ?base)" using assms by (rule distinct_map_filter)
  moreover have "set (map row_key ?base) \<inter> set (map (\<lambda>p. (scanId, normalizedUrl p)) keep) = {}" by (auto simp: row_key_def)
  ultimately have "distinct (map row_key (?base @ ep_rows ?plan))" by (simp only: map_append distinct_append keys)
  then have "distinct (map row_key (?base @ concat (chunked (ep_rows ?plan) (writeBatchSize SCAN_EVIDENCE_LIMITS))))"
    by (simp only: batches_of_rows)
  from write_batches_all [OF this, of 0] show ?thesis
    by (simp add: saveCrawlEvidence_def Let_def SCAN_EVIDENCE_LIMITS_def)
qed

text \<open>
  C24: no page of an interrupted crawl is lost in the store: each is kept or comes back as an address to read again, never
  neither; what is kept has one row per address, is within the limits, and is read back in the order of the crawl while the
  rows of other scans stay as they were.
\<close>

theorem evidence_kept_or_returned:
  assumes "faithful_store w" "distinct (map row_key rows)" "now1 < now + 14 * DAY_MS"
  shows "\<exists>saved rows'. saveCrawlEvidence w scanId accountId ps now rows = Inr (saved, rows')
    \<and> parted ps (loadCrawlEvidence w scanId now1 rows') (se_unretained saved)
    \<and> within_store w (loadCrawlEvidence w scanId now1 rows')
    \<and> se_retained saved = length (loadCrawlEvidence w scanId now1 rows')
    \<and> filter (\<lambda>r. ev_scanId r \<noteq> scanId) rows' = filter (\<lambda>r. ev_scanId r \<noteq> scanId) rows"
proof -
  obtain saved rows' where s: "saveCrawlEvidence w scanId accountId ps now rows = Inr (saved, rows')"
    using save_succeeds [OF assms(2)] by blast
  obtain keep where k: "parted ps keep (se_unretained saved)" "within_store w keep" "se_retained saved = length keep"
    "rows' = filter (\<lambda>r. ev_scanId r \<noteq> scanId) rows
        @ map (\<lambda>(n, p). kept_row w scanId accountId (now + 14 * DAY_MS) n p) (enumerate 0 keep)"
    using saved_parts [OF s] by blast
  have "loadCrawlEvidence w scanId now1 rows' = keep"
    unfolding k(4) by (rule load_kept_rows [OF assms(1) _ assms(3)]) (simp add: list_all_iff)
  moreover have "filter (\<lambda>r. ev_scanId r \<noteq> scanId) rows' = filter (\<lambda>r. ev_scanId r \<noteq> scanId) rows"
    by (auto simp: k(4) filter_empty_conv kept_row_def)
  ultimately show ?thesis using s k by blast
qed

section \<open>A pause loses nothing\<close>

text \<open>
  Attempts after the first: the checkpoint is loaded, the pages are restored, and the crawl runs with what these give. The
  result \<open>r\<close> is that of the interrupted crawl, kept at \<open>now\<close> and taken up at \<open>now1\<close>.
\<close>

definition takes_up :: "('t, 'b, 'r) resume_world \<Rightarrow> string \<Rightarrow> int \<Rightarrow> ('t, 'b, 'r) resume_db \<Rightarrow> crawl_ctx \<Rightarrow> bool" where
  "takes_up w scanId now1 db cx \<longleftrightarrow>
     cx_options cx = resumed_options (cx_options cx)
       (resumed_crawl w scanId (loadScanCheckpoint w scanId now1 (rd_checkpoints db)) now1 db)"

lemma pages_of_run: "\<exists>new. pages (execute cx) = restored_pages cx @ new \<and> subseq (map normalizedUrl new) (asked (execute cx))"
proof -
  have b: "take (length (restored_pages cx)) (pages (execute cx)) = restored_pages cx"
    "subseq (map normalizedUrl (drop (length (restored_pages cx)) (pages (execute cx)))) (asked (execute cx))"
    using booked_run [of cx] by (simp_all add: booked_def)
  then show ?thesis by (metis append_take_drop_id)
qed


section \<open>Bytes are counted once\<close>

lemma uncounted_sum:
  "uncountedCrawlBytes r ps
   = sum_list (map (\<lambda>p. pageBytes p - (case map_of (rev (map (\<lambda>q. (normalizedUrl q, pageBytes q)) ps)) (normalizedUrl p) of None \<Rightarrow> 0 | Some n \<Rightarrow> n)) (cr_pages r))"
proof -
  have f: "foldl (\<lambda>total x. total + f x) a xs = a + sum_list (map f xs)" for f :: "PageSnapshot \<Rightarrow> nat" and a xs
    by (induction xs arbitrary: a) (simp_all add: add.assoc)
  have m: "nat (max 0 (int a - int b)) = a - b" for a b :: nat by linarith
  show ?thesis by (simp add: uncountedCrawlBytes_def Let_def m f)
qed

text \<open>
  the bytes of a resumed crawl are those of the pages it read itself: what the interrupted attempt had counted is not
  counted again, so over all attempts every page body counts exactly once.
\<close>

theorem egress_counted_once:
  assumes "distinct (map normalizedUrl (restored_pages cx))"
  shows "uncountedCrawlBytes (crawl_result cx (execute cx)) (restored_pages cx)
      + sum_list (map pageBytes (restored_pages cx))
    = uncountedCrawlBytes (crawl_result cx (execute cx)) []"
proof -
  obtain new where new: "pages (execute cx) = restored_pages cx @ new" "subseq (map normalizedUrl new) (asked (execute cx))"
    using pages_of_run by blast
  let ?counted = "map_of (rev (map (\<lambda>q. (normalizedUrl q, pageBytes q)) (restored_pages cx)))"
  have "set (asked (execute cx)) \<inter> normalizedUrl ` set (restored_pages cx) = {}"
    using unique_run [of cx] by (auto simp: unique_def taken_def)
  have apart: "?counted (normalizedUrl p) = None" if "p \<in> set new" for p
  proof -
    have "normalizedUrl p \<in> set (asked (execute cx))" using that subseq_set_distinct(1) [OF new(2)] by auto
    with \<open>set (asked (execute cx)) \<inter> normalizedUrl ` set (restored_pages cx) = {}\<close>
    have "normalizedUrl p \<notin> normalizedUrl ` set (restored_pages cx)" by blast
    then show ?thesis by (simp add: map_of_eq_None_iff image_image)
  qed
  have d: "distinct (map fst (rev (map (\<lambda>q. (normalizedUrl q, pageBytes q)) (restored_pages cx))))"
    using assms by (simp add: comp_def flip: rev_map)
  have same: "?counted (normalizedUrl p) = Some (pageBytes p)" if "p \<in> set (restored_pages cx)" for p
    by (rule map_of_is_SomeI [OF d]) (use that in auto)
  have "sum_list (map (\<lambda>p. pageBytes p - (case ?counted (normalizedUrl p) of None \<Rightarrow> 0 | Some n \<Rightarrow> n)) (restored_pages cx)) = 0"
    using same by (simp add: sum_list_eq_0_iff)
  moreover have "sum_list (map (\<lambda>p. pageBytes p - (case ?counted (normalizedUrl p) of None \<Rightarrow> 0 | Some n \<Rightarrow> n)) new) = sum_list (map pageBytes new)"
    using apart by (intro arg_cong [where f = sum_list] map_cong refl) simp
  ultimately have "uncountedCrawlBytes (crawl_result cx (execute cx)) (restored_pages cx) = sum_list (map pageBytes new)"
    unfolding uncounted_sum by (simp add: crawl_result_def new(1) del: sum_list_eq_0_iff)
  moreover have "uncountedCrawlBytes (crawl_result cx (execute cx)) [] = sum_list (map pageBytes (restored_pages cx)) + sum_list (map pageBytes new)"
    unfolding uncounted_sum by (simp add: crawl_result_def new(1))
  ultimately show ?thesis by simp
qed

section \<open>A crawl stopped after its first page\<close>

definition plain_store :: "(ScanCheckpointState, PageSnapshot, ResourceSnapshot list) resume_world" where
  "plain_store = \<lparr> rw_stringify = (\<lambda>st. st), rw_byteLength = (\<lambda>st. length (ck_frontier (cs_crawl st))), rw_parse = Some,
     rw_zip = (\<lambda>p. p), rw_zipLength = (\<lambda>p. length (requestedUrl p)), rw_decodePage = Some,
     rw_zipResources = (\<lambda>rs. rs), rw_resourcesLength = length, rw_decodeResources = Some \<rparr>"

lemma plain_store_faithful: "faithful_store plain_store"
  by (simp add: faithful_store_def plain_store_def)

definition demo_page :: PageSnapshot where
  "demo_page = \<lparr> requestedUrl = ''http://a/'', normalizedUrl = ''http://a/'', pg_depth = 0, finalUrl = ''http://a/'', pg_status = 200,
     pg_headers = [(''content-type'', ''text/html'')], redirectChain = [], html = Some ''home'', contentType = Some ''text/html'',
     timingMs = 1, truncated = False, fetchError = None, pg_rendering = None \<rparr>"

definition demo_paused :: CrawlResult where
  "demo_paused = \<lparr> cr_pages = [demo_page], cr_skippedOverLimit = [], cr_blockedByRobots = [], cr_errors = [], cr_urlVariants = [],
     cr_robotsTxt = None, cr_sitemapUrls = [], cr_rejectedSeeds = [],
     cr_rendering = cr_rendering (crawl_result (demo_ctx 2 None) new_run), cr_resources = [],
     cr_pendingQueue = [\<lparr> cq_url = ''http://a/b'', cq_depth = 1 \<rparr>], cr_stoppedEarly = True, cr_scope = demo_scope 2 \<rparr>"

definition demo_kept :: "(ScanCheckpointState, PageSnapshot, ResourceSnapshot list) resume_db" where
  "demo_kept = keep_crawl plain_store (False, False) ''s'' ''acc'' [''SEO''] False False demo_paused (1, 2) 0
     \<lparr> rd_checkpoints = [], rd_pages = [], rd_resources = [] \<rparr>"

definition demo_taken_up :: crawl_ctx where
  "demo_taken_up = (demo_ctx 2 None)\<lparr> cx_options := (cx_options (demo_ctx 2 None))
     \<lparr> op_resumeSeeds := [\<lparr> cq_url = ''http://a/b'', cq_depth = 1 \<rparr>],
       op_restored := Some \<lparr> rs_pages = [demo_page], rs_coverage = EMPTY_CRAWL_COVERAGE, rs_resources = Some [] \<rparr> \<rparr> \<rparr>"

lemma demo_kept_row: "evidence_plan_of plain_store ''s'' ''acc'' (14 * DAY_MS) [demo_page]
   = \<lparr> ep_rows = [kept_row plain_store ''s'' ''acc'' (14 * DAY_MS) 0 demo_page], ep_unretained = [], ep_claimed = {''http://a/''},
       ep_totalBytes = length (requestedUrl demo_page) \<rparr>"
  by (simp add: evidence_plan_of_def plan_page_def Let_def SCAN_EVIDENCE_LIMITS_def plain_store_def demo_page_def kept_row_def)

lemma demo_loaded:
  "loadScanCheckpoint plain_store ''s'' 1 (rd_checkpoints demo_kept) = Some \<lparr> cs_stage = ''crawl'', cs_completedStages = [''SEO''],
     cs_crawl = EMPTY_CRAWL_CHECKPOINT\<lparr> ck_frontier := [\<lparr> cq_url = ''http://a/b'', cq_depth = 1 \<rparr>],
       ck_scannedUrlCount := 1, ck_discoveredUrlCount := 2 \<rparr> \<rparr>"
  "rd_pages demo_kept = [kept_row plain_store ''s'' ''acc'' (14 * DAY_MS) 0 demo_page]" "rd_resources demo_kept = []"
proof -
  have s: "saveCrawlEvidence plain_store ''s'' ''acc'' [demo_page] 0 []
      = Inr (\<lparr> se_retained = 1, se_unretained = [], se_totalBytes = length (requestedUrl demo_page) \<rparr>, [kept_row plain_store ''s'' ''acc'' (14 * DAY_MS) 0 demo_page])"
  proof -
    have "evidence_plan_of plain_store ''s'' ''acc'' (0 + ev_expiryDays SCAN_EVIDENCE_LIMITS * DAY_MS) [demo_page]
        = evidence_plan_of plain_store ''s'' ''acc'' (14 * DAY_MS) [demo_page]" by (simp add: SCAN_EVIDENCE_LIMITS_def)
    moreover have "chunked [kept_row plain_store ''s'' ''acc'' (14 * DAY_MS) 0 demo_page] (writeBatchSize SCAN_EVIDENCE_LIMITS)
        = [[kept_row plain_store ''s'' ''acc'' (14 * DAY_MS) 0 demo_page]]"
      by (simp add: chunked_def SCAN_EVIDENCE_LIMITS_def)
    ultimately show ?thesis by (simp add: saveCrawlEvidence_def Let_def demo_kept_row createMany_def)
  qed
  have k: "demo_kept = \<lparr> rd_checkpoints = saveScanCheckpoint plain_store ''s'' ''acc'' \<lparr> cs_stage = ''crawl'', cs_completedStages = [''SEO''],
       cs_crawl = EMPTY_CRAWL_CHECKPOINT\<lparr> ck_frontier := [\<lparr> cq_url = ''http://a/b'', cq_depth = 1 \<rparr>],
         ck_scannedUrlCount := 1, ck_discoveredUrlCount := 2 \<rparr> \<rparr> 0 [],
       rd_pages = [kept_row plain_store ''s'' ''acc'' (14 * DAY_MS) 0 demo_page], rd_resources = [] \<rparr>"
    by (simp add: demo_kept_def keep_crawl_def persistCrawlEvidence_def demo_paused_def s coverageOf_def saveCrawlResources_def
        EMPTY_CRAWL_CHECKPOINT_def EMPTY_CRAWL_COVERAGE_def)
  show "rd_pages demo_kept = [kept_row plain_store ''s'' ''acc'' (14 * DAY_MS) 0 demo_page]" "rd_resources demo_kept = []"
    by (simp_all add: k)
  show "loadScanCheckpoint plain_store ''s'' 1 (rd_checkpoints demo_kept) = Some \<lparr> cs_stage = ''crawl'', cs_completedStages = [''SEO''],
     cs_crawl = EMPTY_CRAWL_CHECKPOINT\<lparr> ck_frontier := [\<lparr> cq_url = ''http://a/b'', cq_depth = 1 \<rparr>],
       ck_scannedUrlCount := 1, ck_discoveredUrlCount := 2 \<rparr> \<rparr>"
    by (simp add: k loadScanCheckpoint_def saveScanCheckpoint_def Let_def boundedState_def boundedCoverage_def SCAN_CHECKPOINT_LIMITS_def
        EMPTY_CRAWL_CHECKPOINT_def EMPTY_CRAWL_COVERAGE_def serializeWithinLimit_def plain_store_def)
qed

lemma demo_takes_up: "takes_up plain_store ''s'' 1 demo_kept demo_taken_up"
proof -
  have "loadCrawlEvidence plain_store ''s'' 1 (rd_pages demo_kept) = [demo_page]"
    by (simp add: demo_loaded loadCrawlEvidence_def kept_row_def DAY_MS_def plain_store_def map_filter_def)
  moreover have "loadCrawlResources plain_store ''s'' 1 (rd_resources demo_kept) = []" by (simp add: demo_loaded loadCrawlResources_def)
  ultimately show ?thesis
    by (simp add: takes_up_def demo_loaded(1) resumed_crawl_def resumed_options_def restoreCrawl_def demo_taken_up_def EMPTY_CRAWL_CHECKPOINT_def)
qed


definition demo_state :: ScanCheckpointState where
  "demo_state = \<lparr> cs_stage = ''crawl'', cs_completedStages = [''SEO''], cs_crawl = EMPTY_CRAWL_CHECKPOINT
     \<lparr> ck_frontier := [\<lparr> cq_url = ''http://a/b'', cq_depth = 1 \<rparr>], ck_egressRecorded := True \<rparr> \<rparr>"

theorem checkpoint_round_trip_witness:
  "\<exists>st'. loadScanCheckpoint plain_store ''s'' 1 (saveScanCheckpoint plain_store ''s'' ''acc'' demo_state 0 []) = Some st'
     \<and> cs_completedStages st' = [''SEO''] \<and> ck_egressRecorded (cs_crawl st')"
proof -
  have s: "storable demo_state" by (simp add: storable_def demo_state_def EMPTY_CRAWL_CHECKPOINT_def)
  have "(1 :: int) < 0 + 14 * DAY_MS" by (simp add: DAY_MS_def)
  then show ?thesis
    using checkpoint_round_trip [OF plain_store_faithful s, of 1 0 "''s''" "''acc''" "[]"] by (auto simp: demo_state_def)
qed

theorem evidence_kept_or_returned_witness:
  "\<exists>saved rows'. saveCrawlEvidence plain_store ''s'' ''acc'' (cr_pages demo_paused) 0 [] = Inr (saved, rows')
     \<and> parted (cr_pages demo_paused) (loadCrawlEvidence plain_store ''s'' 1 rows') (se_unretained saved)"
proof -
  have d: "distinct (map row_key ([] :: PageSnapshot evidence_row list))" by simp
  have "(1 :: int) < 0 + 14 * DAY_MS" by (simp add: DAY_MS_def)
  from evidence_kept_or_returned [OF plain_store_faithful d this] show ?thesis by blast
qed

theorem egress_counted_once_witness:
  "uncountedCrawlBytes (crawl_result demo_taken_up (execute demo_taken_up)) (restored_pages demo_taken_up)
      + sum_list (map pageBytes (restored_pages demo_taken_up))
    = uncountedCrawlBytes (crawl_result demo_taken_up (execute demo_taken_up)) []
   \<and> map pageBytes (restored_pages demo_taken_up) = [4]"
proof
  have v: "map normalizedUrl (restored_pages demo_taken_up) = [''http://a/'']" "map pageBytes (restored_pages demo_taken_up) = [4]"
    by (simp_all add: restored_pages_def demo_taken_up_def demo_page_def pageBytes_def)
  show "map pageBytes (restored_pages demo_taken_up) = [4]" by (rule v(2))
  show "uncountedCrawlBytes (crawl_result demo_taken_up (execute demo_taken_up)) (restored_pages demo_taken_up)
      + sum_list (map pageBytes (restored_pages demo_taken_up))
    = uncountedCrawlBytes (crawl_result demo_taken_up (execute demo_taken_up)) []"
    by (rule egress_counted_once) (simp add: v(1))
qed

end
