(* ===== verification/RequestLimit.thy ===== *)
theory RequestLimit
  imports Steps "HOL-Library.AList"
begin

text \<open>
  The limits on requests, \<open>apps/api/src/auth/rate-limit.ts\<close>: the store of both limiters, an insertion-ordered \<open>Map\<close> that is
  an association list here, the sliding window over several keys, and the login limiter that uses it. Times are
  milliseconds; \<open>Date.now\<close> is an argument, and does not go back.
\<close>

section \<open>Several keys, one window each\<close>

definition RATE_LIMIT_MAX_TRACKED_KEYS :: nat where "RATE_LIMIT_MAX_TRACKED_KEYS = 10000"

record RateLimitRule =
  rl_key :: string
  rl_limit :: nat
  rl_windowMs :: int

record tracked =
  tr_timestamps :: "int list"
  tr_windowMs :: int

type_synonym attempts = "(string \<times> tracked) list"

text \<open>A refusal is the error 429 with its message and the seconds of \<open>Retry-After\<close>.\<close>

record rate_limited =
  re_message :: string
  re_retryAfter :: int

definition rateLimited :: "string \<Rightarrow> int \<Rightarrow> rate_limited" where
  "rateLimited m seconds = \<lparr> re_message = m, re_retryAfter = max 1 seconds \<rparr>"

definition retryAfterSeconds :: "int list \<Rightarrow> int \<Rightarrow> int \<Rightarrow> int" where
  "retryAfterSeconds timestamps windowMs current =
     (let waitMs = (case timestamps of [] \<Rightarrow> windowMs | oldest # _ \<Rightarrow> oldest + windowMs - current) in
      max 1 (- ((- waitMs) div 1000)))"

definition live :: "int \<Rightarrow> int \<Rightarrow> int list \<Rightarrow> int list" where
  "live windowMs current = filter (\<lambda>timestamp. current - windowMs < timestamp)"

definition recentFor :: "attempts \<Rightarrow> RateLimitRule \<Rightarrow> int \<Rightarrow> int list" where
  "recentFor tried rule current =
     live (rl_windowMs rule) current (case map_of tried (rl_key rule) of None \<Rightarrow> [] | Some t \<Rightarrow> tr_timestamps t)"

definition pruneExpired :: "int \<Rightarrow> attempts \<Rightarrow> attempts" where
  "pruneExpired current tried =
     (if length tried < RATE_LIMIT_MAX_TRACKED_KEYS then tried
      else filter (\<lambda>(key, t). live (tr_windowMs t) current (tr_timestamps t) \<noteq> []) tried)"

text \<open>A new key beyond the capacity takes the place of the oldest one.\<close>

definition record_attempt :: "int \<Rightarrow> RateLimitRule \<times> int list \<Rightarrow> attempts \<Rightarrow> attempts" where
  "record_attempt current evaluated tried =
     (case evaluated of (rule, recent) \<Rightarrow>
        let tried1 = (if map_of tried (rl_key rule) = None \<and> RATE_LIMIT_MAX_TRACKED_KEYS \<le> length tried then drop 1 tried else tried) in
        AList.update (rl_key rule) \<lparr> tr_timestamps = recent @ [current], tr_windowMs = rl_windowMs rule \<rparr> tried1)"

definition assertAllowedAll :: "RateLimitRule list \<Rightarrow> string \<Rightarrow> int \<Rightarrow> attempts \<Rightarrow> (rate_limited + unit) \<times> attempts" where
  "assertAllowedAll rules m current tried =
     (let tried1 = pruneExpired current tried;
          evaluated = map (\<lambda>rule. (rule, recentFor tried1 rule current)) rules in
      (case List.find (\<lambda>(rule, recent). rl_limit rule \<le> length recent) evaluated of
         Some (rule, recent) \<Rightarrow>
           (Inl (rateLimited m (retryAfterSeconds recent (rl_windowMs rule) current)),
            AList.update (rl_key rule) \<lparr> tr_timestamps = recent, tr_windowMs = rl_windowMs rule \<rparr> tried1)
       | None \<Rightarrow> (Inr (), fold (record_attempt current) evaluated tried1)))"

definition assertAllowed :: "string \<Rightarrow> nat \<Rightarrow> int \<Rightarrow> int \<Rightarrow> attempts \<Rightarrow> (rate_limited + unit) \<times> attempts" where
  "assertAllowed key limit windowMs =
     assertAllowedAll [\<lparr> rl_key = key, rl_limit = limit, rl_windowMs = windowMs \<rparr>] ''too many requests, try again later''"

definition reset_key :: "string \<Rightarrow> attempts \<Rightarrow> attempts" where
  "reset_key key = filter (\<lambda>(k, _). k \<noteq> key)"

text \<open>What callers do to one limiter: they ask for an action at a time, or forget some keys.\<close>

datatype limit_event = Ask "RateLimitRule list" int | Forget "string list"

fun window_run :: "(RateLimitRule list \<Rightarrow> int \<Rightarrow> 's \<Rightarrow> bool \<times> 's) \<Rightarrow> (string list \<Rightarrow> 's \<Rightarrow> 's) \<Rightarrow> 's \<Rightarrow> limit_event list \<Rightarrow> bool list" where
  "window_run ask forget s [] = []"
| "window_run ask forget s (Ask rules t # es) = (case ask rules t s of (ok, s1) \<Rightarrow> ok # window_run ask forget s1 es)"
| "window_run ask forget s (Forget keys # es) = True # window_run ask forget (forget keys s) es"

definition limiter_ask :: "string \<Rightarrow> RateLimitRule list \<Rightarrow> int \<Rightarrow> attempts \<Rightarrow> bool \<times> attempts" where
  "limiter_ask m rules t tried =
     (case assertAllowedAll rules m t tried of (Inl refusal, tried1) \<Rightarrow> (False, tried1) | (Inr _, tried1) \<Rightarrow> (True, tried1))"

definition limiter_forget :: "string list \<Rightarrow> attempts \<Rightarrow> attempts" where
  "limiter_forget = fold reset_key"

section \<open>The login limiter\<close>

definition LOGIN_ATTEMPT_LIMIT :: nat where "LOGIN_ATTEMPT_LIMIT = 5"
definition LOGIN_EMAIL_LIMIT :: nat where "LOGIN_EMAIL_LIMIT = 10"
definition LOGIN_IP_LIMIT :: nat where "LOGIN_IP_LIMIT = 50"
definition LOGIN_WINDOW_MS :: int where "LOGIN_WINDOW_MS = 15 * 60 * 1000"

record LoginRateLimiterOptions =
  lo_limit :: "nat option"
  lo_emailLimit :: "nat option"
  lo_ipLimit :: "nat option"
  lo_windowMs :: "int option"

record login_limiter =
  lg_limit :: nat
  lg_emailLimit :: nat
  lg_ipLimit :: nat
  lg_windowMs :: int

definition or_default :: "'a option \<Rightarrow> 'a \<Rightarrow> 'a" where
  "or_default x d = (case x of None \<Rightarrow> d | Some y \<Rightarrow> y)"

definition new_login_limiter :: "LoginRateLimiterOptions \<Rightarrow> login_limiter" where
  "new_login_limiter options = \<lparr> lg_limit = or_default (lo_limit options) LOGIN_ATTEMPT_LIMIT,
     lg_emailLimit = or_default (lo_emailLimit options) LOGIN_EMAIL_LIMIT,
     lg_ipLimit = or_default (lo_ipLimit options) LOGIN_IP_LIMIT, lg_windowMs = or_default (lo_windowMs options) LOGIN_WINDOW_MS \<rparr>"

definition pair_key :: "string \<Rightarrow> string \<Rightarrow> string" where
  "pair_key email ip = ''login:pair:'' @ js_lower email @ ''|'' @ ip"

definition email_key :: "string \<Rightarrow> string" where
  "email_key email = ''login:email:'' @ js_lower email"

definition ip_key :: "string \<Rightarrow> string" where
  "ip_key ip = ''login:ip:'' @ ip"

definition login_rules :: "login_limiter \<Rightarrow> string \<Rightarrow> string \<Rightarrow> RateLimitRule list" where
  "login_rules g email ip =
     [\<lparr> rl_key = pair_key email ip, rl_limit = lg_limit g, rl_windowMs = lg_windowMs g \<rparr>,
      \<lparr> rl_key = email_key email, rl_limit = lg_emailLimit g, rl_windowMs = lg_windowMs g \<rparr>,
      \<lparr> rl_key = ip_key ip, rl_limit = lg_ipLimit g, rl_windowMs = lg_windowMs g \<rparr>]"

definition login_allowed :: "login_limiter \<Rightarrow> string \<Rightarrow> string \<Rightarrow> int \<Rightarrow> attempts \<Rightarrow> (rate_limited + unit) \<times> attempts" where
  "login_allowed g email ip = assertAllowedAll (login_rules g email ip) ''too many login attempts, try again later''"

definition login_reset :: "string \<Rightarrow> string \<Rightarrow> attempts \<Rightarrow> attempts" where
  "login_reset email ip = limiter_forget [pair_key email ip, email_key email]"

text \<open>The limits of the other actions.\<close>

definition accountAndIpRules :: "string \<Rightarrow> string \<Rightarrow> string \<Rightarrow> nat \<Rightarrow> nat \<Rightarrow> int \<Rightarrow> RateLimitRule list" where
  "accountAndIpRules action accountId ip account_limit ip_limit windowMs =
     [\<lparr> rl_key = action @ '':account:'' @ accountId, rl_limit = account_limit, rl_windowMs = windowMs \<rparr>,
      \<lparr> rl_key = action @ '':ip:'' @ ip, rl_limit = ip_limit, rl_windowMs = windowMs \<rparr>]"

definition SCAN_ACTION_LIMIT :: nat where "SCAN_ACTION_LIMIT = 10"
definition SCAN_ACTION_IP_LIMIT :: nat where "SCAN_ACTION_IP_LIMIT = 40"
definition SCAN_ACTION_WINDOW_MS :: int where "SCAN_ACTION_WINDOW_MS = 10 * 60 * 1000"

definition scanActionRules :: "string \<Rightarrow> string \<Rightarrow> string \<Rightarrow> RateLimitRule list" where
  "scanActionRules action accountId ip =
     accountAndIpRules action accountId ip SCAN_ACTION_LIMIT SCAN_ACTION_IP_LIMIT SCAN_ACTION_WINDOW_MS"

section \<open>The windows the limiter is to keep\<close>

text \<open>
  What a limiter is: it remembers, per key, when an action was let through, and lets one through when every key of its rules
  has room in its window.
\<close>

type_synonym request_log = "string \<Rightarrow> int list"

definition has_room :: "request_log \<Rightarrow> int \<Rightarrow> RateLimitRule \<Rightarrow> bool" where
  "has_room h t rule \<longleftrightarrow> length (live (rl_windowMs rule) t (h (rl_key rule))) < rl_limit rule"

definition add_all :: "RateLimitRule list \<Rightarrow> int \<Rightarrow> request_log \<Rightarrow> request_log" where
  "add_all rules t h = (\<lambda>k. if k \<in> rl_key ` set rules then h k @ [t] else h k)"

definition ideal_ask :: "RateLimitRule list \<Rightarrow> int \<Rightarrow> request_log \<Rightarrow> bool \<times> request_log" where
  "ideal_ask rules t h = (if list_all (has_room h t) rules then (True, add_all rules t h) else (False, h))"

definition ideal_forget :: "string list \<Rightarrow> request_log \<Rightarrow> request_log" where
  "ideal_forget keys h = (\<lambda>k. if k \<in> set keys then [] else h k)"

fun timed :: "int \<Rightarrow> limit_event list \<Rightarrow> bool" where
  "timed t0 [] = True"
| "timed t0 (Ask rules t # es) = (t0 \<le> t \<and> timed t es)"
| "timed t0 (Forget keys # es) = timed t0 es"

fun asks_only :: "(RateLimitRule list \<Rightarrow> bool) \<Rightarrow> limit_event \<Rightarrow> bool" where
  "asks_only accepts (Ask rules t) = accepts rules"
| "asks_only accepts (Forget keys) = True"

locale sliding_window =
  fixes ask :: "RateLimitRule list \<Rightarrow> int \<Rightarrow> 's \<Rightarrow> bool \<times> 's" and forget :: "string list \<Rightarrow> 's \<Rightarrow> 's"
    and accepts :: "RateLimitRule list \<Rightarrow> bool" and represents :: "int \<Rightarrow> request_log \<Rightarrow> 's \<Rightarrow> bool"
  assumes ask_ideal: "represents t0 h s \<Longrightarrow> t0 \<le> t \<Longrightarrow> accepts rules
      \<Longrightarrow> fst (ask rules t s) = fst (ideal_ask rules t h) \<and> represents t (snd (ideal_ask rules t h)) (snd (ask rules t s))"
    and forget_ideal: "represents t0 h s \<Longrightarrow> represents t0 (ideal_forget keys h) (forget keys s)"
begin

lemma run_ideal:
  "represents t0 h s \<Longrightarrow> timed t0 es \<Longrightarrow> list_all (asks_only accepts) es
    \<Longrightarrow> window_run ask forget s es = window_run ideal_ask ideal_forget h es"
proof (induction es arbitrary: t0 h s)
  case (Cons e es)
  show ?case
  proof (cases e)
    case (Ask rules t)
    have "fst (ask rules t s) = fst (ideal_ask rules t h)" "represents t (snd (ideal_ask rules t h)) (snd (ask rules t s))"
      using ask_ideal [of t0 h s t rules] Cons.prems by (auto simp: Ask)
    with Cons.IH [of t "snd (ideal_ask rules t h)" "snd (ask rules t s)"] Cons.prems show ?thesis
      by (simp add: Ask split_beta)
  next
    case (Forget keys)
    then show ?thesis using Cons.IH [OF forget_ideal [of t0 h s keys]] Cons.prems by simp
  qed
qed simp

end

section \<open>The limiter keeps them\<close>

definition stamps :: "attempts \<Rightarrow> string \<Rightarrow> int list" where
  "stamps tried k = (case map_of tried k of None \<Rightarrow> [] | Some t \<Rightarrow> tr_timestamps t)"

lemma recentFor_stamps: "recentFor tried rule t = live (rl_windowMs rule) t (stamps tried (rl_key rule))"
  by (simp add: recentFor_def stamps_def)

text \<open>The rules use at most as many keys as the limiter holds, each key always with the same limit and window.\<close>

definition planned :: "string set \<Rightarrow> (string \<Rightarrow> nat) \<Rightarrow> (string \<Rightarrow> int) \<Rightarrow> RateLimitRule list \<Rightarrow> bool" where
  "planned K L W rules \<longleftrightarrow> distinct (map rl_key rules)
     \<and> list_all (\<lambda>rule. rl_key rule \<in> K \<and> rl_limit rule = L (rl_key rule) \<and> rl_windowMs rule = W (rl_key rule)) rules"

definition well_kept :: "string set \<Rightarrow> (string \<Rightarrow> int) \<Rightarrow> attempts \<Rightarrow> bool" where
  "well_kept K W tried \<longleftrightarrow> distinct (map fst tried) \<and> fst ` set tried \<subseteq> K \<and> list_all (\<lambda>(k, t). tr_windowMs t = W k) tried"

definition tracks :: "string set \<Rightarrow> (string \<Rightarrow> int) \<Rightarrow> int \<Rightarrow> request_log \<Rightarrow> attempts \<Rightarrow> bool" where
  "tracks K W t h tried \<longleftrightarrow> finite K \<and> card K \<le> RATE_LIMIT_MAX_TRACKED_KEYS \<and> well_kept K W tried
     \<and> (\<forall>k \<in> K. live (W k) t (stamps tried k) = live (W k) t (h k))"

lemma live_append [simp]: "live w t (xs @ ys) = live w t xs @ live w t ys"
  by (simp add: live_def)

lemma live_live: "t0 \<le> t \<Longrightarrow> live w t (live w t0 xs) = live w t xs"
  by (auto simp: live_def intro: filter_cong)

lemma tracks_later: "tracks K W t0 h tried \<Longrightarrow> t0 \<le> t \<Longrightarrow> tracks K W t h tried"
  using live_live [of t0 t] unfolding tracks_def by metis

lemma stamps_filter:
  assumes "distinct (map fst tried)"
  shows "stamps (filter P tried) k = (case map_of tried k of None \<Rightarrow> [] | Some t \<Rightarrow> if P (k, t) then tr_timestamps t else [])"
proof -
  have "map_of (filter P tried) k = (case map_of tried k of None \<Rightarrow> None | Some t \<Rightarrow> if P (k, t) then Some t else None)"
    using assms
  proof (induction tried)
    case (Cons x tried)
    then have "map_of (filter P tried) (fst x) = None" by (force simp: map_of_eq_None_iff)
    with Cons show ?case by (cases x) auto
  qed simp
  then show ?thesis by (simp add: stamps_def split: option.split)
qed

lemma tracks_prune:
  assumes "tracks K W t h tried"
  shows "tracks K W t h (pruneExpired t tried)"
proof -
  let ?P = "\<lambda>(k, tr). live (tr_windowMs tr) t (tr_timestamps tr) \<noteq> []"
  have d: "distinct (map fst tried)" using assms by (simp add: tracks_def well_kept_def)
  have "well_kept K W (filter ?P tried)"
    using assms by (auto simp: tracks_def well_kept_def list_all_iff distinct_map_filter)
  moreover have "live (W k) t (stamps (filter ?P tried) k) = live (W k) t (stamps tried k)" for k
  proof (cases "map_of tried k")
    case None
    then show ?thesis unfolding stamps_filter [OF d] by (simp add: stamps_def)
  next
    case (Some tr)
    then have "tr_windowMs tr = W k" using assms by (auto simp: tracks_def well_kept_def list_all_iff dest: map_of_SomeD)
    with Some show ?thesis unfolding stamps_filter [OF d] by (auto simp: stamps_def live_def)
  qed
  ultimately show ?thesis using assms by (simp add: tracks_def pruneExpired_def)
qed

lemma update_entries: "set (AList.update k t tried) \<subseteq> insert (k, t) (set tried)"
  by (induction tried) auto

lemma well_kept_update:
  assumes "well_kept K W tried" "k \<in> K" "tr_windowMs t = W k"
  shows "well_kept K W (AList.update k t tried)"
  using assms update_entries [of k t tried] by (fastforce simp: well_kept_def list_all_iff distinct_update dom_update)

lemma stamps_update: "stamps (AList.update k t tried) k' = (if k' = k then tr_timestamps t else stamps tried k')"
  by (simp add: stamps_def update_conv')

lemma room_left:
  assumes "well_kept K W tried" "finite K" "card K \<le> RATE_LIMIT_MAX_TRACKED_KEYS" "k \<in> K" "map_of tried k = None"
  shows "length tried < RATE_LIMIT_MAX_TRACKED_KEYS"
proof -
  have "fst ` set tried \<subseteq> K - {k}" using assms(1,5) by (auto simp: well_kept_def map_of_eq_None_iff)
  then have "card (fst ` set tried) \<le> card (K - {k})" using assms(2) by (intro card_mono) auto
  moreover have "card (fst ` set tried) = length tried" using assms(1) distinct_card by (fastforce simp: well_kept_def)
  moreover have "card (K - {k}) < card K" using assms(2,4) by (intro psubset_card_mono) auto
  ultimately show ?thesis using assms(3) by simp
qed

lemma record_all:
  assumes "well_kept K W tried" "finite K" "card K \<le> RATE_LIMIT_MAX_TRACKED_KEYS" "planned K L W rules"
  shows "well_kept K W (fold (record_attempt t) (map (\<lambda>rule. (rule, f rule)) rules) tried)
    \<and> (\<forall>k. stamps (fold (record_attempt t) (map (\<lambda>rule. (rule, f rule)) rules) tried) k
         = (case map_of (map (\<lambda>rule. (rl_key rule, f rule)) rules) k of None \<Rightarrow> stamps tried k | Some recent \<Rightarrow> recent @ [t]))"
  using assms(1,4)
proof (induction rules arbitrary: tried)
  case (Cons rule rules)
  let ?new = "AList.update (rl_key rule) \<lparr> tr_timestamps = f rule @ [t], tr_windowMs = rl_windowMs rule \<rparr> tried"
  have p: "rl_key rule \<in> K" "rl_windowMs rule = W (rl_key rule)" "planned K L W rules" "rl_key rule \<notin> rl_key ` set rules"
    using Cons.prems(2) by (auto simp: planned_def)
  have r: "record_attempt t (rule, f rule) tried = ?new"
    using room_left [OF Cons.prems(1) assms(2,3) p(1)] by (auto simp: record_attempt_def)
  have n: "map_of (map (\<lambda>rule. (rl_key rule, f rule)) rules) (rl_key rule) = None"
    using p(4) by (auto simp: map_of_eq_None_iff)
  have "well_kept K W ?new" using well_kept_update [OF Cons.prems(1) p(1)] p(2) by simp
  from Cons.IH [OF this p(3)] n show ?case by (simp add: r stamps_update split: option.split)
qed simp

lemma map_of_rules:
  "distinct (map rl_key rules) \<Longrightarrow> rule \<in> set rules \<Longrightarrow> map_of (map (\<lambda>rule. (rl_key rule, f rule)) rules) (rl_key rule) = Some (f rule)"
  by (rule map_of_is_SomeI) (auto simp: comp_def)

lemma tracks_ask:
  assumes "tracks K W t0 h tried" "t0 \<le> t" "planned K L W rules"
  shows "fst (limiter_ask m rules t tried) = fst (ideal_ask rules t h)
    \<and> tracks K W t (snd (ideal_ask rules t h)) (snd (limiter_ask m rules t tried))"
proof -
  let ?tried = "pruneExpired t tried"
  let ?evaluated = "map (\<lambda>rule. (rule, recentFor ?tried rule t)) rules"
  let ?hit = "List.find (\<lambda>(rule, recent). rl_limit rule \<le> length recent) ?evaluated"
  have k: "tracks K W t h ?tried" using tracks_prune [OF tracks_later [OF assms(1,2)]] .
  have recent: "recentFor ?tried rule t = live (W (rl_key rule)) t (h (rl_key rule))" "rl_windowMs rule = W (rl_key rule)" "rl_key rule \<in> K"
    if "rule \<in> set rules" for rule
    using that k assms(3) by (auto simp: recentFor_stamps tracks_def planned_def list_all_iff)
  then have room: "list_all (has_room h t) rules \<longleftrightarrow> list_all (\<lambda>rule. length (recentFor ?tried rule t) < rl_limit rule) rules"
    by (simp add: list_all_iff has_room_def)
  show ?thesis
  proof (cases ?hit)
    case None
    then have ok: "list_all (has_room h t) rules" unfolding room by (auto simp: find_None_iff list_all_iff not_le)
    have fin: "finite K" "card K \<le> RATE_LIMIT_MAX_TRACKED_KEYS" "well_kept K W ?tried" using k by (simp_all add: tracks_def)
    note a = record_all [OF fin(3,1,2) assms(3), of t "\<lambda>rule. recentFor ?tried rule t"]
    have "live (W k) t (stamps (fold (record_attempt t) ?evaluated ?tried) k) = live (W k) t (add_all rules t h k)" if "k \<in> K" for k
    proof (cases "k \<in> rl_key ` set rules")
      case True
      then obtain rule where r: "rule \<in> set rules" "k = rl_key rule" by auto
      have "stamps (fold (record_attempt t) ?evaluated ?tried) k = recentFor ?tried rule t @ [t]"
        using a map_of_rules [of rules rule "\<lambda>rule. recentFor ?tried rule t"] assms(3) r by (simp add: planned_def)
      with r recent(1) [OF r(1)] show ?thesis by (auto simp: add_all_def live_live)
    next
      case False
      then have "map_of (map (\<lambda>rule. (rl_key rule, recentFor ?tried rule t)) rules) k = None"
        by (auto simp: map_of_eq_None_iff)
      with a False k that show ?thesis by (simp add: add_all_def tracks_def)
    qed
    with a fin ok None show ?thesis
      by (simp add: limiter_ask_def assertAllowedAll_def Let_def ideal_ask_def tracks_def)
  next
    case (Some hit)
    then obtain rule where h: "hit = (rule, recentFor ?tried rule t)" "rule \<in> set rules" "rl_limit rule \<le> length (recentFor ?tried rule t)"
      by (auto simp: find_Some_iff)
    then have no: "\<not> list_all (has_room h t) rules" unfolding room by (auto simp: list_all_iff not_less)
    let ?new = "AList.update (rl_key rule) \<lparr> tr_timestamps = recentFor ?tried rule t, tr_windowMs = rl_windowMs rule \<rparr> ?tried"
    have "well_kept K W ?new" using k recent [OF h(2)] by (intro well_kept_update) (simp_all add: tracks_def)
    moreover have "live (W k) t (stamps ?new k) = live (W k) t (h k)" if "k \<in> K" for k
      using k recent [OF h(2)] that by (simp add: stamps_update tracks_def live_live)
    ultimately have "tracks K W t h ?new" using k by (simp add: tracks_def)
    with Some h(1) no show ?thesis by (simp add: limiter_ask_def assertAllowedAll_def Let_def ideal_ask_def)
  qed
qed

lemma stamps_reset: "distinct (map fst tried) \<Longrightarrow> stamps (reset_key key tried) k = (if k = key then [] else stamps tried k)"
  unfolding reset_key_def by (subst stamps_filter) (auto simp: stamps_def split: option.split)

lemma tracks_forget: "tracks K W t h tried \<Longrightarrow> tracks K W t (ideal_forget keys h) (limiter_forget keys tried)"
proof (induction keys arbitrary: h tried)
  case Nil
  then show ?case by (simp add: ideal_forget_def limiter_forget_def)
next
  case (Cons key keys)
  have d: "distinct (map fst tried)" using Cons.prems by (simp add: tracks_def well_kept_def)
  have "tracks K W t (ideal_forget [key] h) (reset_key key tried)"
    using Cons.prems stamps_reset [OF d, of key]
    by (auto simp: tracks_def well_kept_def ideal_forget_def list_all_iff live_def) (auto simp: reset_key_def distinct_map_filter)
  moreover have "ideal_forget (key # keys) h = ideal_forget keys (ideal_forget [key] h)" by (auto simp: ideal_forget_def)
  ultimately show ?case using Cons.IH by (simp add: limiter_forget_def)
qed

interpretation limiter: sliding_window "limiter_ask m" limiter_forget "planned K L W" "tracks K W" for m K L W
  by unfold_locales (auto dest: tracks_ask tracks_forget)

text \<open>
  C35: whoever asks, however often, and whatever keys are forgotten in between: as long as the actions use no more keys than
  the limiter holds, it lets through exactly what a limiter with an unlimited memory would, so that a request is refused
  exactly when one of its keys has no room in the window that ends with it, and a refused request counts for no key.
\<close>

theorem limiter_refines:
  assumes "finite K" "card K \<le> RATE_LIMIT_MAX_TRACKED_KEYS" "list_all (asks_only (planned K L W)) es" "timed t0 es"
  shows "window_run (limiter_ask m) limiter_forget [] es = window_run ideal_ask ideal_forget (\<lambda>k. []) es"
proof (rule limiter.run_ideal)
  show "tracks K W t0 (\<lambda>k. []) []" using assms by (simp add: tracks_def well_kept_def stamps_def)
qed (use assms in simp_all)

section \<open>How many requests get through\<close>

text \<open>The times at which requests with the key \<open>k\<close> were let through, since it was last forgotten.\<close>

fun noted :: "string \<Rightarrow> limit_event \<times> bool \<Rightarrow> int list \<Rightarrow> int list" where
  "noted k (Ask rules t, ok) moments = (if ok \<and> k \<in> rl_key ` set rules then moments @ [t] else moments)"
| "noted k (Forget keys, ok) moments = (if k \<in> set keys then [] else moments)"

definition in_window :: "int \<Rightarrow> int \<Rightarrow> int list \<Rightarrow> nat" where
  "in_window w x moments = length (filter (\<lambda>y. x - w < y \<and> y \<le> x) moments)"

definition obeys :: "(string \<Rightarrow> nat) \<Rightarrow> (string \<Rightarrow> int) \<Rightarrow> int \<Rightarrow> request_log \<Rightarrow> bool" where
  "obeys L W t h \<longleftrightarrow> (\<forall>k. list_all (\<lambda>y. y \<le> t) (h k) \<and> (\<forall>x. in_window (W k) x (h k) \<le> L k))"

lemma in_window_live:
  assumes "t \<le> x"
  shows "in_window w x (moments @ [t]) \<le> Suc (length (live w t moments))"
proof -
  have "length (filter (\<lambda>y. x - w < y \<and> y \<le> x) moments) \<le> length (filter (\<lambda>y. t - w < y) moments)"
    using assms by (induction moments) auto
  then show ?thesis by (simp add: in_window_def live_def)
qed

lemma obeys_ask:
  assumes "obeys L W t0 h" "t0 \<le> t" "planned K L W rules"
  shows "obeys L W t (snd (ideal_ask rules t h))"
proof -
  have later: "list_all (\<lambda>y. y \<le> t) (h k)" for k using assms(1,2) by (fastforce simp: obeys_def list_all_iff)
  have "in_window (W k) x (h k @ [t]) \<le> L k" if "list_all (has_room h t) rules" "k \<in> rl_key ` set rules" for k x
  proof (cases "t \<le> x")
    case True
    have "length (live (W k) t (h k)) < L k"
      using that assms(3) by (auto simp: list_all_iff has_room_def planned_def)
    with in_window_live [OF True, of "W k" "h k"] show ?thesis by simp
  next
    case False
    then have "in_window (W k) x (h k @ [t]) = in_window (W k) x (h k)" by (simp add: in_window_def)
    then show ?thesis using assms(1) by (simp add: obeys_def)
  qed
  with assms(1) later show ?thesis by (auto simp: obeys_def ideal_ask_def add_all_def)
qed

lemma ideal_bounded:
  "obeys L W t0 h \<Longrightarrow> timed t0 es \<Longrightarrow> list_all (asks_only (planned K L W)) es
    \<Longrightarrow> in_window (W k) x (fold (noted k) (zip es (window_run ideal_ask ideal_forget h es)) (h k)) \<le> L k"
proof (induction es arbitrary: t0 h)
  case (Cons e es)
  show ?case
  proof (cases e)
    case (Ask rules t)
    let ?h = "snd (ideal_ask rules t h)"
    have "noted k (e, fst (ideal_ask rules t h)) (h k) = ?h k" by (simp add: Ask ideal_ask_def add_all_def)
    moreover have "obeys L W t ?h" using Cons.prems by (auto simp: Ask intro: obeys_ask)
    ultimately show ?thesis using Cons.IH [of t ?h] Cons.prems by (simp add: Ask split_beta)
  next
    case (Forget keys)
    have "obeys L W t0 (ideal_forget keys h)" using Cons.prems(1) by (auto simp: obeys_def ideal_forget_def in_window_def)
    with Cons.IH [of t0 "ideal_forget keys h"] Cons.prems show ?thesis by (simp add: Forget ideal_forget_def)
  qed
qed (simp add: obeys_def)

lemma limiter_bounded:
  assumes "finite K" "card K \<le> RATE_LIMIT_MAX_TRACKED_KEYS" "list_all (asks_only (planned K L W)) es" "timed t0 es"
  shows "in_window (W k) x (fold (noted k) (zip es (window_run (limiter_ask m) limiter_forget [] es)) []) \<le> L k"
proof -
  have "tracks K W t0 (\<lambda>k. []) []" using assms by (simp add: tracks_def well_kept_def stamps_def)
  then have "window_run (limiter_ask m) limiter_forget [] es = window_run ideal_ask ideal_forget (\<lambda>k. []) es"
    using assms(3,4) by (intro limiter.run_ideal)
  then show ?thesis
    using ideal_bounded [of L W t0 "\<lambda>k. []" es K k x] assms by (simp add: obeys_def in_window_def)
qed

section \<open>How often a password may be tried\<close>

datatype login_event = Attempt string string int | SignedIn string string

text \<open>\<open>POST /auth/login\<close>: the limiter is asked first, and reset when the password was right.\<close>

fun login_use :: "login_limiter \<Rightarrow> login_event \<Rightarrow> limit_event" where
  "login_use g (Attempt email ip t) = Ask (login_rules g email ip) t"
| "login_use g (SignedIn email ip) = Forget [pair_key email ip, email_key email]"

definition login_run :: "login_limiter \<Rightarrow> login_event list \<Rightarrow> (login_event \<times> bool) list" where
  "login_run g es =
     zip es (window_run (limiter_ask ''too many login attempts, try again later'') limiter_forget [] (map (login_use g) es))"

fun login_keys :: "login_event \<Rightarrow> string list" where
  "login_keys (Attempt email ip t) = [pair_key email ip, email_key email, ip_key ip]"
| "login_keys (SignedIn email ip) = []"

fun tries :: "(string \<Rightarrow> string \<Rightarrow> bool) \<Rightarrow> int \<Rightarrow> int \<Rightarrow> login_event \<times> bool \<Rightarrow> bool" where
  "tries who w x (Attempt email ip t, ok) \<longleftrightarrow> ok \<and> who email ip \<and> x - w < t \<and> t \<le> x"
| "tries who w x (SignedIn email ip, ok) \<longleftrightarrow> False"

fun signs_in :: "string \<Rightarrow> login_event \<Rightarrow> bool" where
  "signs_in email (Attempt e ip t) \<longleftrightarrow> False"
| "signs_in email (SignedIn e ip) \<longleftrightarrow> js_lower e = js_lower email"

definition since_sign_in :: "string \<Rightarrow> (login_event \<times> bool) list \<Rightarrow> (login_event \<times> bool) list" where
  "since_sign_in email h = rev (takeWhile (\<lambda>(e, ok). \<not> signs_in email e) (rev h))"

lemma login_key_eq [simp]:
  "ip_key a = ip_key b \<longleftrightarrow> a = b" "email_key a = email_key b \<longleftrightarrow> js_lower a = js_lower b"
  "pair_key a b \<noteq> email_key c" "pair_key a b \<noteq> ip_key c" "email_key a \<noteq> ip_key b"
  "email_key c \<noteq> pair_key a b" "ip_key c \<noteq> pair_key a b" "ip_key b \<noteq> email_key a"
  by (simp_all add: pair_key_def email_key_def ip_key_def)

lemma tries_of_ip:
  "in_window w x (fold (noted (ip_key ip)) (map (\<lambda>(e, ok). (login_use g e, ok)) h) [])
     = length (filter (tries (\<lambda>email i. i = ip) w x) h)"
proof (induction h rule: rev_induct)
  case (snoc eo h)
  show ?case
  proof (cases "fst eo")
    case (Attempt email i t)
    with snoc show ?thesis by (cases eo) (auto simp: in_window_def login_rules_def)
  next
    case (SignedIn email i)
    with snoc show ?thesis by (cases eo) (auto simp: in_window_def)
  qed
qed (simp add: in_window_def)

lemma tries_of_email:
  "in_window w x (fold (noted (email_key email)) (map (\<lambda>(e, ok). (login_use g e, ok)) h) [])
     = length (filter (tries (\<lambda>e ip. js_lower e = js_lower email) w x) (since_sign_in email h))"
proof (induction h rule: rev_induct)
  case (snoc eo h)
  show ?case
  proof (cases "fst eo")
    case (Attempt e i t)
    with snoc show ?thesis by (cases eo) (auto simp: in_window_def login_rules_def since_sign_in_def)
  next
    case (SignedIn e i)
    with snoc show ?thesis by (cases eo) (auto simp: in_window_def since_sign_in_def)
  qed
qed (simp add: in_window_def since_sign_in_def)


section \<open>At concrete runs\<close>

definition demo_rule :: RateLimitRule where
  "demo_rule = \<lparr> rl_key = ''k'', rl_limit = 1, rl_windowMs = 10 \<rparr>"

theorem limiter_refines_witness:
  "window_run (limiter_ask ''no'') limiter_forget [] [Ask [demo_rule] 0, Ask [demo_rule] 9, Ask [demo_rule] 10] = [True, False, True]"
proof -
  have "window_run (limiter_ask ''no'') limiter_forget [] [Ask [demo_rule] 0, Ask [demo_rule] 9, Ask [demo_rule] 10]
      = window_run ideal_ask ideal_forget (\<lambda>k. []) [Ask [demo_rule] 0, Ask [demo_rule] 9, Ask [demo_rule] 10]"
    by (rule limiter_refines [where K = "{''k''}" and L = "\<lambda>k. 1" and W = "\<lambda>k. 10" and ?t0.0 = 0])
      (simp_all add: planned_def demo_rule_def RATE_LIMIT_MAX_TRACKED_KEYS_def)
  then show ?thesis by (simp add: ideal_ask_def has_room_def add_all_def demo_rule_def live_def)
qed

definition demo_limiter :: login_limiter where
  "demo_limiter = new_login_limiter \<lparr> lo_limit = None, lo_emailLimit = Some 1, lo_ipLimit = Some 2, lo_windowMs = Some 100 \<rparr>"

text \<open>The second attempt at the account is one too many; a sign-in gives it room again, but not the address.\<close>

definition demo_logins :: "login_event list" where
  "demo_logins = [Attempt ''Ann'' ''1'' 0, Attempt ''ann'' ''2'' 1, SignedIn ''ann'' ''1'', Attempt ''ann'' ''1'' 2, Attempt ''bob'' ''1'' 3]"

lemma demo_keys:
  "pair_key ''Ann'' ''1'' = ''login:pair:ann|1''" "pair_key ''ann'' ''1'' = ''login:pair:ann|1''" "pair_key ''ann'' ''2'' = ''login:pair:ann|2''"
  "pair_key ''bob'' ''1'' = ''login:pair:bob|1''" "email_key ''Ann'' = ''login:email:ann''" "email_key ''ann'' = ''login:email:ann''"
  "email_key ''bob'' = ''login:email:bob''" "ip_key ''1'' = ''login:ip:1''" "ip_key ''2'' = ''login:ip:2''"
  by code_simp+

lemma demo_logins_run: "map snd (login_run demo_limiter demo_logins) = [True, False, True, True, False]"
  by (simp add: login_run_def demo_logins_def demo_limiter_def new_login_limiter_def or_default_def login_rules_def limiter_ask_def
      assertAllowedAll_def pruneExpired_def recentFor_def record_attempt_def limiter_forget_def reset_key_def live_def
      RATE_LIMIT_MAX_TRACKED_KEYS_def LOGIN_ATTEMPT_LIMIT_def demo_keys)


end
