(* ===== verification/Worker.thy ===== *)
theory Worker
  imports Resume ReportAccess JobQueue Billing
begin

text \<open>
  The worker that takes a claimed job to its end: \<open>apps/api/src/orchestrator/worker.ts\<close>, with \<open>module-plan.ts\<close> and the
  decision of \<open>cancellation.ts\<close>. It joins the state machine of scans, the outcome and the refunds (\<open>Billing\<close>), the queue
  (\<open>JobQueue\<close>) and what an interrupted run leaves behind (\<open>Resume\<close>). Every read and write is one statement on the tables,
  and before each of them other processes may have changed what they like: \<open>ww_others\<close>, indexed by the statement. The
  attempt itself, the Analytics section and what closes old findings are given too: they may write what they write, and
  fail. Times are milliseconds; log lines and the timers that refresh the lease and poll for a cancellation are left out.
  Terminalizing the modules of a scan, and writing its stubs, are taken as one statement each.
\<close>

section \<open>The modules of a plan (module-plan.ts)\<close>

datatype GeoScope = FullGeo | FreePreview

record stub_module =
  sb_module :: audit_module
  sb_runtimeStatus :: module_runtime_status
  sb_statusReason :: string
  sb_applicableChecks :: nat

record ModulePlan =
  mp_runnable :: "audit_module list"
  mp_external :: "audit_module list"
  mp_geo :: bool
  mp_geoScope :: GeoScope
  mp_ux :: bool
  mp_stubs :: "stub_module list"

fun modulePlanFor :: "plan \<Rightarrow> ModulePlan" where
  "modulePlanFor Free =
     \<lparr> mp_runnable = [SEO], mp_external = [], mp_geo = True, mp_geoScope = FreePreview, mp_ux = False, mp_stubs = [] \<rparr>"
| "modulePlanFor Basic =
     \<lparr> mp_runnable = [SEO], mp_external = [], mp_geo = True, mp_geoScope = FullGeo, mp_ux = False, mp_stubs = [] \<rparr>"
| "modulePlanFor Complete =
     \<lparr> mp_runnable = [SEO, Security, Accessibility, Reliability, ContentQuality, Privacy], mp_external = [Performance],
       mp_geo = True, mp_geoScope = FullGeo, mp_ux = True, mp_stubs = [] \<rparr>"

definition includesAnalytics :: "string \<Rightarrow> bool" where
  "includesAnalytics p = (case plan_of_string p of None \<Rightarrow> False | Some pl \<Rightarrow> Analytics \<in> set (modules (TARIFFS pl)))"

section \<open>The tables\<close>

record stored_module = module_row +
  sm_statusReason :: "string option"
  sm_coverage :: "rat option"
  sm_score :: "rat option"

text \<open>The columns of a scan that are not in its state machine, its modules, and what it may resume from.\<close>

record ('t, 'b, 'r) worker_db =
  wd_billing :: billing_db
  wd_jobs :: "job list"
  wd_plan :: "string \<Rightarrow> string"
  wd_crawl :: "string \<Rightarrow> crawl_summary option"
  wd_modules :: "string \<Rightarrow> stored_module list"
  wd_resume :: "('t, 'b, 'r) resume_db"

datatype worker_error =
    NoScan | NoJobRow string | BillingFailure billing_error | AttemptCancelled | AttemptFailure string
  | StoppedWithoutCancel | RetryNotClaimed

record AttemptControl =
  ac_retryModule :: "string option"
  ac_resumeFrom :: "ScanCheckpointState option"
  ac_replacesPreviousResult :: bool

text \<open>An attempt throws, or says whether it was stopped.\<close>

record ('t, 'b, 'r) worker_world =
  ww_config :: RefundDispatchConfig
  ww_store :: "('t, 'b, 'r) resume_world"
  ww_now :: "nat \<Rightarrow> nat"
  ww_others :: "nat \<Rightarrow> ('t, 'b, 'r) worker_db \<Rightarrow> ('t, 'b, 'r) worker_db"
  ww_purchase :: "nat \<Rightarrow> string \<Rightarrow> access_purchase option"
  ww_attempt :: "nat \<Rightarrow> string \<Rightarrow> AttemptControl \<Rightarrow> ('t, 'b, 'r) worker_db \<Rightarrow> (worker_error + bool) \<times> ('t, 'b, 'r) worker_db"
  ww_analytics :: "nat \<Rightarrow> string \<Rightarrow> ('t, 'b, 'r) worker_db \<Rightarrow> (worker_error + unit) \<times> ('t, 'b, 'r) worker_db"
  ww_close :: "nat \<Rightarrow> string \<Rightarrow> ('t, 'b, 'r) worker_db \<Rightarrow> (worker_error + unit) \<times> ('t, 'b, 'r) worker_db"

section \<open>Statements\<close>

text \<open>A task is what a stretch of the program does to the number of statements so far and the tables; it may throw.\<close>

type_synonym ('t, 'b, 'r, 'a) task =
  "nat \<times> ('t, 'b, 'r) worker_db \<Rightarrow> (worker_error + 'a) \<times> nat \<times> ('t, 'b, 'r) worker_db"

definition give :: "'a \<Rightarrow> ('t, 'b, 'r, 'a) task" where
  "give x st = (Inr x, st)"

definition throw :: "worker_error \<Rightarrow> ('t, 'b, 'r, 'a) task" where
  "throw e st = (Inl e, st)"

definition and_then :: "('t, 'b, 'r, 'a) task \<Rightarrow> ('a \<Rightarrow> ('t, 'b, 'r, 'c) task) \<Rightarrow> ('t, 'b, 'r, 'c) task" where
  "and_then m f st = (case m st of (Inl e, st1) \<Rightarrow> (Inl e, st1) | (Inr x, st1) \<Rightarrow> f x st1)"

definition or_else :: "('t, 'b, 'r, 'a) task \<Rightarrow> (worker_error \<Rightarrow> ('t, 'b, 'r, 'a) task) \<Rightarrow> ('t, 'b, 'r, 'a) task" where
  "or_else m h st = (case m st of (Inl e, st1) \<Rightarrow> h e st1 | (Inr x, st1) \<Rightarrow> (Inr x, st1))"

definition statement :: "('t, 'b, 'r) worker_world
    \<Rightarrow> (nat \<Rightarrow> ('t, 'b, 'r) worker_db \<Rightarrow> (worker_error + 'a) \<times> ('t, 'b, 'r) worker_db) \<Rightarrow> ('t, 'b, 'r, 'a) task" where
  "statement w f st = (case st of (n, db) \<Rightarrow> (case f n (ww_others w n db) of (r, db1) \<Rightarrow> (r, Suc n, db1)))"

definition read_scan :: "('t, 'b, 'r) worker_world \<Rightarrow> string \<Rightarrow> ('t, 'b, 'r, scan_row option) task" where
  "read_scan w i = statement w (\<lambda>n db. (Inr (scans (wd_billing db) i), db))"

definition need_scan :: "('t, 'b, 'r) worker_world \<Rightarrow> string \<Rightarrow> ('t, 'b, 'r, scan_row) task" where
  "need_scan w i = and_then (read_scan w i) (\<lambda>found. case found of None \<Rightarrow> throw NoScan | Some scan \<Rightarrow> give scan)"

definition read_job :: "('t, 'b, 'r) worker_world \<Rightarrow> string \<Rightarrow> ('t, 'b, 'r, scan_row \<times> string) task" where
  "read_job w i = and_then (statement w (\<lambda>n db. (Inr (scans (wd_billing db) i, wd_plan db i), db)))
     (\<lambda>(found, plan). case found of None \<Rightarrow> throw NoScan | Some scan \<Rightarrow> give (scan, plan))"

definition transition :: "('t, 'b, 'r) worker_world \<Rightarrow> string \<Rightarrow> scan_runtime_status \<Rightarrow> scan_runtime_status \<Rightarrow> string option option
    \<Rightarrow> ('t, 'b, 'r, unit) task" where
  "transition w i a b reason = statement w (\<lambda>n db.
     (case transitionScan i a b reason (ww_now w n) (scans (wd_billing db)) of
        Inl e \<Rightarrow> (Inl (BillingFailure e), db)
      | Inr t \<Rightarrow> (Inr (), db\<lparr> wd_billing := (wd_billing db)\<lparr> scans := t \<rparr> \<rparr>)))"

text \<open>False: somebody else won the race.\<close>

definition tryTransitionScan :: "('t, 'b, 'r) worker_world \<Rightarrow> string \<Rightarrow> scan_runtime_status \<Rightarrow> scan_runtime_status
    \<Rightarrow> ('t, 'b, 'r, bool) task" where
  "tryTransitionScan w i a b =
     or_else (and_then (transition w i a b None) (\<lambda>_. give True))
       (\<lambda>e. if e = BillingFailure InvalidTransition then give False else throw e)"

definition isCancelled_scan :: "('t, 'b, 'r) worker_world \<Rightarrow> string \<Rightarrow> ('t, 'b, 'r, bool) task" where
  "isCancelled_scan w i = and_then (read_scan w i) (\<lambda>found. give (map_option status found = Some SCancelled))"

definition finish_job :: "('t, 'b, 'r) worker_world \<Rightarrow> string \<Rightarrow> ('t, 'b, 'r, unit) task" where
  "finish_job w j = statement w (\<lambda>n db.
     (case finishJob j (wd_jobs db) of Inl e \<Rightarrow> (Inl (NoJobRow e), db) | Inr jobs \<Rightarrow> (Inr (), db\<lparr> wd_jobs := jobs \<rparr>)))"

definition clear_checkpoint :: "('t, 'b, 'r) worker_world \<Rightarrow> string \<Rightarrow> ('t, 'b, 'r, unit) task" where
  "clear_checkpoint w i = statement w (\<lambda>n db.
     (Inr (), db\<lparr> wd_resume := (wd_resume db)\<lparr> rd_checkpoints := clearScanCheckpoint i (rd_checkpoints (wd_resume db)) \<rparr> \<rparr>))"

definition clear_evidence :: "('t, 'b, 'r) worker_world \<Rightarrow> string \<Rightarrow> ('t, 'b, 'r, unit) task" where
  "clear_evidence w i = statement w (\<lambda>n db. (Inr (), db\<lparr> wd_resume := clearCrawlEvidence i (wd_resume db) \<rparr>))"

definition isBillingBlocked :: "('t, 'b, 'r) worker_world \<Rightarrow> string option \<Rightarrow> ('t, 'b, 'r, bool) task" where
  "isBillingBlocked w purchaseId =
     (case purchaseId of
        None \<Rightarrow> give False
      | Some p \<Rightarrow> statement w (\<lambda>n db.
          (Inr (paidAccessDenial \<lparr> access_purchaseId = Some p, access_purchase = ww_purchase w n p \<rparr> (Some (int (ww_now w n))) \<noteq> None), db)))"

definition resolve_scan :: "('t, 'b, 'r) worker_world \<Rightarrow> string \<Rightarrow> ('t, 'b, 'r, scan_outcome) task" where
  "resolve_scan w i = statement w (\<lambda>n db.
     (case resolveScanOutcome (ww_config w) i
         \<lparr> report_plan = wd_plan db i, report_crawl = wd_crawl db i, report_modules = map module_row.truncate (wd_modules db i) \<rparr>
         (ww_now w n) (wd_billing db) of
        Inl e \<Rightarrow> (Inl (BillingFailure e), db)
      | Inr (outcome, b) \<Rightarrow> (Inr outcome, db\<lparr> wd_billing := b \<rparr>)))"

definition request_refund :: "('t, 'b, 'r) worker_world \<Rightarrow> string \<Rightarrow> refund_reason_code \<Rightarrow> ('t, 'b, 'r, refund_record) task" where
  "request_refund w p code = statement w (\<lambda>n db.
     (case requestRefund (ww_config w) id p code (ww_now w n) (wd_billing db) of
        Inl e \<Rightarrow> (Inl (BillingFailure e), db)
      | Inr ((rec, dedup), b) \<Rightarrow> (Inr rec, db\<lparr> wd_billing := b \<rparr>)))"

section \<open>The ends of a run\<close>

datatype run_outcome = RunCompleted | RunPartial | RunFailed | RunCancelled | RunQueued | RunRunning

record ScanProcessResult =
  sp_status :: scan_runtime_status
  sp_outcome :: run_outcome
  sp_refund :: "refund_record option"

fun outcome_of_status :: "scan_runtime_status \<Rightarrow> run_outcome" where
  "outcome_of_status SPending = RunQueued" | "outcome_of_status SQueued = RunQueued" | "outcome_of_status SRunning = RunRunning"
| "outcome_of_status SPartial = RunPartial" | "outcome_of_status SCompleted = RunCompleted"
| "outcome_of_status SFailed = RunFailed" | "outcome_of_status SCancelled = RunCancelled"

definition resultFromExisting :: "scan_runtime_status \<Rightarrow> ScanProcessResult" where
  "resultFromExisting st = \<lparr> sp_status = st, sp_outcome = outcome_of_status st, sp_refund = None \<rparr>"

definition terminalized :: "string \<Rightarrow> stored_module \<Rightarrow> stored_module" where
  "terminalized reason m =
     (if runtimeStatus m \<noteq> MPending \<and> runtimeStatus m \<noteq> MRunning then m
      else
        let checked = (case completedApplicableChecks m of None \<Rightarrow> 0 | Some n \<Rightarrow> n);
            applicable = max (case applicableChecks m of None \<Rightarrow> 1 | Some n \<Rightarrow> n) (checked + 1) in
        m\<lparr> runtimeStatus := (if 0 < checked then MPartial else MUnavailable), sm_statusReason := Some reason,
           sm_coverage := Some (of_nat checked / of_nat applicable), sm_score := None, applicableChecks := Some applicable,
           completedApplicableChecks := Some checked, usableOutput := False \<rparr>)"

definition terminalizeIncompleteModules :: "('t, 'b, 'r) worker_world \<Rightarrow> string \<Rightarrow> string \<Rightarrow> ('t, 'b, 'r, unit) task" where
  "terminalizeIncompleteModules w i reason = statement w (\<lambda>n db.
     (Inr (), db\<lparr> wd_modules := (wd_modules db)(i := map (terminalized reason) (wd_modules db i)) \<rparr>))"

definition finishCancelledScan :: "('t, 'b, 'r) worker_world \<Rightarrow> string \<Rightarrow> string \<Rightarrow> ('t, 'b, 'r, ScanProcessResult) task" where
  "finishCancelledScan w i j =
     and_then (terminalizeIncompleteModules w i ''ScanCancelled'') (\<lambda>_.
     and_then (finish_job w j) (\<lambda>_.
     and_then (clear_checkpoint w i) (\<lambda>_.
     and_then (clear_evidence w i) (\<lambda>_.
     give \<lparr> sp_status = SCancelled, sp_outcome = RunCancelled, sp_refund = None \<rparr>))))"

definition stub_row :: "stub_module \<Rightarrow> stored_module" where
  "stub_row s = \<lparr> module_id = sb_module s, runtimeStatus = sb_runtimeStatus s, usableOutput = False,
     applicableChecks = Some (sb_applicableChecks s), completedApplicableChecks = Some 0,
     sm_statusReason = Some (sb_statusReason s), sm_coverage = Some 0, sm_score = None \<rparr>"

fun put_module :: "stored_module \<Rightarrow> stored_module list \<Rightarrow> stored_module list" where
  "put_module m [] = [m]"
| "put_module m (x # xs) = (if module_id x = module_id m then m # xs else x # put_module m xs)"

definition persistUnavailableModules :: "('t, 'b, 'r) worker_world \<Rightarrow> string \<Rightarrow> ('t, 'b, 'r, unit) task" where
  "persistUnavailableModules w i =
     and_then (need_scan w i) (\<lambda>_. statement w (\<lambda>n db.
       (case parsePlan (wd_plan db i) of
          Inl e \<Rightarrow> (Inl (AttemptFailure ''unknown plan''), db)
        | Inr p \<Rightarrow>
            (Inr (), db\<lparr> wd_modules := (wd_modules db)(i :=
               fold (put_module \<circ> stub_row) (mp_stubs (modulePlanFor p)) (wd_modules db i)) \<rparr>))))"

definition moduleFromRetryJob :: "string \<Rightarrow> string option" where
  "moduleFromRetryJob jobType =
     (if starts_with jobType ''module-retry:'' then Some (drop (length ''module-retry:'') jobType) else None)"

section \<open>One turn of the loop\<close>

datatype FailedAttemptDecision = DecideCancelled | DecideFailure bool

definition decideAfterFailedAttempt :: "worker_error \<Rightarrow> scan_runtime_status \<Rightarrow> nat \<Rightarrow> FailedAttemptDecision" where
  "decideAfterFailedAttempt e currentStatus retries =
     (if e = AttemptCancelled \<or> currentStatus = SCancelled then DecideCancelled else DecideFailure (retries < 1))"

text \<open>A turn returns a result, or the loop goes on with this job, its type, and whether the external retry was granted.\<close>

datatype turn = Returned ScanProcessResult | Again string string bool

definition cancelled_turn :: "('t, 'b, 'r) worker_world \<Rightarrow> string \<Rightarrow> string \<Rightarrow> ('t, 'b, 'r, turn) task" where
  "cancelled_turn w i j = and_then (finishCancelledScan w i j) (\<lambda>r. give (Returned r))"

fun settled_as :: "scan_outcome \<Rightarrow> ScanProcessResult" where
  "settled_as (OutFailed reason refund) = \<lparr> sp_status = SFailed, sp_outcome = RunFailed, sp_refund = refund \<rparr>"
| "settled_as (OutPartial reason) = \<lparr> sp_status = SPartial, sp_outcome = RunPartial, sp_refund = None \<rparr>"
| "settled_as _ = \<lparr> sp_status = SCompleted, sp_outcome = RunCompleted, sp_refund = None \<rparr>"

definition settle :: "('t, 'b, 'r) worker_world \<Rightarrow> string \<Rightarrow> string \<Rightarrow> scan_outcome \<Rightarrow> ('t, 'b, 'r, turn) task" where
  "settle w i j outcome =
     and_then (persistUnavailableModules w i) (\<lambda>_.
     and_then (statement w (\<lambda>n. ww_analytics w n i)) (\<lambda>_.
     and_then (clear_checkpoint w i) (\<lambda>_.
     and_then (clear_evidence w i) (\<lambda>_.
     and_then (if outcome = OutCompleted then and_then (need_scan w i) (\<lambda>_. statement w (\<lambda>n. ww_close w n i)) else give ()) (\<lambda>_.
     and_then (finish_job w j) (\<lambda>_.
     give (Returned (settled_as outcome))))))))"

definition load_checkpoint :: "('t, 'b, 'r) worker_world \<Rightarrow> string \<Rightarrow> ('t, 'b, 'r, ScanCheckpointState option) task" where
  "load_checkpoint w i = statement w (\<lambda>n db.
     (Inr (loadScanCheckpoint (ww_store w) i (int (ww_now w n)) (rd_checkpoints (wd_resume db))), db))"

definition attempt_turn :: "('t, 'b, 'r) worker_world \<Rightarrow> string \<Rightarrow> string \<Rightarrow> string \<Rightarrow> bool \<Rightarrow> ('t, 'b, 'r, turn) task" where
  "attempt_turn w i j kind externalRetry =
     and_then (load_checkpoint w i) (\<lambda>resumeFrom.
     and_then (statement w (\<lambda>n. ww_attempt w n i
         \<lparr> ac_retryModule = moduleFromRetryJob kind, ac_resumeFrom = resumeFrom, ac_replacesPreviousResult = externalRetry \<rparr>)) (\<lambda>stopped.
     if stopped then
       and_then (isCancelled_scan w i) (\<lambda>refreshed.
       and_then (if refreshed then give True else isCancelled_scan w i) (\<lambda>cancelled.
       if cancelled then cancelled_turn w i j else throw StoppedWithoutCancel))
     else
       and_then (isCancelled_scan w i) (\<lambda>cancelled.
       if cancelled then cancelled_turn w i j
       else
         and_then (resolve_scan w i) (\<lambda>outcome.
           if outcome = ExternalRetryGranted then give (Again j kind True) else settle w i j outcome))))"

definition platform_retry :: "('t, 'b, 'r) worker_world \<Rightarrow> string \<Rightarrow> string \<Rightarrow> string \<Rightarrow> ('t, 'b, 'r, turn) task" where
  "platform_retry w i j kind =
     and_then (clear_checkpoint w i) (\<lambda>_.
     and_then (clear_evidence w i) (\<lambda>_.
     and_then (transition w i SFailed SQueued None) (\<lambda>_.
     and_then (statement w (\<lambda>n db. (case requeueAndClaimJob j i kind (int (ww_now w n)) (wd_jobs db) of
         (claimed, jobs) \<Rightarrow> (Inr claimed, db\<lparr> wd_jobs := jobs \<rparr>)))) (\<lambda>claimed.
     case claimed of None \<Rightarrow> throw RetryNotClaimed | Some c \<Rightarrow> give (Again (cl_jobId c) (cl_type c) False)))))"

definition give_up :: "('t, 'b, 'r) worker_world \<Rightarrow> string \<Rightarrow> string \<Rightarrow> string option \<Rightarrow> ('t, 'b, 'r, turn) task" where
  "give_up w i j purchaseId =
     and_then (terminalizeIncompleteModules w i ''PlatformFailureBeforeCompletion'') (\<lambda>_.
     and_then (clear_checkpoint w i) (\<lambda>_.
     and_then (clear_evidence w i) (\<lambda>_.
     and_then (case purchaseId of None \<Rightarrow> give None
               | Some p \<Rightarrow> and_then (request_refund w p PLATFORM_FAILURE_AFTER_RETRY) (\<lambda>rec. give (Some rec))) (\<lambda>refund.
     and_then (finish_job w j) (\<lambda>_.
     give (Returned \<lparr> sp_status = SFailed, sp_outcome = RunFailed, sp_refund = refund \<rparr>))))))"

definition after_failure :: "('t, 'b, 'r) worker_world \<Rightarrow> string \<Rightarrow> string \<Rightarrow> string \<Rightarrow> worker_error \<Rightarrow> ('t, 'b, 'r, turn) task" where
  "after_failure w i j kind e =
     and_then (need_scan w i) (\<lambda>current.
       if decideAfterFailedAttempt e (status current) (platformRetryCount current) = DecideCancelled then cancelled_turn w i j
       else
         and_then (if status current = SRunning then transition w i SRunning SFailed (Some (Some ''PlatformFailure'')) else give ()) (\<lambda>_.
         and_then (need_scan w i) (\<lambda>failed.
           if platformRetryCount failed < 1 then platform_retry w i j kind else give_up w i j (scan_purchase failed))))"

text \<open>The \<open>try\<close> block of a turn and its \<open>catch\<close>.\<close>

definition try_attempt :: "('t, 'b, 'r) worker_world \<Rightarrow> string \<Rightarrow> string \<Rightarrow> string \<Rightarrow> bool \<Rightarrow> ('t, 'b, 'r, turn) task" where
  "try_attempt w i j kind externalRetry = or_else (attempt_turn w i j kind externalRetry) (after_failure w i j kind)"

definition close_job :: "('t, 'b, 'r) worker_world \<Rightarrow> string \<Rightarrow> scan_runtime_status \<Rightarrow> ('t, 'b, 'r, turn) task" where
  "close_job w j st = and_then (finish_job w j) (\<lambda>_. give (Returned (resultFromExisting st)))"

definition worker_turn :: "('t, 'b, 'r) worker_world \<Rightarrow> string \<Rightarrow> string \<Rightarrow> string \<Rightarrow> bool \<Rightarrow> ('t, 'b, 'r, turn) task" where
  "worker_turn w i j kind externalRetry =
     and_then (read_job w i) (\<lambda>(scan, plan).
     and_then (isBillingBlocked w (scan_purchase scan)) (\<lambda>blocked.
     if blocked \<or> \<not> isPlan plan then close_job w j (status scan)
     else
       and_then (if status scan = SPending then tryTransitionScan w i SPending SQueued else give True) (\<lambda>_.
       and_then (need_scan w i) (\<lambda>afterQueue.
         if status afterQueue = SCancelled \<or> status afterQueue = SCompleted then close_job w j (status afterQueue)
         else
           and_then (if status afterQueue = SQueued then tryTransitionScan w i SQueued SRunning else give True) (\<lambda>started.
             if \<not> started then and_then (need_scan w i) (\<lambda>current. close_job w j (status current))
             else try_attempt w i j kind externalRetry)))))"

text \<open>
  \<open>for (;;)\<close>, with as many turns as \<open>fuel\<close> says; \<open>None\<close> is a loop that is still going on then. A result is what the
  loop threw or returned.
\<close>

fun worker_loop :: "nat \<Rightarrow> ('t, 'b, 'r) worker_world \<Rightarrow> string \<Rightarrow> string \<Rightarrow> string \<Rightarrow> bool \<Rightarrow> nat \<times> ('t, 'b, 'r) worker_db
    \<Rightarrow> (worker_error + ScanProcessResult) option \<times> nat \<times> ('t, 'b, 'r) worker_db" where
  "worker_loop 0 w i j kind externalRetry st = (None, st)"
| "worker_loop (Suc fuel) w i j kind externalRetry st =
     (case worker_turn w i j kind externalRetry st of
        (Inl e, st1) \<Rightarrow> (Some (Inl e), st1)
      | (Inr (Returned r), st1) \<Rightarrow> (Some (Inr r), st1)
      | (Inr (Again j1 kind1 ext1), st1) \<Rightarrow> worker_loop fuel w i j1 kind1 ext1 st1)"

section \<open>Assertions about a task\<close>

definition ensures :: "(('t, 'b, 'r) worker_db \<Rightarrow> bool) \<Rightarrow> ('t, 'b, 'r, 'a) task \<Rightarrow> (worker_error + 'a \<Rightarrow> ('t, 'b, 'r) worker_db \<Rightarrow> bool) \<Rightarrow> bool" where
  "ensures P m Q \<longleftrightarrow> (\<forall>n db r n1 db1. P db \<longrightarrow> m (n, db) = (r, n1, db1) \<longrightarrow> Q r db1)"

lemma ensuresD: "ensures P m Q \<Longrightarrow> P db \<Longrightarrow> m (n, db) = (r, n1, db1) \<Longrightarrow> Q r db1"
  by (simp add: ensures_def)

lemma ensures_give: "(\<And>db. P db \<Longrightarrow> Q (Inr x) db) \<Longrightarrow> ensures P (give x) Q"
  by (simp add: ensures_def give_def)

lemma ensures_throw: "(\<And>db. P db \<Longrightarrow> Q (Inl e) db) \<Longrightarrow> ensures P (throw e) Q"
  by (simp add: ensures_def throw_def)

lemma ensures_then:
  assumes "ensures P m R" "\<And>x. ensures (R (Inr x)) (f x) Q" "\<And>e db. R (Inl e) db \<Longrightarrow> Q (Inl e) db"
  shows "ensures P (and_then m f) Q"
  using assms by (fastforce simp: ensures_def and_then_def split: prod.splits sum.splits)

lemma ensures_else:
  assumes "ensures P m R" "\<And>e. ensures (R (Inl e)) (h e) Q" "\<And>x db. R (Inr x) db \<Longrightarrow> Q (Inr x) db"
  shows "ensures P (or_else m h) Q"
  using assms by (fastforce simp: ensures_def or_else_def split: prod.splits sum.splits)

lemma ensures_statement:
  assumes "\<And>n db. P db \<Longrightarrow> R (ww_others w n db)" "\<And>n db r db1. R db \<Longrightarrow> f n db = (r, db1) \<Longrightarrow> Q r db1"
  shows "ensures P (statement w f) Q"
  using assms by (fastforce simp: ensures_def statement_def split: prod.splits)

lemma ensures_weaken: "ensures P m R \<Longrightarrow> (\<And>r db. R r db \<Longrightarrow> Q r db) \<Longrightarrow> ensures P m Q"
  unfolding ensures_def by blast

lemma ensures_both: "ensures P m Q \<Longrightarrow> ensures P' m Q' \<Longrightarrow> ensures (\<lambda>db. P db \<and> P' db) m (\<lambda>r db. Q r db \<and> Q' r db)"
  unfolding ensures_def by blast

text \<open>
  What every statement of the worker keeps, when it depends on the billing tables alone and other processes, attempts and
  the sections after them keep it too.
\<close>

locale billing_invariant =
  fixes w :: "('t, 'b, 'r) worker_world" and i :: string and I :: "billing_db \<Rightarrow> bool"
  assumes others_keep: "I (wd_billing db) \<Longrightarrow> I (wd_billing (ww_others w n db))"
    and attempt_keeps: "I (wd_billing db) \<Longrightarrow> I (wd_billing (snd (ww_attempt w n i c db)))"
    and analytics_keeps: "I (wd_billing db) \<Longrightarrow> I (wd_billing (snd (ww_analytics w n i db)))"
    and close_keeps: "I (wd_billing db) \<Longrightarrow> I (wd_billing (snd (ww_close w n i db)))"
    and transition_keeps: "I b \<Longrightarrow> transitionScan i from_status to_status reason now (scans b) = Inr t \<Longrightarrow> I (b\<lparr> scans := t \<rparr>)"
    and resolve_keeps: "I b \<Longrightarrow> resolveScanOutcome (ww_config w) i report now b = Inr (outcome, b1) \<Longrightarrow> I b1"
    and refund_keeps: "I b \<Longrightarrow> requestRefund (ww_config w) id p code now b = Inr (x, b1) \<Longrightarrow> I b1"
begin

abbreviation (input) keeps :: "('t, 'b, 'r, 'a) task \<Rightarrow> bool" where
  "keeps m \<equiv> ensures (\<lambda>db. I (wd_billing db)) m (\<lambda>r db. I (wd_billing db))"

lemma keeps_statement:
  assumes "\<And>n db. I (wd_billing db) \<Longrightarrow> I (wd_billing (snd (f n db)))"
  shows "keeps (statement w f)"
  by (rule ensures_statement [where R = "\<lambda>db. I (wd_billing db)"]) (use assms others_keep in \<open>auto, metis snd_conv\<close>)

lemma keeps_then: "keeps m \<Longrightarrow> (\<And>x. keeps (f x)) \<Longrightarrow> keeps (and_then m f)"
  by (rule ensures_then)

lemma keeps_give: "keeps (give x)"
  by (rule ensures_give)

lemma keeps_throw: "keeps (throw e)"
  by (rule ensures_throw)

lemma keeps_else: "keeps m \<Longrightarrow> (\<And>e. keeps (h e)) \<Longrightarrow> keeps (or_else m h)"
  by (rule ensures_else)

lemma keeps_transition: "keeps (transition w i a b reason)"
  unfolding transition_def by (rule keeps_statement) (auto split: sum.split dest: transition_keeps)

lemma keeps_read: "keeps (read_scan w i)"
  unfolding read_scan_def by (rule keeps_statement) simp

lemma keeps_need: "keeps (need_scan w i)"
  unfolding need_scan_def by (intro keeps_then keeps_read) (auto split: option.split intro: keeps_give keeps_throw)

lemma keeps_job: "keeps (read_job w i)"
  unfolding read_job_def
  by (intro keeps_then keeps_statement) (auto split: option.split intro: keeps_give keeps_throw)

lemma keeps_try: "keeps (tryTransitionScan w i a b)"
  unfolding tryTransitionScan_def
  by (intro keeps_else keeps_then keeps_transition keeps_give) (auto intro: keeps_give keeps_throw)

lemma keeps_cancelled: "keeps (isCancelled_scan w i)"
  unfolding isCancelled_scan_def by (intro keeps_then keeps_read keeps_give)

lemma keeps_finish: "keeps (finish_job w j)"
  unfolding finish_job_def by (rule keeps_statement) (auto split: sum.split)

lemma keeps_clear: "keeps (clear_checkpoint w i)" "keeps (clear_evidence w i)"
  unfolding clear_checkpoint_def clear_evidence_def by (rule keeps_statement, simp)+

lemma keeps_terminalize: "keeps (terminalizeIncompleteModules w i reason)"
  unfolding terminalizeIncompleteModules_def by (rule keeps_statement) simp

lemma keeps_blocked: "keeps (isBillingBlocked w p)"
  by (cases p) (auto simp: isBillingBlocked_def intro: keeps_statement keeps_give)

lemma keeps_resolve: "keeps (resolve_scan w i)"
  unfolding resolve_scan_def by (rule keeps_statement) (auto split: sum.split dest: resolve_keeps)

lemma keeps_refund: "keeps (request_refund w p code)"
  unfolding request_refund_def by (rule keeps_statement) (auto split: sum.split dest: refund_keeps)

lemma keeps_stubs: "keeps (persistUnavailableModules w i)"
  unfolding persistUnavailableModules_def by (intro keeps_then keeps_need keeps_statement) (auto split: sum.split)

lemma keeps_checkpoint: "keeps (load_checkpoint w i)"
  unfolding load_checkpoint_def by (rule keeps_statement) simp

lemma keeps_cancelled_turn: "keeps (cancelled_turn w i j)"
  unfolding cancelled_turn_def finishCancelledScan_def by (intro keeps_then keeps_terminalize keeps_finish keeps_clear keeps_give)

lemma keeps_close_job: "keeps (close_job w j st)"
  unfolding close_job_def by (intro keeps_then keeps_finish keeps_give)

lemma keeps_settle: "keeps (settle w i j outcome)"
  unfolding settle_def
  by (intro keeps_then keeps_stubs keeps_clear keeps_finish keeps_give)
    (auto intro!: keeps_statement keeps_then keeps_need keeps_give analytics_keeps close_keeps)

lemma keeps_attempt: "keeps (statement w (\<lambda>n. ww_attempt w n i c))"
  by (rule keeps_statement) (rule attempt_keeps)

end

section \<open>A job is attempted at most three times\<close>

text \<open>Changes of the scan table that statements of the state machine can make.\<close>

definition by_statements :: "billing_db \<Rightarrow> billing_db \<Rightarrow> bool" where
  "by_statements b b1 \<longleftrightarrow> (\<exists>es. scans b1 = run scan_step (scans b) es)"

definition lawful :: "('t, 'b, 'r) worker_world \<Rightarrow> bool" where
  "lawful w \<longleftrightarrow> (\<forall>n i c db. by_statements (wd_billing db) (wd_billing (ww_others w n db))
     \<and> by_statements (wd_billing db) (wd_billing (snd (ww_attempt w n i c db)))
     \<and> by_statements (wd_billing db) (wd_billing (snd (ww_analytics w n i db)))
     \<and> by_statements (wd_billing db) (wd_billing (snd (ww_close w n i db))))"

definition retries_left :: "string \<Rightarrow> billing_db \<Rightarrow> nat" where
  "retries_left i b = (case scans b i of None \<Rightarrow> 2 | Some sr \<Rightarrow> (1 - platformRetryCount sr) + (1 - moduleRetryCount sr))"

lemma by_statements_refl: "scans b1 = scans b \<Longrightarrow> by_statements b b1"
  unfolding by_statements_def by (intro exI [of _ "[]"]) simp

lemma transition_statements:
  assumes "transitionScan i a b reason now t = Inr t1"
  shows "\<exists>es. t1 = run scan_step t es"
proof -
  obtain t0 where c: "cas_statement i a b reason now t = Inr t0" and t1: "t1 = t0 \<or> t1 = fill_start i now t0"
    using assms by (auto simp: transitionScan_def res_bind_eq_Inr split: if_splits)
  have "scan_step t (Cas i a b reason now) = t0" using c by simp
  then have "run scan_step t [Cas i a b reason now] = t0" "run scan_step t [Cas i a b reason now, FillStart i now] = fill_start i now t0"
    by simp_all
  with t1 show ?thesis by metis
qed

lemma refund_scans: "requestRefund config id p code now b = Inr (x, b1) \<Longrightarrow> scans b1 = scans b"
  by (auto simp: requestRefund_def Let_def res_bind_eq_Inr split: option.splits)

lemma retry_less: "scan_step t e i = Some sr1 \<Longrightarrow> t i = Some sr
    \<Longrightarrow> platformRetryCount sr \<le> platformRetryCount sr1 \<and> moduleRetryCount sr \<le> moduleRetryCount sr1"
  using scan_step_row [of t i sr e] by (auto elim!: row_move_cases simp: cas_data_def)

lemma retries_fall: "by_statements b b1 \<Longrightarrow> retries_left i b1 \<le> retries_left i b"
proof -
  have step: "retries_left i (b\<lparr> scans := scan_step t e \<rparr>) \<le> retries_left i (b\<lparr> scans := t \<rparr>)" for t e
  proof (cases "t i")
    case None
    then show ?thesis by (auto simp: retries_left_def split: option.split)
  next
    case (Some sr)
    then obtain sr1 where "scan_step t e i = Some sr1" using scan_step_row [of t i sr e] by blast
    with retry_less [OF this Some] Some show ?thesis by (simp add: retries_left_def) arith
  qed
  have "retries_left i (b\<lparr> scans := run scan_step t es \<rparr>) \<le> retries_left i (b\<lparr> scans := t \<rparr>)" for t es
  proof (induction es arbitrary: t)
    case (Cons e es)
    from Cons.IH [of "scan_step t e"] step [of t e] show ?case by simp
  qed simp
  moreover assume "by_statements b b1"
  ultimately show ?thesis by (auto simp: by_statements_def retries_left_def)
qed

lemma retries_keep: "by_statements b b1 \<Longrightarrow> retries_left i b \<le> r \<Longrightarrow> retries_left i b1 \<le> r"
  by (rule order_trans [OF retries_fall])

lemma resolve_statements:
  assumes "resolveScanOutcome config i report now b = Inr (outcome, b1)"
  shows "by_statements b b1 \<and> (outcome = ExternalRetryGranted \<longrightarrow> Suc (retries_left i b1) \<le> retries_left i b)"
proof -
  obtain sr where sr: "scans b i = Some sr" "status sr = SRunning"
    using assms by (auto simp: resolveScanOutcome_def split: option.splits if_splits)
  have moved: "by_statements b (b\<lparr> scans := t \<rparr>)" if "transitionScan i x y reason now (scans b) = Inr t" for x y reason t
    using transition_statements [OF that] by (simp add: by_statements_def)
  have granted: "by_statements b b1 \<and> (outcome = ExternalRetryGranted \<longrightarrow> Suc (retries_left i b1) \<le> retries_left i b)"
    if r: "resolveNoUsableOutput config i p reason now b = Inr (outcome, b1)" for p reason
  proof (cases "moduleRetryCount sr < 1")
    case True
    then have gr: "grant_retry i (scans b) = (1, (scans b)(i \<mapsto> sr\<lparr> moduleRetryCount := Suc (moduleRetryCount sr) \<rparr>))"
      using sr by (simp add: grant_retry_def updateMany_def)
    have b1: "b1 = b\<lparr> scans := (scans b)(i \<mapsto> sr\<lparr> moduleRetryCount := Suc (moduleRetryCount sr) \<rparr>) \<rparr>"
      using r by (simp add: resolveNoUsableOutput_def gr)
    have "by_statements b b1" unfolding by_statements_def b1 by (rule exI [of _ "[GrantRetry i]"]) (simp add: gr)
    with True sr show ?thesis by (simp add: b1 retries_left_def)
  next
    case False
    then have "grant_retry i (scans b) = (0, scans b)" using sr by (simp add: grant_retry_def updateMany_def)
    then obtain t where t: "transitionScan i SRunning SFailed (Some (Some reason)) now (scans b) = Inr t"
      and "scans b1 = t" "outcome \<noteq> ExternalRetryGranted"
      using r by (auto simp: resolveNoUsableOutput_def res_bind_eq_Inr Let_def split: option.splits dest!: refund_scans)
    with moved [OF t] show ?thesis by (simp add: by_statements_def)
  qed
  show ?thesis
    using assms sr granted
    by (auto simp: resolveScanOutcome_def Let_def res_bind_eq_Inr split: if_splits intro: moved)
qed

lemma retry_transition:
  assumes "transitionScan i SFailed SQueued reason now (scans b) = Inr t"
  shows "Suc (retries_left i (b\<lparr> scans := t \<rparr>)) \<le> retries_left i b"
  using assms by (auto simp: transition_exact retries_left_def split: option.splits if_splits)

interpretation retries: billing_invariant w i "\<lambda>b. lawful w \<longrightarrow> retries_left i b \<le> r" for w i r
proof
  fix db :: "('a, 'b, 'c) worker_db" and n c b a d reason now t report outcome b1 p code x
  show "lawful w \<longrightarrow> retries_left i (wd_billing (ww_others w n db)) \<le> r" if "lawful w \<longrightarrow> retries_left i (wd_billing db) \<le> r"
    using that unfolding lawful_def by (blast intro: retries_keep)
  show "lawful w \<longrightarrow> retries_left i (wd_billing (snd (ww_attempt w n i c db))) \<le> r" if "lawful w \<longrightarrow> retries_left i (wd_billing db) \<le> r"
    using that unfolding lawful_def by (blast intro: retries_keep)
  show "lawful w \<longrightarrow> retries_left i (wd_billing (snd (ww_analytics w n i db))) \<le> r" if "lawful w \<longrightarrow> retries_left i (wd_billing db) \<le> r"
    using that unfolding lawful_def by (blast intro: retries_keep)
  show "lawful w \<longrightarrow> retries_left i (wd_billing (snd (ww_close w n i db))) \<le> r" if "lawful w \<longrightarrow> retries_left i (wd_billing db) \<le> r"
    using that unfolding lawful_def by (blast intro: retries_keep)
  show "lawful w \<longrightarrow> retries_left i (b\<lparr> scans := t \<rparr>) \<le> r"
    if "lawful w \<longrightarrow> retries_left i b \<le> r" "transitionScan i a d reason now (scans b) = Inr t"
    using that(1) transition_statements [OF that(2)] retries_keep [of b "b\<lparr> scans := t \<rparr>"] by (auto simp: by_statements_def)
  show "lawful w \<longrightarrow> retries_left i b1 \<le> r"
    if "lawful w \<longrightarrow> retries_left i b \<le> r" "resolveScanOutcome (ww_config w) i report now b = Inr (outcome, b1)"
    using that(1) resolve_statements [OF that(2)] by (blast intro: retries_keep)
  show "lawful w \<longrightarrow> retries_left i b1 \<le> r"
    if "lawful w \<longrightarrow> retries_left i b \<le> r" "requestRefund (ww_config w) id p code now b = Inr (x, b1)"
    using that(1) refund_scans [OF that(2)] by (simp add: retries_left_def)
qed

text \<open>A turn after which the loop goes on has used up a retry.\<close>

definition uses_retry :: "string \<Rightarrow> nat \<Rightarrow> worker_error + turn \<Rightarrow> billing_db \<Rightarrow> bool" where
  "uses_retry i r res b \<longleftrightarrow> retries_left i b \<le> r \<and> (\<forall>j kind x. res = Inr (Again j kind x) \<longrightarrow> Suc (retries_left i b) \<le> r)"

abbreviation turn_uses :: "('t, 'b, 'r) worker_world \<Rightarrow> string \<Rightarrow> nat \<Rightarrow> ('t, 'b, 'r, turn) task \<Rightarrow> bool" where
  "turn_uses w i r m \<equiv> ensures (\<lambda>db. lawful w \<longrightarrow> retries_left i (wd_billing db) \<le> r) m (\<lambda>res db. lawful w \<longrightarrow> uses_retry i r res (wd_billing db))"

lemma uses_then:
  assumes "ensures (\<lambda>db. lawful w \<longrightarrow> retries_left i (wd_billing db) \<le> r) m (\<lambda>res db. lawful w \<longrightarrow> retries_left i (wd_billing db) \<le> r)"
    "\<And>x. turn_uses w i r (f x)"
  shows "turn_uses w i r (and_then m f)"
  by (rule ensures_then [OF assms(1)]) (use assms(2) in \<open>auto simp: uses_retry_def\<close>)

lemma uses_return: "turn_uses w i r (and_then m (\<lambda>x. give (Returned (f x))))"
  if "ensures (\<lambda>db. lawful w \<longrightarrow> retries_left i (wd_billing db) \<le> r) m (\<lambda>res db. lawful w \<longrightarrow> retries_left i (wd_billing db) \<le> r)"
  using that by (rule uses_then) (rule ensures_give, simp add: uses_retry_def)

lemma uses_throw: "turn_uses w i r (throw e)"
  by (rule ensures_throw) (simp add: uses_retry_def)

lemma uses_cancelled: "turn_uses w i r (cancelled_turn w i j)"
  unfolding cancelled_turn_def finishCancelledScan_def
  by (rule uses_return) (intro retries.keeps_then retries.keeps_terminalize retries.keeps_finish retries.keeps_clear retries.keeps_give)

lemma uses_close: "turn_uses w i r (close_job w j st)"
  unfolding close_job_def by (intro uses_return retries.keeps_finish)

lemma uses_settle: "turn_uses w i r (settle w i j outcome)"
proof -
  have a: "ensures (\<lambda>db. lawful w \<longrightarrow> retries_left i (wd_billing db) \<le> r) (statement w (\<lambda>n. ww_analytics w n i)) (\<lambda>res db. lawful w \<longrightarrow> retries_left i (wd_billing db) \<le> r)"
    and c: "ensures (\<lambda>db. lawful w \<longrightarrow> retries_left i (wd_billing db) \<le> r) (statement w (\<lambda>n. ww_close w n i)) (\<lambda>res db. lawful w \<longrightarrow> retries_left i (wd_billing db) \<le> r)"
    by (rule retries.keeps_statement, rule retries.analytics_keeps retries.close_keeps, assumption)+
  show ?thesis unfolding settle_def
    by (intro uses_then uses_return retries.keeps_stubs a retries.keeps_clear retries.keeps_finish)
      (auto intro: retries.keeps_then retries.keeps_need c retries.keeps_give)
qed

lemma uses_resolve:
  "ensures (\<lambda>db. lawful w \<longrightarrow> retries_left i (wd_billing db) \<le> r) (resolve_scan w i)
     (\<lambda>res db. lawful w \<longrightarrow> retries_left i (wd_billing db) \<le> r \<and> (res = Inr ExternalRetryGranted \<longrightarrow> Suc (retries_left i (wd_billing db)) \<le> r))"
  unfolding resolve_scan_def
  by (rule ensures_statement [where R = "\<lambda>db. lawful w \<longrightarrow> retries_left i (wd_billing db) \<le> r"])
    (auto intro: retries.others_keep [rule_format] split: sum.splits dest!: resolve_statements intro: retries_keep)

lemma uses_if: "(c \<Longrightarrow> turn_uses w i r m) \<Longrightarrow> (\<not> c \<Longrightarrow> turn_uses w i r m') \<Longrightarrow> turn_uses w i r (if c then m else m')"
  by simp

lemma keeps_if:
  "(c \<Longrightarrow> ensures P m (\<lambda>r. P)) \<Longrightarrow> (\<not> c \<Longrightarrow> ensures P m' (\<lambda>r. P)) \<Longrightarrow> ensures P (if c then m else m') (\<lambda>r. P)"
  by simp

lemma uses_attempt: "turn_uses w i r (attempt_turn w i j kind x)"
proof -
  have resolved: "turn_uses w i r (and_then (resolve_scan w i) (\<lambda>outcome. if outcome = ExternalRetryGranted then give (Again j kind True) else settle w i j outcome))"
  proof (rule ensures_then [OF uses_resolve])
    fix outcome
    show "ensures (\<lambda>db. lawful w \<longrightarrow> retries_left i (wd_billing db) \<le> r \<and> (Inr outcome = Inr ExternalRetryGranted \<longrightarrow> Suc (retries_left i (wd_billing db)) \<le> r))
        (if outcome = ExternalRetryGranted then give (Again j kind True) else settle w i j outcome) (\<lambda>res db. lawful w \<longrightarrow> uses_retry i r res (wd_billing db))"
      using uses_settle [of w i r j outcome] by (auto simp: uses_retry_def intro: ensures_give)
  qed (simp add: uses_retry_def)
  show ?thesis unfolding attempt_turn_def
    by (intro uses_then uses_if keeps_if retries.keeps_checkpoint retries.keeps_attempt retries.keeps_cancelled retries.keeps_give
        uses_cancelled uses_throw resolved)
qed

lemma uses_platform_retry: "turn_uses w i r (platform_retry w i j kind)"
proof -
  let ?S = "\<lambda>db. lawful w \<longrightarrow> Suc (retries_left i (wd_billing db)) \<le> r"
  let ?requeue = "statement w (\<lambda>n db. (case requeueAndClaimJob j i kind (int (ww_now w n)) (wd_jobs db) of
         (claimed, jobs) \<Rightarrow> (Inr claimed, db\<lparr> wd_jobs := jobs \<rparr>)))"
  have t: "ensures (\<lambda>db. lawful w \<longrightarrow> retries_left i (wd_billing db) \<le> r) (transition w i SFailed SQueued None)
     (\<lambda>res db. lawful w \<longrightarrow> retries_left i (wd_billing db) \<le> r \<and> (res = Inr () \<longrightarrow> Suc (retries_left i (wd_billing db)) \<le> r))"
    unfolding transition_def
    by (rule ensures_statement [where R = "\<lambda>db. lawful w \<longrightarrow> retries_left i (wd_billing db) \<le> r"])
      (auto intro: retries.others_keep [rule_format] split: sum.splits dest!: retry_transition)
  have others: "?S (ww_others w n db)" if "?S db" for n db
    using that retries_fall [of "wd_billing db" "wd_billing (ww_others w n db)" i] unfolding lawful_def by (meson Suc_le_mono le_trans)
  have q: "ensures ?S ?requeue (\<lambda>res. ?S)"
  proof (rule ensures_statement [where R = ?S])
    show "?S (ww_others w n db)" if "?S db" for n db by (rule others [OF that])
  qed (auto split: prod.splits)
  have "ensures ?S (and_then ?requeue (\<lambda>claimed. case claimed of None \<Rightarrow> throw RetryNotClaimed | Some c \<Rightarrow> give (Again (cl_jobId c) (cl_type c) False)))
     (\<lambda>res db. lawful w \<longrightarrow> uses_retry i r res (wd_billing db))"
    by (rule ensures_then [OF q]) (auto split: option.split intro!: ensures_throw ensures_give simp: uses_retry_def)
  then have queued: "turn_uses w i r (and_then (transition w i SFailed SQueued None) (\<lambda>_. and_then ?requeue
       (\<lambda>claimed. case claimed of None \<Rightarrow> throw RetryNotClaimed | Some c \<Rightarrow> give (Again (cl_jobId c) (cl_type c) False))))"
    by (intro ensures_then [OF t]) (auto simp: uses_retry_def ensures_def)
  show ?thesis unfolding platform_retry_def
    by (rule uses_then [OF retries.keeps_clear(1) uses_then [OF retries.keeps_clear(2) queued]])
qed

lemma uses_give_up: "turn_uses w i r (give_up w i j p)"
  unfolding give_up_def
  by (intro uses_then uses_return [where f = "\<lambda>_. \<lparr> sp_status = SFailed, sp_outcome = RunFailed, sp_refund = refund \<rparr>" for refund]
      retries.keeps_terminalize retries.keeps_clear retries.keeps_finish)
    (auto split: option.split intro: retries.keeps_then retries.keeps_refund retries.keeps_give)

lemma uses_failure: "turn_uses w i r (after_failure w i j kind e)"
  unfolding after_failure_def
  by (intro uses_then uses_if keeps_if retries.keeps_need retries.keeps_transition retries.keeps_give
      uses_cancelled uses_platform_retry uses_give_up)

lemma uses_turn: "turn_uses w i r (worker_turn w i j kind x)"
proof -
  have run: "turn_uses w i r (try_attempt w i j kind x)"
    unfolding try_attempt_def
  proof (rule ensures_else [OF uses_attempt])
    fix e show "ensures (\<lambda>db. lawful w \<longrightarrow> uses_retry i r (Inl e) (wd_billing db)) (after_failure w i j kind e)
       (\<lambda>res db. lawful w \<longrightarrow> uses_retry i r res (wd_billing db))"
      using uses_failure [of w i r j kind e] by (simp add: uses_retry_def)
  qed
  show ?thesis unfolding worker_turn_def split_beta
    by (intro uses_then uses_if keeps_if retries.keeps_job retries.keeps_blocked retries.keeps_need retries.keeps_try
        retries.keeps_give uses_close run)
qed

text \<open>
  C12: the loop of a claimed job ends: whatever other processes, the attempts and the sections after them do to the tables, as
  long as scans change by the statements of the code, there are never more than three attempts.
\<close>

theorem three_attempts:
  assumes "lawful w"
  shows "\<exists>res st1. worker_loop 3 w i j kind x st = (Some res, st1)"
proof -
  have "\<exists>res st1. worker_loop (Suc r) w i j kind x (n, db) = (Some res, st1)" if "retries_left i (wd_billing db) \<le> r" for r j kind x n db
    using that
  proof (induction r arbitrary: j kind x n db)
    case 0
    obtain res n1 db1 where t: "worker_turn w i j kind x (n, db) = (res, n1, db1)" by (metis prod_cases3)
    have "uses_retry i 0 res (wd_billing db1)" using ensuresD [OF uses_turn [of w i 0 j kind x] _ t] 0 assms by simp
    with t show ?case by (auto simp: uses_retry_def split: sum.split turn.split)
  next
    case (Suc r)
    obtain res n1 db1 where t: "worker_turn w i j kind x (n, db) = (res, n1, db1)" by (metis prod_cases3)
    have u: "uses_retry i (Suc r) res (wd_billing db1)" using ensuresD [OF uses_turn [of w i "Suc r" j kind x] _ t] Suc.prems assms by simp
    show ?case
    proof (cases "\<exists>j1 k1 x1. res = Inr (Again j1 k1 x1)")
      case True
      then obtain j1 k1 x1 where a: "res = Inr (Again j1 k1 x1)" by blast
      with u have "retries_left i (wd_billing db1) \<le> r" by (simp add: uses_retry_def)
      from Suc.IH [OF this, of j1 k1 x1 n1] show ?thesis unfolding worker_loop.simps(2) [of "Suc r"] t a by simp
    next
      case False
      then show ?thesis unfolding worker_loop.simps(2) [of "Suc r"] t by (auto split: sum.split turn.split)
    qed
  qed
  moreover have "retries_left i (wd_billing (snd st)) \<le> 2" by (auto simp: retries_left_def split: option.split)
  ultimately show ?thesis by (cases st) (simp add: numeral_3_eq_3 numeral_2_eq_2 del: worker_loop.simps)
qed

text \<open>A world in which nothing else happens and every attempt fails.\<close>

definition plain_store :: "(unit, unit, unit) resume_world" where
  "plain_store = \<lparr> rw_stringify = \<lambda>_. (), rw_byteLength = \<lambda>_. 0, rw_parse = \<lambda>_. None, rw_zip = \<lambda>_. (), rw_zipLength = \<lambda>_. 0,
     rw_decodePage = \<lambda>_. None, rw_zipResources = \<lambda>_. (), rw_resourcesLength = \<lambda>_. 0, rw_decodeResources = \<lambda>_. None \<rparr>"

definition crash_world :: "(unit, unit, unit) worker_world" where
  "crash_world = \<lparr> ww_config = Inactive ModeManual, ww_store = plain_store, ww_now = \<lambda>n. n, ww_others = \<lambda>n db. db,
     ww_purchase = \<lambda>n p. Some \<lparr> access_status = ''paid'', access_entitlement = Some \<lparr> suspended = False, expiresAt = 100 \<rparr> \<rparr>,
     ww_attempt = \<lambda>n i c db. (Inl (AttemptFailure ''boom''), db),
     ww_analytics = \<lambda>n i db. (Inr (), db), ww_close = \<lambda>n i db. (Inr (), db) \<rparr>"

definition claimed_job :: job where
  "claimed_job = \<lparr> job_id = ''j'', job_scanId = ''s'', job_type = ''full-scan'', job_status = JobClaimed, job_attempts = 1,
     job_claimedAt = Some 0, job_leaseUntil = Some 100, job_createdAt = 0 \<rparr>"

definition queued_db :: "(unit, unit, unit) worker_db" where
  "queued_db = \<lparr> wd_billing = sample_db ((new_scan None)\<lparr> status := SQueued \<rparr>), wd_jobs = [claimed_job], wd_plan = \<lambda>_. ''Basic'',
     wd_crawl = \<lambda>_. None, wd_modules = \<lambda>_. [], wd_resume = \<lparr> rd_checkpoints = [], rd_pages = [], rd_resources = [] \<rparr> \<rparr>"

lemma crash_lawful: "lawful crash_world"
  by (simp add: lawful_def crash_world_def by_statements_refl)

lemma crash_run:
  "case worker_loop 3 crash_world ''s'' ''j'' ''full-scan'' False (0, queued_db) of
     (Some (Inr res), n, db) \<Rightarrow> sp_outcome res = RunFailed \<and> sp_refund res \<noteq> None \<and> map job_status (wd_jobs db) = [JobDone]
       \<and> map_option platformRetryCount (scans (wd_billing db) ''s'') = Some 1
   | _ \<Rightarrow> False"
  by code_simp

theorem three_attempts_witness:
  "(\<exists>res st1. worker_loop 3 crash_world ''s'' ''j'' ''full-scan'' False (0, queued_db) = (Some res, st1))
   \<and> fst (worker_loop 1 crash_world ''s'' ''j'' ''full-scan'' False (0, queued_db)) = None"
proof
  show "\<exists>res st1. worker_loop 3 crash_world ''s'' ''j'' ''full-scan'' False (0, queued_db) = (Some res, st1)"
    by (rule three_attempts [OF crash_lawful])
  show "fst (worker_loop 1 crash_world ''s'' ''j'' ''full-scan'' False (0, queued_db)) = None" by code_simp
qed

section \<open>The job of a run that returns\<close>

definition finished :: "string \<Rightarrow> ('t, 'b, 'r) worker_db \<Rightarrow> bool" where
  "finished j db \<longleftrightarrow> map_option job_status (row (wd_jobs db) j) = Some JobDone"

fun closed :: "string \<Rightarrow> worker_error + turn \<Rightarrow> ('t, 'b, 'r) worker_db \<Rightarrow> bool" where
  "closed j (Inl e) db \<longleftrightarrow> True"
| "closed j (Inr (Returned r)) db \<longleftrightarrow> finished j db"
| "closed j (Inr (Again j1 kind x)) db \<longleftrightarrow> j1 = j"

abbreviation turn_closes :: "string \<Rightarrow> ('t, 'b, 'r, turn) task \<Rightarrow> bool" where
  "turn_closes j m \<equiv> ensures (\<lambda>db. True) m (closed j)"

lemma closes_then: "(\<And>x. turn_closes j (f x)) \<Longrightarrow> turn_closes j (and_then m f)"
  by (rule ensures_then [where R = "\<lambda>_ _. True"]) (simp_all add: ensures_def)

lemma closes_if: "turn_closes j m \<Longrightarrow> turn_closes j m' \<Longrightarrow> turn_closes j (if c then m else m')"
  by simp

lemma closes_throw: "turn_closes j (throw e)"
  by (rule ensures_throw) simp

lemma closes_again: "turn_closes j (give (Again j kind x))"
  by (rule ensures_give) simp

lemma finish_row: "finishJob j jobs = Inr jobs1 \<Longrightarrow> map_option job_status (row jobs1 j) = Some JobDone"
proof -
  assume f: "finishJob j jobs = Inr jobs1"
  then have "filter (\<lambda>x. job_id x = j) jobs \<noteq> []" by (auto simp: finishJob_def update_job_def update_jobs_def split: if_splits)
  then obtain sj where sj: "row jobs j = Some sj"
    unfolding row_def by (metis (mono_tags, lifting) filter_False find_None_iff2 not_Some_eq)
  have "row jobs1 j = map_option (\<lambda>x. if job_id x = j then done_row x else x) (row jobs j)"
    using update_job_row [of done_row, where i = j and jobs = jobs and k = j] f by (simp add: finishJob_def)
  with sj show ?thesis by (simp add: row_id done_row_def)
qed

locale finished_stays =
  fixes w :: "('t, 'b, 'r) worker_world" and j :: string
  assumes others_finished: "finished j db \<Longrightarrow> finished j (ww_others w n db)"
begin

lemma finishes: "ensures (\<lambda>db. True) (finish_job w j) (\<lambda>res db. \<forall>x. res = Inr x \<longrightarrow> finished j db)"
  unfolding finish_job_def
  by (rule ensures_statement [where R = "\<lambda>db. True"]) (auto simp: finished_def dest: finish_row split: sum.splits)

lemma then_finished:
  assumes "\<And>x. ensures (finished j) (f x) (closed j)"
  shows "turn_closes j (and_then (finish_job w j) f)"
  by (rule ensures_then [OF finishes]) (use assms in \<open>simp_all\<close>)

lemma finished_return: "ensures (finished j) (give (Returned r)) (closed j)"
  by (rule ensures_give) simp

lemma finished_clear:
  assumes "\<And>x. ensures (finished j) (f x) (closed j)"
  shows "ensures (finished j) (and_then (clear_checkpoint w i) f) (closed j)"
    "ensures (finished j) (and_then (clear_evidence w i) f) (closed j)"
proof -
  have "ensures (finished j) (statement w (\<lambda>n db. (Inr (), db\<lparr> wd_resume := f db \<rparr>))) (\<lambda>res. finished j)" for f
    by (rule ensures_statement [where R = "finished j", OF others_finished]) (auto simp: finished_def)
  then have c: "ensures (finished j) (clear_checkpoint w i) (\<lambda>res. finished j)" "ensures (finished j) (clear_evidence w i) (\<lambda>res. finished j)"
    unfolding clear_checkpoint_def clear_evidence_def by this+
  show "ensures (finished j) (and_then (clear_checkpoint w i) f) (closed j)" "ensures (finished j) (and_then (clear_evidence w i) f) (closed j)"
    by (rule ensures_then [OF c(1)] ensures_then [OF c(2)]; simp add: assms)+
qed

lemma closes_cancelled: "turn_closes j (cancelled_turn w i j)"
proof -
  have "cancelled_turn w i j = and_then (terminalizeIncompleteModules w i ''ScanCancelled'') (\<lambda>_.
     and_then (finish_job w j) (\<lambda>_. and_then (clear_checkpoint w i) (\<lambda>_. and_then (clear_evidence w i) (\<lambda>_.
     give (Returned \<lparr> sp_status = SCancelled, sp_outcome = RunCancelled, sp_refund = None \<rparr>)))))"
    by (rule ext) (simp add: cancelled_turn_def finishCancelledScan_def and_then_def give_def split: sum.split prod.split)
  then show ?thesis by (simp only:) (intro closes_then then_finished finished_clear finished_return)
qed

lemma closes_job: "turn_closes j (close_job w j st)"
  unfolding close_job_def by (intro then_finished finished_return)

lemma closes_settle: "turn_closes j (settle w i j outcome)"
  unfolding settle_def by (intro closes_then then_finished finished_return)

lemma closes_give_up: "turn_closes j (give_up w i j p)"
  unfolding give_up_def by (intro closes_then then_finished finished_return)

lemma closes_retry: "turn_closes j (platform_retry w i j kind)"
proof -
  have again: "ensures (\<lambda>db. True) (statement w (\<lambda>n db. (case requeueAndClaimJob j i kind (int (ww_now w n)) (wd_jobs db) of
         (claimed, jobs) \<Rightarrow> (Inr claimed, db\<lparr> wd_jobs := jobs \<rparr>)))) (\<lambda>res db. \<forall>c. res = Inr (Some c) \<longrightarrow> cl_jobId c = j)"
    by (rule ensures_statement [where R = "\<lambda>db. True"])
      (auto simp: requeueAndClaimJob_def split: prod.splits if_splits)
  show ?thesis unfolding platform_retry_def
    by (intro closes_then ensures_then [OF again])
      (auto split: option.split intro!: ensures_throw ensures_give)
qed

lemma closes_turn: "turn_closes j (worker_turn w i j kind x)"
proof -
  have attempt: "turn_closes j (attempt_turn w i j kind x)"
    unfolding attempt_turn_def by (intro closes_then closes_if closes_cancelled closes_throw closes_again closes_settle)
  have failure: "turn_closes j (after_failure w i j kind e)" for e
    unfolding after_failure_def by (intro closes_then closes_if closes_cancelled closes_retry closes_give_up)
  have "turn_closes j (try_attempt w i j kind x)"
    unfolding try_attempt_def by (rule ensures_else [OF attempt]) (use failure in \<open>simp_all add: ensures_def\<close>)
  then show ?thesis unfolding worker_turn_def split_beta
    by (intro closes_then closes_if closes_job)
qed

lemma loop_finishes: "worker_loop fuel w i j kind x st = (Some (Inr res), n, db) \<Longrightarrow> finished j db"
proof (induction fuel arbitrary: kind x st)
  case (Suc fuel)
  obtain n0 db0 where st: "st = (n0, db0)" by (cases st)
  obtain r n1 db1 where t: "worker_turn w i j kind x st = (r, n1, db1)" by (metis prod_cases3)
  have "closed j r db1" using ensuresD [OF closes_turn [of i kind x] _ t [unfolded st]] by simp
  with Suc.prems t Suc.IH show ?case by (auto split: sum.splits turn.splits)
qed simp

end

interpretation alone: finished_stays "w\<lparr> ww_others := \<lambda>n db. db \<rparr>" j for w j
  by unfold_locales simp

text \<open>
  C13: a run that returns a result has finished its job, on every path: blocked by a refund, closed against another state,
  cancelled, settled, or given up after its retry; the other processes only have to leave a finished job alone.
\<close>

theorem run_finishes_job:
  assumes "\<And>n db. finished j db \<Longrightarrow> finished j (ww_others w n db)"
    "worker_loop fuel w i j kind x st = (Some (Inr res), n, db)"
  shows "finished j db"
  by (rule finished_stays.loop_finishes [OF finished_stays.intro assms(2)]) (rule assms(1))

theorem run_finishes_job_witness:
  "\<exists>res n db. worker_loop 3 crash_world ''s'' ''j'' ''full-scan'' False (0, queued_db) = (Some (Inr res), n, db) \<and> finished ''j'' db"
proof -
  obtain res n db where r: "worker_loop 3 crash_world ''s'' ''j'' ''full-scan'' False (0, queued_db) = (Some (Inr res), n, db)"
    using crash_run by (auto split: prod.splits option.splits sum.splits)
  have "finished ''j'' db" by (rule run_finishes_job [OF _ r]) (simp add: crash_world_def)
  with r show ?thesis by blast
qed

section \<open>A cancellation during the attempt\<close>

definition scan_is :: "string \<Rightarrow> scan_runtime_status \<Rightarrow> ('t, 'b, 'r) worker_db \<Rightarrow> bool" where
  "scan_is i st db \<longleftrightarrow> map_option status (scans (wd_billing db) i) = Some st"

text \<open>No statement of the state machine leaves \<open>Cancelled\<close>.\<close>

lemma cancelled_final:
  assumes "by_statements b b1" "map_option status (scans b i) = Some SCancelled"
  shows "map_option status (scans b1 i) = Some SCancelled"
proof -
  have step: "map_option status (scan_step t e i) = Some SCancelled" if "map_option status (t i) = Some SCancelled" for t e
  proof -
    from that obtain sr where sr: "t i = Some sr" "status sr = SCancelled" by auto
    with scan_step_row [of t i sr e] show ?thesis by (auto elim!: row_move_cases simp: cas_where_def canTransition_def)
  qed
  have "map_option status (run scan_step t es i) = Some SCancelled" if "map_option status (t i) = Some SCancelled" for t es
    using that by (induction es arbitrary: t) (simp_all add: step del: map_option_eq_Some)
  with assms show ?thesis by (auto simp: by_statements_def)
qed

definition cancelled_result :: ScanProcessResult where
  "cancelled_result = \<lparr> sp_status = SCancelled, sp_outcome = RunCancelled, sp_refund = None \<rparr>"

text \<open>The end of a cancelled run: nothing of it failed but, if it is gone, the row of the job.\<close>

definition ended :: "string \<Rightarrow> worker_error + turn \<Rightarrow> ('t, 'b, 'r) worker_db \<Rightarrow> bool" where
  "ended i res db \<longleftrightarrow> scan_is i SCancelled db \<and> (res = Inr (Returned cancelled_result) \<or> (\<exists>e. res = Inl (NoJobRow e)))"

locale cancelled_run =
  fixes w :: "('t, 'b, 'r) worker_world" and i :: string
  assumes lawful_world: "lawful w"
    and only_cancels: "scan_is i SRunning db \<Longrightarrow> scan_is i SRunning (ww_others w n db) \<or> scan_is i SCancelled (ww_others w n db)"
    and lands: "scan_is i SRunning db \<Longrightarrow> scan_is i SCancelled (snd (ww_attempt w n i c db))"
begin

abbreviation (input) C :: "('t, 'b, 'r) worker_db \<Rightarrow> bool" where "C \<equiv> scan_is i SCancelled"

lemma others_leave: "C db \<Longrightarrow> C (ww_others w n db)"
  unfolding scan_is_def
  by (rule cancelled_final [where b = "wd_billing db"]) (use lawful_world in \<open>auto simp: lawful_def\<close>)

lemma leave_statement:
  assumes "\<And>n db r db1. C db \<Longrightarrow> f n db = (r, db1) \<Longrightarrow> C db1 \<and> S r"
  shows "ensures C (statement w f) (\<lambda>r db. C db \<and> S r)"
  by (rule ensures_statement [where R = C]) (auto dest: others_leave assms)

lemma reads_cancelled: "ensures C (isCancelled_scan w i) (\<lambda>r db. C db \<and> r = Inr True)"
  unfolding isCancelled_scan_def read_scan_def
  by (rule ensures_then [OF leave_statement [where S = "\<lambda>r. \<exists>sr. r = Inr (Some sr) \<and> status sr = SCancelled"]])
    (auto simp: scan_is_def intro!: ensures_give)

lemma reads_row: "ensures C (need_scan w i) (\<lambda>r db. C db \<and> (\<exists>sr. r = Inr sr \<and> status sr = SCancelled))"
proof -
  have read: "ensures C (read_scan w i) (\<lambda>r db. C db \<and> (\<exists>sr. r = Inr (Some sr) \<and> status sr = SCancelled))"
    unfolding read_scan_def by (rule leave_statement) (auto simp: scan_is_def)
  show ?thesis unfolding need_scan_def
  proof (rule ensures_then [OF read])
    fix found
    show "ensures (\<lambda>db. C db \<and> (\<exists>sr. Inr found = Inr (Some sr) \<and> status sr = SCancelled))
        (case found of None \<Rightarrow> throw NoScan | Some scan \<Rightarrow> give scan) (\<lambda>r db. C db \<and> (\<exists>sr. r = Inr sr \<and> status sr = SCancelled))"
      by (cases found) (simp_all add: ensures_def give_def)
  qed simp
qed

lemma cancelled_turn_ends: "ensures C (cancelled_turn w i j) (ended i)"
proof -
  have s: "ensures C (statement w (\<lambda>n db. (Inr (), f db))) (\<lambda>r db. C db \<and> r = Inr ())" if "\<And>db. wd_billing (f db) = wd_billing db" for f
    by (rule leave_statement) (use that in \<open>auto simp: scan_is_def\<close>)
  have fin: "ensures C (finish_job w j) (\<lambda>r db. C db \<and> (r = Inr () \<or> (\<exists>e. r = Inl (NoJobRow e))))"
    unfolding finish_job_def
    by (rule leave_statement)
      (auto simp: scan_is_def finishJob_def update_job_def split: sum.splits prod.splits if_splits)
  have "ensures C (finishCancelledScan w i j) (\<lambda>r db. C db \<and> (r = Inr cancelled_result \<or> (\<exists>e. r = Inl (NoJobRow e))))"
    unfolding finishCancelledScan_def terminalizeIncompleteModules_def clear_checkpoint_def clear_evidence_def
    by (rule ensures_then [OF s] ensures_then [OF fin] ensures_give | simp add: cancelled_result_def | (simp add: ensures_def; fail))+
  then show ?thesis unfolding cancelled_turn_def
    by (rule ensures_then) (auto intro!: ensures_give simp: ended_def)
qed

lemma failure_ends: "ensures C (after_failure w i j kind e) (ended i)"
  unfolding after_failure_def
proof (rule ensures_then [OF reads_row])
  fix current
  show "ensures (\<lambda>db. C db \<and> (\<exists>sr. Inr current = Inr sr \<and> status sr = SCancelled))
      (if decideAfterFailedAttempt e (status current) (platformRetryCount current) = DecideCancelled then cancelled_turn w i j
       else and_then (if status current = SRunning then transition w i SRunning SFailed (Some (Some ''PlatformFailure'')) else give ()) (\<lambda>_.
         and_then (need_scan w i) (\<lambda>failed.
           if platformRetryCount failed < 1 then platform_retry w i j kind else give_up w i j (scan_purchase failed)))) (ended i)"
    using cancelled_turn_ends [of j] by (cases "status current = SCancelled") (simp_all add: decideAfterFailedAttempt_def ensures_def)
qed simp

abbreviation (input) live :: "('t, 'b, 'r) worker_db \<Rightarrow> bool" where "live \<equiv> \<lambda>db. scan_is i SRunning db \<or> C db"

lemma attempt_leaves: "live db \<Longrightarrow> C (snd (ww_attempt w n i c db))"
  using lawful_world lands [of db n c] cancelled_final [of "wd_billing db" "wd_billing (snd (ww_attempt w n i c db))" i]
  by (auto simp: lawful_def scan_is_def)

lemma others_live: "live db \<Longrightarrow> live (ww_others w n db)"
  using only_cancels [of db n] others_leave [of db n] by blast

lemma attempt_ends: "ensures live (attempt_turn w i j kind x) (\<lambda>res db. C db \<and> (ended i res db \<or> (\<exists>e. res = Inl e)))"
proof -
  let ?Q = "\<lambda>res db. C db \<and> (ended i res db \<or> (\<exists>e. res = Inl e))"
  have turn: "ensures C (cancelled_turn w i j) ?Q"
    by (rule ensures_weaken [OF cancelled_turn_ends]) (simp add: ended_def)
  have attempt: "ensures live (statement w (\<lambda>n. ww_attempt w n i c)) (\<lambda>r. C)" for c
  proof (rule ensures_statement [where R = live])
    show "C db1" if "live db" "ww_attempt w n i c db = (r, db1)" for n db r db1
      using attempt_leaves [OF that(1), of n c] that(2) by simp
  qed (rule others_live)
  have load: "ensures live (load_checkpoint w i) (\<lambda>r db. live db \<and> (\<exists>st. r = Inr st))"
    unfolding load_checkpoint_def by (rule ensures_statement [where R = live]) (use others_live in blast, auto)
  have seen: "ensures C (and_then (isCancelled_scan w i) (\<lambda>c. if c then cancelled_turn w i j else m)) ?Q" for m
  proof (rule ensures_then [OF reads_cancelled])
    show "ensures (\<lambda>db. C db \<and> Inr c = (Inr True :: worker_error + bool)) (if c then cancelled_turn w i j else m) ?Q" for c
      using turn by (cases c) (simp_all add: ensures_def)
  qed simp
  have again: "ensures C (and_then (isCancelled_scan w i) (\<lambda>refreshed.
       and_then (if refreshed then give True else isCancelled_scan w i) (\<lambda>c. if c then cancelled_turn w i j else m))) ?Q" for m
  proof (rule ensures_then [OF reads_cancelled])
    show "ensures (\<lambda>db. C db \<and> Inr c = (Inr True :: worker_error + bool))
        (and_then (if c then give True else isCancelled_scan w i) (\<lambda>c. if c then cancelled_turn w i j else m)) ?Q" for c
      using turn by (cases c) (simp_all add: ensures_def and_then_def give_def)
  qed simp
  show ?thesis unfolding attempt_turn_def
  proof (rule ensures_then [OF load])
    fix resumeFrom
    have "ensures live (and_then (statement w (\<lambda>n. ww_attempt w n i
         \<lparr> ac_retryModule = moduleFromRetryJob kind, ac_resumeFrom = resumeFrom, ac_replacesPreviousResult = x \<rparr>)) (\<lambda>stopped.
     if stopped then
       and_then (isCancelled_scan w i) (\<lambda>refreshed.
       and_then (if refreshed then give True else isCancelled_scan w i) (\<lambda>cancelled.
       if cancelled then cancelled_turn w i j else throw StoppedWithoutCancel))
     else
       and_then (isCancelled_scan w i) (\<lambda>cancelled.
       if cancelled then cancelled_turn w i j
       else
         and_then (resolve_scan w i) (\<lambda>outcome.
           if outcome = ExternalRetryGranted then give (Again j kind True) else settle w i j outcome)))) ?Q"
    proof (rule ensures_then [OF attempt])
      fix stopped
      show "ensures C (if stopped then and_then (isCancelled_scan w i) (\<lambda>refreshed.
         and_then (if refreshed then give True else isCancelled_scan w i) (\<lambda>cancelled.
         if cancelled then cancelled_turn w i j else throw StoppedWithoutCancel))
       else and_then (isCancelled_scan w i) (\<lambda>cancelled. if cancelled then cancelled_turn w i j
         else and_then (resolve_scan w i) (\<lambda>outcome.
           if outcome = ExternalRetryGranted then give (Again j kind True) else settle w i j outcome))) ?Q"
        using seen again by (cases stopped) simp_all
    qed (simp add: ended_def)
    then show "ensures (\<lambda>db. live db \<and> (\<exists>st. Inr resumeFrom = Inr st)) (and_then (statement w (\<lambda>n. ww_attempt w n i
         \<lparr> ac_retryModule = moduleFromRetryJob kind, ac_resumeFrom = resumeFrom, ac_replacesPreviousResult = x \<rparr>)) (\<lambda>stopped.
     if stopped then
       and_then (isCancelled_scan w i) (\<lambda>refreshed.
       and_then (if refreshed then give True else isCancelled_scan w i) (\<lambda>cancelled.
       if cancelled then cancelled_turn w i j else throw StoppedWithoutCancel))
     else
       and_then (isCancelled_scan w i) (\<lambda>cancelled.
       if cancelled then cancelled_turn w i j
       else
         and_then (resolve_scan w i) (\<lambda>outcome.
           if outcome = ExternalRetryGranted then give (Again j kind True) else settle w i j outcome)))) ?Q"
      by (simp add: ensures_def)
  qed simp
qed

lemma try_ends: "ensures live (try_attempt w i j kind x) (ended i)"
  unfolding try_attempt_def
proof (rule ensures_else [OF attempt_ends])
  fix e
  show "ensures (\<lambda>db. C db \<and> (ended i (Inl e) db \<or> (\<exists>e'. Inl e = Inl e'))) (after_failure w i j kind e) (ended i)"
    using failure_ends [of j kind e] by (auto simp: ensures_def)
qed auto

end

text \<open>
  The owner cancels in the middle of the attempt (the statement \<open>cancelScan\<close> makes on a running scan), which then ends as
  \<open>ends\<close> says; nobody else does anything.
\<close>

definition cancel_now :: "string \<Rightarrow> nat \<Rightarrow> ('t, 'b, 'r) worker_db \<Rightarrow> ('t, 'b, 'r) worker_db" where
  "cancel_now i n db = db\<lparr> wd_billing := snd (tryCancel i SRunning midRunCancel n (wd_billing db)) \<rparr>"

definition cancel_world :: "(nat \<Rightarrow> worker_error + bool) \<Rightarrow> ('t, 'b, 'r) worker_world \<Rightarrow> ('t, 'b, 'r) worker_world" where
  "cancel_world ends w = w\<lparr> ww_others := \<lambda>n db. db, ww_attempt := \<lambda>n i c db. (ends n, cancel_now i n db),
     ww_analytics := \<lambda>n i db. (Inr (), db), ww_close := \<lambda>n i db. (Inr (), db) \<rparr>"

lemma cancel_statements: "by_statements (wd_billing db) (wd_billing (cancel_now i n db))"
  by (auto simp: cancel_now_def tryCancel_def by_statements_refl split: sum.split)
    (auto simp: by_statements_def dest: transition_statements)

lemma cancel_lands: "scan_is i SRunning db \<Longrightarrow> scan_is i SCancelled (cancel_now i n db)"
  by (auto simp: scan_is_def cancel_now_def tryCancel_def transition_exact canTransition_def cas_data_def split: sum.split option.splits)

lemma cancel_lawful: "lawful (cancel_world ends w)"
  by (simp add: lawful_def cancel_world_def by_statements_refl cancel_statements)

interpretation owner: cancelled_run "cancel_world ends w" i for ends w i
  by unfold_locales (rule cancel_lawful, simp_all add: cancel_world_def cancel_lands)


definition running_db :: "(unit, unit, unit) worker_db" where
  "running_db = queued_db\<lparr> wd_billing := sample_db ((new_scan None)\<lparr> status := SRunning \<rparr>) \<rparr>"

lemma cancel_run: "case try_attempt (cancel_world (\<lambda>n. Inl (AttemptFailure ''boom'')) crash_world) ''s'' ''j'' ''full-scan'' False (0, running_db) of
     (res, n1, db1) \<Rightarrow> res = Inr (Returned cancelled_result)"
  by code_simp


section \<open>Runs interrupted after their outcome\<close>

definition full_module :: stored_module where
  "full_module = \<lparr> module_id = SEO, runtimeStatus = MCompleted, usableOutput = True, applicableChecks = Some 1,
     completedApplicableChecks = Some 1, sm_statusReason = None, sm_coverage = Some 1, sm_score = None \<rparr>"

text \<open>The process dies, or a statement fails, between the outcome \<open>Partial\<close> and the end of the job: the job is claimed again.\<close>

definition partial_db :: "(unit, unit, unit) worker_db" where
  "partial_db = queued_db\<lparr> wd_billing := sample_db ((new_scan None)\<lparr> status := SPartial \<rparr>) \<rparr>"

definition working_world :: "(unit, unit, unit) worker_world" where
  "working_world = crash_world\<lparr> ww_attempt := \<lambda>n i c db. (Inr False, db\<lparr> wd_modules := (wd_modules db)(i := [full_module]) \<rparr>) \<rparr>"

lemma settled_partial_loops:
  "case worker_loop 3 working_world ''s'' ''j'' ''full-scan'' False (0, partial_db) of
     (Some (Inl (BillingFailure InvalidTransition)), n, db) \<Rightarrow>
       map module_id (wd_modules db ''s'') = [SEO] \<and> map job_status (wd_jobs db) = [JobClaimed]
       \<and> scans (wd_billing db) ''s'' = scans (wd_billing partial_db) ''s''
   | _ \<Rightarrow> False"
  by code_simp

text \<open>The section after a refunded outcome throws once; the platform retry then completes the scan, and the refund stays.\<close>

definition unlucky_world :: "(unit, unit, unit) worker_world" where
  "unlucky_world = crash_world\<lparr>
     ww_attempt := \<lambda>n i c db. (Inr False, if map_option platformRetryCount (scans (wd_billing db) i) = Some 0 then db
        else db\<lparr> wd_modules := (wd_modules db)(i := [full_module]) \<rparr>),
     ww_analytics := \<lambda>n i db. (if map_option platformRetryCount (scans (wd_billing db) i) = Some 0 then Inl (AttemptFailure ''down'') else Inr (), db) \<rparr>"

definition spent_db :: "(unit, unit, unit) worker_db" where
  "spent_db = queued_db\<lparr> wd_billing := sample_db ((new_scan None)\<lparr> status := SQueued, moduleRetryCount := 1 \<rparr>) \<rparr>"

lemma basic_preview: "planPreviewModules ''Basic'' = []" "isPlan ''Basic''" "parsePlan ''Basic'' = Inr Basic"
  using planPreviewModules_plan [of Basic] by (simp_all add: isPlan_def parsePlan_def PLANS_def)

lemmas worker_steps = worker_turn_def try_attempt_def attempt_turn_def after_failure_def platform_retry_def settle_def close_job_def
  read_job_def need_scan_def read_scan_def isBillingBlocked_def tryTransitionScan_def transition_def isCancelled_scan_def
  resolve_scan_def persistUnavailableModules_def clear_checkpoint_def clear_evidence_def load_checkpoint_def finish_job_def
  decideAfterFailedAttempt_def and_then_def or_else_def give_def throw_def statement_def

lemmas worker_statements = canTransition_def cas_data_def fill_start_def resolveScanOutcome_def resolveNoUsableOutput_def
  relevant_modules_def failureReasonFor_def allApplicableChecksClosed_def grant_retry_def updateMany_def requestRefund_def Let_def
  paidAccessDenial_def loadScanCheckpoint_def clearScanCheckpoint_def clearCrawlEvidence_def finishJob_def update_job_def update_jobs_def
  requeueAndClaimJob_def returned_row_def claimed_row_def done_row_def transitionScan_def cas_statement_def cas_where_def

lemma refunded_scan_completed:
  "case worker_loop 3 unlucky_world ''s'' ''j'' ''full-scan'' False (0, spent_db) of
     (Some (Inr res), n, db) \<Rightarrow> sp_outcome res = RunCompleted \<and> refunds (wd_billing db) ''p'' \<noteq> None
       \<and> map_option status (scans (wd_billing db) ''s'') = Some SCompleted
   | _ \<Rightarrow> False"
  by (simp add: numeral_3_eq_3 worker_steps worker_statements unlucky_world_def crash_world_def spent_db_def queued_db_def sample_db_def
      claimed_job_def new_scan_def full_module_def basic_preview moduleFromRetryJob_def module_row.defs NO_USABLE_OUTPUT_STATUS_REASONS_def)

end
