(* ===== verification/Spec2Isabelle.thy ===== *)
theory Spec2Isabelle
  imports ModuleScore OverallScore IpGuard SafeFetch RateLimit ScanState RefundDispatch Billing Money
    ReportAccess Robots CreemEvents Shop RefundEvents Webhook Sales PendingRefunds NormalizeUrl Fingerprint CrawlReport JobQueue
    Resolution Resume RequestLimit Worker
begin

text \<open>
  FluxRadar: a site audit sold per scan. An order buys a scan (\<open>apps/api/src/billing\<close>); the scan runs
  its modules in a queue (\<open>apps/api/src/orchestrator\<close>), which crawl the site (\<open>packages/crawler\<close>)
  through a guarded HTTP client (\<open>packages/safe-fetch\<close>), apply the rules (\<open>packages/rules\<close>) and turn
  the findings into scores (\<open>packages/scoring\<close>); what did not run is refunded through an outbox
  (\<open>apps/api/src/billing/refunds\<close>). \<open>packages/contracts\<close> holds the tables all of them share. This
  development models the parts whose errors cost money, safety or a wrong verdict.

  Theories, the code they model, and how the state corresponds.

  \<^item> \<open>Prelude\<close>: thrown errors as \<open>Inl\<close>, the JavaScript string, number and lookup operations the
    sources use, first-per-key and grouping in insertion order, mixed-radix and digit lemmas.
  \<^item> \<open>Steps\<close>: runs of a step function and the interfaces \<open>stepper\<close> (an invariant every step keeps),
    \<open>growing_stepper\<close> (besides, a log no step shortens) and \<open>cas_table\<close> (compare-and-set moves of
    a keyed table: one winner, others untouched). Interpreted by \<open>RateLimit\<close>, \<open>SafeFetch\<close>,
    \<open>ScanState\<close> and \<open>RefundDispatch\<close> on their own step functions.
  \<^item> \<open>Contracts\<close> (\<open>packages/contracts/src\<close>: enums, statuses, severity, tariffs, stored-plan,
    free-score, limits, crawl-summary): the closed sets as datatypes with the stored strings beside
    them, the transition table \<open>canTransition\<close>, the tariff matrix.
  \<^item> \<open>ModuleScore\<close> (\<open>packages/scoring/src/module-score.ts\<close>), \<open>Round2\<close> (\<open>round2.ts\<close>), \<open>OverallScore\<close>
    (\<open>overall-score.ts\<close>, \<open>coverage.ts\<close>, \<open>usable-output.ts\<close>): the scores and the verdict, from validated
    findings and module summaries.
  \<^item> \<open>IpGuard\<close> (\<open>packages/safe-fetch/src/ip-guard.ts\<close>): classification of IPv4 and IPv6 addresses on
    32-bit words and 16-bit groups. \<open>SafeFetch\<close> (\<open>safe-fetch.ts\<close>, \<open>errors.ts\<close>, \<open>resolver.ts\<close>): the fetch
    with its redirects, which returns its outcome and the trace of lookups, connections and tunnels it made,
    and the reading of a body up to a limit. \<open>RateLimit\<close> (\<open>rate-limit.ts\<close>): \<open>HostState\<close> is the state
    the class keeps per host, its waiters numbered; calls, releases and timers are the events.
  \<^item> \<open>Robots\<close> (\<open>packages/crawler/src/robots.ts\<close>, the patterns of \<open>scope.ts\<close>): the parser as a fold
    over lines, the choice of the group, the verdict and its evidence.
  \<^item> \<open>NormalizeUrl\<close>, \<open>Fingerprint\<close> (\<open>packages/fingerprint/src\<close>): the canonical form of an address, from
    bytes and percent escapes to the sorted query, and the identity of an issue built on it.
  \<^item> The crawl (\<open>packages/crawler/src\<close>): \<open>Sitemap\<close> (\<open>types.ts\<close>, \<open>scope.ts\<close>, the texts of \<open>sitemap.ts\<close>);
    \<open>CrawlRun\<close>, the record of the fields of \<open>CrawlRun\<close> with a log of its requests, and what it asks of the
    network and puts in its queue (\<open>robots-host-cache.ts\<close>, \<open>sitemap.ts\<close>, \<open>link-extractor.ts\<close>); \<open>Resources\<close>
    (\<open>resources.ts\<close>), the probes of the media; \<open>Crawl\<close> (\<open>crawler.ts\<close>), one entry, the loop, the run and its
    result; \<open>CrawlOutcome\<close> (\<open>crawl-outcome.ts\<close>, \<open>orchestrator/crawl-summary.ts\<close>). \<open>CrawlSteps\<close> holds the case
    rules of the steps and the interfaces \<open>crawl_asking\<close>, \<open>crawl_looping\<close>, \<open>crawl_invariant\<close>; \<open>CrawlDemo\<close> a
    small site; \<open>CrawlSafe\<close>, \<open>CrawlComplete\<close> and \<open>CrawlReport\<close> the properties.
  \<^item> \<open>JobQueue\<close> (\<open>orchestrator/claim.ts\<close>, \<open>claimJobForScan\<close> of \<open>worker.ts\<close>): the table of jobs, each
    \<open>updateMany\<close> one atomic step, and \<open>queue_step\<close>, any of these steps by anybody.
  \<^item> \<open>Coverage\<close> (\<open>orchestrator/run-coverage.ts\<close>): what a module read, written as a table of addresses and shared
    sets of indices, and read back. \<open>Resolution\<close> (\<open>orchestrator/resolution-policy.ts\<close>, \<open>issue-sync.ts\<close>,
    \<open>scans/previous-scan.ts\<close>): when a finding of the previous scan may be closed, what a new one inherits.
  \<^item> \<open>Resume\<close> (\<open>orchestrator/checkpoint.ts\<close>, \<open>crawl-store.ts\<close>, \<open>crawl-resume.ts\<close>, \<open>crawl-egress-bytes.ts\<close>, the crawl
    phase of \<open>run-attempt.ts\<close>): the record \<open>resume_db\<close> of the three tables an interrupted run leaves behind, and the
    crawl that takes them up.
  \<^item> \<open>Worker\<close> (\<open>orchestrator/worker.ts\<close>, \<open>module-plan.ts\<close>, the decision of \<open>cancellation.ts\<close>): the loop that takes a
    claimed job to its end, over the record \<open>worker_db\<close> of the tables of \<open>Billing\<close>, \<open>JobQueue\<close> and \<open>Resume\<close>; a \<open>task\<close> is a
    stretch of it that may throw, \<open>ensures\<close> an assertion about a task.
  \<^item> \<open>RequestLimit\<close> (\<open>apps/api/src/auth/rate-limit.ts\<close>): the store of attempts with its eviction, and the interface
    \<open>sliding_window\<close>: what a limiter with an unlimited memory would answer.
  \<^item> \<open>ScanState\<close> (\<open>apps/api/src/billing/state-machine.ts\<close>): the table of scans, one \<open>updateMany\<close> as
    one atomic step, \<open>transitionScan\<close> as two. \<open>RefundDispatch\<close> (\<open>billing/refunds/\<close>: states, outbox,
    config, dispatcher, provider): the outbox rows, the sweep and the provider's report, beside
    the protocol \<open>dstep\<close> they refine. \<open>Billing\<close> (\<open>refund.ts\<close>, \<open>cancel-scan.ts\<close>, \<open>resolve-outcome.ts\<close>): the
    decisions over the tables of both. \<open>Money\<close> (\<open>refund-basis.ts\<close>, \<open>creem/refund-line.ts\<close>,
    \<open>creem/order-amount.ts\<close>): what an order is worth and when it is fully refunded. \<open>ReportAccess\<close>
    (\<open>report-access.ts\<close>): who may read a paid report.
  \<^item> \<open>CreemEvents\<close> (\<open>creem/events.ts\<close>): from the JSON of a delivery to typed events. \<open>Shop\<close>
    (\<open>checkout-lifecycle.ts\<close>, \<open>paid-scan.ts\<close> and the session statements of \<open>checkout-preconditions.ts\<close>,
    \<open>data-retention.ts\<close>, \<open>creem/checkout-session.ts\<close>): the record \<open>shop\<close> of the tables a payment touches.
    \<open>RefundEvents\<close> (\<open>creem/refund-events.ts\<close>, \<open>pending-refunds.ts\<close>) and \<open>Webhook\<close>
    (\<open>creem/webhook-handler.ts\<close>, \<open>signature.ts\<close>, \<open>pending-refund-sweep.ts\<close>): the handlers, composed as the
    code composes them, and \<open>shop_step\<close>, everything that happens to those tables. \<open>Sales\<close> and
    \<open>PendingRefunds\<close>: the invariants of \<open>shop_step\<close> and what they give for whole runs.

  What the groups of lemmas show.

  \<^item> Scoring: a module's score is exactly 100 less its rule penalties, floored at 0, defined exactly on
    consistent findings and blind to repeated ones; \<open>round2\<close> is half-up on the decimal text; weighted
    coverage, verdict and status follow from the tariff and the counts.
  \<^item> Safe fetch: the bit masks decide exactly the registry's ranges; whatever the resolver answers and
    wherever the server redirects, a connection is made only to addresses the guard permits; the
    limiter keeps its bounds and its order in every run.
  \<^item> Crawl policy: a pattern means what RFC 9309 says, a verdict does not depend on the order of the
    rules, a printed file reads back.
  \<^item> Addresses: a component in canonical form is left alone, the query does not depend on its order, and a
    fingerprint determines the fields it was built from.
  \<^item> Crawl: whatever the site answers, only what scope, depth and robots.txt allow is asked for, no page twice,
    no more than the limit and no sixth time in a row from a failing host; a crawl that is not stopped leaves
    no offered address without an answer; the counts of its summary are numbers of addresses, and full
    coverage means that everything offered was read.
  \<^item> Queue: in every interleaving a claim is one attempt and uses up one place in the queue, nobody claims a
    job whose lease runs, and who asks for work gets the oldest.
  \<^item> Findings: a proof of coverage reads back exactly or not at all, so that an issue is closed only when what it
    rested on was really read again or is no longer asked for; a finding inherits its latest fate.
  \<^item> Resume: a page of an interrupted crawl is stored or read again, never neither; a checkpoint says what it dropped
    and always keeps the finished stages; what the index says it kept is in the resumed crawl's result, and the bytes of
    a page are counted once.
  \<^item> Worker: whatever other processes do to the tables by the statements of the code, a claimed job is attempted at most three
    times; a run that returns has finished its job; a cancellation during an attempt ends the run without retry or refund.
    Two runs evaluated at the end show what an interruption after the outcome leaves behind.
  \<^item> Request limits: a request is refused exactly when a key of its rules is full in the window that ends with it; an
    address or an account gets no more login attempts than its limit, as long as the keys in use fit the store.
  \<^item> Billing: in every interleaving of statements a scan moves only as the table allows, at most nine
    times; a purchase is submitted for refund at most once more often than it was requeued; a refund
    is decided once; an accepted order is worth its price. A session sells one order and an order is sold
    once, whatever is delivered twice, late or beside another delivery; a purchase whose money went back
    stays closed; a refund that came before its order is applied by the sweep at the latest.

  Conventions. Doubles are exact rationals, except where the code's own rounding or epsilon is the
  subject; money in cents is an integer, an IPv4 address a 32-bit word. A string is a \<open>char list\<close>, so
  the model covers strings of code units below 256. A closed set is a datatype where the code
  has a validated union and a string where it reads an unconstrained column. A thrown error is a value of the
  function's result. What is outside the repository is an argument: \<open>world\<close> (URL parser,
  resolver, server and abort signal), \<open>v6\<close> (\<open>isIPv6\<close>), \<open>num\<close> and \<open>num_to_string\<close> (\<open>String(number)\<close>),
  \<open>others\<close> (what other processes do to the tables between two statements), \<open>shop_world\<close> (\<open>JSON.parse\<close>,
  the profile table, the execution snapshot), \<open>hmac\<close>, \<open>codec\<close> and \<open>resume_world\<close> (gzip, JSON and schema); nothing is assumed of them beyond the
  hypotheses a theorem names. The loop of the worker has fuel, and three turns are proved
  to be enough (\<open>three_attempts\<close>); no other definition needs any: the loops run over lists, and the
  redirect loop over the hops that remain; the loop of the crawl ends because an entry is one more page within the
  limit or makes the queue shorter. \<open>crawl_world\<close> is what a crawl is given: URL and HTML parser, NFC, transport,
  browser, stop signals. \<open>worker_world\<close> is what a worker is given: clock, purchases, what others do before each statement, the
  attempt and the two sections that follow an outcome.

  Not modelled: the rules and their texts, HTML parsing, the browser, exports (PDF, XLSX), the AI
  prompts and their validation, the HTTP routes, passwords, sessions and mail, the integrations, and the web client, which
  are glue over libraries or content; and, of the orchestrator, the attempts beyond their crawl and the choice of the next job of a process, which
  write rows through many services, and the comparison of scans. The database is a set of tables with atomic statements; isolation
  is stated where a function runs in one transaction.
\<close>

end
